(* ===== verification/Prelude.thy ===== *)
theory Prelude
  imports Complex_Main "HOL-Library.AList" "HOL-Library.Word"
begin

text \<open>
  Shared vocabulary of the development.
  \<^item> Python dictionaries keep insertion order: an assignment to a present key keeps its position and
    a new key goes to the end. They are association lists whose update is \<^const>\<open>AList.update\<close> and
    whose \<open>pop\<close> is \<^const>\<open>AList.delete\<close>; \<open>dict_wf\<close> says that no key occurs twice.
  \<^item> A Python method is a function from a state to an outcome and a new state. The state reached
    before a \<open>raise\<close> is kept, as it is in Python: the type \<open>py\<close> returns it beside the exception.
  \<^item> \<open>wp\<close> is the weakest precondition of such a method, with one postcondition for the returned
    value and one for the exception; its equations (\<open>wp_simps\<close>) and the loop rule carry the proofs.
  \<^item> \<open>reachable\<close> and the locale \<open>invariant_system\<close> give invariants of step relations.
\<close>

named_theorems wp_simps \<open>weakest preconditions of the method combinators\<close>

section \<open>Dictionaries\<close>

type_synonym ('k, 'v) dict = "('k \<times> 'v) list"

abbreviation dict_get :: "('k, 'v) dict \<Rightarrow> 'k \<Rightarrow> 'v option" where
  "dict_get d k \<equiv> map_of d k"

abbreviation dict_set :: "'k \<Rightarrow> 'v \<Rightarrow> ('k, 'v) dict \<Rightarrow> ('k, 'v) dict" where
  "dict_set k v d \<equiv> AList.update k v d"

abbreviation dict_pop :: "'k \<Rightarrow> ('k, 'v) dict \<Rightarrow> ('k, 'v) dict" where
  "dict_pop k d \<equiv> AList.delete k d"

abbreviation dict_keys :: "('k, 'v) dict \<Rightarrow> 'k list" where
  "dict_keys d \<equiv> map fst d"

abbreviation dict_wf :: "('k, 'v) dict \<Rightarrow> bool" where
  "dict_wf d \<equiv> distinct (map fst d)"

text \<open>Lookups stay lookups: the library would turn them into membership of pairs.\<close>

declare map_of_eq_Some_iff [simp del] Some_eq_map_of_iff [simp del]

definition get_default :: "('k, 'v) dict \<Rightarrow> 'k \<Rightarrow> 'v \<Rightarrow> 'v" where
  "get_default d k v = (case dict_get d k of None \<Rightarrow> v | Some w \<Rightarrow> w)"

lemma dict_get_set [simp]: "dict_get (dict_set k v d) = (dict_get d)(k \<mapsto> v)"
  by (rule update_conv')

lemma dict_get_pop [simp]: "dict_get (dict_pop k d) = (dict_get d)(k := None)"
  by (rule delete_conv')

lemma dict_wf_set [simp]: "dict_wf d \<Longrightarrow> dict_wf (dict_set k v d)"
  by (rule distinct_update)

lemma dict_wf_pop [simp]: "dict_wf d \<Longrightarrow> dict_wf (dict_pop k d)"
  by (rule distinct_delete)

lemma dict_get_in_set: "dict_get d k = Some v \<Longrightarrow> (k, v) \<in> set d"
  by (rule map_of_SomeD)

lemma dict_in_set_get: "dict_wf d \<Longrightarrow> (k, v) \<in> set d \<longleftrightarrow> dict_get d k = Some v"
  by (simp add: map_of_eq_Some_iff)

lemma dict_set_keys_id: "dict_get d k \<noteq> None \<Longrightarrow> dict_keys (dict_set k v d) = dict_keys d"
  by (auto simp: update_keys image_iff dest: map_of_SomeD intro!: bexI)

section \<open>Methods with state and exceptions\<close>

type_synonym ('s, 'e, 'a) py = "'s \<Rightarrow> ('e + 'a) \<times> 's"

definition ret :: "'a \<Rightarrow> ('s, 'e, 'a) py" where
  "ret a = (\<lambda>s. (Inr a, s))"

definition throw :: "'e \<Rightarrow> ('s, 'e, 'a) py" where
  "throw e = (\<lambda>s. (Inl e, s))"

definition andthen :: "('s, 'e, 'a) py \<Rightarrow> ('a \<Rightarrow> ('s, 'e, 'b) py) \<Rightarrow> ('s, 'e, 'b) py" where
  "andthen m f = (\<lambda>s. case m s of (Inl e, s') \<Rightarrow> (Inl e, s') | (Inr a, s') \<Rightarrow> f a s')"

definition asks :: "('s \<Rightarrow> 'a) \<Rightarrow> ('s, 'e, 'a) py" where
  "asks f = (\<lambda>s. (Inr (f s), s))"

definition modify :: "('s \<Rightarrow> 's) \<Rightarrow> ('s, 'e, unit) py" where
  "modify f = (\<lambda>s. (Inr (), f s))"

definition lift_sum :: "'e + 'a \<Rightarrow> ('s, 'e, 'a) py" where
  "lift_sum r = (\<lambda>s. (r, s))"

definition except :: "('s, 'e, 'a) py \<Rightarrow> ('e \<Rightarrow> ('s, 'e, 'a) py) \<Rightarrow> ('s, 'e, 'a) py" where
  "except m h = (\<lambda>s. case m s of (Inl e, s') \<Rightarrow> h e s' | (Inr a, s') \<Rightarrow> (Inr a, s'))"

definition finally_do :: "('s, 'e, 'a) py \<Rightarrow> ('s, 'e, unit) py \<Rightarrow> ('s, 'e, 'a) py" where
  "finally_do m fin = (\<lambda>s. case m s of (r, s') \<Rightarrow>
     (case fin s' of (Inl e, s'') \<Rightarrow> (Inl e, s'') | (Inr _, s'') \<Rightarrow> (r, s'')))"

text \<open>A \<open>for\<close> loop over a list that carries an accumulator.\<close>

primrec for_loop :: "'x list \<Rightarrow> ('acc \<Rightarrow> 'x \<Rightarrow> ('s, 'e, 'acc) py) \<Rightarrow> 'acc \<Rightarrow> ('s, 'e, 'acc) py" where
  "for_loop [] f acc = ret acc"
| "for_loop (x # xs) f acc = andthen (f acc x) (for_loop xs f)"

text \<open>A method of one object called on a field of another.\<close>

definition on_field :: "('s \<Rightarrow> 'r) \<Rightarrow> ('r \<Rightarrow> 's \<Rightarrow> 's) \<Rightarrow> ('r, 'e, 'a) py \<Rightarrow> ('s, 'e, 'a) py" where
  "on_field get put m = (\<lambda>s. case m (get s) of (r, f) \<Rightarrow> (r, put f s))"

lemmas py_defs = ret_def throw_def andthen_def asks_def modify_def lift_sum_def except_def
  finally_do_def on_field_def

subsection \<open>Weakest preconditions\<close>

definition wp :: "('s, 'e, 'a) py \<Rightarrow> ('a \<Rightarrow> 's \<Rightarrow> bool) \<Rightarrow> ('e \<Rightarrow> 's \<Rightarrow> bool) \<Rightarrow> 's \<Rightarrow> bool" where
  "wp m Q E s = (case m s of (Inl e, s') \<Rightarrow> E e s' | (Inr a, s') \<Rightarrow> Q a s')"

lemma wp_ret [wp_simps]: "wp (ret a) Q E s = Q a s"
  by (simp add: wp_def ret_def)

lemma wp_throw [wp_simps]: "wp (throw e) Q E s = E e s"
  by (simp add: wp_def throw_def)

lemma wp_andthen [wp_simps]: "wp (andthen m f) Q E s = wp m (\<lambda>a. wp (f a) Q E) E s"
  by (simp add: wp_def andthen_def split: prod.splits sum.splits)

lemma wp_asks [wp_simps]: "wp (asks f) Q E s = Q (f s) s"
  by (simp add: wp_def asks_def)

lemma wp_modify [wp_simps]: "wp (modify f) Q E s = Q () (f s)"
  by (simp add: wp_def modify_def)

lemma wp_lift_sum [wp_simps]:
  "wp (lift_sum r) Q E s = (case r of Inl e \<Rightarrow> E e s | Inr a \<Rightarrow> Q a s)"
  by (simp add: wp_def lift_sum_def)

lemma wp_except [wp_simps]: "wp (except m h) Q E s = wp m Q (\<lambda>e. wp (h e) Q E) s"
  by (simp add: wp_def except_def split: prod.splits sum.splits)

lemma wp_if [wp_simps]: "wp (if b then m else n) Q E s = (if b then wp m Q E s else wp n Q E s)"
  by simp

lemma wp_mono:
  assumes "wp m Q E s"
    and "\<And>a t. Q a t \<Longrightarrow> Q' a t" and "\<And>e t. E e t \<Longrightarrow> E' e t"
  shows "wp m Q' E' s"
  using assms by (auto simp: wp_def split: prod.splits sum.splits)

lemma wp_result: "m s = (Inr a, t) \<Longrightarrow> wp m Q E s \<Longrightarrow> Q a t"
  by (simp add: wp_def)

lemma wp_state: "wp m (\<lambda>_. P) (\<lambda>_. P) s = P (snd (m s))"
  by (simp add: wp_def split: prod.splits sum.splits)

text \<open>The loop rule: the invariant speaks of the elements still to be visited.\<close>

lemma wp_for_loop:
  assumes start: "I xs acc s"
    and body: "\<And>y ys a t. I (y # ys) a t \<Longrightarrow> wp (f a y) (I ys) E t"
    and exit: "\<And>a t. I [] a t \<Longrightarrow> Q a t"
  shows "wp (for_loop xs f acc) Q E s"
  using start
proof (induction xs arbitrary: acc s)
  case Nil
  then show ?case by (simp add: wp_simps exit)
next
  case (Cons x xs)
  from body [OF Cons.prems] show ?case
    by (auto simp: wp_simps elim: wp_mono intro: Cons.IH)
qed

text \<open>A method that keeps a predicate whether it returns or raises.\<close>

definition keeps :: "('s \<Rightarrow> bool) \<Rightarrow> ('s, 'e, 'a) py \<Rightarrow> bool" where
  "keeps P m \<longleftrightarrow> (\<forall>s. P s \<longrightarrow> P (snd (m s)))"

lemma keepsI: "(\<And>s. P s \<Longrightarrow> wp m (\<lambda>_. P) (\<lambda>_. P) s) \<Longrightarrow> keeps P m"
  by (simp add: keeps_def wp_state)

lemma keepsD: "keeps P m \<Longrightarrow> P s \<Longrightarrow> wp m (\<lambda>_. P) (\<lambda>_. P) s"
  by (simp add: keeps_def wp_state)

lemma keepsD_snd: "keeps P m \<Longrightarrow> P s \<Longrightarrow> P (snd (m s))"
  by (simp add: keeps_def)

lemma wp_keeping: "wp m Q E s \<Longrightarrow> keeps P m \<Longrightarrow> P s \<Longrightarrow> wp m (\<lambda>a t. Q a t \<and> P t) (\<lambda>e t. E e t \<and> P t) s"
  using keepsD_snd [of P m s] by (auto simp: wp_def split: prod.splits sum.splits)

lemma keeps_ret: "keeps P (ret a)"
  by (simp add: keeps_def ret_def)

lemma keeps_throw: "keeps P (throw e)"
  by (simp add: keeps_def throw_def)

lemma keeps_asks: "keeps P (asks f)"
  by (simp add: keeps_def asks_def)

lemma keeps_andthen: "keeps P m \<Longrightarrow> (\<And>a. keeps P (f a)) \<Longrightarrow> keeps P (andthen m f)"
  by (force simp: keeps_def andthen_def split: prod.splits sum.splits)

lemma keeps_for_loop: "(\<And>a x. keeps P (f a x)) \<Longrightarrow> keeps P (for_loop xs f acc)"
  by (induction xs arbitrary: acc) (auto intro: keeps_ret keeps_andthen)

section \<open>Reachable states and invariants\<close>

inductive reachable :: "('s \<Rightarrow> bool) \<Rightarrow> ('s \<Rightarrow> 's \<Rightarrow> bool) \<Rightarrow> 's \<Rightarrow> bool"
  for init :: "'s \<Rightarrow> bool" and step :: "'s \<Rightarrow> 's \<Rightarrow> bool" where
  reach_init: "init s \<Longrightarrow> reachable init step s"
| reach_step: "reachable init step s \<Longrightarrow> step s t \<Longrightarrow> reachable init step t"

locale invariant_system =
  fixes init :: "'s \<Rightarrow> bool" and step :: "'s \<Rightarrow> 's \<Rightarrow> bool" and inv :: "'s \<Rightarrow> bool"
  assumes init_inv: "init s \<Longrightarrow> inv s"
    and step_inv: "inv s \<Longrightarrow> step s t \<Longrightarrow> inv t"
begin

lemma reachable_inv: "reachable init step s \<Longrightarrow> inv s"
  by (induction rule: reachable.induct) (auto intro: init_inv step_inv)

lemma path_inv: "step\<^sup>*\<^sup>* s t \<Longrightarrow> inv s \<Longrightarrow> inv t"
  by (induction rule: rtranclp_induct) (auto intro: step_inv)

end

end
