(* ===== verification/Core_Types.thy ===== *)
theory Core_Types
  imports Prelude
begin

text \<open>
  The domain types of \<^verbatim>\<open>src/ccs/core\<close>: the MESI states and their transition table
  (\<^verbatim>\<open>states.py\<close>), the runtime invariant checks (\<^verbatim>\<open>invariants.py\<close>), the logical clock
  (\<^verbatim>\<open>clock.py\<close>), the frozen dataclasses that operations take and return (\<^verbatim>\<open>types.py\<close>) and the
  exceptions (\<^verbatim>\<open>exceptions.py\<close>). A UUID is the natural number of its \<open>int\<close> attribute. An
  exception keeps the structured arguments of its message and drops the message text.
\<close>

type_synonym uuid = nat

section \<open>MESI states\<close>

datatype MESIState = MODIFIED | EXCLUSIVE | SHARED | INVALID

datatype TransientState = ISG | IED | EIA | SIA | MWB | MSA

definition M_OR_E_STATES :: "MESIState set" where
  "M_OR_E_STATES = {MODIFIED, EXCLUSIVE}"

lemma M_OR_E_iff [simp]: "s \<in> M_OR_E_STATES \<longleftrightarrow> s = MODIFIED \<or> s = EXCLUSIVE"
  by (auto simp: M_OR_E_STATES_def)

definition VALID_TRANSITIONS :: "(MESIState \<times> MESIState) set" where
  "VALID_TRANSITIONS =
     {(INVALID, SHARED), (INVALID, EXCLUSIVE), (SHARED, INVALID), (SHARED, EXCLUSIVE),
      (EXCLUSIVE, SHARED), (EXCLUSIVE, MODIFIED), (EXCLUSIVE, INVALID),
      (MODIFIED, INVALID), (MODIFIED, SHARED)}"

definition is_valid_transition :: "MESIState \<Rightarrow> MESIState \<Rightarrow> bool" where
  "is_valid_transition current_state next_state \<longleftrightarrow> (current_state, next_state) \<in> VALID_TRANSITIONS"

section \<open>Data\<close>

text \<open>An artifact body is text, or raw bytes on the compare-and-swap path.\<close>

datatype body = Text string | Bytes "8 word list"

record Artifact =
  art_id :: uuid
  art_name :: string
  art_version :: int
  art_hash :: "string option"
  art_tokens :: "int option"
  art_depends_on :: "uuid list"

record InvalidationSignal =
  sig_artifact_id :: uuid
  sig_new_version :: int
  sig_issued_at :: int
  sig_issuer :: uuid

datatype conflict_reason = version_mismatch | other_holder | stale_read_generation

datatype ConflictDetail = ConflictDetail (detail_reason: conflict_reason) (detail_version: int)

record CommitAllEntry =
  entry_expected :: int
  entry_hash :: string
  entry_tokens :: "int option"
  entry_content :: "body option"

record MultiCommitResult =
  mcr_versions :: "(uuid, int) dict"
  mcr_invalidated :: "(uuid, uuid list) dict"

datatype FetchResponse = FetchResponse (resp_artifact: uuid) (resp_version: int)
  (resp_content: body) (state_grant: MESIState)

subsection \<open>Typed read rejections and session results\<close>

datatype read_reason =
    RETENTION_OFF | UNKNOWN_ARTIFACT | NOT_RETAINED | EPOCH_MISMATCH | CURRENT_VERSION
  | FUTURE_VERSION | SESSION_CAP_EXCEEDED | SESSION_READ_SET_TOO_LARGE

datatype VersionedReadRejection =
  VersionedReadRejection (rejected_reason: read_reason) (rejected_artifact: uuid)
    (rejected_requested: int) (rejected_current: "int option") (rejected_epoch: string)

datatype VersionedContent =
  VersionedContent (vc_artifact: uuid) (vc_version: int) (vc_content: body)
    (vc_captured_at: rat) (vc_epoch: string)

datatype session_reason = SESSION_NOT_FOUND | SESSION_ARTIFACT_NOT_IN_CUT | SESSION_INVALIDATED

datatype SessionReadRejection =
  SessionReadRejection session_reason (srr_artifact: uuid) (srr_epoch: string)

datatype SessionCommitRejection =
  SessionCommitRejection session_reason (scr_artifact: uuid) (scr_epoch: string)

datatype DataPlaneDeferredRead =
  DataPlaneDeferredRead (dp_artifact: uuid) (dp_version: int) (dp_hash: "string option")
    (dp_epoch: string)

record SnapshotSession =
  snap_token :: string
  snap_cut :: "(uuid, int) dict"
  snap_epoch :: string
  snap_retains :: bool

section \<open>Exceptions\<close>

datatype py_error =
    ArtifactNotFound uuid
  | ArtifactContentMissing uuid
  | CommitNotAllowed uuid uuid "MESIState option" "(string \<times> int) option"
  | CommitCasNotAllowed uuid uuid MESIState
  | OccCallerTransient uuid uuid
  | CommitCasCorruption uuid uuid int int
  | CommitAllNotAllowed uuid uuid MESIState
  | CommitAllCorruption uuid int
  | EmptyWriteSet
  | StaleReadGeneration uuid uuid nat nat
  | SingleWriterViolated "uuid list"
  | VersionRegressed int int
  | StalenessBoundExceeded int int
  | InvalidTransition MESIState MESIState
  | SessionInvalidated
  | UnpinnedDecideRead uuid
  | KeyError
  | ValueError
  | AttributeError
  | AssertionError
  | WatchdogAbandoned
  | CallbackError
  | CheckpointUnknown string
  | MemberArtifactVanished uuid
  | CasRetriesExhausted uuid int int
  | ReadOnlyMutationError
  | IntegrityError
  | OperationalError
  | RuntimeError

definition transition_state :: "MESIState \<Rightarrow> MESIState \<Rightarrow> py_error + MESIState" where
  "transition_state current_state next_state =
     (if \<not> is_valid_transition current_state next_state
      then Inl (InvalidTransition current_state next_state)
      else Inr next_state)"

definition can_act_in_transient ::
  "TransientState \<Rightarrow> string \<Rightarrow> bool \<Rightarrow> bool \<Rightarrow> bool \<Rightarrow> bool" where
  "can_act_in_transient transient_state strategy_name is_write lease_valid accesses_remaining =
     (if transient_state \<in> {ISG, IED} then False
      else if transient_state \<in> {EIA, SIA} then
        (if strategy_name = ''eager'' then False
         else if strategy_name = ''lazy'' then True
         else if strategy_name = ''lease'' then lease_valid
         else if strategy_name = ''access_count'' then accesses_remaining
         else False)
      else if transient_state \<in> {MWB, MSA} then \<not> is_write
      else False)"

section \<open>Runtime invariant checks\<close>

definition owners_of :: "('k, MESIState) dict \<Rightarrow> 'k list" where
  "owners_of state_by_agent =
     map fst (filter (\<lambda>(agent_id, state). state \<in> M_OR_E_STATES) state_by_agent)"

definition check_single_writer :: "(uuid, MESIState) dict \<Rightarrow> py_error + unit" where
  "check_single_writer state_by_agent =
     (let owners = owners_of state_by_agent
      in if length owners > 1 then Inl (SingleWriterViolated owners) else Inr ())"

definition check_monotonic_version :: "int \<Rightarrow> int \<Rightarrow> py_error + unit" where
  "check_monotonic_version previous_version curr_version =
     (if curr_version < previous_version then Inl (VersionRegressed previous_version curr_version)
      else Inr ())"

definition check_bounded_staleness :: "int \<Rightarrow> int \<Rightarrow> py_error + unit" where
  "check_bounded_staleness steps_on_stale max_steps =
     (if steps_on_stale > max_steps then Inl (StalenessBoundExceeded steps_on_stale max_steps)
      else Inr ())"

section \<open>Logical clock\<close>

record LogicalClock =
  clock_tick :: int

definition advance :: "int \<Rightarrow> (LogicalClock, py_error, int) py" where
  "advance n = (\<lambda>c. if n < 0 then (Inl ValueError, c)
     else (let c' = c\<lparr>clock_tick := clock_tick c + n\<rparr> in (Inr (clock_tick c'), c')))"

definition elapsed_since :: "int \<Rightarrow> LogicalClock \<Rightarrow> py_error + int" where
  "elapsed_since past_tick c = 
     (if past_tick > clock_tick c then Inl ValueError else Inr (clock_tick c - past_tick))"

section \<open>Content hashing\<close>

text \<open>
  \<open>compute_content_hash\<close> hashes the UTF-8 encoding of its argument; \<open>sha256_hex\<close> is the digest
  function of the standard library. Its argument must be a \<open>str\<close>: a \<open>bytes\<close> object has no
  \<open>encode\<close> method, so the call raises \<open>AttributeError\<close>.
\<close>

definition compute_content_hash :: "(string \<Rightarrow> string) \<Rightarrow> body \<Rightarrow> py_error + string" where
  "compute_content_hash sha256_hex content =
     (case content of Text s \<Rightarrow> Inr (sha256_hex s) | Bytes _ \<Rightarrow> Inl AttributeError)"

section \<open>Facts\<close>

lemma transition_state_iff:
  "transition_state s t = Inr u \<longleftrightarrow> u = t \<and> is_valid_transition s t"
  by (auto simp: transition_state_def)

text \<open>The single-writer check accepts a state map exactly when at most one agent holds M or E.\<close>

lemma set_owners_of:
  assumes wf: "dict_wf d"
  shows "set (owners_of d) = {a. \<exists>s. dict_get d a = Some s \<and> s \<in> M_OR_E_STATES}"
proof -
  have "a \<in> set (owners_of d) \<longleftrightarrow> (\<exists>s. (a, s) \<in> set d \<and> s \<in> M_OR_E_STATES)" for a
    unfolding owners_of_def by force
  then show ?thesis unfolding dict_in_set_get [OF wf] by blast
qed

lemma distinct_owners_of: "dict_wf d \<Longrightarrow> distinct (owners_of d)"
  by (simp add: owners_of_def distinct_map_filter)

lemma short_distinct_list:
  assumes "distinct xs"
  shows "length xs \<le> 1 \<longleftrightarrow> (\<forall>x \<in> set xs. \<forall>y \<in> set xs. x = y)"
proof -
  have "length xs \<le> 1 \<longleftrightarrow> card (set xs) \<le> Suc 0"
    using assms by (simp add: distinct_card)
  then show ?thesis by (auto simp: card_le_Suc0_iff_eq)
qed

lemma check_single_writer_iff:
  assumes "dict_wf d"
  shows "check_single_writer d = Inr () \<longleftrightarrow>
    (\<forall>a b s t. dict_get d a = Some s \<longrightarrow> dict_get d b = Some t \<longrightarrow>
       s \<in> M_OR_E_STATES \<longrightarrow> t \<in> M_OR_E_STATES \<longrightarrow> a = b)"
proof -
  have "check_single_writer d = Inr () \<longleftrightarrow> length (owners_of d) \<le> 1"
    by (auto simp: check_single_writer_def Let_def)
  also have "\<dots> \<longleftrightarrow> (\<forall>x \<in> set (owners_of d). \<forall>y \<in> set (owners_of d). x = y)"
    by (rule short_distinct_list [OF distinct_owners_of [OF assms]])
  finally show ?thesis
    unfolding set_owners_of [OF assms] mem_Collect_eq Ball_def by blast
qed

end
