(* ===== verification/Retention.thy ===== *)
theory Retention
  imports Core_Types
begin

text \<open>
  Bounded version retention, \<^verbatim>\<open>src/ccs/coordinator/retention.py\<close>: the policy with its
  construction checks and the one garbage-collection decision, \<open>collectible_versions\<close>. A set is
  returned, as in the source; the callers drop its members from their dictionaries, which
  \<open>dict_without\<close> does. The locale \<open>gc_seam\<close> states what a caller relies on.
\<close>

section \<open>The policy\<close>

record RetentionPolicy =
  max_versions :: "int option"
  max_age_seconds :: "rat option"

definition new_RetentionPolicy :: "int option \<Rightarrow> rat option \<Rightarrow> py_error + RetentionPolicy" where
  "new_RetentionPolicy k t =
     (if (case k of None \<Rightarrow> False | Some n \<Rightarrow> n < 1) then Inl ValueError
      else if (case t of None \<Rightarrow> False | Some a \<Rightarrow> a \<le> 0) then Inl ValueError
      else Inr \<lparr>max_versions = k, max_age_seconds = t\<rparr>)"

definition policy_ok :: "RetentionPolicy \<Rightarrow> bool" where
  "policy_ok p \<longleftrightarrow> new_RetentionPolicy (max_versions p) (max_age_seconds p) = Inr p"

section \<open>The collection decision\<close>

text \<open>The versions come as a bare iterable or as a mapping from version to capture time.\<close>

datatype version_arg = Bare "int list" | Stamped "(int, rat) dict"

fun arg_versions :: "version_arg \<Rightarrow> int list" where
  "arg_versions (Bare vs) = vs"
| "arg_versions (Stamped d) = dict_keys d"

definition kept_by_k :: "int list \<Rightarrow> int \<Rightarrow> int set" where
  "kept_by_k vs k = set (take (nat k) (rev (sort (remdups vs))))"

definition collectible_versions ::
  "version_arg \<Rightarrow> int \<Rightarrow> RetentionPolicy \<Rightarrow> rat \<Rightarrow> int set \<Rightarrow> int set" where
  "collectible_versions vs cur policy now exemptions =
     (let all_versions = set (arg_versions vs);
          exempt = insert cur exemptions;
          by_k = (case max_versions policy of None \<Rightarrow> {}
                  | Some k \<Rightarrow> all_versions - kept_by_k (arg_versions vs) k);
          by_t = (case max_age_seconds policy of None \<Rightarrow> {}
                  | Some age \<Rightarrow>
                      (case vs of Bare _ \<Rightarrow> {}
                       | Stamped d \<Rightarrow>
                           set (map fst (filter (\<lambda>(v, captured_at). captured_at < now - age) d))))
      in (by_k \<union> by_t) - exempt)"

definition dict_without :: "'k set \<Rightarrow> ('k, 'v) dict \<Rightarrow> ('k, 'v) dict" where
  "dict_without K d = filter (\<lambda>(k, v). k \<notin> K) d"

section \<open>Facts about dictionaries with keys dropped\<close>

lemma dict_get_without [simp]:
  "dict_get (dict_without K d) k = (if k \<in> K then None else dict_get d k)"
  by (induction d) (auto simp: dict_without_def)

lemma dict_wf_without [simp]: "dict_wf d \<Longrightarrow> dict_wf (dict_without K d)"
  by (induction d) (auto simp: dict_without_def)

lemma dict_keys_without: "set (dict_keys (dict_without K d)) = set (dict_keys d) - K"
  by (force simp: dict_without_def)

lemma dict_keys_without_filter: "dict_keys (dict_without K d) = filter (\<lambda>k. k \<notin> K) (dict_keys d)"
  by (induction d) (auto simp: dict_without_def)

section \<open>What the decision promises\<close>

locale gc_seam =
  fixes collect :: "(int, rat) dict \<Rightarrow> int \<Rightarrow> rat \<Rightarrow> int set \<Rightarrow> int set"
  assumes keeps_current: "cur \<notin> collect d cur now ex"
    and keeps_exempt: "v \<in> ex \<Longrightarrow> v \<notin> collect d cur now ex"
    and only_known: "collect d cur now ex \<subseteq> set (dict_keys d)"
begin

lemma survives:
  assumes "v = cur \<or> v \<in> ex"
  shows "dict_get (dict_without (collect d cur now ex) h) v = dict_get h v"
  using assms keeps_current keeps_exempt by auto

lemma no_rewrite:
  "dict_get (dict_without (collect d cur now ex) h) v = Some b \<Longrightarrow> dict_get h v = Some b"
  by (simp split: if_splits)

end

interpretation seam: gc_seam "\<lambda>d cur now ex. collectible_versions (Stamped d) cur policy now ex"
  for policy
  by unfold_locales (auto simp: collectible_versions_def Let_def split: option.splits)

lemma collectible_never_current: "cur \<notin> collectible_versions vs cur p now ex"
  by (simp add: collectible_versions_def Let_def)

lemma collectible_never_exempt: "v \<in> ex \<Longrightarrow> v \<notin> collectible_versions vs cur p now ex"
  by (simp add: collectible_versions_def Let_def)

subsection \<open>Bounds\<close>

lemma card_kept_by_k: "card (kept_by_k vs k) \<le> nat k"
  unfolding kept_by_k_def by (metis card_length le_trans length_take min.cobounded2)

text \<open>The K axis: what survives is the current version, a pin, or one of at most K newest.\<close>

lemma survivors_by_k:
  assumes "max_versions p = Some k"
  shows "set (arg_versions vs) - collectible_versions vs cur p now ex
    \<subseteq> insert cur (ex \<union> kept_by_k (arg_versions vs) k)"
  using assms by (auto simp: collectible_versions_def Let_def)

lemma survivor_count:
  assumes "max_versions p = Some k" and "finite ex"
  shows "card (set (arg_versions vs) - collectible_versions vs cur p now ex)
    \<le> Suc (card ex + nat k)"
proof -
  have "card (set (arg_versions vs) - collectible_versions vs cur p now ex)
      \<le> card (insert cur (ex \<union> kept_by_k (arg_versions vs) k))"
    using survivors_by_k [OF assms(1)] assms(2)
    by (intro card_mono) (auto simp: kept_by_k_def)
  also have "\<dots> \<le> Suc (card (ex \<union> kept_by_k (arg_versions vs) k))"
    by (rule card_insert_le_m1) auto
  also have "\<dots> \<le> Suc (card ex + nat k)"
    using card_Un_le [of ex "kept_by_k (arg_versions vs) k"]
      card_kept_by_k [of "arg_versions vs" k] by simp
  finally show ?thesis .
qed

text \<open>
  The K axis keeps the newest: a version the axis keeps is at least as new as any it gives up.
\<close>

lemma take_rev_sorted_ge:
  assumes "sorted xs" and "x \<in> set (take n (rev xs))" and "y \<in> set xs" and "y \<notin> set (take n (rev xs))"
  shows "y \<le> x"
proof -
  have "set xs = set (take n (rev xs)) \<union> set (drop n (rev xs))"
    by (metis append_take_drop_id set_append set_rev)
  with assms have y: "y \<in> set (drop n (rev xs))" by auto
  have "sorted_wrt (\<ge>) (rev xs)"
    using assms(1) by (simp add: sorted_wrt_rev)
  then have "sorted_wrt (\<ge>) (take n (rev xs) @ drop n (rev xs))" by simp
  with assms(2) y show ?thesis unfolding sorted_wrt_append by blast
qed

lemma kept_by_k_newest:
  assumes "x \<in> kept_by_k vs k" and "y \<in> set vs" and "y \<notin> kept_by_k vs k"
  shows "y < x"
proof -
  have "y \<le> x"
    using take_rev_sorted_ge [of "sort (remdups vs)" x "nat k" y] assms
    by (simp add: kept_by_k_def)
  with assms show ?thesis by (metis order_le_less)
qed

text \<open>The K axis without the sort: the K newest are those with fewer than K newer ones.\<close>

lemma in_take_decreasing:
  fixes xs :: "int list"
  assumes "sorted_wrt (>) xs" and "v \<in> set xs"
  shows "v \<in> set (take n xs) \<longleftrightarrow> card {u \<in> set xs. v < u} < n"
  using assms
proof (induction xs arbitrary: n)
  case (Cons x xs)
  show ?case
  proof (cases "v = x")
    case True
    then have none: "{u \<in> set (x # xs). v < u} = {}" using Cons.prems(1) by auto
    show ?thesis using True unfolding none by (cases n) simp_all
  next
    case False
    then have v: "v \<in> set xs" "v < x" using Cons.prems by auto
    then have "{u \<in> set (x # xs). v < u} = insert x {u \<in> set xs. v < u}" by auto
    moreover have "x \<notin> set xs" using Cons.prems(1) by auto
    ultimately have card: "card {u \<in> set (x # xs). v < u} = Suc (card {u \<in> set xs. v < u})" by simp
    show ?thesis using Cons.IH Cons.prems(1) False v(1) unfolding card by (cases n) simp_all
  qed
qed simp

lemma kept_by_k_count:
  assumes "v \<in> set vs"
  shows "v \<in> kept_by_k vs k \<longleftrightarrow> int (card {u \<in> set vs. v < u}) < k"
proof -
  have "sorted_wrt (<) (sort (remdups vs))" by (simp add: strict_sorted_iff)
  then have "sorted_wrt (>) (rev (sort (remdups vs)))" by (simp add: sorted_wrt_rev)
  from in_take_decreasing [OF this, of v "nat k"] assms show ?thesis by (auto simp: kept_by_k_def)
qed

text \<open>
  C40: The collection decision is the documented one. A version may be dropped exactly when it is
  retained, is neither the current one nor exempt, and either at least \<open>max_versions\<close> retained
  versions are newer, or it comes with a capture time older than \<open>now - max_age_seconds\<close>; an axis
  that is not set drops nothing.
\<close>

theorem collection_decision:
  "v \<in> collectible_versions vs cur policy now exemptions \<longleftrightarrow>
     v \<in> set (arg_versions vs) \<and> v \<noteq> cur \<and> v \<notin> exemptions \<and>
     ((\<exists>k. max_versions policy = Some k \<and> k \<le> int (card {u \<in> set (arg_versions vs). v < u})) \<or>
      (\<exists>age d t. max_age_seconds policy = Some age \<and> vs = Stamped d \<and> (v, t) \<in> set d \<and> t < now - age))"
proof -
  have t: "v \<in> set (map fst (filter (\<lambda>(v, t). t < bound) d)) \<longleftrightarrow> (\<exists>t. (v, t) \<in> set d \<and> t < bound)"
    for bound :: rat and d
    by force
  have d: "(v, t) \<in> set d \<Longrightarrow> v \<in> set (dict_keys d)" for t and d :: "(int, rat) dict" by force
  show ?thesis
    unfolding collectible_versions_def Let_def Diff_iff [of v "_ \<union> _"] Un_iff
    by (cases "max_versions policy"; cases "max_age_seconds policy"; cases vs) (auto simp: t d kept_by_k_count not_less simp del: set_map set_filter)
qed

end
