(* ===== verification/Registry.thy ===== *)
theory Registry
  imports Retention
begin

text \<open>
  The in-memory artifact registry, \<^verbatim>\<open>src/ccs/coordinator/registry.py\<close>, with the contract types
  and the trigger sets of \<^verbatim>\<open>registry_protocol.py\<close>. Every public method runs under the registry
  lock, so one method call is one atomic step on the \<open>registry\<close> record. The record holds the
  fields of \<open>ArtifactRegistry\<close> and two of its environment: \<open>wall_clock\<close>, what \<open>time.time()\<close>
  reads during the call, and \<open>delivered\<close>, the entries the \<open>state_log\<close> callback has taken. The
  callback is a predicate: \<open>False\<close> stands for a raise.
\<close>

section \<open>Contract types\<close>

definition RECLAIM_TRIGGERS :: "string set" where
  "RECLAIM_TRIGGERS = {''reclaim_heartbeat'', ''reclaim_max_hold'', ''timeout''}"

definition EPOCH_BUMP_TRIGGERS :: "string set" where
  "EPOCH_BUMP_TRIGGERS = RECLAIM_TRIGGERS \<union> {''invalidate''}"

definition CLAIM_CAPTURE_TRIGGERS :: "string set" where
  "CLAIM_CAPTURE_TRIGGERS = {''fetch''}"

record CheckpointRecord =
  checkpoint_id :: string
  cp_name :: string
  cp_owner :: "uuid option"
  cp_created_at :: rat
  cp_created_at_tick :: int
  window_min :: rat
  window_max :: rat
  restore_status :: string
  restore_updated_at :: "rat option"
  pin_refcount :: int

record CheckpointMember =
  member_path :: string
  member_artifact :: "uuid option"
  native_token :: "string option"
  fingerprint :: "string option"
  member_captured_at :: rat
  member_absent :: bool
  dirty_during_window :: bool
  arbitration_tier :: string
  restore_tier :: string
  pin_state :: string
  restore_outcome :: "string option"
  deleted_at_restore :: "rat option"

section \<open>State\<close>

record ArtifactRecord =
  artifact :: Artifact
  rec_content :: body
  state_by_agent :: "(uuid, MESIState) dict"
  transient_by_agent :: "(uuid, TransientState) dict"
  transient_tick_by_agent :: "(uuid, int) dict"
  last_writer :: "uuid option"
  version_history :: "(int, body) dict"
  version_captured_at :: "(int, rat) dict"
  granted_at_tick_by_agent :: "(uuid, int) dict"
  last_reclamation_by_agent :: "(uuid, string \<times> int) dict"
  owner_generation :: nat
  read_generation_by_agent :: "(uuid, nat) dict"
  last_observed_version_by_agent :: "(uuid, int) dict"

definition new_ArtifactRecord :: "Artifact \<Rightarrow> body \<Rightarrow> ArtifactRecord" where
  "new_ArtifactRecord art b =
     \<lparr>artifact = art, rec_content = b, state_by_agent = [], transient_by_agent = [],
      transient_tick_by_agent = [], last_writer = None, version_history = [],
      version_captured_at = [], granted_at_tick_by_agent = [], last_reclamation_by_agent = [],
      owner_generation = 0, read_generation_by_agent = [], last_observed_version_by_agent = []\<rparr>"

record log_entry =
  log_tick :: int
  log_artifact :: uuid
  log_agent :: uuid
  log_agent_name :: "string option"
  from_state :: MESIState
  to_state :: MESIState
  log_trigger :: string
  log_version :: int
  log_hash :: "string option"
  sequence_number :: int
  log_instance :: string
  schema_version :: string

record registry =
  records :: "(uuid, ArtifactRecord) dict"
  heartbeat_by_agent :: "(uuid, int) dict"
  state_log :: "(log_entry \<Rightarrow> bool) option"
  agent_names :: "(uuid, string) dict option"
  instance_id :: string
  coordinator_epoch :: string
  seq :: int
  retain_versions :: bool
  retention_policy :: "RetentionPolicy option"
  session_pins :: "(string, (uuid, int) dict) dict"
  session_meta :: "(string, uuid \<times> int) dict"
  checkpoints :: "(string, CheckpointRecord) dict"
  checkpoint_members :: "(string, (string, CheckpointMember) dict) dict"
  conflict_counts :: "(uuid \<times> uuid \<times> conflict_reason, int) dict"
  delivered :: "log_entry list"
  wall_clock :: rat

type_synonym 'a rop = "(registry, py_error, 'a) py"

text \<open>
  The constructor. The two identities it mints (\<open>uuid4\<close>) are arguments: \<open>minted\<close> is used when the
  caller gives no instance id.
\<close>

definition new_ArtifactRegistry ::
  "(log_entry \<Rightarrow> bool) option \<Rightarrow> (uuid, string) dict option \<Rightarrow> string option \<Rightarrow> bool
   \<Rightarrow> RetentionPolicy option \<Rightarrow> string \<Rightarrow> string \<Rightarrow> rat \<Rightarrow> py_error + registry" where
  "new_ArtifactRegistry sink names inst retain policy minted epoch now =
     (if sink \<noteq> None \<and> inst = None then Inl ValueError
      else Inr \<lparr>records = [], heartbeat_by_agent = [], state_log = sink, agent_names = names,
        instance_id = (case inst of None \<Rightarrow> minted | Some i \<Rightarrow> i), coordinator_epoch = epoch,
        seq = 0, retain_versions = retain, retention_policy = policy, session_pins = [],
        session_meta = [], checkpoints = [], checkpoint_members = [], conflict_counts = [],
        delivered = [], wall_clock = now\<rparr>)"

definition abort_guard :: "bool \<Rightarrow> 'a rop \<Rightarrow> 'a rop" where
  "abort_guard abort_set m = (if abort_set then throw WatchdogAbandoned else m)"

section \<open>Read accessors\<close>

definition has_artifact :: "uuid \<Rightarrow> registry \<Rightarrow> bool" where
  "has_artifact art g \<longleftrightarrow> dict_get (records g) art \<noteq> None"

definition artifact_ids :: "registry \<Rightarrow> uuid list" where
  "artifact_ids g = dict_keys (records g)"

definition get_artifact :: "uuid \<Rightarrow> registry \<Rightarrow> Artifact option" where
  "get_artifact art g = map_option artifact (dict_get (records g) art)"

definition get_content :: "uuid \<Rightarrow> registry \<Rightarrow> body option" where
  "get_content art g = map_option rec_content (dict_get (records g) art)"

definition retention_meta :: "registry \<Rightarrow> bool \<times> RetentionPolicy option" where
  "retention_meta g = (if \<not> retain_versions g then (False, None) else (True, retention_policy g))"

definition get_owner_generation :: "uuid \<Rightarrow> registry \<Rightarrow> py_error + nat" where
  "get_owner_generation art g =
     (case dict_get (records g) art of None \<Rightarrow> Inl KeyError | Some r \<Rightarrow> Inr (owner_generation r))"

definition get_read_generation :: "uuid \<Rightarrow> uuid \<Rightarrow> registry \<Rightarrow> nat option" where
  "get_read_generation art ag g =
     Option.bind (dict_get (records g) art) (\<lambda>r. dict_get (read_generation_by_agent r) ag)"

definition last_observed_version_for :: "uuid \<Rightarrow> uuid \<Rightarrow> registry \<Rightarrow> int option" where
  "last_observed_version_for art ag g =
     Option.bind (dict_get (records g) art) (\<lambda>r. dict_get (last_observed_version_by_agent r) ag)"

definition get_artifact_and_generation :: "uuid \<Rightarrow> registry \<Rightarrow> (Artifact \<times> nat) option" where
  "get_artifact_and_generation art g =
     map_option (\<lambda>r. (artifact r, owner_generation r)) (dict_get (records g) art)"

definition get_content_at_version :: "uuid \<Rightarrow> int \<Rightarrow> registry \<Rightarrow> body option" where
  "get_content_at_version art v g =
     Option.bind (dict_get (records g) art) (\<lambda>r. dict_get (version_history r) v)"

definition get_version_record :: "uuid \<Rightarrow> int \<Rightarrow> registry \<Rightarrow> (body \<times> rat) option" where
  "get_version_record art v g =
     (case dict_get (records g) art of None \<Rightarrow> None
      | Some r \<Rightarrow> (case dict_get (version_history r) v of None \<Rightarrow> None
          | Some b \<Rightarrow> (case dict_get (version_captured_at r) v of None \<Rightarrow> None
              | Some t \<Rightarrow> Some (b, t))))"

definition get_state_map :: "uuid \<Rightarrow> registry \<Rightarrow> (uuid, MESIState) dict" where
  "get_state_map art g =
     (case dict_get (records g) art of None \<Rightarrow> [] | Some r \<Rightarrow> state_by_agent r)"

definition get_agent_state :: "uuid \<Rightarrow> uuid \<Rightarrow> registry \<Rightarrow> MESIState option" where
  "get_agent_state art ag g =
     Option.bind (dict_get (records g) art) (\<lambda>r. dict_get (state_by_agent r) ag)"

definition last_heartbeat_tick :: "uuid \<Rightarrow> registry \<Rightarrow> int option" where
  "last_heartbeat_tick ag g = dict_get (heartbeat_by_agent g) ag"

definition get_last_reclamation :: "uuid \<Rightarrow> uuid \<Rightarrow> registry \<Rightarrow> (string \<times> int) option" where
  "get_last_reclamation ag art g =
     Option.bind (dict_get (records g) art) (\<lambda>r. dict_get (last_reclamation_by_agent r) ag)"

definition granted_at_tick :: "uuid \<Rightarrow> uuid \<Rightarrow> registry \<Rightarrow> int option" where
  "granted_at_tick ag art g =
     Option.bind (dict_get (records g) art) (\<lambda>r. dict_get (granted_at_tick_by_agent r) ag)"

definition get_agent_transient :: "uuid \<Rightarrow> uuid \<Rightarrow> registry \<Rightarrow> TransientState option" where
  "get_agent_transient art ag g =
     Option.bind (dict_get (records g) art) (\<lambda>r. dict_get (transient_by_agent r) ag)"

definition get_transient_map :: "uuid \<Rightarrow> registry \<Rightarrow> (uuid, TransientState) dict" where
  "get_transient_map art g =
     (case dict_get (records g) art of None \<Rightarrow> [] | Some r \<Rightarrow> transient_by_agent r)"

definition get_transient_tick :: "uuid \<Rightarrow> uuid \<Rightarrow> registry \<Rightarrow> int option" where
  "get_transient_tick art ag g =
     Option.bind (dict_get (records g) art) (\<lambda>r. dict_get (transient_tick_by_agent r) ag)"

definition valid_holders :: "uuid \<Rightarrow> registry \<Rightarrow> uuid list" where
  "valid_holders art g =
     map fst (filter (\<lambda>(ag, st). st \<noteq> INVALID) (get_state_map art g))"

definition conflict_outcome_totals :: "registry \<Rightarrow> (uuid \<times> uuid \<times> conflict_reason, int) dict" where
  "conflict_outcome_totals g = conflict_counts g"

section \<open>Version capture and collection\<close>

definition live_pins_for_artifact :: "uuid \<Rightarrow> registry \<Rightarrow> int set" where
  "live_pins_for_artifact art g =
     set (List.map_filter (\<lambda>(tok, pins). dict_get pins art) (session_pins g))"

text \<open>The record of one artifact after \<open>_capture_version\<close>.\<close>

definition capture_version :: "registry \<Rightarrow> int \<Rightarrow> body \<Rightarrow> ArtifactRecord \<Rightarrow> ArtifactRecord" where
  "capture_version g v b r =
     (let r1 = r\<lparr>version_history := dict_set v b (version_history r),
                 version_captured_at := dict_set v (wall_clock g) (version_captured_at r)\<rparr>
      in case retention_policy g of
           None \<Rightarrow> r1
         | Some p \<Rightarrow>
             (let dropped = collectible_versions (Stamped (version_captured_at r1)) v p (wall_clock g)
                              (live_pins_for_artifact (art_id (artifact r)) g)
              in r1\<lparr>version_history := dict_without dropped (version_history r1),
                    version_captured_at := dict_without dropped (version_captured_at r1)\<rparr>))"

section \<open>Registration and content\<close>

definition put_record :: "uuid \<Rightarrow> ArtifactRecord \<Rightarrow> registry \<Rightarrow> registry" where
  "put_record art r g = g\<lparr>records := dict_set art r (records g)\<rparr>"

definition with_record :: "uuid \<Rightarrow> (ArtifactRecord \<Rightarrow> 'a rop) \<Rightarrow> 'a rop" where
  "with_record art f = (\<lambda>g. case dict_get (records g) art of None \<Rightarrow> (Inl KeyError, g) | Some r \<Rightarrow> f r g)"

definition reg_register_artifact :: "Artifact \<Rightarrow> body \<Rightarrow> unit rop" where
  "reg_register_artifact art b =
     modify (\<lambda>g. let r = new_ArtifactRecord art b;
                     r' = (if retain_versions g then capture_version g (art_version art) b r else r)
                 in put_record (art_id art) r' g)"

definition set_artifact_and_content ::
  "uuid \<Rightarrow> Artifact \<Rightarrow> body \<Rightarrow> uuid option \<Rightarrow> uuid option \<Rightarrow> unit rop" where
  "set_artifact_and_content art upd b writer fence_agent =
     with_record art (\<lambda>r.
       andthen
         (case fence_agent of None \<Rightarrow> ret ()
          | Some ag \<Rightarrow>
              (case dict_get (read_generation_by_agent r) ag of None \<Rightarrow> ret ()
               | Some read_gen \<Rightarrow>
                   (if read_gen < owner_generation r
                    then throw (StaleReadGeneration ag art read_gen (owner_generation r))
                    else ret ())))
         (\<lambda>_. modify (\<lambda>g.
            let r1 = (if retain_versions g then capture_version g (art_version upd) b r else r)
            in put_record art (r1\<lparr>artifact := upd, rec_content := b, last_writer := writer\<rparr>) g)))"

definition remove_artifact :: "uuid \<Rightarrow> unit rop" where
  "remove_artifact art = modify (\<lambda>g. g\<lparr>records := dict_pop art (records g)\<rparr>)"

section \<open>The state log\<close>

datatype log_request = LogRequest (rq_artifact: uuid) (rq_agent: uuid) (rq_from: MESIState)
  (rq_to: MESIState) (rq_trigger: string) (rq_tick: int) (rq_version: int) (rq_hash: "string option")

definition CCS_STATE_LOG_SCHEMA_VERSION :: string where
  "CCS_STATE_LOG_SCHEMA_VERSION = ''ccs.state_log.v2''"

definition log_entry_of :: "registry \<Rightarrow> log_request \<Rightarrow> log_entry" where
  "log_entry_of g q =
     \<lparr>log_tick = rq_tick q, log_artifact = rq_artifact q, log_agent = rq_agent q,
      log_agent_name = (case agent_names g of None \<Rightarrow> None | Some names \<Rightarrow> dict_get names (rq_agent q)),
      from_state = rq_from q, to_state = rq_to q, log_trigger = rq_trigger q,
      log_version = rq_version q, log_hash = rq_hash q, sequence_number = seq g,
      log_instance = instance_id g, schema_version = CCS_STATE_LOG_SCHEMA_VERSION\<rparr>"

definition emit_state_log :: "log_request \<Rightarrow> int rop" where
  "emit_state_log q =
     (\<lambda>g. case state_log g of
            None \<Rightarrow> (Inr 0, g)
          | Some sink \<Rightarrow>
              (let g1 = g\<lparr>seq := seq g + 1\<rparr>; entry = log_entry_of g1 q
               in if sink entry then (Inr 1, g1\<lparr>delivered := delivered g1 @ [entry]\<rparr>)
                  else (Inl CallbackError, g1\<lparr>seq := seq g1 - 1\<rparr>)))"

text \<open>
  The emission loop of the two compare-and-swap methods: \<open>n\<close> is \<open>emitted_here\<close>, the number of
  entries the call has emitted so far, which a raise takes back from the sequence counter.
\<close>

fun emit_batch :: "log_request list \<Rightarrow> int \<Rightarrow> int rop" where
  "emit_batch [] n g = (Inr n, g)"
| "emit_batch (q # qs) n g =
     (case emit_state_log q g of
        (Inl e, g') \<Rightarrow> (Inl e, g'\<lparr>seq := seq g' - n\<rparr>)
      | (Inr k, g') \<Rightarrow> emit_batch qs (n + k) g')"

section \<open>Agent state\<close>

text \<open>The record of one artifact after the bookkeeping of \<open>set_agent_state\<close>.\<close>

definition apply_agent_state :: "uuid \<Rightarrow> MESIState \<Rightarrow> string \<Rightarrow> int \<Rightarrow> ArtifactRecord \<Rightarrow> ArtifactRecord" where
  "apply_agent_state ag st trig tick r =
     (let frm = get_default (state_by_agent r) ag INVALID;
          new_in_me = st \<in> M_OR_E_STATES;
          prev_in_me = frm \<in> M_OR_E_STATES;
          r1 = r\<lparr>state_by_agent := dict_set ag st (state_by_agent r)\<rparr>;
          r2 = (if new_in_me
                then (if \<not> prev_in_me
                      then r1\<lparr>granted_at_tick_by_agent := dict_set ag tick (granted_at_tick_by_agent r1),
                              last_reclamation_by_agent := dict_pop ag (last_reclamation_by_agent r1)\<rparr>
                      else r1)
                else if prev_in_me
                then r1\<lparr>granted_at_tick_by_agent := dict_pop ag (granted_at_tick_by_agent r1),
                        owner_generation := (if trig \<in> EPOCH_BUMP_TRIGGERS then owner_generation r1 + 1
                                             else owner_generation r1)\<rparr>
                else r1);
          r3 = (if (new_in_me \<and> \<not> prev_in_me) \<or>
                   (trig \<in> CLAIM_CAPTURE_TRIGGERS \<and> st \<noteq> INVALID \<and> \<not> prev_in_me)
                then r2\<lparr>read_generation_by_agent := dict_set ag (owner_generation r2) (read_generation_by_agent r2)\<rparr>
                else r2)
      in if st \<noteq> INVALID
         then r3\<lparr>last_observed_version_by_agent :=
                   dict_set ag (art_version (artifact r3)) (last_observed_version_by_agent r3)\<rparr>
         else r3)"

definition set_agent_state ::
  "uuid \<Rightarrow> uuid \<Rightarrow> MESIState \<Rightarrow> string \<Rightarrow> int \<Rightarrow> string option \<Rightarrow> unit rop" where
  "set_agent_state art ag st trig tick chash =
     with_record art (\<lambda>r.
       andthen (modify (put_record art (apply_agent_state ag st trig tick r))) (\<lambda>_.
       andthen (emit_state_log
         (LogRequest art ag (get_default (state_by_agent r) ag INVALID) st trig tick
            (art_version (artifact r)) chash)) (\<lambda>_.
       ret ())))"

definition set_agent_transient :: "uuid \<Rightarrow> uuid \<Rightarrow> TransientState \<Rightarrow> int \<Rightarrow> unit rop" where
  "set_agent_transient art ag ts entered =
     with_record art (\<lambda>r. modify (put_record art
       (r\<lparr>transient_by_agent := dict_set ag ts (transient_by_agent r),
          transient_tick_by_agent := dict_set ag entered (transient_tick_by_agent r)\<rparr>)))"

definition clear_agent_transient :: "uuid \<Rightarrow> uuid \<Rightarrow> unit rop" where
  "clear_agent_transient art ag =
     with_record art (\<lambda>r. modify (put_record art
       (r\<lparr>transient_by_agent := dict_pop ag (transient_by_agent r),
          transient_tick_by_agent := dict_pop ag (transient_tick_by_agent r)\<rparr>)))"

definition reg_record_heartbeat :: "uuid \<Rightarrow> int \<Rightarrow> unit rop" where
  "reg_record_heartbeat ag now =
     modify (\<lambda>g. case dict_get (heartbeat_by_agent g) ag of
         None \<Rightarrow> g\<lparr>heartbeat_by_agent := dict_set ag now (heartbeat_by_agent g)\<rparr>
       | Some prev \<Rightarrow> (if now > prev then g\<lparr>heartbeat_by_agent := dict_set ag now (heartbeat_by_agent g)\<rparr> else g))"

definition record_last_reclamation :: "uuid \<Rightarrow> uuid \<Rightarrow> string \<Rightarrow> int \<Rightarrow> unit rop" where
  "record_last_reclamation ag art trig tick =
     with_record art (\<lambda>r. modify (put_record art
       (r\<lparr>last_reclamation_by_agent := dict_set ag (trig, tick) (last_reclamation_by_agent r)\<rparr>)))"

end
