(* ===== verification/Registry_CAS.thy ===== *)
theory Registry_CAS
  imports Registry
begin

text \<open>
  The optimistic-concurrency methods of \<^verbatim>\<open>src/ccs/coordinator/registry.py\<close>: \<open>commit_cas\<close> and
  the all-or-nothing \<open>commit_all\<close>. \<open>arbitrate\<close> is the comparison both methods make, in the
  source's order: version first, then a foreign write holder, then the read-generation fence.
\<close>

section \<open>Arbitration\<close>

datatype verdict = Corrupt int | Conflicting ConflictDetail | Admitted

definition has_other_holder :: "uuid \<Rightarrow> ArtifactRecord \<Rightarrow> bool" where
  "has_other_holder ag r =
     list_ex (\<lambda>(peer, st). peer \<noteq> ag \<and> st \<in> M_OR_E_STATES) (state_by_agent r)"

definition fenced_out :: "uuid \<Rightarrow> ArtifactRecord \<Rightarrow> bool" where
  "fenced_out ag r =
     (case dict_get (read_generation_by_agent r) ag of None \<Rightarrow> False
      | Some read_gen \<Rightarrow> read_gen < owner_generation r)"

definition arbitrate :: "uuid \<Rightarrow> int \<Rightarrow> ArtifactRecord \<Rightarrow> verdict" where
  "arbitrate ag expected r =
     (let cur = art_version (artifact r)
      in if expected > cur then Corrupt cur
         else if expected < cur then Conflicting (ConflictDetail version_mismatch cur)
         else if has_other_holder ag r then Conflicting (ConflictDetail other_holder cur)
         else if fenced_out ag r then Conflicting (ConflictDetail stale_read_generation cur)
         else Admitted)"

definition note_conflict :: "uuid \<Rightarrow> uuid \<Rightarrow> conflict_reason \<Rightarrow> registry \<Rightarrow> registry" where
  "note_conflict art ag why g =
     g\<lparr>conflict_counts :=
         dict_set (art, ag, why) (get_default (conflict_counts g) (art, ag, why) 0 + 1) (conflict_counts g)\<rparr>"

section \<open>The winning write\<close>

definition valid_peers :: "uuid \<Rightarrow> ArtifactRecord \<Rightarrow> (uuid, MESIState) dict" where
  "valid_peers ag r = filter (\<lambda>(peer, st). peer \<noteq> ag \<and> st \<noteq> INVALID) (state_by_agent r)"

definition bumped_artifact :: "uuid \<Rightarrow> string \<Rightarrow> int option \<Rightarrow> Artifact \<Rightarrow> Artifact" where
  "bumped_artifact art chash toks a =
     \<lparr>art_id = art, art_name = art_name a, art_version = art_version a + 1, art_hash = Some chash,
      art_tokens = (case toks of None \<Rightarrow> art_tokens a | Some t \<Rightarrow> Some t),
      art_depends_on = art_depends_on a\<rparr>"

definition win_requests :: "uuid \<Rightarrow> uuid \<Rightarrow> string \<Rightarrow> string \<Rightarrow> int \<Rightarrow> ArtifactRecord \<Rightarrow> log_request list" where
  "win_requests art ag chash trig tick r =
     map (\<lambda>(peer, peer_from). LogRequest art peer peer_from INVALID trig tick
            (art_version (artifact r) + 1) None) (valid_peers ag r)
     @ [LogRequest art ag (get_default (state_by_agent r) ag INVALID) SHARED trig tick
          (art_version (artifact r) + 1) (Some chash)]"

text \<open>The peers of a winner are invalidated one by one; a write grant loses its grant tick.\<close>

fun invalidate_peers :: "(uuid, MESIState) dict \<Rightarrow> ArtifactRecord \<Rightarrow> ArtifactRecord" where
  "invalidate_peers [] r = r"
| "invalidate_peers ((peer, peer_from) # ps) r =
     invalidate_peers ps
       (let r1 = r\<lparr>state_by_agent := dict_set peer INVALID (state_by_agent r)\<rparr>
        in if peer_from \<in> M_OR_E_STATES
           then r1\<lparr>granted_at_tick_by_agent := dict_pop peer (granted_at_tick_by_agent r1)\<rparr>
           else r1)"

definition apply_win ::
  "registry \<Rightarrow> uuid \<Rightarrow> body option \<Rightarrow> Artifact \<Rightarrow> (uuid, MESIState) dict \<Rightarrow> ArtifactRecord \<Rightarrow> ArtifactRecord" where
  "apply_win g ag b upd peers r =
     (let r1 = (case b of None \<Rightarrow> r | Some c \<Rightarrow> r\<lparr>rec_content := c\<rparr>);
          r2 = (case b of None \<Rightarrow> r1
                | Some c \<Rightarrow> (if retain_versions g then capture_version g (art_version upd) c r1 else r1));
          r3 = r2\<lparr>artifact := upd, last_writer := Some ag\<rparr>;
          r4 = invalidate_peers peers r3
      in r4\<lparr>state_by_agent := dict_set ag SHARED (state_by_agent r4),
            last_observed_version_by_agent :=
              dict_set ag (art_version upd) (last_observed_version_by_agent r4)\<rparr>)"

section \<open>commit\_cas\<close>

datatype cas_result = CasWin Artifact "uuid list" | CasConflict ConflictDetail | CasCorruption int

definition reg_commit_cas ::
  "uuid \<Rightarrow> uuid \<Rightarrow> int \<Rightarrow> string \<Rightarrow> int option \<Rightarrow> body option \<Rightarrow> int \<Rightarrow> string \<Rightarrow> cas_result rop" where
  "reg_commit_cas art ag expected chash toks b tick trig =
     with_record art (\<lambda>r.
       case arbitrate ag expected r of
         Corrupt cur \<Rightarrow> ret (CasCorruption cur)
       | Conflicting d \<Rightarrow>
           andthen (modify (note_conflict art ag (detail_reason d))) (\<lambda>_. ret (CasConflict d))
       | Admitted \<Rightarrow>
           (let peers = valid_peers ag r; upd = bumped_artifact art chash toks (artifact r)
            in andthen (emit_batch (win_requests art ag chash trig tick r) 0) (\<lambda>_.
               andthen (modify (\<lambda>g. put_record art (apply_win g ag b upd peers r) g)) (\<lambda>_.
               ret (CasWin upd (map fst peers))))))"

section \<open>commit\_all\<close>

datatype multi_result =
    MultiWin MultiCommitResult
  | MultiCommitConflict "(uuid, ConflictDetail) dict"
  | MultiCorruption int

text \<open>The check of the whole write-set: pure reads, corruption and a missing artifact end it early.\<close>

datatype check_outcome = CheckCorrupt int | CheckConflicts "(uuid, ConflictDetail) dict"

fun check_members ::
  "uuid \<Rightarrow> registry \<Rightarrow> (uuid, CommitAllEntry) dict \<Rightarrow> (uuid, ConflictDetail) dict \<Rightarrow> py_error + check_outcome" where
  "check_members ag g [] conflicts = Inr (CheckConflicts conflicts)"
| "check_members ag g ((art, entry) # ws) conflicts =
     (case dict_get (records g) art of
        None \<Rightarrow> Inl KeyError
      | Some r \<Rightarrow>
          (case arbitrate ag (entry_expected entry) r of
             Corrupt cur \<Rightarrow> Inr (CheckCorrupt cur)
           | Conflicting d \<Rightarrow> check_members ag g ws (dict_set art d conflicts)
           | Admitted \<Rightarrow> check_members ag g ws conflicts))"

datatype staged = Staged (st_artifact: uuid) (st_entry: CommitAllEntry)
  (st_peers: "(uuid, MESIState) dict") (st_updated: Artifact) (st_requests: "log_request list")

definition stage_member :: "uuid \<Rightarrow> int \<Rightarrow> string \<Rightarrow> uuid \<Rightarrow> CommitAllEntry \<Rightarrow> ArtifactRecord \<Rightarrow> staged" where
  "stage_member ag tick trig art entry r =
     Staged art entry (valid_peers ag r)
       (bumped_artifact art (entry_hash entry) (entry_tokens entry) (artifact r))
       (win_requests art ag (entry_hash entry) trig tick r)"

fun stage_members ::
  "uuid \<Rightarrow> int \<Rightarrow> string \<Rightarrow> registry \<Rightarrow> (uuid, CommitAllEntry) dict \<Rightarrow> staged list" where
  "stage_members ag tick trig g [] = []"
| "stage_members ag tick trig g ((art, entry) # ws) =
     (case dict_get (records g) art of None \<Rightarrow> []
      | Some r \<Rightarrow> [stage_member ag tick trig art entry r]) @ stage_members ag tick trig g ws"

definition apply_staged :: "uuid \<Rightarrow> staged \<Rightarrow> registry \<Rightarrow> registry" where
  "apply_staged ag s g =
     (case dict_get (records g) (st_artifact s) of None \<Rightarrow> g
      | Some r \<Rightarrow> put_record (st_artifact s)
          (apply_win g ag (entry_content (st_entry s)) (st_updated s) (st_peers s) r) g)"

definition multi_commit_result :: "staged list \<Rightarrow> MultiCommitResult" where
  "multi_commit_result ss =
     \<lparr>mcr_versions = map (\<lambda>s. (st_artifact s, art_version (st_updated s))) ss,
      mcr_invalidated = map (\<lambda>s. (st_artifact s, map fst (st_peers s)))
                          (filter (\<lambda>s. st_peers s \<noteq> []) ss)\<rparr>"

definition reg_commit_all ::
  "uuid \<Rightarrow> (uuid, CommitAllEntry) dict \<Rightarrow> int \<Rightarrow> string \<Rightarrow> multi_result rop" where
  "reg_commit_all ag writes tick trig =
     (\<lambda>g. if writes = [] then (Inl ValueError, g)
          else case check_members ag g writes [] of
            Inl e \<Rightarrow> (Inl e, g)
          | Inr (CheckCorrupt cur) \<Rightarrow> (Inr (MultiCorruption cur), g)
          | Inr (CheckConflicts conflicts) \<Rightarrow>
              (if conflicts \<noteq> []
               then (Inr (MultiCommitConflict conflicts),
                     fold (\<lambda>(art, d). note_conflict art ag (detail_reason d)) conflicts g)
               else (let ss = stage_members ag tick trig g writes
                     in andthen (emit_batch (concat (map st_requests ss)) 0) (\<lambda>_.
                        andthen (modify (fold (apply_staged ag) ss)) (\<lambda>_.
                        ret (MultiWin (multi_commit_result ss)))) g)))"

end
