(* ===== verification/Coordinator.thy ===== *)
theory Coordinator
  imports Registry_CAS
begin

text \<open>
  The grant-holding operations of \<^verbatim>\<open>src/ccs/coordinator/service.py\<close>: fetch, the pessimistic
  write and commit, the optimistic commits, invalidation, deletion, heartbeats and the two
  crash-recovery sweeps. They touch no state but the registry, so each is a method on it.
  \<open>abort\<close> is whether the caller's watchdog event is set when the registry lock is won; an
  identifier that \<open>uuid4\<close> mints is the argument \<open>fresh\<close>.
\<close>

section \<open>Helpers\<close>

definition invalidation_transient_for_state :: "MESIState \<Rightarrow> TransientState option" where
  "invalidation_transient_for_state st =
     (if st = SHARED then Some SIA
      else if st = EXCLUSIVE then Some EIA
      else if st = MODIFIED then Some MSA
      else None)"

definition require_artifact :: "uuid \<Rightarrow> Artifact rop" where
  "require_artifact art =
     (\<lambda>g. case get_artifact art g of None \<Rightarrow> (Inl (ArtifactNotFound art), g) | Some a \<Rightarrow> (Inr a, g))"

definition validate_single_writer :: "uuid \<Rightarrow> unit rop" where
  "validate_single_writer art =
     andthen (asks (get_state_map art)) (\<lambda>m. lift_sum (check_single_writer m))"

definition signal :: "uuid \<Rightarrow> int \<Rightarrow> int \<Rightarrow> uuid \<Rightarrow> InvalidationSignal" where
  "signal art v tick issuer =
     \<lparr>sig_artifact_id = art, sig_new_version = v, sig_issued_at = tick, sig_issuer = issuer\<rparr>"

section \<open>Registration and fetch\<close>

definition register_artifact ::
  "uuid \<Rightarrow> string \<Rightarrow> body \<Rightarrow> uuid option \<Rightarrow> int option \<Rightarrow> string option \<Rightarrow> uuid list \<Rightarrow> Artifact rop" where
  "register_artifact fresh name b initial_owner toks chash deps =
     (let a = \<lparr>art_id = fresh, art_name = name, art_version = 1, art_hash = chash,
               art_tokens = toks, art_depends_on = deps\<rparr>
      in andthen (reg_register_artifact a b) (\<lambda>_.
         andthen (case initial_owner of None \<Rightarrow> ret ()
                  | Some owner \<Rightarrow> set_agent_state fresh owner EXCLUSIVE ''register'' 0 None) (\<lambda>_.
         ret a)))"

definition downgrade_holder :: "uuid \<Rightarrow> int \<Rightarrow> (uuid, MESIState) dict \<Rightarrow> unit \<Rightarrow> uuid \<Rightarrow> unit rop" where
  "downgrade_holder art tick state_map u peer =
     (if get_default state_map peer INVALID \<notin> M_OR_E_STATES then ret ()
      else set_agent_state art peer SHARED ''fetch'' tick None)"

definition fetch :: "uuid \<Rightarrow> uuid \<Rightarrow> int \<Rightarrow> FetchResponse rop" where
  "fetch art ag tick =
     andthen (require_artifact art) (\<lambda>a.
     andthen (asks (get_content art)) (\<lambda>content.
       case content of None \<Rightarrow> throw (ArtifactContentMissing art)
       | Some b \<Rightarrow>
     andthen (asks (get_state_map art)) (\<lambda>state_map.
       let other_holders = map fst (filter (\<lambda>(peer, st). peer \<noteq> ag \<and> st \<noteq> INVALID) state_map);
           grant = (if other_holders = [] then EXCLUSIVE else SHARED)
       in
     andthen (set_agent_transient art ag (if grant = EXCLUSIVE then IED else ISG) tick) (\<lambda>_.
     andthen (for_loop other_holders (downgrade_holder art tick state_map) ()) (\<lambda>_.
     andthen (set_agent_state art ag grant ''fetch'' tick None) (\<lambda>_.
     andthen (clear_agent_transient art ag) (\<lambda>_.
     andthen (validate_single_writer art) (\<lambda>_.
     ret (FetchResponse art (art_version a) b grant)))))))))"

section \<open>Pessimistic writes\<close>

definition invalidate_peer ::
  "uuid \<Rightarrow> uuid \<Rightarrow> string \<Rightarrow> int \<Rightarrow> int \<Rightarrow> InvalidationSignal list \<Rightarrow> uuid \<times> MESIState
   \<Rightarrow> InvalidationSignal list rop" where
  "invalidate_peer art ag trig v tick signals = (\<lambda>(peer, st).
     if peer = ag \<or> st = INVALID then ret signals
     else
       andthen (case invalidation_transient_for_state st of None \<Rightarrow> ret ()
                | Some ts \<Rightarrow> set_agent_transient art peer ts tick) (\<lambda>_.
       andthen (set_agent_state art peer INVALID trig tick None) (\<lambda>_.
       ret (signals @ [signal art v tick ag]))))"

definition write_impl :: "uuid \<Rightarrow> uuid \<Rightarrow> int \<Rightarrow> InvalidationSignal list rop" where
  "write_impl ag art tick =
     andthen (require_artifact art) (\<lambda>a.
     andthen (set_agent_transient art ag IED tick) (\<lambda>_.
     andthen (asks (get_state_map art)) (\<lambda>state_map.
     andthen (for_loop state_map (invalidate_peer art ag ''write'' (art_version a) tick) []) (\<lambda>signals.
     andthen (set_agent_state art ag EXCLUSIVE ''write'' tick None) (\<lambda>_.
     andthen (clear_agent_transient art ag) (\<lambda>_.
     andthen (validate_single_writer art) (\<lambda>_.
     ret signals)))))))"

definition write_op :: "uuid \<Rightarrow> uuid \<Rightarrow> int \<Rightarrow> bool \<Rightarrow> InvalidationSignal list rop" where
  "write_op ag art tick abort = abort_guard abort (write_impl ag art tick)"

definition upgrade :: "uuid \<Rightarrow> uuid \<Rightarrow> int \<Rightarrow> InvalidationSignal list rop" where
  "upgrade ag art tick = write_op ag art tick False"

definition commit_impl ::
  "(string \<Rightarrow> string) \<Rightarrow> uuid \<Rightarrow> uuid \<Rightarrow> string \<Rightarrow> int \<Rightarrow> string option \<Rightarrow> int option
   \<Rightarrow> (Artifact \<times> InvalidationSignal list) rop" where
  "commit_impl sha256_hex ag art text tick chash toks =
     andthen (require_artifact art) (\<lambda>a.
     andthen (asks (get_agent_state art ag)) (\<lambda>agent_state.
       if agent_state \<notin> {Some EXCLUSIVE, Some MODIFIED}
       then andthen (asks (get_last_reclamation ag art)) (\<lambda>reclamation.
              throw (CommitNotAllowed ag art agent_state reclamation))
       else
     andthen (set_agent_transient art ag MWB tick) (\<lambda>_.
       let next_version = art_version a + 1;
           upd = \<lparr>art_id = art_id a, art_name = art_name a, art_version = next_version,
                  art_hash = (case chash of None \<Rightarrow> art_hash a | Some h \<Rightarrow> Some h),
                  art_tokens = (case toks of None \<Rightarrow> art_tokens a | Some t \<Rightarrow> Some t),
                  art_depends_on = art_depends_on a\<rparr>
       in
     andthen (lift_sum (check_monotonic_version (art_version a) next_version)) (\<lambda>_.
     andthen (except (set_artifact_and_content art upd (Text text) (Some ag) (Some ag))
        (\<lambda>e. case e of
               StaleReadGeneration _ _ _ _ \<Rightarrow> andthen (clear_agent_transient art ag) (\<lambda>_. throw e)
             | _ \<Rightarrow> throw e)) (\<lambda>_.
     andthen (asks (get_state_map art)) (\<lambda>state_map.
     andthen (for_loop state_map (invalidate_peer art ag ''commit'' next_version tick) []) (\<lambda>signals.
     andthen (case chash of Some h \<Rightarrow> ret h | None \<Rightarrow> lift_sum (compute_content_hash sha256_hex (Text text)))
        (\<lambda>commit_hash.
     andthen (set_agent_state art ag MODIFIED ''commit'' tick (Some commit_hash)) (\<lambda>_.
     andthen (clear_agent_transient art ag) (\<lambda>_.
     andthen (validate_single_writer art) (\<lambda>_.
     ret (upd, signals))))))))))))"

definition commit ::
  "(string \<Rightarrow> string) \<Rightarrow> uuid \<Rightarrow> uuid \<Rightarrow> string \<Rightarrow> int \<Rightarrow> string option \<Rightarrow> int option \<Rightarrow> bool
   \<Rightarrow> (Artifact \<times> InvalidationSignal list) rop" where
  "commit sha256_hex ag art text tick chash toks abort =
     abort_guard abort (commit_impl sha256_hex ag art text tick chash toks)"

section \<open>Optimistic writes\<close>

datatype cas_outcome = Committed Artifact "InvalidationSignal list" | Conflict ConflictDetail

definition commit_cas_impl ::
  "uuid \<Rightarrow> uuid \<Rightarrow> int \<Rightarrow> string \<Rightarrow> int \<Rightarrow> int option \<Rightarrow> body option \<Rightarrow> cas_outcome rop" where
  "commit_cas_impl ag art expected chash tick toks b =
     andthen (require_artifact art) (\<lambda>a.
     andthen (asks (get_agent_transient art ag)) (\<lambda>transient.
       if transient \<noteq> None then throw (OccCallerTransient ag art)
       else
     andthen (asks (get_agent_state art ag)) (\<lambda>agent_state.
       case agent_state of
         Some EXCLUSIVE \<Rightarrow> throw (CommitCasNotAllowed ag art EXCLUSIVE)
       | Some MODIFIED \<Rightarrow> throw (CommitCasNotAllowed ag art MODIFIED)
       | _ \<Rightarrow>
     andthen (reg_commit_cas art ag expected chash toks b tick ''commit_cas'') (\<lambda>result.
       case result of
         CasCorruption cur \<Rightarrow> throw (CommitCasCorruption ag art expected cur)
       | CasConflict d \<Rightarrow> ret (Conflict d)
       | CasWin upd invalidated_ids \<Rightarrow>
           andthen (lift_sum (check_monotonic_version (art_version a) (art_version upd))) (\<lambda>_.
           andthen (validate_single_writer art) (\<lambda>_.
           ret (Committed upd (map (\<lambda>_. signal art (art_version upd) tick ag) invalidated_ids))))))))"

definition commit_cas ::
  "uuid \<Rightarrow> uuid \<Rightarrow> int \<Rightarrow> string \<Rightarrow> int \<Rightarrow> int option \<Rightarrow> body option \<Rightarrow> bool \<Rightarrow> cas_outcome rop" where
  "commit_cas ag art expected chash tick toks b abort =
     abort_guard abort (commit_cas_impl ag art expected chash tick toks b)"

datatype multi_outcome =
    MultiCommitted MultiCommitResult "InvalidationSignal list"
  | MultiHeld "(uuid, ConflictDetail) dict"

definition commit_all_precondition :: "uuid \<Rightarrow> unit \<Rightarrow> uuid \<times> CommitAllEntry \<Rightarrow> unit rop" where
  "commit_all_precondition ag u = (\<lambda>(art, entry).
     andthen (require_artifact art) (\<lambda>_.
     andthen (asks (get_agent_transient art ag)) (\<lambda>transient.
       if transient \<noteq> None then throw (OccCallerTransient ag art)
       else
     andthen (asks (get_agent_state art ag)) (\<lambda>agent_state.
       case agent_state of
         Some EXCLUSIVE \<Rightarrow> throw (CommitAllNotAllowed ag art EXCLUSIVE)
       | Some MODIFIED \<Rightarrow> throw (CommitAllNotAllowed ag art MODIFIED)
       | _ \<Rightarrow> ret ()))))"

definition member_signals ::
  "uuid \<Rightarrow> int \<Rightarrow> MultiCommitResult \<Rightarrow> InvalidationSignal list \<Rightarrow> uuid \<times> int \<Rightarrow> InvalidationSignal list rop" where
  "member_signals ag tick res signals = (\<lambda>(art, v).
     andthen (validate_single_writer art) (\<lambda>_.
     ret (signals @ map (\<lambda>_. signal art v tick ag) (get_default (mcr_invalidated res) art []))))"

definition commit_all_impl :: "uuid \<Rightarrow> (uuid, CommitAllEntry) dict \<Rightarrow> int \<Rightarrow> multi_outcome rop" where
  "commit_all_impl ag writes tick =
     (if writes = [] then throw EmptyWriteSet
      else
     andthen (for_loop writes (commit_all_precondition ag) ()) (\<lambda>_.
     andthen (reg_commit_all ag writes tick ''commit_all'') (\<lambda>result.
       case result of
         MultiCorruption cur \<Rightarrow> throw (CommitAllCorruption ag cur)
       | MultiCommitConflict conflicts \<Rightarrow> ret (MultiHeld conflicts)
       | MultiWin res \<Rightarrow>
           andthen (for_loop (mcr_versions res) (member_signals ag tick res) []) (\<lambda>signals.
           ret (MultiCommitted res signals)))))"

definition commit_all :: "uuid \<Rightarrow> (uuid, CommitAllEntry) dict \<Rightarrow> int \<Rightarrow> bool \<Rightarrow> multi_outcome rop" where
  "commit_all ag writes tick abort = abort_guard abort (commit_all_impl ag writes tick)"

section \<open>Invalidation and deletion\<close>

definition revoke_is_superseded :: "uuid \<Rightarrow> uuid \<Rightarrow> int \<Rightarrow> uuid \<Rightarrow> registry \<Rightarrow> bool" where
  "revoke_is_superseded ag art new_v issuer g =
     (if issuer = ag then False
      else if get_agent_state art ag g = Some INVALID then False
      else (case last_observed_version_for art ag g of None \<Rightarrow> False
            | Some observed \<Rightarrow> observed \<ge> new_v))"

definition invalidate_impl ::
  "uuid \<Rightarrow> uuid \<Rightarrow> int \<Rightarrow> uuid \<Rightarrow> int \<Rightarrow> InvalidationSignal option rop" where
  "invalidate_impl ag art new_v issuer tick =
     andthen (asks (has_artifact art)) (\<lambda>present.
       if \<not> present then ret None
       else
     andthen (asks (revoke_is_superseded ag art new_v issuer)) (\<lambda>superseded.
       if superseded then ret None
       else
     andthen (set_agent_state art ag INVALID ''invalidate'' tick None) (\<lambda>_.
     andthen (clear_agent_transient art ag) (\<lambda>_.
     ret (Some (signal art new_v tick issuer))))))"

definition invalidate ::
  "uuid \<Rightarrow> uuid \<Rightarrow> int \<Rightarrow> uuid \<Rightarrow> int \<Rightarrow> bool \<Rightarrow> InvalidationSignal option rop" where
  "invalidate ag art new_v issuer tick abort = abort_guard abort (invalidate_impl ag art new_v issuer tick)"

definition delete :: "uuid \<Rightarrow> uuid \<Rightarrow> int \<Rightarrow> InvalidationSignal list rop" where
  "delete ag art tick =
     andthen (asks (has_artifact art)) (\<lambda>present.
       if \<not> present then ret []
       else
     andthen (require_artifact art) (\<lambda>a.
     andthen (asks (get_state_map art)) (\<lambda>state_map.
     andthen (remove_artifact art) (\<lambda>_.
     ret (map (\<lambda>_. signal art (art_version a) tick ag)
            (filter (\<lambda>(holder, st). st \<noteq> INVALID) state_map))))))"

section \<open>Heartbeats and sweeps\<close>

definition record_heartbeat :: "uuid \<Rightarrow> int \<Rightarrow> unit rop" where
  "record_heartbeat ag now = (if now < 0 then throw ValueError else reg_record_heartbeat ag now)"

text \<open>One pair of the transient sweep, the body of one \<open>abort_guard\<close> hold.\<close>

definition expire_pair :: "int \<Rightarrow> int \<Rightarrow> uuid \<Rightarrow> int \<Rightarrow> uuid \<Rightarrow> int rop" where
  "expire_pair cur timeout art expired ag =
     andthen (asks (get_agent_transient art ag)) (\<lambda>transient.
       if transient = None then ret expired
       else
     andthen (asks (get_transient_tick art ag)) (\<lambda>entered.
       case entered of None \<Rightarrow> ret expired
       | Some t \<Rightarrow>
           (if cur - t < timeout then ret expired
            else
     andthen (set_agent_state art ag INVALID ''timeout'' cur None) (\<lambda>_.
     andthen (clear_agent_transient art ag) (\<lambda>_.
     ret (expired + 1))))))"

definition enforce_transient_timeouts :: "int \<Rightarrow> int \<Rightarrow> int rop" where
  "enforce_transient_timeouts cur timeout =
     (if timeout < 1 then throw ValueError
      else andthen (asks artifact_ids) (\<lambda>arts.
        for_loop arts (\<lambda>expired art.
          andthen (asks (get_transient_map art)) (\<lambda>tmap.
          for_loop (dict_keys tmap) (expire_pair cur timeout art) expired)) 0))"

text \<open>
  One pair of the stable-grant sweep. The loop's accumulator is the list of calls made to
  \<open>on_reclaim\<close>, one per reclaimed grant; the callback's own exceptions are swallowed.
\<close>

type_synonym reclaim_notice = "uuid \<times> uuid \<times> string"

definition reclaim_trigger :: "int \<Rightarrow> int \<Rightarrow> int \<Rightarrow> uuid \<Rightarrow> uuid \<Rightarrow> registry \<Rightarrow> string option" where
  "reclaim_trigger cur hb_timeout max_hold art ag g =
     (if (case last_heartbeat_tick ag g of None \<Rightarrow> True | Some hb \<Rightarrow> cur - hb \<ge> hb_timeout)
      then Some ''reclaim_heartbeat''
      else case granted_at_tick ag art g of
             None \<Rightarrow> None
           | Some granted_at \<Rightarrow> (if cur - granted_at \<ge> max_hold then Some ''reclaim_max_hold'' else None))"

definition reclaim_pair ::
  "int \<Rightarrow> int \<Rightarrow> int \<Rightarrow> reclaim_notice list \<Rightarrow> uuid \<times> uuid \<Rightarrow> reclaim_notice list rop" where
  "reclaim_pair cur hb_timeout max_hold notices = (\<lambda>(art, ag).
     andthen (asks (get_agent_state art ag)) (\<lambda>st.
       if st \<notin> {Some MODIFIED, Some EXCLUSIVE} then ret notices
       else
     andthen (asks (get_agent_transient art ag)) (\<lambda>transient.
       if transient \<noteq> None then ret notices
       else
     andthen (asks (reclaim_trigger cur hb_timeout max_hold art ag)) (\<lambda>why.
       case why of None \<Rightarrow> ret notices
       | Some trig \<Rightarrow>
     andthen (set_agent_state art ag INVALID trig cur None) (\<lambda>_.
     andthen (record_last_reclamation ag art trig cur) (\<lambda>_.
     andthen (validate_single_writer art) (\<lambda>_.
     ret (notices @ [(art, ag, trig)]))))))))"

definition grant_snapshot :: "registry \<Rightarrow> (uuid \<times> uuid) list" where
  "grant_snapshot g =
     concat (map (\<lambda>art. map (\<lambda>(ag, st). (art, ag))
       (filter (\<lambda>(ag, st). st \<in> M_OR_E_STATES) (get_state_map art g))) (artifact_ids g))"

definition enforce_stable_grant_timeouts :: "int \<Rightarrow> int \<Rightarrow> int \<Rightarrow> reclaim_notice list rop" where
  "enforce_stable_grant_timeouts cur hb_timeout max_hold =
     (if hb_timeout < 1 then throw ValueError
      else if max_hold < 1 then throw ValueError
      else andthen (asks grant_snapshot) (\<lambda>pairs.
        for_loop pairs (reclaim_pair cur hb_timeout max_hold) []))"

end
