(* ===== verification/Sessions.thy ===== *)
theory Sessions
  imports Coordinator
begin

text \<open>
  Snapshot sessions: the pin store of \<^verbatim>\<open>registry.py\<close> and the session operations of
  \<^verbatim>\<open>service.py\<close>. The \<open>service\<close> record has the registry and the maps the service keeps for
  itself. A session token that \<open>secrets.token_urlsafe\<close> mints is the argument \<open>minted\<close>; the digest
  \<open>sha256_hex\<close> and the name-based identifier \<open>uuid5_url\<close> are parameters.
\<close>

section \<open>The registry's pin store\<close>

datatype capture_result = Cut "(uuid, int) dict" | CaptureRejected VersionedReadRejection

fun capture_loop ::
  "registry \<Rightarrow> uuid list \<Rightarrow> (uuid, int) dict \<Rightarrow> uuid list \<Rightarrow> (uuid, int) dict \<times> uuid list" where
  "capture_loop g [] pins missing = (pins, missing)"
| "capture_loop g (art # arts) pins missing =
     (case dict_get (records g) art of
        None \<Rightarrow> capture_loop g arts pins (missing @ [art])
      | Some r \<Rightarrow> capture_loop g arts (dict_set art (art_version (artifact r)) pins) missing)"

definition capture_version_vector ::
  "uuid list \<Rightarrow> string \<Rightarrow> uuid option \<Rightarrow> int option \<Rightarrow> capture_result rop" where
  "capture_version_vector read_set token owner created =
     (\<lambda>g. case capture_loop g read_set [] [] of (pins, missing) \<Rightarrow>
        if missing \<noteq> []
        then (Inr (CaptureRejected (VersionedReadRejection UNKNOWN_ARTIFACT (hd (sort missing)) 0 None
                (coordinator_epoch g))), g)
        else (let g1 = g\<lparr>session_pins := dict_set token pins (session_pins g)\<rparr>;
                  g2 = (case owner of None \<Rightarrow> g1
                        | Some ow \<Rightarrow> g1\<lparr>session_meta := dict_set token
                            (ow, case created of None \<Rightarrow> 0 | Some t \<Rightarrow> t) (session_meta g1)\<rparr>)
              in (Inr (Cut pins), g2)))"

definition release_session :: "string \<Rightarrow> unit rop" where
  "release_session token =
     modify (\<lambda>g. g\<lparr>session_pins := dict_pop token (session_pins g),
                   session_meta := dict_pop token (session_meta g)\<rparr>)"

definition get_session_meta :: "string \<Rightarrow> registry \<Rightarrow> (uuid \<times> int) option" where
  "get_session_meta token g = dict_get (session_meta g) token"

definition all_session_meta :: "registry \<Rightarrow> (string, uuid \<times> int) dict" where
  "all_session_meta g = session_meta g"

definition session_count :: "registry \<Rightarrow> nat" where
  "session_count g = length (session_meta g)"

definition get_session_cut :: "string \<Rightarrow> registry \<Rightarrow> (uuid, int) dict option" where
  "get_session_cut token g = dict_get (session_pins g) token"

section \<open>Configuration\<close>

record SessionCapsConfig =
  max_sessions :: int
  max_read_set_cardinality :: int
  absolute_age_ticks :: int

definition new_SessionCapsConfig :: "int \<Rightarrow> int \<Rightarrow> int \<Rightarrow> py_error + SessionCapsConfig" where
  "new_SessionCapsConfig sessions cardinality age =
     (if sessions < 1 then Inl ValueError
      else if cardinality < 1 then Inl ValueError
      else if age < 1 then Inl ValueError
      else Inr \<lparr>max_sessions = sessions, max_read_set_cardinality = cardinality, absolute_age_ticks = age\<rparr>)"

definition default_SessionCapsConfig :: SessionCapsConfig where
  "default_SessionCapsConfig =
     \<lparr>max_sessions = 256, max_read_set_cardinality = 64, absolute_age_ticks = 3600\<rparr>"

record CrashRecoveryConfig =
  cr_enabled :: bool
  heartbeat_timeout_ticks :: int
  max_hold_ticks :: int

text \<open>
  \<open>__post_init__\<close> claims the process-wide first-use flag: the flag after it, and whether this
  construction emits the warning.
\<close>

definition claim_first_use_warning :: "bool \<Rightarrow> bool \<times> bool" where
  "claim_first_use_warning warned = (if \<not> warned then (True, True) else (warned, False))"

text \<open>What \<open>getattr(strategy, "ttl_ticks", None)\<close> finds.\<close>

datatype ttl_attr = TtlMissing | TtlInt int | TtlOther

datatype composition = Composes | ComposesWithWarning

definition validate_crash_recovery_config :: "CrashRecoveryConfig \<Rightarrow> ttl_attr \<Rightarrow> py_error + composition" where
  "validate_crash_recovery_config cfg ttl =
     (if \<not> cr_enabled cfg then Inr Composes
      else case ttl of
        TtlMissing \<Rightarrow> Inr Composes
      | TtlInt t \<Rightarrow> (if max_hold_ticks cfg \<le> t then Inl ValueError else Inr Composes)
      | TtlOther \<Rightarrow> Inr ComposesWithWarning)"

section \<open>The service\<close>

record service =
  svc_registry :: registry
  session_caps :: SessionCapsConfig
  session_owners :: "(string, uuid) dict"
  session_created :: "(string, int) dict"
  session_heartbeats :: "(string, int) dict"
  reaped_tombstone :: "string list"

type_synonym 'a sop = "(service, py_error, 'a) py"

definition new_CoordinatorService :: "registry \<Rightarrow> SessionCapsConfig option \<Rightarrow> service" where
  "new_CoordinatorService g caps =
     \<lparr>svc_registry = g, session_caps = (case caps of None \<Rightarrow> default_SessionCapsConfig | Some c \<Rightarrow> c),
      session_owners = [], session_created = [], session_heartbeats = [], reaped_tombstone = []\<rparr>"

definition on_registry :: "'a rop \<Rightarrow> 'a sop" where
  "on_registry m = on_field svc_registry (\<lambda>g s. s\<lparr>svc_registry := g\<rparr>) m"

definition asks_registry :: "(registry \<Rightarrow> 'a) \<Rightarrow> 'a sop" where
  "asks_registry f = asks (\<lambda>s. f (svc_registry s))"

definition SESSION_TOKEN_LEN :: nat where
  "SESSION_TOKEN_LEN = 43"

definition SESSION_TOKEN_ALPHABET :: string where
  "SESSION_TOKEN_ALPHABET = ''abcdefghijklmnopqrstuvwxyzABCDEFGHIJKLMNOPQRSTUVWXYZ0123456789-_''"

definition REAPED_TOMBSTONE_CAP :: nat where
  "REAPED_TOMBSTONE_CAP = 4096"

definition looks_like_session_token :: "string \<Rightarrow> bool" where
  "looks_like_session_token token \<longleftrightarrow>
     length token = SESSION_TOKEN_LEN \<and> list_all (\<lambda>ch. ch \<in> set SESSION_TOKEN_ALPHABET) token"

section \<open>Reads at a version\<close>

datatype versioned_read = Retained VersionedContent | ReadRejected VersionedReadRejection

definition read_at_version :: "uuid \<Rightarrow> int \<Rightarrow> string option \<Rightarrow> versioned_read sop" where
  "read_at_version art v expected_epoch =
     (if v < 1 then throw ValueError
      else
     andthen (asks_registry coordinator_epoch) (\<lambda>epoch.
     andthen (asks_registry (get_artifact art)) (\<lambda>found.
       case found of
         None \<Rightarrow> ret (ReadRejected (VersionedReadRejection UNKNOWN_ARTIFACT art v None epoch))
       | Some a \<Rightarrow>
     (let cur = art_version a;
          reject = (\<lambda>why. ret (ReadRejected (VersionedReadRejection why art v (Some cur) epoch)))
      in
     andthen (asks_registry retention_meta) (\<lambda>(enabled, policy).
       if \<not> enabled then reject RETENTION_OFF
       else if expected_epoch \<noteq> None \<and> expected_epoch \<noteq> Some epoch then reject EPOCH_MISMATCH
       else if v = cur then reject CURRENT_VERSION
       else if v > cur then reject FUTURE_VERSION
       else
     andthen (asks_registry (get_version_record art v)) (\<lambda>row.
       case row of
         None \<Rightarrow> reject NOT_RETAINED
       | Some (content, captured_at) \<Rightarrow>
     andthen (asks_registry wall_clock) (\<lambda>now.
       if (case policy of None \<Rightarrow> False
           | Some p \<Rightarrow> v \<in> collectible_versions (Stamped [(v, captured_at)]) cur p now {})
       then reject NOT_RETAINED
       else ret (Retained (VersionedContent art v content captured_at epoch)))))))))"

section \<open>Opening a session\<close>

datatype begin_result = Opened SnapshotSession | BeginRejected VersionedReadRejection

definition NIL_UUID :: uuid where
  "NIL_UUID = 0"

definition begin_session :: "string \<Rightarrow> uuid list \<Rightarrow> uuid \<Rightarrow> int \<Rightarrow> begin_result sop" where
  "begin_session minted read_set owner created =
     andthen (asks_registry coordinator_epoch) (\<lambda>epoch.
     andthen (asks session_caps) (\<lambda>caps.
       if int (length read_set) > max_read_set_cardinality caps
       then ret (BeginRejected (VersionedReadRejection SESSION_READ_SET_TOO_LARGE NIL_UUID
              (int (length read_set)) (Some (max_read_set_cardinality caps)) epoch))
       else
     andthen (asks_registry session_count) (\<lambda>live_sessions.
       if int live_sessions \<ge> max_sessions caps
       then ret (BeginRejected (VersionedReadRejection SESSION_CAP_EXCEEDED NIL_UUID
              (int live_sessions) (Some (max_sessions caps)) epoch))
       else
     andthen (modify (\<lambda>s. s\<lparr>session_owners := dict_set minted owner (session_owners s)\<rparr>)) (\<lambda>_.
     andthen (on_registry (capture_version_vector read_set minted (Some owner) (Some created))) (\<lambda>result.
       case result of
         CaptureRejected rej \<Rightarrow>
           andthen (modify (\<lambda>s. s\<lparr>session_owners := dict_pop minted (session_owners s)\<rparr>)) (\<lambda>_.
           ret (BeginRejected rej))
       | Cut pins \<Rightarrow>
     andthen (modify (\<lambda>s. s\<lparr>session_heartbeats := dict_set minted created (session_heartbeats s),
                            session_created := dict_set minted created (session_created s)\<rparr>)) (\<lambda>_.
     andthen (asks_registry retention_meta) (\<lambda>(retain, policy).
     andthen (asks_registry coordinator_epoch) (\<lambda>epoch'.
     ret (Opened \<lparr>snap_token = minted, snap_cut = pins, snap_epoch = epoch', snap_retains = retain\<rparr>)))))))))"

section \<open>Owner validation and the dead-session taxonomy\<close>

definition bound_owner :: "string \<Rightarrow> service \<Rightarrow> uuid option" where
  "bound_owner token s =
     (case dict_get (session_owners s) token of
        Some ow \<Rightarrow> Some ow
      | None \<Rightarrow> map_option fst (get_session_meta token (svc_registry s)))"

definition validate_session_owner :: "string \<Rightarrow> uuid \<Rightarrow> (uuid, int) dict option \<Rightarrow> unit sop" where
  "validate_session_owner token caller pins =
     andthen (asks (bound_owner token)) (\<lambda>bound.
       case bound of
         None \<Rightarrow> (if pins \<noteq> None then throw SessionInvalidated else ret ())
       | Some ow \<Rightarrow> (if ow \<noteq> caller then throw SessionInvalidated else ret ()))"

definition classify_no_cut_reason :: "string \<Rightarrow> service \<Rightarrow> session_reason" where
  "classify_no_cut_reason token s =
     (if token \<in> set (reaped_tombstone s) then SESSION_INVALIDATED
      else if looks_like_session_token token then SESSION_INVALIDATED
      else SESSION_NOT_FOUND)"

section \<open>Reading and committing through a session\<close>

datatype session_read_result =
    Served VersionedContent
  | Deferred DataPlaneDeferredRead
  | SessionReadRejected SessionReadRejection

definition session_read :: "string \<Rightarrow> uuid \<Rightarrow> uuid \<Rightarrow> session_read_result sop" where
  "session_read token art caller =
     andthen (asks_registry coordinator_epoch) (\<lambda>epoch.
     andthen (asks_registry (get_session_cut token)) (\<lambda>found.
     andthen (validate_session_owner token caller found) (\<lambda>_.
       case found of
         None \<Rightarrow> andthen (asks (classify_no_cut_reason token)) (\<lambda>why.
           ret (SessionReadRejected (SessionReadRejection why art epoch)))
       | Some pins \<Rightarrow>
       (case dict_get pins art of
         None \<Rightarrow> ret (SessionReadRejected (SessionReadRejection SESSION_ARTIFACT_NOT_IN_CUT art epoch))
       | Some pinned \<Rightarrow>
     andthen (asks_registry (get_artifact art)) (\<lambda>a.
       let cur = map_option art_version a;
           pinned_hash = (if cur = Some pinned then Option.bind a art_hash else None);
           deferred = ret (Deferred (DataPlaneDeferredRead art pinned pinned_hash epoch))
       in
     andthen (asks_registry retention_meta) (\<lambda>(retain, policy).
       if \<not> retain then deferred
       else
     andthen (asks_registry (get_version_record art pinned)) (\<lambda>row.
       case row of
         None \<Rightarrow> deferred
       | Some (content, captured_at) \<Rightarrow>
     andthen (asks_registry wall_clock) (\<lambda>now.
       if (case (policy, cur) of
             (Some p, Some c) \<Rightarrow> pinned \<in> collectible_versions (Stamped [(pinned, captured_at)]) c p now {pinned}
           | _ \<Rightarrow> False)
       then throw AssertionError
       else ret (Served (VersionedContent art pinned content captured_at epoch))))))))))"

definition session_committer_id :: "(string \<Rightarrow> uuid) \<Rightarrow> string \<Rightarrow> uuid" where
  "session_committer_id uuid5_url token = uuid5_url token"

datatype 'o session_outcome = SessionOutcome 'o | SessionCommitRejected SessionCommitRejection

definition session_commit ::
  "(string \<Rightarrow> string) \<Rightarrow> (string \<Rightarrow> uuid) \<Rightarrow> string \<Rightarrow> uuid \<Rightarrow> body \<Rightarrow> uuid \<Rightarrow> int option \<Rightarrow> int \<Rightarrow> bool
   \<Rightarrow> cas_outcome session_outcome sop" where
  "session_commit sha256_hex uuid5_url token art content caller toks tick abort =
     andthen (asks_registry coordinator_epoch) (\<lambda>epoch.
     andthen (asks_registry (get_session_cut token)) (\<lambda>found.
     andthen (validate_session_owner token caller found) (\<lambda>_.
       case found of
         None \<Rightarrow> andthen (asks (classify_no_cut_reason token)) (\<lambda>why.
           ret (SessionCommitRejected (SessionCommitRejection why art epoch)))
       | Some pins \<Rightarrow>
       (case dict_get pins art of
         None \<Rightarrow> ret (SessionCommitRejected (SessionCommitRejection SESSION_ARTIFACT_NOT_IN_CUT art epoch))
       | Some expected \<Rightarrow>
     andthen (lift_sum (compute_content_hash sha256_hex content)) (\<lambda>chash.
     andthen (on_registry (commit_cas (session_committer_id uuid5_url token) art expected chash tick toks
                (Some content) abort)) (\<lambda>outcome.
     ret (SessionOutcome outcome)))))))"

fun first_unpinned :: "(uuid, int) dict \<Rightarrow> uuid list \<Rightarrow> uuid option" where
  "first_unpinned pins [] = None"
| "first_unpinned pins (art # arts) =
     (if dict_get pins art = None then Some art else first_unpinned pins arts)"

fun session_batch ::
  "(string \<Rightarrow> string) \<Rightarrow> (uuid, int) dict \<Rightarrow> (uuid, body \<times> int option) dict
   \<Rightarrow> py_error + (uuid, CommitAllEntry) dict" where
  "session_batch sha256_hex pins [] = Inr []"
| "session_batch sha256_hex pins ((art, content, toks) # ws) =
     (case dict_get pins art of
        None \<Rightarrow> Inl KeyError
      | Some expected \<Rightarrow>
          (case compute_content_hash sha256_hex content of
             Inl e \<Rightarrow> Inl e
           | Inr chash \<Rightarrow>
               (case session_batch sha256_hex pins ws of
                  Inl e \<Rightarrow> Inl e
                | Inr batch \<Rightarrow>
                    Inr ((art, \<lparr>entry_expected = expected, entry_hash = chash, entry_tokens = toks,
                                entry_content = Some content\<rparr>) # batch))))"

definition session_commit_all ::
  "(string \<Rightarrow> string) \<Rightarrow> (string \<Rightarrow> uuid) \<Rightarrow> string \<Rightarrow> (uuid, body \<times> int option) dict \<Rightarrow> uuid \<Rightarrow> int \<Rightarrow> bool
   \<Rightarrow> multi_outcome session_outcome sop" where
  "session_commit_all sha256_hex uuid5_url token writes caller tick abort =
     (if writes = [] then throw EmptyWriteSet
      else
     andthen (asks_registry coordinator_epoch) (\<lambda>epoch.
     andthen (asks_registry (get_session_cut token)) (\<lambda>found.
     andthen (validate_session_owner token caller found) (\<lambda>_.
       case found of
         None \<Rightarrow> andthen (asks (classify_no_cut_reason token)) (\<lambda>why.
           ret (SessionCommitRejected (SessionCommitRejection why (fst (hd writes)) epoch)))
       | Some pins \<Rightarrow>
       (case first_unpinned pins (dict_keys writes) of
         Some art \<Rightarrow> ret (SessionCommitRejected (SessionCommitRejection SESSION_ARTIFACT_NOT_IN_CUT art epoch))
       | None \<Rightarrow>
     andthen (lift_sum (session_batch sha256_hex pins writes)) (\<lambda>batch.
     andthen (on_registry (commit_all (session_committer_id uuid5_url token) batch tick abort)) (\<lambda>outcome.
     ret (SessionOutcome outcome))))))))"

section \<open>Session lifetime\<close>

definition record_session_heartbeat :: "string \<Rightarrow> uuid \<Rightarrow> int \<Rightarrow> bool sop" where
  "record_session_heartbeat token owner now =
     (if now < 0 then throw ValueError
      else
     andthen (asks (\<lambda>s. dict_get (session_owners s) token)) (\<lambda>in_memory.
     andthen (asks_registry (get_session_meta token)) (\<lambda>durable.
       case (case in_memory of Some ow \<Rightarrow> Some (ow, None)
             | None \<Rightarrow> map_option (\<lambda>(ow, created). (ow, Some created)) durable) of
         None \<Rightarrow> ret False
       | Some (bound, rehydrate) \<Rightarrow>
           if bound \<noteq> owner then ret False
           else
     andthen (case rehydrate of None \<Rightarrow> ret ()
              | Some created \<Rightarrow> modify (\<lambda>s. s\<lparr>session_owners := dict_set token bound (session_owners s),
                                                session_created := dict_set token created (session_created s)\<rparr>)) (\<lambda>_.
     andthen (modify (\<lambda>s.
        case dict_get (session_heartbeats s) token of
          None \<Rightarrow> s\<lparr>session_heartbeats := dict_set token now (session_heartbeats s)\<rparr>
        | Some prev \<Rightarrow> (if now > prev then s\<lparr>session_heartbeats := dict_set token now (session_heartbeats s)\<rparr> else s)))
     (\<lambda>_. ret True)))))"

definition drop_session_state :: "string \<Rightarrow> unit sop" where
  "drop_session_state token =
     andthen (on_registry (release_session token)) (\<lambda>_.
     modify (\<lambda>s. s\<lparr>session_heartbeats := dict_pop token (session_heartbeats s),
                   session_owners := dict_pop token (session_owners s),
                   session_created := dict_pop token (session_created s)\<rparr>))"

fun evict_oldest :: "string list \<Rightarrow> string list" where
  "evict_oldest [] = []"
| "evict_oldest (oldest # rest) =
     (if length (oldest # rest) > REAPED_TOMBSTONE_CAP then evict_oldest rest else oldest # rest)"

definition tombstone_token :: "string \<Rightarrow> unit sop" where
  "tombstone_token token =
     modify (\<lambda>s. s\<lparr>reaped_tombstone := evict_oldest (filter (\<lambda>t. t \<noteq> token) (reaped_tombstone s) @ [token])\<rparr>)"

definition reap_session :: "string \<Rightarrow> unit sop" where
  "reap_session token = andthen (drop_session_state token) (\<lambda>_. tombstone_token token)"

text \<open>
  The reap decision for one token. \<open>durable\<close> is the snapshot of \<open>all_session_meta\<close> taken when the
  sweep starts.
\<close>

definition session_expired :: "int \<Rightarrow> int \<Rightarrow> (string, uuid \<times> int) dict \<Rightarrow> string \<Rightarrow> service \<Rightarrow> bool" where
  "session_expired cur hb_timeout durable token s =
     (let in_memory = dict_get (session_owners s) token \<noteq> None;
          stale = (if in_memory
                   then (case dict_get (session_heartbeats s) token of None \<Rightarrow> True
                         | Some last_hb \<Rightarrow> cur - last_hb \<ge> hb_timeout)
                   else False);
          created = (if in_memory then dict_get (session_created s) token
                     else map_option snd (dict_get durable token));
          over_age = (case created of None \<Rightarrow> True
                      | Some t \<Rightarrow> cur - t \<ge> absolute_age_ticks (session_caps s))
      in stale \<or> over_age)"

text \<open>The sweep walks a Python \<open>set\<close> of tokens; \<open>set_order\<close> is the order its iteration takes.\<close>

definition enforce_session_liveness :: "(string list \<Rightarrow> string list) \<Rightarrow> int \<Rightarrow> int \<Rightarrow> int sop" where
  "enforce_session_liveness set_order cur hb_timeout =
     (if hb_timeout < 1 then throw ValueError
      else
     andthen (asks_registry all_session_meta) (\<lambda>durable.
     andthen (asks (\<lambda>s. set_order (remdups (dict_keys (session_owners s) @ dict_keys durable)))) (\<lambda>tokens.
     for_loop tokens (\<lambda>reaped token.
       andthen (asks (session_expired cur hb_timeout durable token)) (\<lambda>expired.
         if \<not> expired then ret reaped
         else andthen (reap_session token) (\<lambda>_. ret (reaped + 1)))) 0)))"

end
