(* ===== verification/Effect_Gate.thy ===== *)
theory Effect_Gate
  imports Sessions
begin

text \<open>
  The effect gate of \<^verbatim>\<open>service.py\<close>: fire an effect if and only if the pinned read-set is
  unchanged. The caller's \<open>decide\<close> and \<open>effect\<close> callbacks are parameters, methods on the whole
  service: while they run, the callback and every other thread may do anything the service allows.
  In the atomic mode \<open>peers\<close> is what other threads do between the re-validation and the commit.
\<close>

section \<open>The view handed to the decision\<close>

datatype view_result = ViewContent VersionedContent | ViewDeferred DataPlaneDeferredRead

definition SessionView_read :: "string \<Rightarrow> uuid \<Rightarrow> uuid \<Rightarrow> view_result sop" where
  "SessionView_read token owner art =
     andthen (session_read token art owner) (\<lambda>result.
       case result of
         SessionReadRejected (SessionReadRejection why a e) \<Rightarrow>
           (if why = SESSION_ARTIFACT_NOT_IN_CUT then throw (UnpinnedDecideRead art)
            else throw SessionInvalidated)
       | Served c \<Rightarrow> ret (ViewContent c)
       | Deferred d \<Rightarrow> ret (ViewDeferred d))"

section \<open>The gate\<close>

type_synonym moved_map = "(uuid, int \<times> int option) dict"

datatype 'r gate_outcome =
    EffectHeld (held_moved: moved_map) (held_epoch: string) (held_conflict: "ConflictDetail option")
  | EffectFired (revalidated_cut: "(uuid, int) dict") (fired_epoch: string)
      (fired_commit: "(Artifact \<times> InvalidationSignal list) option") (fired_result: "'r option")

text \<open>The members of a cut whose current version is not the pinned one, a vanished one included.\<close>

definition revalidate_cut :: "(uuid, int) dict \<Rightarrow> registry \<Rightarrow> moved_map" where
  "revalidate_cut pins g =
     fold (\<lambda>(art, pinned) moved.
        let cur = map_option art_version (get_artifact art g)
        in if cur \<noteq> Some pinned then dict_set art (pinned, cur) moved else moved) pins []"

definition effect_gate_escaping ::
  "SnapshotSession \<Rightarrow> ('d \<Rightarrow> 'r sop) \<Rightarrow> 'd \<Rightarrow> 'r gate_outcome sop" where
  "effect_gate_escaping session effect decision =
     andthen (asks_registry (revalidate_cut (snap_cut session))) (\<lambda>moved.
       if moved \<noteq> [] then ret (EffectHeld moved (snap_epoch session) None)
       else
     andthen (effect decision) (\<lambda>result.
     ret (EffectFired (snap_cut session) (snap_epoch session) None (Some result))))"

definition effect_gate_atomic ::
  "(string \<Rightarrow> string) \<Rightarrow> (string \<Rightarrow> uuid) \<Rightarrow> unit sop \<Rightarrow> SnapshotSession \<Rightarrow> uuid \<Rightarrow> uuid \<times> body \<Rightarrow> int
   \<Rightarrow> 'r gate_outcome sop" where
  "effect_gate_atomic sha256_hex uuid5_url peers session owner commit_arg tick =
     (case commit_arg of (art, content) \<Rightarrow>
     andthen (asks_registry (revalidate_cut (snap_cut session))) (\<lambda>moved.
       if dict_get moved art \<noteq> None then ret (EffectHeld moved (snap_epoch session) None)
       else
     andthen peers (\<lambda>_.
     andthen (session_commit sha256_hex uuid5_url (snap_token session) art content owner None tick False)
      (\<lambda>outcome.
       case outcome of
         SessionCommitRejected _ \<Rightarrow> throw SessionInvalidated
       | SessionOutcome (Conflict d) \<Rightarrow>
           andthen (asks_registry (revalidate_cut (snap_cut session))) (\<lambda>post.
           ret (EffectHeld post (snap_epoch session) (Some d)))
       | SessionOutcome (Committed a signals) \<Rightarrow>
           ret (EffectFired (snap_cut session) (snap_epoch session) (Some (a, signals)) None)))))"

definition effect_gate ::
  "(string \<Rightarrow> string) \<Rightarrow> (string \<Rightarrow> uuid) \<Rightarrow> unit sop \<Rightarrow> string \<Rightarrow> uuid list \<Rightarrow> uuid
   \<Rightarrow> (string \<Rightarrow> 'd sop) \<Rightarrow> ('d \<Rightarrow> 'r sop) option \<Rightarrow> (uuid \<times> body) option \<Rightarrow> int \<Rightarrow> int \<Rightarrow> bool
   \<Rightarrow> 'r gate_outcome sop" where
  "effect_gate sha256_hex uuid5_url peers minted read_set owner decide effect commit_arg created tick release_on_exit =
     (if (effect = None) = (commit_arg = None) then throw ValueError
      else
     andthen (begin_session minted read_set owner created) (\<lambda>opened.
       case opened of
         BeginRejected _ \<Rightarrow> throw SessionInvalidated
       | Opened session \<Rightarrow>
     finally_do
       (andthen (decide (snap_token session)) (\<lambda>decision.
          case commit_arg of
            Some c \<Rightarrow> effect_gate_atomic sha256_hex uuid5_url peers session owner c tick
          | None \<Rightarrow>
              (case effect of
                 None \<Rightarrow> throw AssertionError
               | Some e \<Rightarrow> effect_gate_escaping session e decision)))
       (if release_on_exit then drop_session_state (snap_token session) else ret ())))"

end
