(* ===== verification/Checkpoints.thy ===== *)
theory Checkpoints
  imports Effect_Gate
begin

text \<open>
  Workspace checkpoints: the manifest store of \<^verbatim>\<open>registry.py\<close> and the service operations that
  validate and forward to it, with the registration of a restore run. Human-readable detail lines
  are left out. An identifier that \<open>uuid4\<close> mints is an argument.
\<close>

section \<open>Vocabulary\<close>

definition RESTORE_MEMBER_OUTCOMES :: "string set" where
  "RESTORE_MEMBER_OUTCOMES =
     {''restored'', ''converged'', ''conflict'', ''target_lost'', ''forward_only_skipped'', ''held_unconfirmed''}"

definition RESTORE_STATUSES :: "string set" where
  "RESTORE_STATUSES = {''none'', ''in_progress'', ''registered'', ''concluded''}"

definition PIN_STATES :: "string set" where
  "PIN_STATES = {''unpinned'', ''held'', ''pin_unavailable'', ''released''}"

definition RestoreTier_values :: "string set" where
  "RestoreTier_values = {''restorable'', ''restorable-unpinned'', ''forward_only''}"

text \<open>\<open>not s.strip()\<close>: the string has no character but white space.\<close>

definition py_space :: "char \<Rightarrow> bool" where
  "py_space c \<longleftrightarrow> (let n = (of_char c :: nat) in (9 \<le> n \<and> n \<le> 13) \<or> (28 \<le> n \<and> n \<le> 32) \<or> n = 133 \<or> n = 160)"

definition blank :: "string \<Rightarrow> bool" where
  "blank s \<longleftrightarrow> list_all py_space s"

section \<open>The manifest store\<close>

fun member_index ::
  "CheckpointMember list \<Rightarrow> (string, CheckpointMember) dict \<Rightarrow> py_error + (string, CheckpointMember) dict" where
  "member_index [] acc = Inr acc"
| "member_index (m # ms) acc =
     (if dict_get acc (member_path m) \<noteq> None then Inl ValueError
      else member_index ms (dict_set (member_path m) m acc))"

definition create_checkpoint :: "CheckpointRecord \<Rightarrow> CheckpointMember list \<Rightarrow> unit rop" where
  "create_checkpoint cp members =
     (if cp_owner cp = None then throw ValueError
      else
     andthen (asks checkpoints) (\<lambda>cps.
       if dict_get cps (checkpoint_id cp) \<noteq> None then throw ValueError
       else
     andthen (lift_sum (member_index members [])) (\<lambda>member_by_path.
     modify (\<lambda>g. g\<lparr>checkpoints := dict_set (checkpoint_id cp) cp (checkpoints g),
                   checkpoint_members := dict_set (checkpoint_id cp) member_by_path (checkpoint_members g)\<rparr>))))"

definition get_checkpoint :: "string \<Rightarrow> registry \<Rightarrow> CheckpointRecord option" where
  "get_checkpoint cid g = dict_get (checkpoints g) cid"

text \<open>Strings compare by code point, character by character.\<close>

fun str_le :: "string \<Rightarrow> string \<Rightarrow> bool" where
  "str_le [] t = True"
| "str_le (c # s) [] = False"
| "str_le (c # s) (d # t) =
     ((of_char c :: nat) < of_char d \<or> c = d \<and> str_le s t)"

fun insert_by :: "('a \<Rightarrow> 'a \<Rightarrow> bool) \<Rightarrow> 'a \<Rightarrow> 'a list \<Rightarrow> 'a list" where
  "insert_by le x [] = [x]"
| "insert_by le x (y # ys) = (if le x y then x # y # ys else y # insert_by le x ys)"

definition sorted_by :: "('a \<Rightarrow> 'a \<Rightarrow> bool) \<Rightarrow> 'a list \<Rightarrow> 'a list" where
  "sorted_by le xs = foldr (insert_by le) xs []"

definition checkpoint_le :: "CheckpointRecord \<Rightarrow> CheckpointRecord \<Rightarrow> bool" where
  "checkpoint_le a b \<longleftrightarrow> cp_created_at a < cp_created_at b \<or>
     cp_created_at a = cp_created_at b \<and> str_le (checkpoint_id a) (checkpoint_id b)"

definition list_checkpoints :: "registry \<Rightarrow> CheckpointRecord list" where
  "list_checkpoints g = sorted_by checkpoint_le (map snd (checkpoints g))"

definition get_checkpoint_members :: "string \<Rightarrow> registry \<Rightarrow> CheckpointMember list" where
  "get_checkpoint_members cid g =
     map snd (sorted_by (\<lambda>a b. str_le (fst a) (fst b)) (get_default (checkpoint_members g) cid []))"

definition set_checkpoint_restore_status :: "string \<Rightarrow> string \<Rightarrow> rat \<Rightarrow> unit rop" where
  "set_checkpoint_restore_status cid status updated_at =
     andthen (asks (get_checkpoint cid)) (\<lambda>found.
       case found of
         None \<Rightarrow> throw KeyError
       | Some cp \<Rightarrow> modify (\<lambda>g. g\<lparr>checkpoints := dict_set cid
            (cp\<lparr>restore_status := status, restore_updated_at := Some updated_at\<rparr>) (checkpoints g)\<rparr>))"

definition update_member :: "string \<Rightarrow> string \<Rightarrow> (CheckpointMember \<Rightarrow> CheckpointMember) \<Rightarrow> unit rop" where
  "update_member cid path f =
     andthen (asks (\<lambda>g. get_default (checkpoint_members g) cid [])) (\<lambda>members.
       case dict_get members path of
         None \<Rightarrow> throw KeyError
       | Some m \<Rightarrow> modify (\<lambda>g. g\<lparr>checkpoint_members :=
            dict_set cid (dict_set path (f m) members) (checkpoint_members g)\<rparr>))"

definition set_checkpoint_member_restore :: "string \<Rightarrow> string \<Rightarrow> string option \<Rightarrow> rat option \<Rightarrow> unit rop" where
  "set_checkpoint_member_restore cid path outcome deleted =
     update_member cid path (\<lambda>m. m\<lparr>restore_outcome := outcome, deleted_at_restore := deleted\<rparr>)"

definition set_checkpoint_member_pin :: "string \<Rightarrow> string \<Rightarrow> string \<Rightarrow> string option \<Rightarrow> unit rop" where
  "set_checkpoint_member_pin cid path pin tier =
     update_member cid path (\<lambda>m. m\<lparr>pin_state := pin,
       restore_tier := (case tier of None \<Rightarrow> restore_tier m | Some t \<Rightarrow> t)\<rparr>)"

definition adjust_checkpoint_pin_refcount :: "string \<Rightarrow> int \<Rightarrow> int rop" where
  "adjust_checkpoint_pin_refcount cid delta =
     andthen (asks (get_checkpoint cid)) (\<lambda>found.
       case found of
         None \<Rightarrow> throw KeyError
       | Some cp \<Rightarrow>
           (let n = pin_refcount cp + delta
            in if n < 0 then throw ValueError
               else andthen (modify (\<lambda>g. g\<lparr>checkpoints :=
                        dict_set cid (cp\<lparr>pin_refcount := n\<rparr>) (checkpoints g)\<rparr>)) (\<lambda>_. ret n)))"

section \<open>The service operations\<close>

definition create_workspace_checkpoint ::
  "string \<Rightarrow> string \<Rightarrow> uuid option \<Rightarrow> CheckpointMember list \<Rightarrow> rat \<Rightarrow> rat \<Rightarrow> int \<Rightarrow> bool
   \<Rightarrow> CheckpointRecord rop" where
  "create_workspace_checkpoint minted name owner members wmin wmax tick abort =
     (if blank name then throw ValueError
      else if owner = None then throw ValueError
      else if members = [] then throw ValueError
      else if wmax < wmin then throw ValueError
      else
     (let cp = \<lparr>checkpoint_id = minted, cp_name = name, cp_owner = owner,
                cp_created_at = of_int tick, cp_created_at_tick = tick,
                window_min = wmin, window_max = wmax, restore_status = ''none'',
                restore_updated_at = None, pin_refcount = 0\<rparr>
      in andthen (abort_guard abort (create_checkpoint cp members)) (\<lambda>_. ret cp)))"

definition set_workspace_checkpoint_restore_status :: "string \<Rightarrow> string \<Rightarrow> rat \<Rightarrow> bool \<Rightarrow> unit rop" where
  "set_workspace_checkpoint_restore_status cid status updated_at abort =
     (if status \<notin> RESTORE_STATUSES then throw ValueError
      else abort_guard abort (set_checkpoint_restore_status cid status updated_at))"

definition set_workspace_checkpoint_member_restore ::
  "string \<Rightarrow> string \<Rightarrow> string option \<Rightarrow> rat option \<Rightarrow> bool \<Rightarrow> unit rop" where
  "set_workspace_checkpoint_member_restore cid path outcome deleted abort =
     (if (case outcome of None \<Rightarrow> False | Some out \<Rightarrow> out \<notin> RESTORE_MEMBER_OUTCOMES) then throw ValueError
      else abort_guard abort (set_checkpoint_member_restore cid path outcome deleted))"

definition set_workspace_checkpoint_member_pin ::
  "string \<Rightarrow> string \<Rightarrow> string \<Rightarrow> string option \<Rightarrow> bool \<Rightarrow> unit rop" where
  "set_workspace_checkpoint_member_pin cid path pin tier abort =
     (if pin \<notin> PIN_STATES then throw ValueError
      else if (case tier of None \<Rightarrow> False | Some t \<Rightarrow> t \<notin> RestoreTier_values) then throw ValueError
      else abort_guard abort (set_checkpoint_member_pin cid path pin tier))"

definition adjust_workspace_checkpoint_pin_refcount :: "string \<Rightarrow> int \<Rightarrow> bool \<Rightarrow> int rop" where
  "adjust_workspace_checkpoint_pin_refcount cid delta abort =
     abort_guard abort (adjust_checkpoint_pin_refcount cid delta)"

section \<open>Registering a restore run\<close>

record WorkspaceRestoreWrite =
  write_path :: string
  write_fingerprint :: string

datatype registration_status =
    REGISTRATION_COMMITTED | REGISTRATION_EMPTY | REGISTRATION_PRIOR_RUN | REGISTRATION_REFUSED

record WorkspaceRegistrationResult =
  wr_checkpoint :: string
  wr_status :: registration_status
  wr_versions :: "(string, int) dict"
  wr_skipped :: "string list"
  wr_signals :: "InvalidationSignal list"
  wr_refused :: "(string, ConflictDetail) dict"

fun find_by_name :: "string \<Rightarrow> uuid list \<Rightarrow> registry \<Rightarrow> (uuid \<times> Artifact) option" where
  "find_by_name path [] g = None"
| "find_by_name path (art # arts) g =
     (case get_artifact art g of
        Some a \<Rightarrow> (if art_name a = path then Some (art, a) else find_by_name path arts g)
      | None \<Rightarrow> find_by_name path arts g)"

definition resolve_workspace_member_artifact :: "uuid \<Rightarrow> string \<Rightarrow> string \<Rightarrow> uuid rop" where
  "resolve_workspace_member_artifact minted path fp =
     andthen (asks (\<lambda>g. find_by_name path (artifact_ids g) g)) (\<lambda>found.
       case found of
         Some (art, a) \<Rightarrow> ret art
       | None \<Rightarrow>
           andthen (reg_register_artifact
              \<lparr>art_id = minted, art_name = path, art_version = 1, art_hash = Some fp,
               art_tokens = None, art_depends_on = []\<rparr> (Text '''')) (\<lambda>_.
           ret minted))"

definition workspace_member_registered :: "string \<Rightarrow> string \<Rightarrow> registry \<Rightarrow> bool" where
  "workspace_member_registered path fp g =
     (case find_by_name path (artifact_ids g) g of
        None \<Rightarrow> False
      | Some (art, a) \<Rightarrow> art_hash a = Some fp)"

fun check_restore_writes :: "WorkspaceRestoreWrite list \<Rightarrow> string list \<Rightarrow> py_error + unit" where
  "check_restore_writes [] seen = Inr ()"
| "check_restore_writes (w # ws) seen =
     (if blank (write_path w) then Inl ValueError
      else if blank (write_fingerprint w) then Inl ValueError
      else if write_path w \<in> set seen then Inl ValueError
      else check_restore_writes ws (write_path w # seen))"

text \<open>The locals of the resolution loop: \<open>skipped\<close>, \<open>batch\<close>, \<open>path_by_artifact\<close>, \<open>pre_versions\<close>.\<close>

record registration_plan =
  rp_skipped :: "string list"
  rp_batch :: "(uuid, CommitAllEntry) dict"
  rp_path :: "(uuid, string) dict"
  rp_pre :: "(uuid, int) dict"

definition plan_write :: "(string \<Rightarrow> uuid) \<Rightarrow> registration_plan \<Rightarrow> WorkspaceRestoreWrite \<Rightarrow> registration_plan rop" where
  "plan_write mint plan w =
     andthen (resolve_workspace_member_artifact (mint (write_path w)) (write_path w) (write_fingerprint w)) (\<lambda>art.
     andthen (asks (get_artifact art)) (\<lambda>found.
       case found of
         None \<Rightarrow> throw (MemberArtifactVanished art)
       | Some a \<Rightarrow>
           (if art_hash a = Some (write_fingerprint w)
            then ret (plan\<lparr>rp_skipped := rp_skipped plan @ [write_path w]\<rparr>)
            else ret (plan\<lparr>rp_path := dict_set art (write_path w) (rp_path plan),
                           rp_pre := dict_set art (art_version a) (rp_pre plan),
                           rp_batch := dict_set art
                             \<lparr>entry_expected = art_version a, entry_hash = write_fingerprint w,
                              entry_tokens = None, entry_content = None\<rparr> (rp_batch plan)\<rparr>))))"

definition register_versions ::
  "registration_plan \<Rightarrow> (string, int) dict \<Rightarrow> uuid \<times> int \<Rightarrow> (string, int) dict rop" where
  "register_versions plan versions = (\<lambda>(art, new_version).
     case (dict_get (rp_pre plan) art, dict_get (rp_path plan) art) of
       (Some pre, Some path) \<Rightarrow>
         andthen (lift_sum (check_monotonic_version pre new_version)) (\<lambda>_.
         ret (dict_set path new_version versions))
     | _ \<Rightarrow> throw KeyError)"

definition refused_path ::
  "registration_plan \<Rightarrow> (string, ConflictDetail) dict \<Rightarrow> uuid \<times> ConflictDetail \<Rightarrow> (string, ConflictDetail) dict rop" where
  "refused_path plan refused = (\<lambda>(art, d).
     case dict_get (rp_path plan) art of
       Some path \<Rightarrow> ret (dict_set path d refused)
     | None \<Rightarrow> throw KeyError)"

definition register_workspace_restore ::
  "(string \<Rightarrow> uuid) \<Rightarrow> string \<Rightarrow> uuid \<Rightarrow> WorkspaceRestoreWrite list \<Rightarrow> int \<Rightarrow> bool
   \<Rightarrow> WorkspaceRegistrationResult rop" where
  "register_workspace_restore mint cid controller writes tick abort =
     andthen (asks (get_checkpoint cid)) (\<lambda>found.
       if found = None then throw (CheckpointUnknown cid)
       else
     andthen (lift_sum (check_restore_writes writes [])) (\<lambda>_.
       let answer = (\<lambda>status versions skipped signals refused.
             \<lparr>wr_checkpoint = cid, wr_status = status, wr_versions = versions, wr_skipped = skipped,
              wr_signals = signals, wr_refused = refused\<rparr>)
       in if writes = [] then ret (answer REGISTRATION_EMPTY [] [] [] [])
       else
     andthen (for_loop writes (plan_write mint)
        \<lparr>rp_skipped = [], rp_batch = [], rp_path = [], rp_pre = []\<rparr>) (\<lambda>plan.
       if rp_batch plan = [] then ret (answer REGISTRATION_EMPTY [] (rp_skipped plan) [] [])
       else
     andthen (commit_all controller (rp_batch plan) tick abort) (\<lambda>out.
       case out of
         MultiHeld conflicts \<Rightarrow>
           andthen (for_loop conflicts (refused_path plan) []) (\<lambda>refused.
           ret (answer REGISTRATION_REFUSED [] (rp_skipped plan) [] refused))
       | MultiCommitted res signals \<Rightarrow>
           andthen (for_loop (mcr_versions res) (register_versions plan) []) (\<lambda>versions.
           ret (answer REGISTRATION_COMMITTED versions (rp_skipped plan) signals []))))))"

end
