(* ===== verification/Registry_Inv.thy ===== *)
theory Registry_Inv
  imports Checkpoints
begin

text \<open>
  Laws of the registry's primitives: what each leaves unchanged, and the well-formedness
  invariant \<open>rec_inv\<close> of one artifact record with the condition under which a state change
  keeps it. The invariant says that dictionaries have distinct keys, that a write grant excludes
  every other valid copy, that exactly the write holders carry a grant tick, and that the fence
  is consistent: no captured generation is ahead of the artifact's, and a write holder's is equal
  to it.
\<close>

section \<open>Weakest preconditions of the primitives\<close>

lemma wp_abort_guard [wp_simps]:
  "wp (abort_guard abort m) Q E g = (if abort then E WatchdogAbandoned g else wp m Q E g)"
  by (simp add: abort_guard_def wp_simps)

lemma wp_with_record [wp_simps]:
  "wp (with_record art f) Q E g =
     (case dict_get (records g) art of None \<Rightarrow> E KeyError g | Some r \<Rightarrow> wp (f r) Q E g)"
  by (simp add: wp_def with_record_def split: option.splits)

lemma wp_require_artifact [wp_simps]:
  "wp (require_artifact art) Q E g =
     (case get_artifact art g of None \<Rightarrow> E (ArtifactNotFound art) g | Some a \<Rightarrow> Q a g)"
  by (simp add: wp_def require_artifact_def split: option.splits)

lemma wp_validate_single_writer [wp_simps]:
  "wp (validate_single_writer art) Q E g =
     (case check_single_writer (get_state_map art g) of Inl e \<Rightarrow> E e g | Inr u \<Rightarrow> Q u g)"
  by (simp add: validate_single_writer_def wp_simps)

definition log_ok :: "registry \<Rightarrow> bool" where
  "log_ok g \<longleftrightarrow> (case state_log g of None \<Rightarrow> True | Some sink \<Rightarrow> \<forall>e. sink e)"

text \<open>An emission changes the sequence counter and the delivered entries, nothing else.\<close>

lemma wp_emit_state_log:
  assumes "\<And>k s d. Q k (g\<lparr>seq := s, delivered := d\<rparr>)"
    and "\<And>s d. \<not> log_ok g \<Longrightarrow> E CallbackError (g\<lparr>seq := s, delivered := d\<rparr>)"
  shows "wp (emit_state_log q) Q E g"
proof (cases "state_log g")
  case None
  have "Q 0 (g\<lparr>seq := seq g, delivered := delivered g\<rparr>)" by (rule assms(1))
  with None show ?thesis by (simp add: wp_def emit_state_log_def)
next
  case (Some sink)
  let ?e = "log_entry_of (g\<lparr>seq := seq g + 1\<rparr>) q"
  show ?thesis
  proof (cases "sink ?e")
    case True
    with Some assms(1) [where k = 1 and s = "seq g + 1" and d = "delivered g @ [?e]"] show ?thesis
      by (simp add: wp_def emit_state_log_def Let_def)
  next
    case False
    with Some have "\<not> log_ok g" by (auto simp: log_ok_def)
    with Some False assms(2) [where s = "seq g" and d = "delivered g"] show ?thesis
      by (simp add: wp_def emit_state_log_def Let_def)
  qed
qed

lemma wp_emit_batch:
  assumes "\<And>k s d. Q k (g\<lparr>seq := s, delivered := d\<rparr>)"
    and "\<And>s d. \<not> log_ok g \<Longrightarrow> E CallbackError (g\<lparr>seq := s, delivered := d\<rparr>)"
  shows "wp (emit_batch qs n) Q E g"
  using assms
proof (induction qs arbitrary: n g)
  case Nil
  have "Q n (g\<lparr>seq := seq g, delivered := delivered g\<rparr>)" by (rule Nil)
  then show ?case by (simp add: wp_def)
next
  case (Cons q qs)
  have "wp (emit_batch (q # qs) n) Q E g =
      wp (emit_state_log q) (\<lambda>k. wp (emit_batch qs (n + k)) Q E) (\<lambda>e g'. E e (g'\<lparr>seq := seq g' - n\<rparr>)) g"
    by (simp add: wp_def split: prod.splits sum.splits)
  moreover have "wp (emit_state_log q) (\<lambda>k. wp (emit_batch qs (n + k)) Q E)
      (\<lambda>e g'. E e (g'\<lparr>seq := seq g' - n\<rparr>)) g"
  proof (rule wp_emit_state_log)
    fix k s d
    show "wp (emit_batch qs (n + k)) Q E (g\<lparr>seq := s, delivered := d\<rparr>)"
      using Cons.prems by (intro Cons.IH) (simp_all add: log_ok_def)
  next
    fix s d
    assume "\<not> log_ok g"
    then show "E CallbackError (g\<lparr>seq := s, delivered := d\<rparr>\<lparr>seq := seq (g\<lparr>seq := s, delivered := d\<rparr>) - n\<rparr>)"
      using Cons.prems(2) [where s = "s - n" and d = d] by (cases g) simp
  qed
  ultimately show ?case by (simp only:)
qed

lemma wp_set_agent_state:
  assumes "dict_get (records g) art = Some r"
    and "\<And>s d. Q () (put_record art (apply_agent_state ag st trig tick r) g\<lparr>seq := s, delivered := d\<rparr>)"
    and "\<And>s d. \<not> log_ok g \<Longrightarrow>
      E CallbackError (put_record art (apply_agent_state ag st trig tick r) g\<lparr>seq := s, delivered := d\<rparr>)"
  shows "wp (set_agent_state art ag st trig tick h) Q E g"
  unfolding set_agent_state_def wp_simps using assms
  by (auto simp: wp_simps log_ok_def put_record_def intro!: wp_emit_state_log)

section \<open>Fields\<close>

abbreviation grant_of :: "ArtifactRecord \<Rightarrow> uuid \<Rightarrow> MESIState" where
  "grant_of r ag \<equiv> get_default (state_by_agent r) ag INVALID"

lemma get_default_set [simp]:
  "get_default (dict_set k v d) k' w = (if k' = k then v else get_default d k' w)"
  by (simp add: get_default_def)

lemma get_default_eq_Some: "dict_get d k = Some v \<Longrightarrow> get_default d k w = v"
  by (simp add: get_default_def)

lemma get_default_None: "dict_get d k = None \<Longrightarrow> get_default d k w = w"
  by (simp add: get_default_def)

lemma records_put [simp]: "records (put_record art r g) = dict_set art r (records g)"
  by (simp add: put_record_def)

lemma put_record_frame [simp]:
  "heartbeat_by_agent (put_record art r g) = heartbeat_by_agent g"
  "state_log (put_record art r g) = state_log g"
  "retain_versions (put_record art r g) = retain_versions g"
  "retention_policy (put_record art r g) = retention_policy g"
  "session_pins (put_record art r g) = session_pins g"
  "session_meta (put_record art r g) = session_meta g"
  "checkpoints (put_record art r g) = checkpoints g"
  "checkpoint_members (put_record art r g) = checkpoint_members g"
  "coordinator_epoch (put_record art r g) = coordinator_epoch g"
  "wall_clock (put_record art r g) = wall_clock g"
  "conflict_counts (put_record art r g) = conflict_counts g"
  by (simp_all add: put_record_def)

lemma apply_agent_state_frame [simp]:
  "artifact (apply_agent_state ag st trig tick r) = artifact r"
  "rec_content (apply_agent_state ag st trig tick r) = rec_content r"
  "transient_by_agent (apply_agent_state ag st trig tick r) = transient_by_agent r"
  "transient_tick_by_agent (apply_agent_state ag st trig tick r) = transient_tick_by_agent r"
  "last_writer (apply_agent_state ag st trig tick r) = last_writer r"
  "version_history (apply_agent_state ag st trig tick r) = version_history r"
  "version_captured_at (apply_agent_state ag st trig tick r) = version_captured_at r"
  "state_by_agent (apply_agent_state ag st trig tick r) = dict_set ag st (state_by_agent r)"
  by (simp_all add: apply_agent_state_def Let_def)

lemma apply_agent_state_granted:
  "granted_at_tick_by_agent (apply_agent_state ag st trig tick r) =
     (if st \<in> M_OR_E_STATES
      then (if grant_of r ag \<in> M_OR_E_STATES then granted_at_tick_by_agent r
            else dict_set ag tick (granted_at_tick_by_agent r))
      else if grant_of r ag \<in> M_OR_E_STATES then dict_pop ag (granted_at_tick_by_agent r)
      else granted_at_tick_by_agent r)"
  by (simp add: apply_agent_state_def Let_def)

lemma apply_agent_state_generation:
  "owner_generation (apply_agent_state ag st trig tick r) =
     (if st \<notin> M_OR_E_STATES \<and> grant_of r ag \<in> M_OR_E_STATES \<and> trig \<in> EPOCH_BUMP_TRIGGERS
      then owner_generation r + 1 else owner_generation r)"
  by (simp add: apply_agent_state_def Let_def)

lemma apply_agent_state_read_generation:
  "read_generation_by_agent (apply_agent_state ag st trig tick r) =
     (if grant_of r ag \<notin> M_OR_E_STATES \<and>
         (st \<in> M_OR_E_STATES \<or> trig \<in> CLAIM_CAPTURE_TRIGGERS \<and> st \<noteq> INVALID)
      then dict_set ag (owner_generation r) (read_generation_by_agent r)
      else read_generation_by_agent r)"
  by (simp add: apply_agent_state_def Let_def)

lemma apply_agent_state_observed:
  "last_observed_version_by_agent (apply_agent_state ag st trig tick r) =
     (if st \<noteq> INVALID then dict_set ag (art_version (artifact r)) (last_observed_version_by_agent r)
      else last_observed_version_by_agent r)"
  by (simp add: apply_agent_state_def Let_def)

lemma apply_agent_state_reclamation:
  "last_reclamation_by_agent (apply_agent_state ag st trig tick r) =
     (if st \<in> M_OR_E_STATES \<and> grant_of r ag \<notin> M_OR_E_STATES
      then dict_pop ag (last_reclamation_by_agent r) else last_reclamation_by_agent r)"
  by (simp add: apply_agent_state_def Let_def)

lemmas apply_agent_state_fields = apply_agent_state_granted apply_agent_state_generation
  apply_agent_state_read_generation apply_agent_state_observed apply_agent_state_reclamation

lemma trigger_sets [simp]:
  "''fetch'' \<in> CLAIM_CAPTURE_TRIGGERS" "''write'' \<notin> CLAIM_CAPTURE_TRIGGERS"
  "''commit'' \<notin> CLAIM_CAPTURE_TRIGGERS" "''invalidate'' \<notin> CLAIM_CAPTURE_TRIGGERS"
  "''timeout'' \<notin> CLAIM_CAPTURE_TRIGGERS" "''register'' \<notin> CLAIM_CAPTURE_TRIGGERS"
  "''reclaim_heartbeat'' \<notin> CLAIM_CAPTURE_TRIGGERS" "''reclaim_max_hold'' \<notin> CLAIM_CAPTURE_TRIGGERS"
  "''fetch'' \<notin> EPOCH_BUMP_TRIGGERS" "''write'' \<notin> EPOCH_BUMP_TRIGGERS"
  "''commit'' \<notin> EPOCH_BUMP_TRIGGERS" "''invalidate'' \<in> EPOCH_BUMP_TRIGGERS"
  "''timeout'' \<in> EPOCH_BUMP_TRIGGERS" "''reclaim_heartbeat'' \<in> EPOCH_BUMP_TRIGGERS"
  "''reclaim_max_hold'' \<in> EPOCH_BUMP_TRIGGERS"
  by (simp_all add: CLAIM_CAPTURE_TRIGGERS_def EPOCH_BUMP_TRIGGERS_def RECLAIM_TRIGGERS_def)

section \<open>The record invariant\<close>

definition swmr :: "ArtifactRecord \<Rightarrow> bool" where
  "swmr r \<longleftrightarrow> (\<forall>a b. a \<noteq> b \<longrightarrow> grant_of r a \<in> M_OR_E_STATES \<longrightarrow> grant_of r b = INVALID)"

definition grants_ok :: "ArtifactRecord \<Rightarrow> bool" where
  "grants_ok r \<longleftrightarrow> (\<forall>a. (dict_get (granted_at_tick_by_agent r) a \<noteq> None) = (grant_of r a \<in> M_OR_E_STATES))"

definition fence_ok :: "ArtifactRecord \<Rightarrow> bool" where
  "fence_ok r \<longleftrightarrow>
     (\<forall>a n. dict_get (read_generation_by_agent r) a = Some n \<longrightarrow> n \<le> owner_generation r) \<and>
     (\<forall>a. grant_of r a \<in> M_OR_E_STATES \<longrightarrow>
        dict_get (read_generation_by_agent r) a = Some (owner_generation r))"

definition observed_ok :: "ArtifactRecord \<Rightarrow> bool" where
  "observed_ok r \<longleftrightarrow>
     (\<forall>a v. dict_get (last_observed_version_by_agent r) a = Some v \<longrightarrow> v \<le> art_version (artifact r))"

definition rec_inv :: "ArtifactRecord \<Rightarrow> bool" where
  "rec_inv r \<longleftrightarrow> dict_wf (state_by_agent r) \<and> swmr r \<and> grants_ok r \<and> fence_ok r \<and> observed_ok r"

lemma rec_invI:
  "dict_wf (state_by_agent r) \<Longrightarrow> swmr r \<Longrightarrow> grants_ok r \<Longrightarrow> fence_ok r \<Longrightarrow> observed_ok r \<Longrightarrow> rec_inv r"
  by (simp add: rec_inv_def)

lemma rec_invD:
  assumes "rec_inv r"
  shows "dict_wf (state_by_agent r)" "swmr r" "grants_ok r" "fence_ok r" "observed_ok r"
  using assms by (simp_all add: rec_inv_def)

lemma swmrD: "swmr r \<Longrightarrow> grant_of r a \<in> M_OR_E_STATES \<Longrightarrow> a \<noteq> b \<Longrightarrow> grant_of r b = INVALID"
  unfolding swmr_def by blast

text \<open>
  A state change keeps the invariant when a new write holder finds every peer invalid and a new
  reader finds no write holder.
\<close>

definition may_hold :: "uuid \<Rightarrow> MESIState \<Rightarrow> ArtifactRecord \<Rightarrow> bool" where
  "may_hold ag st r \<longleftrightarrow>
     (st \<in> M_OR_E_STATES \<longrightarrow> (\<forall>b. b \<noteq> ag \<longrightarrow> grant_of r b = INVALID)) \<and>
     (st = SHARED \<longrightarrow> (\<forall>b. b \<noteq> ag \<longrightarrow> grant_of r b \<notin> M_OR_E_STATES))"

lemma may_hold_INVALID [simp]: "may_hold ag INVALID r"
  by (simp add: may_hold_def)

lemma apply_agent_state_swmr:
  assumes "swmr r" and "may_hold ag st r"
  shows "swmr (apply_agent_state ag st trig tick r)"
  unfolding swmr_def
proof (intro allI impI)
  fix a b :: uuid
  assume ab: "a \<noteq> b" and me: "grant_of (apply_agent_state ag st trig tick r) a \<in> M_OR_E_STATES"
  show "grant_of (apply_agent_state ag st trig tick r) b = INVALID"
    using assms ab me by (cases st) (auto simp: may_hold_def swmr_def split: if_splits)
qed

lemma apply_agent_state_grants: "grants_ok r \<Longrightarrow> grants_ok (apply_agent_state ag st trig tick r)"
  unfolding grants_ok_def
  by (auto simp: apply_agent_state_granted simp del: M_OR_E_iff split: if_splits)

lemma apply_agent_state_fence:
  assumes "fence_ok r" and "swmr r"
  shows "fence_ok (apply_agent_state ag st trig tick r)"
  unfolding fence_ok_def
proof (intro conjI allI impI)
  fix a n
  assume "dict_get (read_generation_by_agent (apply_agent_state ag st trig tick r)) a = Some n"
  then show "n \<le> owner_generation (apply_agent_state ag st trig tick r)"
    using assms(1) unfolding fence_ok_def
    by (auto simp: apply_agent_state_fields simp del: M_OR_E_iff split: if_splits intro: le_SucI)
next
  fix a
  assume me: "grant_of (apply_agent_state ag st trig tick r) a \<in> M_OR_E_STATES"
  show "dict_get (read_generation_by_agent (apply_agent_state ag st trig tick r)) a
      = Some (owner_generation (apply_agent_state ag st trig tick r))"
  proof (cases "a = ag")
    case True
    with me assms(1) show ?thesis
      unfolding fence_ok_def by (auto simp: apply_agent_state_fields simp del: M_OR_E_iff)
  next
    case False
    with me have "grant_of r a \<in> M_OR_E_STATES" by simp
    moreover from this False assms(2) have "grant_of r ag = INVALID" by (blast dest: swmrD)
    ultimately show ?thesis
      using assms(1) False unfolding fence_ok_def by (auto simp: apply_agent_state_fields)
  qed
qed

lemma apply_agent_state_observed_ok: "observed_ok r \<Longrightarrow> observed_ok (apply_agent_state ag st trig tick r)"
  unfolding observed_ok_def by (auto simp: apply_agent_state_observed split: if_splits)

lemma apply_agent_state_inv:
  assumes "rec_inv r" and "may_hold ag st r"
  shows "rec_inv (apply_agent_state ag st trig tick r)"
  using assms rec_invD [OF assms(1)]
  by (intro rec_invI)
    (simp_all add: apply_agent_state_swmr apply_agent_state_grants apply_agent_state_fence
      apply_agent_state_observed_ok)

end
