(* ===== verification/Coherence.thy ===== *)
theory Coherence
  imports Registry_Inv
begin

text \<open>
  The coherence invariant of the registry and its preservation by every coordinator operation,
  whether the operation returns or raises. \<open>reg_ok F\<close> always includes \<open>rec_inv\<close> for every
  record. With the flag \<open>F\<close> it also says that every valid copy is current (\<open>fresh\<close>) and that the
  \<open>state_log\<close> callback never raises: a raise in the middle of a pessimistic commit leaves peers
  that were not yet invalidated with a valid but outdated copy.
\<close>

section \<open>The invariant\<close>

definition fresh :: "ArtifactRecord \<Rightarrow> bool" where
  "fresh r \<longleftrightarrow> (\<forall>a. grant_of r a \<noteq> INVALID \<longrightarrow>
     dict_get (last_observed_version_by_agent r) a = Some (art_version (artifact r)))"

definition rec_ok :: "bool \<Rightarrow> uuid \<Rightarrow> ArtifactRecord \<Rightarrow> bool" where
  "rec_ok F art r \<longleftrightarrow> rec_inv r \<and> (F \<longrightarrow> fresh r) \<and> art_id (artifact r) = art"

definition reg_ok :: "bool \<Rightarrow> registry \<Rightarrow> bool" where
  "reg_ok F g \<longleftrightarrow> dict_wf (records g) \<and> (F \<longrightarrow> log_ok g) \<and>
     (\<forall>art r. dict_get (records g) art = Some r \<longrightarrow> rec_ok F art r)"

text \<open>Inside an operation on \<open>art\<close>: its record may be behind on freshness.\<close>

definition reg_mid :: "bool \<Rightarrow> uuid \<Rightarrow> registry \<Rightarrow> ArtifactRecord \<Rightarrow> bool" where
  "reg_mid F art g r \<longleftrightarrow> dict_wf (records g) \<and> (F \<longrightarrow> log_ok g) \<and>
     dict_get (records g) art = Some r \<and> rec_ok False art r \<and>
     (\<forall>b r'. b \<noteq> art \<longrightarrow> dict_get (records g) b = Some r' \<longrightarrow> rec_ok F b r')"

lemma rec_ok_weaken: "rec_ok F art r \<Longrightarrow> rec_ok False art r"
  by (simp add: rec_ok_def)

lemma reg_ok_open: "reg_ok F g \<Longrightarrow> dict_get (records g) art = Some r \<Longrightarrow> reg_mid F art g r \<and> rec_ok F art r"
  by (auto simp: reg_ok_def reg_mid_def intro: rec_ok_weaken)

lemma reg_mid_close: "reg_mid F art g r \<Longrightarrow> rec_ok F art r \<Longrightarrow> reg_ok F g"
  unfolding reg_ok_def reg_mid_def by (metis option.inject)

lemma reg_mid_abort: "reg_mid F art g r \<Longrightarrow> \<not> log_ok g \<Longrightarrow> reg_ok F g"
  by (rule reg_mid_close) (auto simp: reg_mid_def)

lemma reg_mid_lookup: "reg_mid F art g r \<Longrightarrow> dict_get (records g) art = Some r"
  by (simp add: reg_mid_def)

lemma reg_mid_inv: "reg_mid F art g r \<Longrightarrow> rec_inv r"
  by (simp add: reg_mid_def rec_ok_def)

lemma reg_mid_put:
  assumes "reg_mid F art g r" and "rec_ok False art r'"
  shows "reg_mid F art (put_record art r' g) r'"
  using assms by (auto simp: reg_mid_def log_ok_def)

lemma reg_mid_log [simp]: "reg_mid F art (g\<lparr>seq := s, delivered := d\<rparr>) r = reg_mid F art g r"
  by (simp add: reg_mid_def log_ok_def)

lemma log_ok_log [simp]: "log_ok (g\<lparr>seq := s, delivered := d\<rparr>) = log_ok g"
  by (simp add: log_ok_def)

lemma log_ok_put [simp]: "log_ok (put_record art r g) = log_ok g"
  by (simp add: log_ok_def)

text \<open>Transients, reclamation slots and captured bodies do not matter to the invariant.\<close>

lemmas rec_ok_defs = rec_ok_def rec_inv_def swmr_def grants_ok_def fence_ok_def observed_ok_def fresh_def

lemma rec_ok_transient [simp]:
  "rec_ok F art (r\<lparr>transient_by_agent := x, transient_tick_by_agent := y\<rparr>) = rec_ok F art r"
  by (simp add: rec_ok_defs)

lemma rec_ok_reclamation [simp]: "rec_ok F art (r\<lparr>last_reclamation_by_agent := x\<rparr>) = rec_ok F art r"
  by (simp add: rec_ok_defs)

lemma fresh_apply_agent_state: "fresh r \<Longrightarrow> fresh (apply_agent_state ag st trig tick r)"
  unfolding fresh_def by (auto simp: apply_agent_state_observed)

lemma rec_ok_apply_agent_state:
  "rec_ok F art r \<Longrightarrow> may_hold ag st r \<Longrightarrow> rec_ok F art (apply_agent_state ag st trig tick r)"
  by (simp add: rec_ok_def apply_agent_state_inv fresh_apply_agent_state)

lemma swmr_single_writer:
  assumes "swmr r" and "dict_get (state_by_agent r) a = Some s" and "s \<in> M_OR_E_STATES"
    and "dict_get (state_by_agent r) b = Some t" and "t \<in> M_OR_E_STATES"
  shows "a = b"
proof (rule ccontr)
  assume "a \<noteq> b"
  moreover have "grant_of r a \<in> M_OR_E_STATES"
    using assms(2,3) by (simp add: get_default_eq_Some)
  ultimately have "grant_of r b = INVALID" using assms(1) by (blast dest: swmrD)
  with assms(4,5) show False by (simp add: get_default_eq_Some)
qed

lemma check_single_writer_ok:
  assumes "rec_ok F art r"
  shows "check_single_writer (state_by_agent r) = Inr ()"
proof -
  have wf: "dict_wf (state_by_agent r)" and sw: "swmr r"
    using assms by (simp_all add: rec_ok_def rec_inv_def)
  show ?thesis
    unfolding check_single_writer_iff [OF wf] using swmr_single_writer [OF sw] by blast
qed

section \<open>Rules for the registry's primitives\<close>

lemma mid_set_agent_state:
  assumes "reg_mid F art g r" and "may_hold ag st r"
    and "\<And>g'. reg_mid F art g' (apply_agent_state ag st trig tick r) \<Longrightarrow> log_ok g' = log_ok g \<Longrightarrow> Q () g'"
    and "\<And>g'. reg_ok F g' \<Longrightarrow> \<not> log_ok g' \<Longrightarrow> E CallbackError g'"
  shows "wp (set_agent_state art ag st trig tick h) Q E g"
proof (rule wp_set_agent_state [OF reg_mid_lookup [OF assms(1)]])
  have ok: "rec_ok False art (apply_agent_state ag st trig tick r)"
    using assms(1,2) by (intro rec_ok_apply_agent_state) (simp_all add: reg_mid_def)
  have mid: "reg_mid F art (put_record art (apply_agent_state ag st trig tick r) g\<lparr>seq := s, delivered := d\<rparr>)
      (apply_agent_state ag st trig tick r)" for s d
    using reg_mid_put [OF assms(1) ok] by simp
  show "Q () (put_record art (apply_agent_state ag st trig tick r) g\<lparr>seq := s, delivered := d\<rparr>)" for s d
    by (rule assms(3) [OF mid]) simp
  show "E CallbackError (put_record art (apply_agent_state ag st trig tick r) g\<lparr>seq := s, delivered := d\<rparr>)"
    if "\<not> log_ok g" for s d
  proof (rule assms(4))
    show bad: "\<not> log_ok (put_record art (apply_agent_state ag st trig tick r) g\<lparr>seq := s, delivered := d\<rparr>)"
      using that by simp
    show "reg_ok F (put_record art (apply_agent_state ag st trig tick r) g\<lparr>seq := s, delivered := d\<rparr>)"
      by (rule reg_mid_abort [OF mid bad])
  qed
qed

lemma mid_set_agent_transient:
  assumes "reg_mid F art g r"
    and "\<And>g' x y. reg_mid F art g' (r\<lparr>transient_by_agent := x, transient_tick_by_agent := y\<rparr>) \<Longrightarrow>
      log_ok g' = log_ok g \<Longrightarrow> Q () g'"
  shows "wp (set_agent_transient art ag ts t) Q E g"
  unfolding set_agent_transient_def wp_simps reg_mid_lookup [OF assms(1)] option.case
  by (rule assms(2), rule reg_mid_put [OF assms(1)])
    (use assms(1) in \<open>simp_all add: reg_mid_def\<close>)

lemma mid_clear_agent_transient:
  assumes "reg_mid F art g r"
    and "\<And>g' x y. reg_mid F art g' (r\<lparr>transient_by_agent := x, transient_tick_by_agent := y\<rparr>) \<Longrightarrow>
      log_ok g' = log_ok g \<Longrightarrow> Q () g'"
  shows "wp (clear_agent_transient art ag) Q E g"
  unfolding clear_agent_transient_def wp_simps reg_mid_lookup [OF assms(1)] option.case
  by (rule assms(2), rule reg_mid_put [OF assms(1)])
    (use assms(1) in \<open>simp_all add: reg_mid_def\<close>)

lemma mid_validate_single_writer:
  assumes "reg_mid F art g r" and "Q () g"
  shows "wp (validate_single_writer art) Q E g"
proof -
  have "check_single_writer (get_state_map art g) = Inr ()"
    using assms(1) by (auto simp: get_state_map_def reg_mid_def intro: check_single_writer_ok)
  with assms(2) show ?thesis by (simp add: wp_simps)
qed

section \<open>Pessimistic writes\<close>

text \<open>
  The invalidation loop of \<open>write\<close> and \<open>commit\<close>: it leaves every peer of \<open>ag\<close> invalid and
  the caller's own entry and the artifact as they were.
\<close>

definition peers_listed :: "uuid \<Rightarrow> ArtifactRecord \<Rightarrow> (uuid, MESIState) dict \<Rightarrow> bool" where
  "peers_listed ag r todo \<longleftrightarrow>
     (\<forall>p. p \<noteq> ag \<longrightarrow> grant_of r p \<noteq> INVALID \<longrightarrow> (\<exists>st. (p, st) \<in> set todo \<and> st \<noteq> INVALID))"

lemma peers_listed_map: "peers_listed ag r (state_by_agent r)"
  unfolding peers_listed_def
  by (auto simp: get_default_def split: option.splits dest: dict_get_in_set)

lemma peers_listed_skip: "peers_listed ag r ((p, st) # todo) \<Longrightarrow> p = ag \<or> st = INVALID \<Longrightarrow> peers_listed ag r todo"
  unfolding peers_listed_def by auto

lemma peers_listed_next:
  "peers_listed ag r ((p, st) # todo) \<Longrightarrow> state_by_agent r' = dict_set p INVALID (state_by_agent r) \<Longrightarrow>
   peers_listed ag r' todo"
  unfolding peers_listed_def by (auto split: if_splits)

lemma mid_invalidate_peer:
  assumes mid: "reg_mid F art g r"
    and todo: "peers_listed ag r ((p, st) # todo)"
    and post: "\<And>sigs' g' r'. reg_mid F art g' r' \<Longrightarrow> peers_listed ag r' todo \<Longrightarrow>
      artifact r' = artifact r \<Longrightarrow> grant_of r' ag = grant_of r ag \<Longrightarrow> Q sigs' g'"
    and err: "\<And>g'. reg_ok F g' \<Longrightarrow> \<not> log_ok g' \<Longrightarrow> E CallbackError g'"
  shows "wp (invalidate_peer art ag trig v tick sigs (p, st)) Q E g"
proof (cases "p = ag \<or> st = INVALID")
  case True
  with todo have "peers_listed ag r todo" by (rule peers_listed_skip)
  with True show ?thesis by (auto simp: invalidate_peer_def wp_simps intro: post [OF mid])
next
  case False
  have state: "wp (andthen (set_agent_state art p INVALID trig tick None)
      (\<lambda>_. ret (sigs @ [signal art v tick ag]))) Q E g'"
    if "reg_mid F art g' r'" "artifact r' = artifact r" "state_by_agent r' = state_by_agent r" for g' r'
    unfolding wp_simps
  proof (rule mid_set_agent_state [OF that(1)])
    show "may_hold p INVALID r'" by simp
  next
    fix g''
    assume g'': "reg_mid F art g'' (apply_agent_state p INVALID trig tick r')"
    have "peers_listed ag (apply_agent_state p INVALID trig tick r') todo"
      by (rule peers_listed_next [OF todo]) (simp add: that(3))
    with False that(2,3) show "Q (sigs @ [signal art v tick ag]) g''"
      by (intro post [OF g'']) simp_all
  qed (rule err)
  show ?thesis
  proof (cases "invalidation_transient_for_state st")
    case None
    with False state [OF mid] show ?thesis by (simp add: invalidate_peer_def wp_simps)
  next
    case (Some ts)
    have "wp (set_agent_transient art p ts tick)
        (\<lambda>_. wp (andthen (set_agent_state art p INVALID trig tick None)
          (\<lambda>_. ret (sigs @ [signal art v tick ag]))) Q E) E g"
      by (rule mid_set_agent_transient [OF mid], erule state) simp_all
    with False Some show ?thesis by (simp add: invalidate_peer_def wp_simps)
  qed
qed

lemma mid_invalidate_loop:
  assumes mid: "reg_mid F art g r" and todo: "peers_listed ag r todo"
    and post: "\<And>sigs' g' r'. reg_mid F art g' r' \<Longrightarrow> (\<forall>p. p \<noteq> ag \<longrightarrow> grant_of r' p = INVALID) \<Longrightarrow>
      artifact r' = artifact r \<Longrightarrow> grant_of r' ag = grant_of r ag \<Longrightarrow> Q sigs' g'"
    and err: "\<And>g'. reg_ok F g' \<Longrightarrow> \<not> log_ok g' \<Longrightarrow> E CallbackError g'"
  shows "wp (for_loop todo (invalidate_peer art ag trig v tick) sigs) Q E g"
proof (rule wp_for_loop [where I = "\<lambda>ys sigs' g'. \<exists>r'. reg_mid F art g' r' \<and> peers_listed ag r' ys \<and>
      artifact r' = artifact r \<and> grant_of r' ag = grant_of r ag"])
  show "\<exists>r'. reg_mid F art g r' \<and> peers_listed ag r' todo \<and> artifact r' = artifact r \<and> grant_of r' ag = grant_of r ag"
    using mid todo by blast
next
  fix y ys a t
  assume "\<exists>r'. reg_mid F art t r' \<and> peers_listed ag r' (y # ys) \<and> artifact r' = artifact r \<and> grant_of r' ag = grant_of r ag"
  then obtain r' where r': "reg_mid F art t r'" "peers_listed ag r' ((fst y, snd y) # ys)"
      "artifact r' = artifact r" "grant_of r' ag = grant_of r ag" by auto
  have "wp (invalidate_peer art ag trig v tick a (fst y, snd y))
      (\<lambda>sigs' g'. \<exists>r'. reg_mid F art g' r' \<and> peers_listed ag r' ys \<and> artifact r' = artifact r \<and> grant_of r' ag = grant_of r ag) E t"
    by (rule mid_invalidate_peer [OF r'(1,2)]) (use r'(3,4) err in auto)
  then show "wp (invalidate_peer art ag trig v tick a y)
      (\<lambda>sigs' g'. \<exists>r'. reg_mid F art g' r' \<and> peers_listed ag r' ys \<and> artifact r' = artifact r \<and> grant_of r' ag = grant_of r ag) E t"
    by simp
next
  fix a t
  assume "\<exists>r'. reg_mid F art t r' \<and> peers_listed ag r' [] \<and> artifact r' = artifact r \<and> grant_of r' ag = grant_of r ag"
  then show "Q a t" by (auto simp: peers_listed_def intro: post)
qed

text \<open>The closing part of \<open>write\<close>, \<open>commit\<close> and \<open>fetch\<close>: grant, clear the transient, validate.\<close>

definition grant_and_settle :: "uuid \<Rightarrow> uuid \<Rightarrow> MESIState \<Rightarrow> string \<Rightarrow> int \<Rightarrow> string option \<Rightarrow> 'a \<Rightarrow> 'a rop" where
  "grant_and_settle art ag st trig tick h x =
     andthen (set_agent_state art ag st trig tick h) (\<lambda>_.
     andthen (clear_agent_transient art ag) (\<lambda>_.
     andthen (validate_single_writer art) (\<lambda>_. ret x)))"

lemma fresh_only_holder:
  assumes "st \<noteq> INVALID" and "\<forall>p. p \<noteq> ag \<longrightarrow> grant_of r p = INVALID"
  shows "fresh (apply_agent_state ag st trig tick r)"
  using assms by (simp add: fresh_def apply_agent_state_observed)

lemma mid_grant_and_settle:
  assumes mid: "reg_mid F art g r" and hold: "may_hold ag st r"
    and fr: "F \<Longrightarrow> fresh (apply_agent_state ag st trig tick r)"
    and post: "\<And>g'. reg_ok F g' \<Longrightarrow> Q x g'"
    and err: "\<And>g'. reg_ok F g' \<Longrightarrow> \<not> log_ok g' \<Longrightarrow> E CallbackError g'"
  shows "wp (grant_and_settle art ag st trig tick h x) Q E g"
  unfolding grant_and_settle_def wp_simps
proof (rule mid_set_agent_state [OF mid hold])
  fix g1
  assume g1: "reg_mid F art g1 (apply_agent_state ag st trig tick r)"
  show "wp (clear_agent_transient art ag)
      (\<lambda>_ s. case check_single_writer (get_state_map art s) of Inl e \<Rightarrow> E e s | Inr u \<Rightarrow> Q x s) E g1"
  proof (rule mid_clear_agent_transient [OF g1])
    fix g2 y z
    assume g2: "reg_mid F art g2 (apply_agent_state ag st trig tick r
        \<lparr>transient_by_agent := y, transient_tick_by_agent := z\<rparr>)"
    have "rec_ok F art (apply_agent_state ag st trig tick r)"
      using g1 fr by (simp add: reg_mid_def rec_ok_def)
    then have "rec_ok F art (apply_agent_state ag st trig tick r
        \<lparr>transient_by_agent := y, transient_tick_by_agent := z\<rparr>)" by simp
    with g2 have "reg_ok F g2" by (rule reg_mid_close)
    then have "wp (validate_single_writer art) (\<lambda>_. Q x) E g2"
      by (intro mid_validate_single_writer [OF g2] post)
    then show "case check_single_writer (get_state_map art g2) of Inl e \<Rightarrow> E e g2 | Inr u \<Rightarrow> Q x g2"
      by (simp add: wp_simps)
  qed
qed (rule err)

lemma write_impl_fold:
  "write_impl ag art tick =
     andthen (require_artifact art) (\<lambda>a.
     andthen (set_agent_transient art ag IED tick) (\<lambda>_.
     andthen (asks (get_state_map art)) (\<lambda>state_map.
     andthen (for_loop state_map (invalidate_peer art ag ''write'' (art_version a) tick) [])
       (grant_and_settle art ag EXCLUSIVE ''write'' tick None))))"
  by (simp add: write_impl_def grant_and_settle_def [abs_def])

theorem write_reg_ok: "keeps (reg_ok F) (write_impl ag art tick)"
proof (rule keepsI)
  fix g
  assume ok: "reg_ok F g"
  show "wp (write_impl ag art tick) (\<lambda>_. reg_ok F) (\<lambda>_. reg_ok F) g"
  proof (cases "dict_get (records g) art")
    case None
    with ok show ?thesis by (simp add: write_impl_def wp_simps get_artifact_def)
  next
    case (Some r)
    with ok have mid: "reg_mid F art g r" by (simp add: reg_ok_open)
    have "wp (set_agent_transient art ag IED tick)
      (\<lambda>_. wp (andthen (asks (get_state_map art)) (\<lambda>state_map.
        andthen (for_loop state_map (invalidate_peer art ag ''write'' (art_version (artifact r)) tick) [])
          (grant_and_settle art ag EXCLUSIVE ''write'' tick None))) (\<lambda>_. reg_ok F) (\<lambda>_. reg_ok F))
      (\<lambda>_. reg_ok F) g"
    proof (rule mid_set_agent_transient [OF mid])
      fix g' x y
      let ?r = "r\<lparr>transient_by_agent := x, transient_tick_by_agent := y\<rparr>"
      assume g': "reg_mid F art g' ?r"
      have smap: "get_state_map art g' = state_by_agent ?r"
        using reg_mid_lookup [OF g'] by (simp add: get_state_map_def)
      show "wp (andthen (asks (get_state_map art)) (\<lambda>state_map.
        andthen (for_loop state_map (invalidate_peer art ag ''write'' (art_version (artifact r)) tick) [])
          (grant_and_settle art ag EXCLUSIVE ''write'' tick None))) (\<lambda>_. reg_ok F) (\<lambda>_. reg_ok F) g'"
        unfolding wp_simps smap
      proof (rule mid_invalidate_loop [OF g' peers_listed_map])
        fix sigs g'' r''
        assume g'': "reg_mid F art g'' r''" and peers: "\<forall>p. p \<noteq> ag \<longrightarrow> grant_of r'' p = INVALID"
        show "wp (grant_and_settle art ag EXCLUSIVE ''write'' tick None sigs) (\<lambda>_. reg_ok F) (\<lambda>_. reg_ok F) g''"
          by (rule mid_grant_and_settle [OF g''])
            (use peers in \<open>auto simp: may_hold_def intro: fresh_only_holder\<close>)
      qed
    qed
    then show ?thesis
      unfolding write_impl_fold wp_simps get_artifact_def Some option.map option.case .
  qed
qed

section \<open>The pessimistic commit\<close>

lemma capture_version_frame [simp]:
  "artifact (capture_version g v b r) = artifact r"
  "rec_content (capture_version g v b r) = rec_content r"
  "state_by_agent (capture_version g v b r) = state_by_agent r"
  "transient_by_agent (capture_version g v b r) = transient_by_agent r"
  "transient_tick_by_agent (capture_version g v b r) = transient_tick_by_agent r"
  "last_writer (capture_version g v b r) = last_writer r"
  "granted_at_tick_by_agent (capture_version g v b r) = granted_at_tick_by_agent r"
  "last_reclamation_by_agent (capture_version g v b r) = last_reclamation_by_agent r"
  "owner_generation (capture_version g v b r) = owner_generation r"
  "read_generation_by_agent (capture_version g v b r) = read_generation_by_agent r"
  "last_observed_version_by_agent (capture_version g v b r) = last_observed_version_by_agent r"
  by (simp_all add: capture_version_def Let_def split: option.splits)

text \<open>The record invariant only looks at the grant and fence dictionaries and at the version.\<close>

lemma rec_inv_cong:
  assumes "rec_inv r"
    and "state_by_agent r' = state_by_agent r" "granted_at_tick_by_agent r' = granted_at_tick_by_agent r"
    "owner_generation r' = owner_generation r" "read_generation_by_agent r' = read_generation_by_agent r"
    "last_observed_version_by_agent r' = last_observed_version_by_agent r"
    and "art_version (artifact r) \<le> art_version (artifact r')"
  shows "rec_inv r'"
  using assms unfolding rec_inv_def swmr_def grants_ok_def fence_ok_def observed_ok_def
  by simp (blast intro: order_trans)

definition stored :: "registry \<Rightarrow> Artifact \<Rightarrow> body \<Rightarrow> uuid option \<Rightarrow> ArtifactRecord \<Rightarrow> ArtifactRecord" where
  "stored g upd b writer r =
     (if retain_versions g then capture_version g (art_version upd) b r else r)
       \<lparr>artifact := upd, rec_content := b, last_writer := writer\<rparr>"

lemma stored_frame [simp]:
  "artifact (stored g upd b writer r) = upd"
  "rec_content (stored g upd b writer r) = b"
  "last_writer (stored g upd b writer r) = writer"
  "state_by_agent (stored g upd b writer r) = state_by_agent r"
  "transient_by_agent (stored g upd b writer r) = transient_by_agent r"
  "transient_tick_by_agent (stored g upd b writer r) = transient_tick_by_agent r"
  "granted_at_tick_by_agent (stored g upd b writer r) = granted_at_tick_by_agent r"
  "last_reclamation_by_agent (stored g upd b writer r) = last_reclamation_by_agent r"
  "owner_generation (stored g upd b writer r) = owner_generation r"
  "read_generation_by_agent (stored g upd b writer r) = read_generation_by_agent r"
  "last_observed_version_by_agent (stored g upd b writer r) = last_observed_version_by_agent r"
  by (simp_all add: stored_def)

lemma holder_not_fenced: "rec_inv r \<Longrightarrow> grant_of r ag \<in> M_OR_E_STATES \<Longrightarrow> \<not> fenced_out ag r"
  by (simp add: fenced_out_def rec_inv_def fence_ok_def del: M_OR_E_iff)

lemma wp_set_artifact_and_content [wp_simps]:
  "wp (set_artifact_and_content art upd b writer (Some ag)) Q E g =
     (case dict_get (records g) art of
        None \<Rightarrow> E KeyError g
      | Some r \<Rightarrow>
          (if fenced_out ag r
           then E (StaleReadGeneration ag art (the (dict_get (read_generation_by_agent r) ag)) (owner_generation r)) g
           else Q () (put_record art (stored g upd b writer r) g)))"
  by (simp add: set_artifact_and_content_def wp_simps fenced_out_def stored_def Let_def split: option.splits)

lemma mid_set_artifact_and_content:
  assumes mid: "reg_mid F art g r" and holder: "grant_of r ag \<in> M_OR_E_STATES"
    and upd: "art_id upd = art" "art_version (artifact r) \<le> art_version upd"
    and post: "\<And>g' r'. reg_mid F art g' r' \<Longrightarrow> state_by_agent r' = state_by_agent r \<Longrightarrow> artifact r' = upd \<Longrightarrow> Q () g'"
  shows "wp (set_artifact_and_content art upd b writer (Some ag)) Q E g"
proof -
  have inv: "rec_inv r" using mid by (rule reg_mid_inv)
  have "rec_inv (stored g upd b writer r)"
    by (rule rec_inv_cong [OF inv]) (simp_all add: upd)
  then have "rec_ok False art (stored g upd b writer r)" by (simp add: rec_ok_def upd)
  then have "reg_mid F art (put_record art (stored g upd b writer r) g) (stored g upd b writer r)"
    by (rule reg_mid_put [OF mid])
  then have "Q () (put_record art (stored g upd b writer r) g)" by (rule post) simp_all
  then show ?thesis
    by (simp add: wp_simps reg_mid_lookup [OF mid] holder_not_fenced [OF inv holder])
qed

definition commit_tail ::
  "(string \<Rightarrow> string) \<Rightarrow> uuid \<Rightarrow> uuid \<Rightarrow> string \<Rightarrow> int \<Rightarrow> string option \<Rightarrow> Artifact
   \<Rightarrow> (Artifact \<times> InvalidationSignal list) rop" where
  "commit_tail sha256_hex ag art text tick chash upd =
     andthen (asks (get_state_map art)) (\<lambda>state_map.
     andthen (for_loop state_map (invalidate_peer art ag ''commit'' (art_version upd) tick) []) (\<lambda>signals.
     andthen (case chash of Some h \<Rightarrow> ret h | None \<Rightarrow> lift_sum (compute_content_hash sha256_hex (Text text)))
        (\<lambda>commit_hash.
       grant_and_settle art ag MODIFIED ''commit'' tick (Some commit_hash) (upd, signals))))"

lemma mid_commit_tail:
  assumes mid: "reg_mid F art g r"
    and post: "\<And>sigs g'. reg_ok F g' \<Longrightarrow> Q (upd, sigs) g'"
    and err: "\<And>g'. reg_ok F g' \<Longrightarrow> \<not> log_ok g' \<Longrightarrow> E CallbackError g'"
  shows "wp (commit_tail sha256_hex ag art text tick chash upd) Q E g"
proof -
  have smap: "get_state_map art g = state_by_agent r"
    using reg_mid_lookup [OF mid] by (simp add: get_state_map_def)
  show ?thesis
    unfolding commit_tail_def wp_simps smap
  proof (rule mid_invalidate_loop [OF mid peers_listed_map])
    fix sigs g' r'
    assume g': "reg_mid F art g' r'" and peers: "\<forall>p. p \<noteq> ag \<longrightarrow> grant_of r' p = INVALID"
    have "may_hold ag MODIFIED r'" using peers by (simp add: may_hold_def)
    then have "wp (grant_and_settle art ag MODIFIED ''commit'' tick (Some h) (upd, sigs)) Q E g'" for h
      by (rule mid_grant_and_settle [OF g']) (intro fresh_only_holder post err peers; simp)+
    then show "wp (case chash of None \<Rightarrow> lift_sum (compute_content_hash sha256_hex (Text text)) | Some h \<Rightarrow> ret h)
       (\<lambda>a. wp (grant_and_settle art ag MODIFIED ''commit'' tick (Some a) (upd, sigs)) Q E) E g'"
      by (simp add: wp_simps compute_content_hash_def split: option.split)
  qed (rule err)
qed

lemma andthen_lift_Inr: "andthen (lift_sum (Inr u)) f = f u"
  by (simp add: andthen_def lift_sum_def)

lemma commit_impl_fold:
  "commit_impl sha256_hex ag art text tick chash toks =
     andthen (require_artifact art) (\<lambda>a.
     andthen (asks (get_agent_state art ag)) (\<lambda>agent_state.
       if agent_state \<notin> {Some EXCLUSIVE, Some MODIFIED}
       then andthen (asks (get_last_reclamation ag art)) (\<lambda>reclamation.
              throw (CommitNotAllowed ag art agent_state reclamation))
       else
     andthen (set_agent_transient art ag MWB tick) (\<lambda>_.
       let upd = \<lparr>art_id = art_id a, art_name = art_name a, art_version = art_version a + 1,
                  art_hash = (case chash of None \<Rightarrow> art_hash a | Some h \<Rightarrow> Some h),
                  art_tokens = (case toks of None \<Rightarrow> art_tokens a | Some t \<Rightarrow> Some t),
                  art_depends_on = art_depends_on a\<rparr>
       in
     andthen (except (set_artifact_and_content art upd (Text text) (Some ag) (Some ag))
        (\<lambda>e. case e of
               StaleReadGeneration _ _ _ _ \<Rightarrow> andthen (clear_agent_transient art ag) (\<lambda>_. throw e)
             | _ \<Rightarrow> throw e)) (\<lambda>_.
     commit_tail sha256_hex ag art text tick chash upd))))"
  unfolding commit_impl_def commit_tail_def grant_and_settle_def Let_def check_monotonic_version_def
  by (simp add: andthen_lift_Inr cong: if_cong)

lemma mid_holder:
  assumes "reg_mid F art g r" and "get_agent_state art ag g \<in> {Some EXCLUSIVE, Some MODIFIED}"
  shows "grant_of r ag \<in> M_OR_E_STATES"
  using assms by (auto simp: get_agent_state_def reg_mid_lookup get_default_eq_Some)

theorem commit_reg_ok: "keeps (reg_ok F) (commit_impl sha256_hex ag art text tick chash toks)"
proof (rule keepsI)
  fix g
  assume ok: "reg_ok F g"
  show "wp (commit_impl sha256_hex ag art text tick chash toks) (\<lambda>_. reg_ok F) (\<lambda>_. reg_ok F) g"
  proof (cases "dict_get (records g) art")
    case None
    with ok show ?thesis by (simp add: commit_impl_def wp_simps get_artifact_def)
  next
    case (Some r)
    with ok have mid: "reg_mid F art g r" and rok: "rec_ok F art r" by (simp_all add: reg_ok_open)
    show ?thesis
    proof (cases "get_agent_state art ag g \<in> {Some EXCLUSIVE, Some MODIFIED}")
      case False
      with ok Some show ?thesis by (auto simp: commit_impl_def wp_simps get_artifact_def)
    next
      case True
      with mid have holder: "grant_of r ag \<in> M_OR_E_STATES" by (rule mid_holder)
      let ?upd = "\<lparr>art_id = art_id (artifact r), art_name = art_name (artifact r),
        art_version = art_version (artifact r) + 1,
        art_hash = (case chash of None \<Rightarrow> art_hash (artifact r) | Some h \<Rightarrow> Some h),
        art_tokens = (case toks of None \<Rightarrow> art_tokens (artifact r) | Some t \<Rightarrow> Some t),
        art_depends_on = art_depends_on (artifact r)\<rparr>"
      let ?rest = "andthen (except (set_artifact_and_content art ?upd (Text text) (Some ag) (Some ag))
        (\<lambda>e. case e of StaleReadGeneration _ _ _ _ \<Rightarrow> andthen (clear_agent_transient art ag) (\<lambda>_. throw e)
             | _ \<Rightarrow> throw e)) (\<lambda>_. commit_tail sha256_hex ag art text tick chash ?upd)"
      have "wp (set_agent_transient art ag MWB tick)
        (\<lambda>_. wp ?rest (\<lambda>_. reg_ok F) (\<lambda>_. reg_ok F)) (\<lambda>_. reg_ok F) g"
      proof (rule mid_set_agent_transient [OF mid])
        fix g' x y
        assume g': "reg_mid F art g' (r\<lparr>transient_by_agent := x, transient_tick_by_agent := y\<rparr>)"
        show "wp ?rest (\<lambda>_. reg_ok F) (\<lambda>_. reg_ok F) g'"
          unfolding wp_andthen wp_except
        proof (rule mid_set_artifact_and_content [OF g'])
          fix g'' r''
          assume "reg_mid F art g'' r''"
          then show "wp (commit_tail sha256_hex ag art text tick chash ?upd) (\<lambda>_. reg_ok F) (\<lambda>_. reg_ok F) g''"
            by (rule mid_commit_tail)
        qed (use holder rok in \<open>simp_all add: rec_ok_def\<close>)
      qed
      with True Some show ?thesis
        unfolding commit_impl_fold by (simp only: wp_simps get_artifact_def option.map option.case if_False
            not_True_eq_False Let_def)
    qed
  qed
qed

section \<open>Fetch\<close>

text \<open>The downgrade loop of \<open>fetch\<close>: each write holder among the peers becomes a reader.\<close>

definition downgraded :: "ArtifactRecord \<Rightarrow> ArtifactRecord \<Rightarrow> bool" where
  "downgraded r r' \<longleftrightarrow>
     (\<forall>p. grant_of r' p = grant_of r p \<or> grant_of r' p = SHARED \<and> grant_of r p \<in> M_OR_E_STATES)"

lemma downgraded_INVALID: "downgraded r r' \<Longrightarrow> grant_of r p = INVALID \<Longrightarrow> grant_of r' p = INVALID"
  unfolding downgraded_def by (drule spec [of _ p]) simp

lemma downgraded_reader:
  "downgraded r r' \<Longrightarrow> grant_of r p \<notin> M_OR_E_STATES \<Longrightarrow> grant_of r' p \<notin> M_OR_E_STATES"
  unfolding downgraded_def by (drule spec [of _ p]) (simp del: M_OR_E_iff)

lemma downgraded_step:
  "downgraded r r' \<Longrightarrow> grant_of r p \<in> M_OR_E_STATES \<Longrightarrow> downgraded r (apply_agent_state p SHARED trig tick r')"
  by (simp add: downgraded_def del: M_OR_E_iff)

lemma downgraded_may_hold:
  assumes "downgraded r r'" and "swmr r" and "grant_of r p \<in> M_OR_E_STATES"
  shows "may_hold p SHARED r'"
proof -
  have "grant_of r' b \<notin> M_OR_E_STATES" if "b \<noteq> p" for b
  proof -
    have "grant_of r b = INVALID" using swmrD [OF assms(2,3)] that by metis
    with assms(1) show ?thesis by (simp add: downgraded_INVALID)
  qed
  then show ?thesis by (simp add: may_hold_def)
qed

text \<open>What holds between two downgrades, with \<open>ys\<close> the peers still to be visited.\<close>

definition downgrading :: "bool \<Rightarrow> uuid \<Rightarrow> uuid \<Rightarrow> ArtifactRecord \<Rightarrow> uuid list \<Rightarrow> registry \<Rightarrow> bool" where
  "downgrading F art ag r ys g \<longleftrightarrow>
     (\<exists>r'. reg_mid F art g r' \<and> rec_ok F art r' \<and> downgraded r r' \<and>
        (\<forall>p. p \<noteq> ag \<longrightarrow> grant_of r' p \<in> M_OR_E_STATES \<longrightarrow> p \<in> set ys))"

lemma downgrading_step:
  assumes "downgrading F art ag r (p # ys) g" and sw: "swmr r"
    and err: "\<And>g'. reg_ok F g' \<Longrightarrow> E CallbackError g'"
  shows "wp (downgrade_holder art tick (state_by_agent r) u p) (\<lambda>_. downgrading F art ag r ys) E g"
proof -
  obtain r' where g: "reg_mid F art g r'" "rec_ok F art r'" and dg: "downgraded r r'"
    and left: "\<And>q. q \<noteq> ag \<Longrightarrow> grant_of r' q \<in> M_OR_E_STATES \<Longrightarrow> q \<in> set (p # ys)"
    using assms(1) unfolding downgrading_def by blast
  show ?thesis
  proof (cases "grant_of r p \<in> M_OR_E_STATES")
    case False
    with dg have "grant_of r' p \<notin> M_OR_E_STATES" by (rule downgraded_reader)
    then have "q \<in> set ys" if "q \<noteq> ag" "grant_of r' q \<in> M_OR_E_STATES" for q
      using left [OF that] that by auto
    with g dg have "downgrading F art ag r ys g" unfolding downgrading_def by blast
    with False show ?thesis by (simp add: downgrade_holder_def wp_simps)
  next
    case True
    have hold: "may_hold p SHARED r'" by (rule downgraded_may_hold [OF dg sw True])
    have "wp (set_agent_state art p SHARED ''fetch'' tick None) (\<lambda>_. downgrading F art ag r ys) E g"
    proof (rule mid_set_agent_state [OF g(1) hold])
      fix g'
      assume g': "reg_mid F art g' (apply_agent_state p SHARED ''fetch'' tick r')"
      have "rec_ok F art (apply_agent_state p SHARED ''fetch'' tick r')"
        by (rule rec_ok_apply_agent_state [OF g(2) hold])
      moreover have "q \<in> set ys"
        if "q \<noteq> ag" "grant_of (apply_agent_state p SHARED ''fetch'' tick r') q \<in> M_OR_E_STATES" for q
        using that left [OF that(1)] by (auto split: if_splits)
      ultimately show "downgrading F art ag r ys g'"
        using g' downgraded_step [OF dg True] unfolding downgrading_def by blast
    qed (rule err)
    with True show ?thesis by (simp add: downgrade_holder_def del: M_OR_E_iff)
  qed
qed

definition other_holders :: "uuid \<Rightarrow> (uuid, MESIState) dict \<Rightarrow> uuid list" where
  "other_holders ag m = map fst (filter (\<lambda>(peer, st). peer \<noteq> ag \<and> st \<noteq> INVALID) m)"

lemma set_other_holders:
  assumes wf: "dict_wf (state_by_agent r)"
  shows "set (other_holders ag (state_by_agent r)) = {p. p \<noteq> ag \<and> grant_of r p \<noteq> INVALID}"
proof (intro set_eqI iffI)
  fix p
  assume "p \<in> set (other_holders ag (state_by_agent r))"
  then obtain st where "(p, st) \<in> set (state_by_agent r)" "p \<noteq> ag" "st \<noteq> INVALID"
    by (auto simp: other_holders_def)
  moreover from this have "grant_of r p = st"
    by (intro get_default_eq_Some) (rule dict_in_set_get [OF wf, THEN iffD1])
  ultimately show "p \<in> {p. p \<noteq> ag \<and> grant_of r p \<noteq> INVALID}" by simp
next
  fix p
  assume "p \<in> {p. p \<noteq> ag \<and> grant_of r p \<noteq> INVALID}"
  then obtain st where "dict_get (state_by_agent r) p = Some st" "p \<noteq> ag" "st \<noteq> INVALID"
    by (auto simp: get_default_def split: option.splits)
  then show "p \<in> set (other_holders ag (state_by_agent r))"
    by (force simp: other_holders_def dest: dict_get_in_set)
qed

definition fetch_grant :: "uuid \<Rightarrow> (uuid, MESIState) dict \<Rightarrow> MESIState" where
  "fetch_grant ag m = (if other_holders ag m = [] then EXCLUSIVE else SHARED)"

lemma fetch_fold:
  "fetch art ag tick =
     andthen (require_artifact art) (\<lambda>a.
     andthen (asks (get_content art)) (\<lambda>content.
       case content of None \<Rightarrow> throw (ArtifactContentMissing art)
       | Some b \<Rightarrow>
     andthen (asks (get_state_map art)) (\<lambda>m.
     andthen (set_agent_transient art ag (if fetch_grant ag m = EXCLUSIVE then IED else ISG) tick) (\<lambda>_.
     andthen (for_loop (other_holders ag m) (downgrade_holder art tick m) ()) (\<lambda>_.
       grant_and_settle art ag (fetch_grant ag m) ''fetch'' tick None
         (FetchResponse art (art_version a) b (fetch_grant ag m)))))))"
  by (simp add: fetch_def grant_and_settle_def other_holders_def fetch_grant_def Let_def cong: option.case_cong)

lemma downgrading_start:
  assumes "reg_mid F art g r'" and "rec_ok F art r'" and "state_by_agent r' = state_by_agent r"
  shows "downgrading F art ag r (other_holders ag (state_by_agent r)) g"
proof -
  have "dict_wf (state_by_agent r)" using assms by (auto simp: rec_ok_def rec_inv_def)
  then have "p \<in> set (other_holders ag (state_by_agent r))" if "p \<noteq> ag" "grant_of r p \<in> M_OR_E_STATES" for p
    using that by (auto simp: set_other_holders)
  with assms show ?thesis
    unfolding downgrading_def downgraded_def by (intro exI [of _ r'] conjI) (simp_all del: M_OR_E_iff)
qed

lemma downgrading_may_hold:
  assumes "downgraded r r'" and "dict_wf (state_by_agent r)"
    and "\<forall>p. p \<noteq> ag \<longrightarrow> grant_of r' p \<notin> M_OR_E_STATES"
  shows "may_hold ag (fetch_grant ag (state_by_agent r)) r'"
proof (cases "other_holders ag (state_by_agent r) = []")
  case True
  then have "grant_of r p = INVALID" if "p \<noteq> ag" for p
    using that set_other_holders [OF assms(2), of ag] by auto
  with assms(1) have "grant_of r' p = INVALID" if "p \<noteq> ag" for p
    using that by (simp add: downgraded_INVALID)
  with True show ?thesis by (simp add: fetch_grant_def may_hold_def)
next
  case False
  with assms(3) show ?thesis by (simp add: fetch_grant_def may_hold_def)
qed

lemma mid_fetch_loop:
  fixes r :: ArtifactRecord
  assumes mid: "reg_mid F art g r'" and ok: "rec_ok F art r'" and smap: "state_by_agent r' = state_by_agent r"
    and post: "\<And>g'. reg_ok F g' \<Longrightarrow> Q x g'" and err: "\<And>g'. reg_ok F g' \<Longrightarrow> E CallbackError g'"
  shows "wp (andthen (for_loop (other_holders ag (state_by_agent r)) (downgrade_holder art tick (state_by_agent r)) ())
     (\<lambda>_. grant_and_settle art ag (fetch_grant ag (state_by_agent r)) ''fetch'' tick None x)) Q E g"
  unfolding wp_andthen
proof (rule wp_for_loop [where I = "\<lambda>ys _. downgrading F art ag r ys"])
  have inv: "rec_inv r'" using ok by (simp add: rec_ok_def)
  then have sw: "swmr r" and wf: "dict_wf (state_by_agent r)"
    using smap by (simp_all add: rec_inv_def swmr_def)
  show "downgrading F art ag r (other_holders ag (state_by_agent r)) g"
    by (rule downgrading_start [OF mid ok smap])
  show "wp (downgrade_holder art tick (state_by_agent r) u y) (\<lambda>_. downgrading F art ag r ys) E t"
    if "downgrading F art ag r (y # ys) t" for y ys u t
    by (rule downgrading_step [OF that sw]) (rule err)
  fix u t
  assume "downgrading F art ag r [] t"
  then obtain s where s: "reg_mid F art t s" "rec_ok F art s" "downgraded r s"
    and none: "\<forall>p. p \<noteq> ag \<longrightarrow> grant_of s p \<notin> M_OR_E_STATES"
    unfolding downgrading_def by auto
  show "wp (grant_and_settle art ag (fetch_grant ag (state_by_agent r)) ''fetch'' tick None x) Q E t"
  proof (rule mid_grant_and_settle [OF s(1)])
    show "may_hold ag (fetch_grant ag (state_by_agent r)) s"
      by (rule downgrading_may_hold [OF s(3) wf none])
    show "fresh (apply_agent_state ag (fetch_grant ag (state_by_agent r)) ''fetch'' tick s)" if F
      using s(2) that by (simp add: rec_ok_def fresh_apply_agent_state)
  qed (rule post, assumption, rule err)
qed

theorem fetch_reg_ok: "keeps (reg_ok F) (fetch art ag tick)"
proof (rule keepsI)
  fix g
  assume ok: "reg_ok F g"
  show "wp (fetch art ag tick) (\<lambda>_. reg_ok F) (\<lambda>_. reg_ok F) g"
  proof (cases "dict_get (records g) art")
    case None
    with ok show ?thesis by (simp add: fetch_def wp_simps get_artifact_def)
  next
    case (Some r)
    with ok have mid: "reg_mid F art g r" and rok: "rec_ok F art r" by (simp_all add: reg_ok_open)
    let ?rest = "andthen (for_loop (other_holders ag (state_by_agent r)) (downgrade_holder art tick (state_by_agent r)) ())
      (\<lambda>_. grant_and_settle art ag (fetch_grant ag (state_by_agent r)) ''fetch'' tick None
        (FetchResponse art (art_version (artifact r)) (rec_content r) (fetch_grant ag (state_by_agent r))))"
    have "wp (set_agent_transient art ag ts tick)
        (\<lambda>_. wp ?rest (\<lambda>_. reg_ok F) (\<lambda>_. reg_ok F)) (\<lambda>_. reg_ok F) g" for ts
    proof (rule mid_set_agent_transient [OF mid])
      fix g' x y
      assume g': "reg_mid F art g' (r\<lparr>transient_by_agent := x, transient_tick_by_agent := y\<rparr>)"
      show "wp ?rest (\<lambda>_. reg_ok F) (\<lambda>_. reg_ok F) g'"
        by (rule mid_fetch_loop [OF g']) (use rok in simp_all)
    qed
    moreover have "get_artifact art g = Some (artifact r)" "get_content art g = Some (rec_content r)"
        "get_state_map art g = state_by_agent r"
      using Some by (simp_all add: get_artifact_def get_content_def get_state_map_def)
    ultimately show ?thesis
      unfolding fetch_fold by (simp only: wp_simps option.case)
  qed
qed

end
