(* ===== verification/Coherence_CAS.thy ===== *)
theory Coherence_CAS
  imports Coherence
begin

text \<open>
  The optimistic commits keep the coherence invariant. \<open>won_record\<close> is the record of one artifact
  after a winning compare-and-swap; \<open>commit_all\<close> is shown to apply exactly that update to every
  member of the write-set and to nothing else.
\<close>

section \<open>The winning record\<close>

definition won_record ::
  "registry \<Rightarrow> uuid \<Rightarrow> uuid \<Rightarrow> string \<Rightarrow> int option \<Rightarrow> body option \<Rightarrow> ArtifactRecord \<Rightarrow> ArtifactRecord" where
  "won_record g art ag chash toks b r =
     apply_win g ag b (bumped_artifact art chash toks (artifact r)) (valid_peers ag r) r"

lemma invalidate_peers_frame [simp]:
  "artifact (invalidate_peers ps r) = artifact r"
  "rec_content (invalidate_peers ps r) = rec_content r"
  "transient_by_agent (invalidate_peers ps r) = transient_by_agent r"
  "transient_tick_by_agent (invalidate_peers ps r) = transient_tick_by_agent r"
  "last_writer (invalidate_peers ps r) = last_writer r"
  "version_history (invalidate_peers ps r) = version_history r"
  "version_captured_at (invalidate_peers ps r) = version_captured_at r"
  "last_reclamation_by_agent (invalidate_peers ps r) = last_reclamation_by_agent r"
  "owner_generation (invalidate_peers ps r) = owner_generation r"
  "read_generation_by_agent (invalidate_peers ps r) = read_generation_by_agent r"
  "last_observed_version_by_agent (invalidate_peers ps r) = last_observed_version_by_agent r"
  by (induction ps r rule: invalidate_peers.induct; simp add: Let_def)+

lemma grant_of_invalidate_peers:
  "grant_of (invalidate_peers ps r) p = (if p \<in> fst ` set ps then INVALID else grant_of r p)"
  by (induction ps r rule: invalidate_peers.induct) (simp_all add: Let_def)

lemma granted_invalidate_peers:
  "dict_get (granted_at_tick_by_agent r) p = None \<Longrightarrow>
   dict_get (granted_at_tick_by_agent (invalidate_peers ps r)) p = None"
  by (induction ps r rule: invalidate_peers.induct) (auto simp: Let_def)

lemma wf_invalidate_peers: "dict_wf (state_by_agent r) \<Longrightarrow> dict_wf (state_by_agent (invalidate_peers ps r))"
  by (induction ps r rule: invalidate_peers.induct) (simp_all add: Let_def)

lemma won_record_frame [simp]:
  "artifact (won_record g art ag chash toks b r) = bumped_artifact art chash toks (artifact r)"
  "last_writer (won_record g art ag chash toks b r) = Some ag"
  "transient_by_agent (won_record g art ag chash toks b r) = transient_by_agent r"
  "transient_tick_by_agent (won_record g art ag chash toks b r) = transient_tick_by_agent r"
  "last_reclamation_by_agent (won_record g art ag chash toks b r) = last_reclamation_by_agent r"
  "owner_generation (won_record g art ag chash toks b r) = owner_generation r"
  "read_generation_by_agent (won_record g art ag chash toks b r) = read_generation_by_agent r"
  "last_observed_version_by_agent (won_record g art ag chash toks b r) =
     dict_set ag (art_version (artifact r) + 1) (last_observed_version_by_agent r)"
  "rec_content (won_record g art ag chash toks b r) = (case b of None \<Rightarrow> rec_content r | Some c \<Rightarrow> c)"
  by (simp_all add: won_record_def apply_win_def Let_def bumped_artifact_def split: option.splits)

lemma valid_peers_keys: "p \<noteq> ag \<Longrightarrow> grant_of r p \<noteq> INVALID \<Longrightarrow> p \<in> fst ` set (valid_peers ag r)"
  by (force simp: valid_peers_def get_default_def split: option.splits dest: dict_get_in_set)

lemma grant_of_won_record:
  "grant_of (won_record g art ag chash toks b r) p = (if p = ag then SHARED else INVALID)"
  using valid_peers_keys [of p ag r]
  by (auto simp: won_record_def apply_win_def Let_def grant_of_invalidate_peers split: option.splits)

lemma granted_won_record:
  "dict_get (granted_at_tick_by_agent r) p = None \<Longrightarrow>
   dict_get (granted_at_tick_by_agent (won_record g art ag chash toks b r)) p = None"
  by (simp add: won_record_def apply_win_def Let_def granted_invalidate_peers split: option.splits)

lemma no_other_holder:
  assumes "\<not> has_other_holder ag r" and "p \<noteq> ag"
  shows "grant_of r p \<notin> M_OR_E_STATES"
proof (cases "dict_get (state_by_agent r) p")
  case (Some st)
  then have "(p, st) \<in> set (state_by_agent r)" by (rule dict_get_in_set)
  with assms have "st \<notin> M_OR_E_STATES" unfolding has_other_holder_def list_ex_iff by blast
  with Some show ?thesis by (simp add: get_default_def)
qed (simp add: get_default_def)

lemma won_record_granted:
  assumes "grants_ok r" and "\<not> has_other_holder ag r" and "grant_of r ag \<notin> M_OR_E_STATES"
  shows "dict_get (granted_at_tick_by_agent (won_record g art ag chash toks b r)) p = None"
proof (rule granted_won_record)
  have "grant_of r p \<notin> M_OR_E_STATES" using assms(2,3) no_other_holder by (cases "p = ag") auto
  then show "dict_get (granted_at_tick_by_agent r) p = None"
    using assms(1) unfolding grants_ok_def by blast
qed

lemma won_record_ok:
  assumes ok: "rec_ok F art r" and free: "\<not> has_other_holder ag r" "grant_of r ag \<notin> M_OR_E_STATES"
  shows "rec_ok F art (won_record g art ag chash toks b r)"
proof -
  let ?w = "won_record g art ag chash toks b r"
  have inv: "rec_inv r" using ok by (simp add: rec_ok_def)
  have grant: "grant_of ?w p = (if p = ag then SHARED else INVALID)" for p by (rule grant_of_won_record)
  have "dict_wf (state_by_agent ?w)"
    using rec_invD(1) [OF inv]
    by (simp add: won_record_def apply_win_def Let_def wf_invalidate_peers split: option.splits)
  moreover have "swmr ?w" by (simp add: swmr_def grant)
  moreover have "grants_ok ?w"
    unfolding grants_ok_def by (simp add: grant won_record_granted [OF rec_invD(3) [OF inv] free])
  moreover have "fence_ok ?w" using rec_invD(4) [OF inv] by (simp add: fence_ok_def grant)
  moreover have "observed_ok ?w"
    using rec_invD(5) [OF inv] by (fastforce simp: observed_ok_def bumped_artifact_def)
  moreover have "fresh ?w" by (simp add: fresh_def grant bumped_artifact_def)
  ultimately show ?thesis by (simp add: rec_ok_def rec_inv_def bumped_artifact_def)
qed

section \<open>One compare-and-swap\<close>

lemma live_pins_cong: "session_pins g' = session_pins g \<Longrightarrow> live_pins_for_artifact art g' = live_pins_for_artifact art g"
  by (simp add: live_pins_for_artifact_def)

text \<open>Outside the record, a win only depends on the retention settings, the clock and the pins.\<close>

definition same_env :: "registry \<Rightarrow> registry \<Rightarrow> bool" where
  "same_env g g' \<longleftrightarrow> retain_versions g' = retain_versions g \<and> retention_policy g' = retention_policy g \<and>
     wall_clock g' = wall_clock g \<and> session_pins g' = session_pins g"

lemma capture_version_env: "same_env g g' \<Longrightarrow> capture_version g' v b r = capture_version g v b r"
  by (simp add: same_env_def capture_version_def live_pins_for_artifact_def Let_def cong: option.case_cong)

lemma apply_win_env: "same_env g g' \<Longrightarrow> apply_win g' ag b upd ps r = apply_win g ag b upd ps r"
proof -
  assume env: "same_env g g'"
  then have "retain_versions g' = retain_versions g" by (simp add: same_env_def)
  then show ?thesis unfolding apply_win_def capture_version_env [OF env] by (simp only:)
qed

lemma same_env_log [simp]: "same_env g (g\<lparr>seq := s, delivered := d\<rparr>)"
  by (simp add: same_env_def)

lemma same_env_put [simp]: "same_env g (put_record art r g)"
  by (simp add: same_env_def)

lemma same_env_trans: "same_env g g' \<Longrightarrow> same_env g' g'' \<Longrightarrow> same_env g g''"
  by (simp add: same_env_def)

lemma wp_reg_commit_cas:
  assumes rec: "dict_get (records g) art = Some r"
    and "\<And>cur. arbitrate ag expected r = Corrupt cur \<Longrightarrow> Q (CasCorruption cur) g"
    and "\<And>d. arbitrate ag expected r = Conflicting d \<Longrightarrow>
      Q (CasConflict d) (note_conflict art ag (detail_reason d) g)"
    and win: "\<And>s d. arbitrate ag expected r = Admitted \<Longrightarrow>
      Q (CasWin (bumped_artifact art chash toks (artifact r)) (map fst (valid_peers ag r)))
        (put_record art (won_record g art ag chash toks b r) (g\<lparr>seq := s, delivered := d\<rparr>))"
    and err: "\<And>s d. arbitrate ag expected r = Admitted \<Longrightarrow> \<not> log_ok g \<Longrightarrow>
      E CallbackError (g\<lparr>seq := s, delivered := d\<rparr>)"
  shows "wp (reg_commit_cas art ag expected chash toks b tick trig) Q E g"
proof (cases "arbitrate ag expected r")
  case (Corrupt cur)
  from assms(2) [OF this] this show ?thesis by (simp add: reg_commit_cas_def wp_simps rec)
next
  case (Conflicting d)
  from assms(3) [OF this] this show ?thesis by (simp add: reg_commit_cas_def wp_simps rec)
next
  case Admitted
  let ?upd = "bumped_artifact art chash toks (artifact r)"
  have "wp (emit_batch (win_requests art ag chash trig tick r) 0)
     (\<lambda>_. wp (andthen (modify (\<lambda>g'. put_record art (apply_win g' ag b ?upd (valid_peers ag r) r) g'))
        (\<lambda>_. ret (CasWin ?upd (map fst (valid_peers ag r))))) Q E) E g"
  proof (rule wp_emit_batch)
    show "wp (andthen (modify (\<lambda>g'. put_record art (apply_win g' ag b ?upd (valid_peers ag r) r) g'))
        (\<lambda>_. ret (CasWin ?upd (map fst (valid_peers ag r))))) Q E (g\<lparr>seq := s, delivered := d\<rparr>)" for s d
      using win [OF Admitted, where s = s and d = d]
      by (simp add: wp_simps won_record_def apply_win_env [OF same_env_log])
  qed (rule err [OF Admitted])
  with Admitted show ?thesis by (simp add: reg_commit_cas_def wp_simps rec Let_def)
qed

lemma reg_ok_log [simp]: "reg_ok F (g\<lparr>seq := s, delivered := d\<rparr>) = reg_ok F g"
  by (simp add: reg_ok_def)

lemma reg_ok_put: "reg_ok F g \<Longrightarrow> rec_ok F art r \<Longrightarrow> reg_ok F (put_record art r g)"
  unfolding reg_ok_def by auto

lemma reg_ok_note_conflict [simp]: "reg_ok F (note_conflict art ag why g) = reg_ok F g"
  by (simp add: reg_ok_def note_conflict_def log_ok_def)

lemma reg_ok_lookup: "reg_ok F g \<Longrightarrow> dict_get (records g) art = Some r \<Longrightarrow> rec_ok F art r"
  by (simp add: reg_ok_def)

lemma arbitrate_Admitted:
  "arbitrate ag expected r = Admitted \<longleftrightarrow>
     expected = art_version (artifact r) \<and> \<not> has_other_holder ag r \<and> \<not> fenced_out ag r"
  by (auto simp: arbitrate_def Let_def)

lemma validate_single_writer_ok: "reg_ok F g \<Longrightarrow> check_single_writer (get_state_map art g) = Inr ()"
proof (cases "dict_get (records g) art")
  case None
  then show ?thesis by (simp add: get_state_map_def check_single_writer_def owners_of_def)
next
  case (Some r)
  moreover assume "reg_ok F g"
  ultimately have "check_single_writer (state_by_agent r) = Inr ()"
    by (intro check_single_writer_ok reg_ok_lookup)
  with Some show ?thesis by (simp add: get_state_map_def)
qed

theorem reg_commit_cas_reg_ok:
  assumes ok: "reg_ok F g" and caller: "get_agent_state art ag g \<notin> {Some EXCLUSIVE, Some MODIFIED}"
    and post: "\<And>x g'. reg_ok F g' \<Longrightarrow> Q x g'" and err: "\<And>e g'. reg_ok F g' \<Longrightarrow> E e g'"
  shows "wp (reg_commit_cas art ag expected chash toks b tick trig) Q E g"
proof (cases "dict_get (records g) art")
  case None
  with err ok show ?thesis by (simp add: reg_commit_cas_def wp_simps)
next
  case (Some r)
  have rok: "rec_ok F art r" using ok Some by (rule reg_ok_lookup)
  have free: "grant_of r ag \<notin> M_OR_E_STATES"
    using caller Some by (auto simp: get_agent_state_def get_default_def split: option.splits)
  show ?thesis
  proof (rule wp_reg_commit_cas [OF Some]; rule post err)
    fix s d
    assume "arbitrate ag expected r = Admitted"
    then have "rec_ok F art (won_record g art ag chash toks b r)"
      by (intro won_record_ok rok free) (simp add: arbitrate_Admitted)
    then show "reg_ok F (put_record art (won_record g art ag chash toks b r) (g\<lparr>seq := s, delivered := d\<rparr>))"
      using ok by (intro reg_ok_put) simp_all
  qed (simp_all add: ok)
qed

lemma case_write_holder:
  "(case st of Some EXCLUSIVE \<Rightarrow> A | Some MODIFIED \<Rightarrow> B | _ \<Rightarrow> C) =
     (if st = Some EXCLUSIVE then A else if st = Some MODIFIED then B else C)"
  by (simp split: option.split MESIState.split)

theorem commit_cas_reg_ok: "keeps (reg_ok F) (commit_cas_impl ag art expected chash tick toks b)"
proof (rule keepsI)
  fix g
  assume ok: "reg_ok F g"
  have main: "wp (reg_commit_cas art ag expected chash toks b tick ''commit_cas'')
      (\<lambda>result. wp (case result of
         CasCorruption cur \<Rightarrow> throw (CommitCasCorruption ag art expected cur)
       | CasConflict d \<Rightarrow> ret (Conflict d)
       | CasWin upd invalidated_ids \<Rightarrow>
           andthen (lift_sum (check_monotonic_version (art_version a) (art_version upd))) (\<lambda>_.
           andthen (validate_single_writer art) (\<lambda>_.
           ret (Committed upd (map (\<lambda>_. signal art (art_version upd) tick ag) invalidated_ids)))))
         (\<lambda>_. reg_ok F) (\<lambda>_. reg_ok F)) (\<lambda>_. reg_ok F) g"
    if "get_agent_state art ag g \<notin> {Some EXCLUSIVE, Some MODIFIED}" for a
    by (rule reg_commit_cas_reg_ok [OF ok that])
      (simp_all add: wp_simps validate_single_writer_ok split: cas_result.split sum.split)
  show "wp (commit_cas_impl ag art expected chash tick toks b) (\<lambda>_. reg_ok F) (\<lambda>_. reg_ok F) g"
    unfolding commit_cas_impl_def case_write_holder wp_simps
    using ok by (auto split: option.split intro!: main)
qed

section \<open>The all-or-nothing commit\<close>

definition member_record :: "registry \<Rightarrow> uuid \<Rightarrow> uuid \<Rightarrow> CommitAllEntry \<Rightarrow> ArtifactRecord \<Rightarrow> ArtifactRecord" where
  "member_record g ag art e r = won_record g art ag (entry_hash e) (entry_tokens e) (entry_content e) r"

lemma dict_set_not_Nil [simp]: "dict_set k v d \<noteq> []"
  by (cases d) auto

lemma check_members_clean:
  "check_members ag g ws conflicts = Inr (CheckConflicts []) \<longleftrightarrow> conflicts = [] \<and>
     (\<forall>(art, e) \<in> set ws. \<exists>r. dict_get (records g) art = Some r \<and> arbitrate ag (entry_expected e) r = Admitted)"
  by (induction ag g ws conflicts rule: check_members.induct) (auto split: option.splits verdict.splits)

lemma apply_staged_member:
  assumes "dict_get (records h) art = Some r" and "same_env g h"
  shows "apply_staged ag (stage_member ag tick trig art e r) h = put_record art (member_record g ag art e r) h"
  using assms
  by (simp add: apply_staged_def stage_member_def member_record_def won_record_def apply_win_env)

lemma fold_apply_staged:
  assumes "dict_wf ws" and "\<forall>a \<in> fst ` set ws. dict_get (records h) a = dict_get (records g) a"
    and "same_env g h"
  shows "dict_get (records (fold (apply_staged ag) (stage_members ag tick trig g ws) h)) a =
     (case dict_get ws a of None \<Rightarrow> dict_get (records h) a
      | Some e \<Rightarrow> map_option (member_record g ag a e) (dict_get (records g) a))"
  using assms
proof (induction ws arbitrary: h)
  case (Cons w ws)
  obtain art e where w: "w = (art, e)" by (cases w)
  have new: "dict_get ws art = None" using Cons.prems(1) w by (simp add: map_of_eq_None_iff)
  show ?case
  proof (cases "dict_get (records g) art")
    case None
    with Cons.prems w Cons.IH [of h] new show ?thesis by (auto split: option.splits)
  next
    case (Some r)
    let ?h = "put_record art (member_record g ag art e r) h"
    have step: "apply_staged ag (stage_member ag tick trig art e r) h = ?h"
      by (rule apply_staged_member) (use Cons.prems(2,3) Some w in auto)
    have "\<forall>a \<in> fst ` set ws. dict_get (records ?h) a = dict_get (records g) a"
      using Cons.prems(1,2) w by auto
    moreover have "same_env g ?h" by (rule same_env_trans [OF Cons.prems(3) same_env_put])
    ultimately have "dict_get (records (fold (apply_staged ag) (stage_members ag tick trig g ws) ?h)) a =
      (case dict_get ws a of None \<Rightarrow> dict_get (records ?h) a
       | Some e \<Rightarrow> map_option (member_record g ag a e) (dict_get (records g) a))"
      using Cons.prems(1) w by (intro Cons.IH) simp_all
    with Some w step new show ?thesis by (auto split: option.splits)
  qed
qed simp

lemma apply_staged_frame: "\<exists>rs. apply_staged ag s h = h\<lparr>records := rs\<rparr>"
proof (cases "dict_get (records h) (st_artifact s)")
  case None
  then have "apply_staged ag s h = h\<lparr>records := records h\<rparr>" by (simp add: apply_staged_def)
  then show ?thesis by (rule exI)
next
  case (Some r)
  then show ?thesis by (auto simp: apply_staged_def put_record_def)
qed

lemma fold_apply_staged_frame: "\<exists>rs. fold (apply_staged ag) ss h = h\<lparr>records := rs\<rparr>"
proof (induction ss arbitrary: h)
  case Nil
  have "h = h\<lparr>records := records h\<rparr>" by simp
  then show ?case by (auto intro: exI [of _ "records h"])
next
  case (Cons s ss)
  obtain rs where "apply_staged ag s h = h\<lparr>records := rs\<rparr>" using apply_staged_frame by blast
  with Cons.IH [of "h\<lparr>records := rs\<rparr>"] show ?case by auto
qed

lemma fold_apply_staged_keys: "dict_keys (records (fold (apply_staged ag) ss h)) = dict_keys (records h)"
proof (induction ss arbitrary: h)
  case (Cons s ss)
  have "dict_keys (records (apply_staged ag s h)) = dict_keys (records h)"
    using dict_set_keys_id [of "records h" "st_artifact s"]
    by (cases "dict_get (records h) (st_artifact s)") (simp_all add: apply_staged_def put_record_def)
  with Cons.IH show ?case by simp
qed simp

text \<open>
  The registry after a winning \<open>commit_all\<close>: the sequence counter and the log moved, and exactly
  the members of the write-set have their winning record.
\<close>

definition all_won :: "registry \<Rightarrow> uuid \<Rightarrow> (uuid, CommitAllEntry) dict \<Rightarrow> registry \<Rightarrow> bool" where
  "all_won g ag writes g' \<longleftrightarrow>
     (\<exists>rs s d. g' = g\<lparr>records := rs, seq := s, delivered := d\<rparr> \<and> dict_keys rs = dict_keys (records g) \<and>
        (\<forall>a. dict_get rs a =
           (case dict_get writes a of None \<Rightarrow> dict_get (records g) a
            | Some e \<Rightarrow> map_option (member_record g ag a e) (dict_get (records g) a))))"

lemma all_wonI:
  fixes g :: registry
  assumes "dict_wf writes" and h_def: "h = g\<lparr>seq := s, delivered := d\<rparr>"
  shows "all_won g ag writes (fold (apply_staged ag) (stage_members ag tick trig g writes) h)"
proof -
  let ?h' = "fold (apply_staged ag) (stage_members ag tick trig g writes) h"
  have rs: "dict_get (records ?h') a = (case dict_get writes a of None \<Rightarrow> dict_get (records g) a
      | Some e \<Rightarrow> map_option (member_record g ag a e) (dict_get (records g) a))" for a
    by (subst fold_apply_staged [OF assms(1)]) (simp_all add: h_def split: option.split)
  obtain xs where "?h' = h\<lparr>records := xs\<rparr>" using fold_apply_staged_frame by blast
  then have "?h' = g\<lparr>records := records ?h', seq := s, delivered := d\<rparr>" by (simp add: h_def)
  moreover have "dict_keys (records ?h') = dict_keys (records g)"
    using fold_apply_staged_keys [of ag _ h] by (simp add: h_def)
  ultimately show ?thesis unfolding all_won_def using rs by blast
qed

lemma wp_reg_commit_all:
  assumes bad: "\<And>e. E e g" and corrupt: "\<And>cur. Q (MultiCorruption cur) g"
    and conf: "\<And>cs. check_members ag g writes [] = Inr (CheckConflicts cs) \<Longrightarrow> cs \<noteq> [] \<Longrightarrow>
      Q (MultiCommitConflict cs) (fold (\<lambda>(art, d). note_conflict art ag (detail_reason d)) cs g)"
    and win: "\<And>s d. check_members ag g writes [] = Inr (CheckConflicts []) \<Longrightarrow>
      Q (MultiWin (multi_commit_result (stage_members ag tick trig g writes)))
        (fold (apply_staged ag) (stage_members ag tick trig g writes) (g\<lparr>seq := s, delivered := d\<rparr>))"
    and err: "\<And>s d. \<not> log_ok g \<Longrightarrow> E CallbackError (g\<lparr>seq := s, delivered := d\<rparr>)"
  shows "wp (reg_commit_all ag writes tick trig) Q E g"
proof (cases "writes = [] \<or> check_members ag g writes [] \<noteq> Inr (CheckConflicts [])")
  case True
  then show ?thesis
    using bad corrupt conf by (auto simp: wp_def reg_commit_all_def split: sum.splits check_outcome.splits)
next
  case False
  let ?ss = "stage_members ag tick trig g writes"
  have "wp (emit_batch (concat (map st_requests ?ss)) 0)
     (\<lambda>_. wp (andthen (modify (fold (apply_staged ag) ?ss)) (\<lambda>_. ret (MultiWin (multi_commit_result ?ss)))) Q E) E g"
  proof (rule wp_emit_batch)
    fix k s d
    show "wp (andthen (modify (fold (apply_staged ag) ?ss)) (\<lambda>_. ret (MultiWin (multi_commit_result ?ss)))) Q E
        (g\<lparr>seq := s, delivered := d\<rparr>)"
      unfolding wp_simps by (rule win) (use False in auto)
  qed (rule err)
  then have "wp (andthen (emit_batch (concat (map st_requests ?ss)) 0) (\<lambda>_.
      andthen (modify (fold (apply_staged ag) ?ss)) (\<lambda>_. ret (MultiWin (multi_commit_result ?ss))))) Q E g"
    unfolding wp_andthen .
  with False show ?thesis by (simp add: wp_def reg_commit_all_def Let_def)
qed

lemma reg_ok_note_conflicts:
  "reg_ok F g \<Longrightarrow> reg_ok F (fold (\<lambda>(art, d). note_conflict art ag (detail_reason d)) cs g)"
  by (induction cs arbitrary: g) auto

lemma all_won_reg_ok:
  assumes ok: "reg_ok F g" and won: "all_won g ag writes g'"
    and adm: "\<forall>(art, e) \<in> set writes. \<exists>r. dict_get (records g) art = Some r \<and> arbitrate ag (entry_expected e) r = Admitted"
    and caller: "\<forall>(art, e) \<in> set writes. get_agent_state art ag g \<notin> {Some EXCLUSIVE, Some MODIFIED}"
  shows "reg_ok F g'"
proof -
  obtain rs s d where g': "g' = g\<lparr>records := rs, seq := s, delivered := d\<rparr>"
    and wf: "dict_keys rs = dict_keys (records g)"
    and rs: "\<And>a. dict_get rs a = (case dict_get writes a of None \<Rightarrow> dict_get (records g) a
            | Some e \<Rightarrow> map_option (member_record g ag a e) (dict_get (records g) a))"
    using won unfolding all_won_def by blast
  have "rec_ok F a x" if "dict_get rs a = Some x" for a x
  proof (cases "dict_get writes a")
    case None
    with that rs [of a] ok show ?thesis by (simp add: reg_ok_lookup)
  next
    case (Some e)
    then obtain r where r: "dict_get (records g) a = Some r" "arbitrate ag (entry_expected e) r = Admitted"
      using adm by (blast dest: dict_get_in_set)
    have "get_agent_state a ag g \<notin> {Some EXCLUSIVE, Some MODIFIED}"
      using caller Some by (blast dest: dict_get_in_set)
    then have "grant_of r ag \<notin> M_OR_E_STATES"
      using r(1) by (auto simp: get_agent_state_def get_default_def split: option.splits)
    then have "rec_ok F a (member_record g ag a e r)"
      unfolding member_record_def using r ok
      by (intro won_record_ok) (simp_all add: reg_ok_lookup arbitrate_Admitted)
    with that rs [of a] Some r(1) show ?thesis by simp
  qed
  with ok wf g' show ?thesis by (simp add: reg_ok_def log_ok_def)
qed

text \<open>The precondition loop only reads: it either raises or certifies every member.\<close>

lemma wp_member_precondition:
  assumes "\<And>e. E e g"
    and "get_artifact art g \<noteq> None \<Longrightarrow> get_agent_transient art ag g = None \<Longrightarrow>
      get_agent_state art ag g \<notin> {Some EXCLUSIVE, Some MODIFIED} \<Longrightarrow> Q () g"
  shows "wp (commit_all_precondition ag u (art, e)) Q E g"
  unfolding commit_all_precondition_def prod.case case_write_holder wp_simps
  using assms by (auto split: option.split)

lemma wp_for_loop_Cons: "wp (f a x) (\<lambda>b. wp (for_loop xs f b) Q E) E g \<Longrightarrow> wp (for_loop (x # xs) f a) Q E g"
  by (simp add: wp_simps)

lemma wp_commit_all_precondition:
  assumes bad: "\<And>e. E e g"
    and ok: "(\<forall>(art, e) \<in> set writes. get_artifact art g \<noteq> None \<and> get_agent_transient art ag g = None \<and>
      get_agent_state art ag g \<notin> {Some EXCLUSIVE, Some MODIFIED}) \<Longrightarrow> Q () g"
  shows "wp (for_loop writes (commit_all_precondition ag) ()) Q E g"
  using ok
proof (induction writes)
  case Nil
  then show ?case by (simp add: wp_simps)
next
  case (Cons w ws)
  obtain art e where w: "w = (art, e)" by (cases w)
  show ?case
  proof (rule wp_for_loop_Cons, unfold w, rule wp_member_precondition)
    assume "get_artifact art g \<noteq> None" "get_agent_transient art ag g = None"
      "get_agent_state art ag g \<notin> {Some EXCLUSIVE, Some MODIFIED}"
    then show "wp (for_loop ws (commit_all_precondition ag) ()) Q E g"
      using Cons.prems w by (intro Cons.IH) simp
  qed (rule bad)
qed

lemma keeps_member_signals: "keeps (reg_ok F) (for_loop vs (member_signals ag tick res) sigs)"
proof (rule keeps_for_loop, rule keepsI)
  fix sigs x g
  assume "reg_ok F g"
  then show "wp (member_signals ag tick res sigs x) (\<lambda>_. reg_ok F) (\<lambda>_. reg_ok F) g"
    by (cases x) (simp add: member_signals_def wp_simps validate_single_writer_ok)
qed

theorem commit_all_reg_ok:
  assumes wf: "dict_wf writes"
  shows "keeps (reg_ok F) (commit_all_impl ag writes tick)"
proof (rule keepsI)
  fix g
  assume ok: "reg_ok F g"
  have "wp (andthen (for_loop writes (commit_all_precondition ag) ()) (\<lambda>_.
     andthen (reg_commit_all ag writes tick ''commit_all'') (\<lambda>result.
       case result of
         MultiCorruption cur \<Rightarrow> throw (CommitAllCorruption ag cur)
       | MultiCommitConflict conflicts \<Rightarrow> ret (MultiHeld conflicts)
       | MultiWin res \<Rightarrow>
           andthen (for_loop (mcr_versions res) (member_signals ag tick res) []) (\<lambda>signals.
           ret (MultiCommitted res signals))))) (\<lambda>_. reg_ok F) (\<lambda>_. reg_ok F) g"
    unfolding wp_andthen
  proof (rule wp_commit_all_precondition)
    assume pre: "\<forall>(art, e) \<in> set writes. get_artifact art g \<noteq> None \<and> get_agent_transient art ag g = None \<and>
      get_agent_state art ag g \<notin> {Some EXCLUSIVE, Some MODIFIED}"
    show "wp (reg_commit_all ag writes tick ''commit_all'')
      (\<lambda>result. wp (case result of
         MultiCorruption cur \<Rightarrow> throw (CommitAllCorruption ag cur)
       | MultiCommitConflict conflicts \<Rightarrow> ret (MultiHeld conflicts)
       | MultiWin res \<Rightarrow>
           andthen (for_loop (mcr_versions res) (member_signals ag tick res) []) (\<lambda>signals.
           ret (MultiCommitted res signals))) (\<lambda>_. reg_ok F) (\<lambda>_. reg_ok F)) (\<lambda>_. reg_ok F) g"
    proof (rule wp_reg_commit_all, goal_cases)
      case (4 s d)
      have "reg_ok F (fold (apply_staged ag) (stage_members ag tick ''commit_all'' g writes) (g\<lparr>seq := s, delivered := d\<rparr>))"
        by (rule all_won_reg_ok [OF ok all_wonI [OF wf refl]]) (use 4 pre in \<open>auto simp: check_members_clean\<close>)
      then show ?case
        unfolding multi_result.case by (rule keepsD [rotated]) (intro keeps_andthen keeps_member_signals keeps_ret)
    qed (simp_all add: ok wp_simps reg_ok_note_conflicts)
  qed (rule ok)
  with ok show "wp (commit_all_impl ag writes tick) (\<lambda>_. reg_ok F) (\<lambda>_. reg_ok F) g"
    unfolding commit_all_impl_def by (cases "writes = []") (simp_all add: wp_throw)
qed

end
