(* ===== verification/Coherence_Ops.thy ===== *)
theory Coherence_Ops
  imports Coherence_CAS
begin

text \<open>
  The remaining coordinator operations keep the coherence invariant: registration, deletion,
  invalidation, heartbeats and the two crash-recovery sweeps.
\<close>

section \<open>Primitives that keep the invariant on their own\<close>

lemma keeps_set_INVALID: "keeps (reg_ok F) (set_agent_state art ag INVALID trig tick h)"
proof (rule keepsI)
  fix g
  assume ok: "reg_ok F g"
  show "wp (set_agent_state art ag INVALID trig tick h) (\<lambda>_. reg_ok F) (\<lambda>_. reg_ok F) g"
  proof (cases "dict_get (records g) art")
    case None
    with ok show ?thesis by (simp add: set_agent_state_def wp_simps)
  next
    case (Some r)
    with ok have mid: "reg_mid F art g r" and rok: "rec_ok F art r" by (simp_all add: reg_ok_open)
    show ?thesis
      by (rule mid_set_agent_state [OF mid])
        (auto intro!: reg_mid_close rec_ok_apply_agent_state [OF rok])
  qed
qed

lemma keeps_with_record:
  assumes "\<And>r. rec_ok F art r \<Longrightarrow> rec_ok F art (f r)"
  shows "keeps (reg_ok F) (with_record art (\<lambda>r. modify (put_record art (f r))))"
proof (rule keepsI)
  fix g
  assume ok: "reg_ok F g"
  have "reg_ok F (put_record art (f r) g)" if "dict_get (records g) art = Some r" for r
    by (rule reg_ok_put [OF ok], rule assms, rule reg_ok_lookup [OF ok that])
  with ok show "wp (with_record art (\<lambda>r. modify (put_record art (f r)))) (\<lambda>_. reg_ok F) (\<lambda>_. reg_ok F) g"
    unfolding wp_simps by (simp split: option.split)
qed

lemma keeps_set_agent_transient: "keeps (reg_ok F) (set_agent_transient art ag ts t)"
  unfolding set_agent_transient_def by (rule keeps_with_record) simp

lemma keeps_clear_agent_transient: "keeps (reg_ok F) (clear_agent_transient art ag)"
  unfolding clear_agent_transient_def by (rule keeps_with_record) simp

lemma keeps_record_last_reclamation: "keeps (reg_ok F) (record_last_reclamation ag art trig tick)"
  unfolding record_last_reclamation_def by (rule keeps_with_record) simp

lemma keeps_validate: "keeps (reg_ok F) (validate_single_writer art)"
  by (rule keepsI) (simp add: wp_simps validate_single_writer_ok)

lemma keeps_if: "(b \<Longrightarrow> keeps P m) \<Longrightarrow> (\<not> b \<Longrightarrow> keeps P n) \<Longrightarrow> keeps P (if b then m else n)"
  by simp

lemma keeps_option: "keeps P m \<Longrightarrow> (\<And>x. keeps P (f x)) \<Longrightarrow> keeps P (case y of None \<Rightarrow> m | Some x \<Rightarrow> f x)"
  by (simp split: option.split)

lemma keeps_abort_guard: "keeps P m \<Longrightarrow> keeps P (abort_guard abort m)"
  by (simp add: abort_guard_def keeps_throw)

lemma keeps_require_artifact: "keeps P (require_artifact art)"
  by (rule keepsI) (simp add: wp_simps split: option.split)

lemmas keeps_intros = keeps_ret keeps_throw keeps_asks keeps_andthen keeps_for_loop keeps_if
  keeps_option keeps_abort_guard keeps_require_artifact

lemmas keeps_prims = keeps_set_INVALID keeps_set_agent_transient keeps_clear_agent_transient
  keeps_record_last_reclamation keeps_validate

section \<open>The operations\<close>

theorem invalidate_reg_ok: "keeps (reg_ok F) (invalidate_impl ag art new_v issuer tick)"
  unfolding invalidate_impl_def by (intro keeps_intros keeps_prims)

theorem delete_reg_ok: "keeps (reg_ok F) (delete ag art tick)"
proof -
  have "keeps (reg_ok F) (remove_artifact art)"
    by (rule keepsI) (auto simp: remove_artifact_def wp_simps reg_ok_def log_ok_def)
  then show ?thesis unfolding delete_def by (intro keeps_intros)
qed

lemma reg_ok_heartbeat [simp]: "reg_ok F (g\<lparr>heartbeat_by_agent := x\<rparr>) = reg_ok F g"
  by (simp add: reg_ok_def log_ok_def)

theorem heartbeat_reg_ok: "keeps (reg_ok F) (record_heartbeat ag now)"
  by (rule keepsI)
    (simp add: record_heartbeat_def reg_record_heartbeat_def wp_simps split: option.split)

theorem expire_pair_reg_ok: "keeps (reg_ok F) (expire_pair cur timeout art n ag)"
  unfolding expire_pair_def by (intro keeps_intros keeps_prims)

theorem transient_sweep_reg_ok: "keeps (reg_ok F) (enforce_transient_timeouts cur timeout)"
  unfolding enforce_transient_timeouts_def by (intro keeps_intros expire_pair_reg_ok)

theorem reclaim_pair_reg_ok: "keeps (reg_ok F) (reclaim_pair cur hb_timeout max_hold notices pair)"
  unfolding reclaim_pair_def case_prod_unfold by (intro keeps_intros keeps_prims)

theorem stable_sweep_reg_ok: "keeps (reg_ok F) (enforce_stable_grant_timeouts cur hb_timeout max_hold)"
  unfolding enforce_stable_grant_timeouts_def by (intro keeps_intros reclaim_pair_reg_ok)

lemma new_record_ok:
  assumes "art_id a = art"
  shows "rec_ok F art (if retain then capture_version g v b (new_ArtifactRecord a b) else new_ArtifactRecord a b)"
proof -
  have new: "rec_inv (new_ArtifactRecord a b)"
    by (simp add: new_ArtifactRecord_def rec_inv_def swmr_def grants_ok_def fence_ok_def observed_ok_def get_default_def)
  have "rec_inv (capture_version g v b (new_ArtifactRecord a b))"
    by (rule rec_inv_cong [OF new]) simp_all
  with new assms show ?thesis
    by (simp add: rec_ok_def fresh_def new_ArtifactRecord_def get_default_def)
qed

theorem register_reg_ok: "keeps (reg_ok F) (register_artifact minted name b owner toks chash deps)"
proof (rule keepsI)
  fix g
  assume ok: "reg_ok F g"
  let ?a = "\<lparr>art_id = minted, art_name = name, art_version = 1, art_hash = chash,
     art_tokens = toks, art_depends_on = deps\<rparr>"
  let ?r = "if retain_versions g then capture_version g (art_version ?a) b (new_ArtifactRecord ?a b) else new_ArtifactRecord ?a b"
  have rok: "rec_ok F minted ?r" by (rule new_record_ok) simp
  then have put: "reg_ok F (put_record minted ?r g)" using ok by (intro reg_ok_put)
  have "dict_get (records (put_record minted ?r g)) minted = Some ?r" by simp
  with put have mid: "reg_mid F minted (put_record minted ?r g) ?r" by (simp add: reg_ok_open)
  have "grant_of ?r p = INVALID" for p by (simp add: new_ArtifactRecord_def get_default_def)
  then have hold: "may_hold owner EXCLUSIVE ?r" for owner by (simp add: may_hold_def)
  have "wp (set_agent_state minted owner EXCLUSIVE ''register'' 0 None) (\<lambda>_. reg_ok F) (\<lambda>_. reg_ok F)
      (put_record minted ?r g)" for owner
    by (rule mid_set_agent_state [OF mid hold])
      (auto intro: reg_mid_close rec_ok_apply_agent_state [OF rok hold])
  with put show "wp (register_artifact minted name b owner toks chash deps) (\<lambda>_. reg_ok F) (\<lambda>_. reg_ok F) g"
    unfolding register_artifact_def reg_register_artifact_def Let_def wp_simps
    by (cases owner) (simp_all add: wp_simps wp_ret [abs_def] cong: if_cong split del: if_split)
qed

end
