(* ===== verification/Frames.thy ===== *)
theory Frames
  imports Coherence_Ops
begin

text \<open>
  A contract between the registry and everything that outlives one operation. The locale
  \<open>registry_frame\<close> lists the elementary updates the coordinator's operations are made of; a
  predicate closed under them is kept by every operation, on every branch, whether it returns or
  raises. \<open>claim art ag\<close> says that the operations considered may hand \<open>ag\<close> a new claim on
  \<open>art\<close> (a fetch or a write of its own). Registration and removal are not covered: they change
  which artifacts exist.
\<close>

section \<open>The contract\<close>

definition maps_wf :: "registry \<Rightarrow> bool" where
  "maps_wf g \<longleftrightarrow> (\<forall>art r. dict_get (records g) art = Some r \<longrightarrow> dict_wf (state_by_agent r))"

locale registry_frame =
  fixes P :: "registry \<Rightarrow> bool" and claim :: "uuid \<Rightarrow> uuid \<Rightarrow> bool"
  assumes P_maps: "P g \<Longrightarrow> maps_wf g"
    and P_log: "P g \<Longrightarrow> P (g\<lparr>seq := s, delivered := d\<rparr>)"
    and P_state: "P g \<Longrightarrow> dict_get (records g) art = Some r \<Longrightarrow>
      st = INVALID \<or> grant_of r ag \<in> M_OR_E_STATES \<or> claim art ag \<Longrightarrow>
      P (put_record art (apply_agent_state ag st trig tick r) g)"
    and P_transient: "P g \<Longrightarrow> dict_get (records g) art = Some r \<Longrightarrow>
      P (put_record art (r\<lparr>transient_by_agent := x, transient_tick_by_agent := y\<rparr>) g)"
    and P_reclamation: "P g \<Longrightarrow> dict_get (records g) art = Some r \<Longrightarrow>
      P (put_record art (r\<lparr>last_reclamation_by_agent := z\<rparr>) g)"
    and P_store: "P g \<Longrightarrow> dict_get (records g) art = Some r \<Longrightarrow>
      art_version upd = art_version (artifact r) + 1 \<Longrightarrow> art_id upd = art_id (artifact r) \<Longrightarrow>
      P (put_record art (stored g upd b w r) g)"
    and P_win: "P g \<Longrightarrow> dict_get (records g) art = Some r \<Longrightarrow> arbitrate ag expected r = Admitted \<Longrightarrow>
      P (put_record art (won_record g art ag chash toks c r) g)"
    and P_conflict: "P g \<Longrightarrow> P (note_conflict art ag why g)"
    and P_heartbeat: "P g \<Longrightarrow> P (g\<lparr>heartbeat_by_agent := h\<rparr>)"
begin

lemma keeps_state:
  "P g \<Longrightarrow> (\<And>r. dict_get (records g) art = Some r \<Longrightarrow> st = INVALID \<or> grant_of r ag \<in> M_OR_E_STATES \<or> claim art ag)
   \<Longrightarrow> wp (set_agent_state art ag st trig tick h)
     (\<lambda>_ g'. P g' \<and> (\<forall>r. dict_get (records g) art = Some r \<longrightarrow>
        dict_get (records g') art = Some (apply_agent_state ag st trig tick r))) (\<lambda>_. P) g"
proof (cases "dict_get (records g) art")
  case None
  assume "P g"
  with None show ?thesis by (simp add: set_agent_state_def wp_simps)
next
  case (Some r)
  assume P: "P g" and ok: "\<And>r. dict_get (records g) art = Some r \<Longrightarrow>
    st = INVALID \<or> grant_of r ag \<in> M_OR_E_STATES \<or> claim art ag"
  have "P (put_record art (apply_agent_state ag st trig tick r) g\<lparr>seq := s, delivered := d\<rparr>)" for s d
    by (rule P_log, rule P_state [OF P Some], rule ok [OF Some])
  then show ?thesis by (intro wp_set_agent_state [OF Some]) (simp_all add: Some)
qed

lemma frame_set_INVALID: "keeps P (set_agent_state art ag INVALID trig tick h)"
proof (rule keepsI)
  fix g
  assume "P g"
  then have "wp (set_agent_state art ag INVALID trig tick h)
     (\<lambda>_ g'. P g' \<and> (\<forall>r. dict_get (records g) art = Some r \<longrightarrow>
        dict_get (records g') art = Some (apply_agent_state ag INVALID trig tick r))) (\<lambda>_. P) g"
    by (rule keeps_state) simp
  then show "wp (set_agent_state art ag INVALID trig tick h) (\<lambda>_. P) (\<lambda>_. P) g"
    by (rule wp_mono) simp_all
qed

lemma frame_set_claimed:
  assumes "claim art ag"
  shows "keeps P (set_agent_state art ag st trig tick h)"
proof (rule keepsI)
  fix g
  assume "P g"
  then have "wp (set_agent_state art ag st trig tick h)
     (\<lambda>_ g'. P g' \<and> (\<forall>r. dict_get (records g) art = Some r \<longrightarrow>
        dict_get (records g') art = Some (apply_agent_state ag st trig tick r))) (\<lambda>_. P) g"
    by (rule keeps_state) (simp add: assms)
  then show "wp (set_agent_state art ag st trig tick h) (\<lambda>_. P) (\<lambda>_. P) g"
    by (rule wp_mono) simp_all
qed

lemma frame_set_transient: "keeps P (set_agent_transient art ag ts t)"
  by (rule keepsI) (auto simp: set_agent_transient_def wp_simps split: option.split intro: P_transient)

lemma frame_clear_transient: "keeps P (clear_agent_transient art ag)"
  by (rule keepsI) (auto simp: clear_agent_transient_def wp_simps split: option.split intro: P_transient)

lemma frame_reclamation: "keeps P (record_last_reclamation ag art trig tick)"
  by (rule keepsI) (auto simp: record_last_reclamation_def wp_simps split: option.split intro: P_reclamation)

lemma frame_validate: "keeps P (validate_single_writer art)"
  by (rule keepsI) (simp add: wp_simps split: sum.split)

lemma frame_lift_sum: "keeps P (lift_sum x)"
  by (rule keepsI) (simp add: wp_simps split: sum.split)

lemmas frame_prims = frame_set_INVALID frame_set_transient frame_clear_transient frame_reclamation
  frame_validate frame_lift_sum

lemma frame_heartbeat: "keeps P (record_heartbeat ag now)"
  by (rule keepsI)
    (auto simp: record_heartbeat_def reg_record_heartbeat_def wp_simps split: option.split intro: P_heartbeat)

lemma frame_invalidate: "keeps P (invalidate ag art new_v issuer tick abort)"
  unfolding invalidate_def invalidate_impl_def by (intro keeps_intros frame_prims)

lemma frame_expire_pair: "keeps P (expire_pair cur timeout art n ag)"
  unfolding expire_pair_def by (intro keeps_intros frame_prims)

lemma frame_transient_sweep: "keeps P (enforce_transient_timeouts cur timeout)"
  unfolding enforce_transient_timeouts_def by (intro keeps_intros frame_expire_pair)

lemma frame_reclaim_pair: "keeps P (reclaim_pair cur hb_timeout max_hold notices pair)"
  unfolding reclaim_pair_def case_prod_unfold by (intro keeps_intros frame_prims)

lemma frame_stable_sweep: "keeps P (enforce_stable_grant_timeouts cur hb_timeout max_hold)"
  unfolding enforce_stable_grant_timeouts_def by (intro keeps_intros frame_reclaim_pair)

lemma frame_invalidate_peer: "keeps P (invalidate_peer art ag trig v tick sigs peer)"
  unfolding invalidate_peer_def case_prod_unfold by (intro keeps_intros frame_prims)

lemma frame_write:
  assumes "claim art ag"
  shows "keeps P (write_op ag art tick abort)"
  unfolding write_op_def write_impl_def
  by (intro keeps_intros frame_prims frame_invalidate_peer frame_set_claimed [OF assms])

end

context registry_frame
begin

lemma frame_commit_tail:
  assumes "claim art ag"
  shows "keeps P (commit_tail sha256_hex ag art text tick chash upd)"
  unfolding commit_tail_def grant_and_settle_def
  by (intro keeps_intros frame_prims frame_invalidate_peer frame_set_claimed [OF assms])

lemma frame_commit_store:
  assumes claim: "claim art ag" and P: "P g" and rec: "dict_get (records g) art = Some r"
    and upd: "art_version upd = art_version (artifact r) + 1" "art_id upd = art_id (artifact r)"
  shows "wp (andthen (except (set_artifact_and_content art upd (Text text) (Some ag) (Some ag))
      (\<lambda>e. case e of StaleReadGeneration _ _ _ _ \<Rightarrow> andthen (clear_agent_transient art ag) (\<lambda>_. throw e)
           | _ \<Rightarrow> throw e)) (\<lambda>_. commit_tail sha256_hex ag art text tick chash upd)) (\<lambda>_. P) (\<lambda>_. P) g"
proof -
  have "P (put_record art (stored g upd (Text text) (Some ag) r) g)" by (rule P_store [OF P rec upd])
  then have "wp (commit_tail sha256_hex ag art text tick chash upd) (\<lambda>_. P) (\<lambda>_. P)
      (put_record art (stored g upd (Text text) (Some ag) r) g)"
    by (rule keepsD [OF frame_commit_tail [OF claim]])
  moreover have "wp (andthen (clear_agent_transient art ag) (\<lambda>_. throw e)) Q (\<lambda>_. P) g"
    for e and Q :: "unit \<Rightarrow> registry \<Rightarrow> bool"
    unfolding wp_andthen
    by (rule wp_mono [OF keepsD [OF frame_clear_transient P]]) (simp_all add: wp_simps)
  ultimately show ?thesis
    unfolding wp_andthen wp_except wp_set_artifact_and_content rec option.case by (simp add: wp_simps)
qed

lemma frame_commit:
  assumes claim: "claim art ag"
  shows "keeps P (commit sha256_hex ag art text tick chash toks abort)"
  unfolding commit_def
proof (rule keeps_abort_guard, rule keepsI)
  fix g
  assume P: "P g"
  show "wp (commit_impl sha256_hex ag art text tick chash toks) (\<lambda>_. P) (\<lambda>_. P) g"
  proof (cases "dict_get (records g) art = None \<or> get_agent_state art ag g \<notin> {Some EXCLUSIVE, Some MODIFIED}")
    case True
    with P show ?thesis by (auto simp: commit_impl_def wp_simps get_artifact_def split: option.split)
  next
    case False
    then obtain r where rec: "dict_get (records g) art = Some r"
      and st: "get_agent_state art ag g \<in> {Some EXCLUSIVE, Some MODIFIED}" by auto
    let ?r = "r\<lparr>transient_by_agent := dict_set ag MWB (transient_by_agent r),
      transient_tick_by_agent := dict_set ag tick (transient_tick_by_agent r)\<rparr>"
    have P1: "P (put_record art ?r g)" by (rule P_transient [OF P rec])
    have rec1: "dict_get (records (put_record art ?r g)) art = Some ?r" by simp
    let ?upd = "\<lparr>art_id = art_id (artifact r), art_name = art_name (artifact r),
      art_version = art_version (artifact r) + 1,
      art_hash = (case chash of None \<Rightarrow> art_hash (artifact r) | Some h \<Rightarrow> Some h),
      art_tokens = (case toks of None \<Rightarrow> art_tokens (artifact r) | Some t \<Rightarrow> Some t),
      art_depends_on = art_depends_on (artifact r)\<rparr>"
    have "wp (set_agent_transient art ag MWB tick)
      (\<lambda>_. wp (andthen (except (set_artifact_and_content art ?upd (Text text) (Some ag) (Some ag))
        (\<lambda>e. case e of StaleReadGeneration _ _ _ _ \<Rightarrow> andthen (clear_agent_transient art ag) (\<lambda>_. throw e)
             | _ \<Rightarrow> throw e)) (\<lambda>_. commit_tail sha256_hex ag art text tick chash ?upd)) (\<lambda>_. P) (\<lambda>_. P))
      (\<lambda>_. P) g"
      unfolding set_agent_transient_def wp_with_record rec option.case wp_modify
      by (rule frame_commit_store [OF claim P1 rec1]) simp_all
    with st rec show ?thesis
      unfolding commit_impl_fold by (simp only: wp_simps get_artifact_def option.map option.case if_False
          not_True_eq_False Let_def)
  qed
qed

end

text \<open>In the downgrade loop every peer still to be visited has the state of the snapshot.\<close>

definition loop_peers :: "uuid \<Rightarrow> ArtifactRecord \<Rightarrow> uuid list \<Rightarrow> registry \<Rightarrow> bool" where
  "loop_peers art r ys g \<longleftrightarrow> distinct ys \<and>
     (\<exists>r'. dict_get (records g) art = Some r' \<and> (\<forall>p \<in> set ys. grant_of r' p = grant_of r p))"

lemma distinct_other_holders: "dict_wf m \<Longrightarrow> distinct (other_holders ag m)"
  unfolding other_holders_def by (rule distinct_map_filter)

context registry_frame
begin

lemma frame_downgrade:
  assumes P: "P g" and peers: "loop_peers art r (p # ys) g"
  shows "wp (downgrade_holder art tick (state_by_agent r) u p) (\<lambda>_ g'. P g' \<and> loop_peers art r ys g') (\<lambda>_. P) g"
proof -
  obtain r' where r': "dict_get (records g) art = Some r'" "\<forall>q \<in> set (p # ys). grant_of r' q = grant_of r q"
    and ys: "distinct (p # ys)"
    using peers unfolding loop_peers_def by blast
  show ?thesis
  proof (cases "grant_of r p \<in> M_OR_E_STATES")
    case False
    with P r' ys show ?thesis by (auto simp: downgrade_holder_def wp_simps loop_peers_def)
  next
    case True
    have "wp (set_agent_state art p SHARED ''fetch'' tick None)
      (\<lambda>_ g'. P g' \<and> (\<forall>r. dict_get (records g) art = Some r \<longrightarrow>
        dict_get (records g') art = Some (apply_agent_state p SHARED ''fetch'' tick r))) (\<lambda>_. P) g"
      by (rule keeps_state [OF P]) (use r' True in auto)
    moreover have "loop_peers art r ys g'"
      if "dict_get (records g') art = Some (apply_agent_state p SHARED ''fetch'' tick r')" for g'
      using that r'(2) ys unfolding loop_peers_def by auto
    ultimately have "wp (set_agent_state art p SHARED ''fetch'' tick None)
        (\<lambda>_ g'. P g' \<and> loop_peers art r ys g') (\<lambda>_. P) g"
      using r'(1) by (elim wp_mono) auto
    with True show ?thesis by (simp add: downgrade_holder_def del: M_OR_E_iff)
  qed
qed

lemma frame_fetch:
  assumes claim: "claim art ag"
  shows "keeps P (fetch art ag tick)"
proof (rule keepsI)
  fix g
  assume P: "P g"
  show "wp (fetch art ag tick) (\<lambda>_. P) (\<lambda>_. P) g"
  proof (cases "dict_get (records g) art")
    case None
    with P show ?thesis by (simp add: fetch_def wp_simps get_artifact_def)
  next
    case (Some r)
    let ?m = "state_by_agent r"
    have wf: "dict_wf ?m" using P_maps [OF P] Some by (simp add: maps_wf_def)
    have "wp (for_loop (other_holders ag ?m) (downgrade_holder art tick ?m) ())
        (\<lambda>_. wp (grant_and_settle art ag (fetch_grant ag ?m) ''fetch'' tick None x) (\<lambda>_. P) (\<lambda>_. P)) (\<lambda>_. P) g'"
      if "P g'" "dict_get (records g') art = Some r'" "state_by_agent r' = ?m"
      for g' and r' :: ArtifactRecord and x :: FetchResponse
    proof (rule wp_for_loop [where I = "\<lambda>ys _ g'. P g' \<and> loop_peers art r ys g'"])
      show "P g' \<and> loop_peers art r (other_holders ag ?m) g'"
        using that distinct_other_holders [OF wf] by (simp add: loop_peers_def)
      show "wp (grant_and_settle art ag (fetch_grant ag ?m) ''fetch'' tick None x) (\<lambda>_. P) (\<lambda>_. P) t"
        if "P t \<and> loop_peers art r [] t" for t
        unfolding grant_and_settle_def
        by (rule keepsD) (intro keeps_intros frame_prims frame_set_claimed [OF claim], use that in simp)
    qed (use frame_downgrade in blast)
    note loop = this
    have "wp (set_agent_transient art ag ts tick)
        (\<lambda>_. wp (andthen (for_loop (other_holders ag ?m) (downgrade_holder art tick ?m) ())
           (\<lambda>_. grant_and_settle art ag (fetch_grant ag ?m) ''fetch'' tick None x)) (\<lambda>_. P) (\<lambda>_. P)) (\<lambda>_. P) g"
      for ts and x :: FetchResponse
      unfolding set_agent_transient_def wp_with_record Some option.case wp_modify wp_andthen
      by (rule loop [OF P_transient [OF P Some]], unfold records_put dict_get_set fun_upd_same, rule refl) simp
    moreover have "get_artifact art g = Some (artifact r)" "get_content art g = Some (rec_content r)"
        "get_state_map art g = ?m"
      using Some by (simp_all add: get_artifact_def get_content_def get_state_map_def)
    ultimately show ?thesis
      unfolding fetch_fold by (simp only: wp_simps option.case)
  qed
qed

lemma frame_reg_commit_cas: "keeps P (reg_commit_cas art ag expected chash toks b tick trig)"
proof (rule keepsI)
  fix g
  assume P: "P g"
  show "wp (reg_commit_cas art ag expected chash toks b tick trig) (\<lambda>_. P) (\<lambda>_. P) g"
  proof (cases "dict_get (records g) art")
    case None
    with P show ?thesis by (simp add: reg_commit_cas_def wp_simps)
  next
    case (Some r)
    show ?thesis
    proof (rule wp_reg_commit_cas [OF Some])
      fix s d
      assume adm: "arbitrate ag expected r = Admitted"
      let ?g = "g\<lparr>seq := s, delivered := d\<rparr>"
      have "P (put_record art (won_record ?g art ag chash toks b r) ?g)"
        by (rule P_win [OF P_log [OF P] _ adm]) (simp add: Some)
      then show "P (put_record art (won_record g art ag chash toks b r) ?g)"
        by (simp add: won_record_def apply_win_env [OF same_env_log])
    qed (simp_all add: P P_conflict P_log)
  qed
qed

lemma frame_commit_cas: "keeps P (commit_cas ag art expected chash tick toks b abort)"
  unfolding commit_cas_def commit_cas_impl_def case_write_holder
  by (intro keeps_intros frame_prims frame_reg_commit_cas)
    (simp split: cas_result.split add: keeps_ret keeps_throw keeps_andthen frame_lift_sum frame_validate)

lemma frame_apply_staged:
  assumes "P h" and "dict_wf ws" and "\<forall>a \<in> fst ` set ws. dict_get (records h) a = dict_get (records g) a"
    and "same_env g h"
    and "\<forall>(art, e) \<in> set ws. \<exists>r. dict_get (records g) art = Some r \<and> arbitrate ag (entry_expected e) r = Admitted"
  shows "P (fold (apply_staged ag) (stage_members ag tick trig g ws) h)"
  using assms
proof (induction ws arbitrary: h)
  case (Cons w ws)
  obtain art e where w: "w = (art, e)" by (cases w)
  obtain r where r: "dict_get (records g) art = Some r" "arbitrate ag (entry_expected e) r = Admitted"
    using Cons.prems(5) w by auto
  have h: "dict_get (records h) art = Some r" using Cons.prems(3) r(1) w by simp
  let ?h = "put_record art (member_record g ag art e r) h"
  have "P (put_record art (won_record h art ag (entry_hash e) (entry_tokens e) (entry_content e) r) h)"
    by (rule P_win [OF Cons.prems(1) h r(2)])
  then have "P ?h" by (simp add: member_record_def won_record_def apply_win_env [OF Cons.prems(4)])
  moreover have "\<forall>a \<in> fst ` set ws. dict_get (records ?h) a = dict_get (records g) a"
    using Cons.prems(2,3) w by auto
  moreover have "same_env g ?h" by (rule same_env_trans [OF Cons.prems(4) same_env_put])
  ultimately have "P (fold (apply_staged ag) (stage_members ag tick trig g ws) ?h)"
    using Cons.prems(2,5) w by (intro Cons.IH) simp_all
  then show ?case by (simp add: w r(1) apply_staged_member [OF h Cons.prems(4)])
qed simp

lemma frame_reg_commit_all:
  assumes "dict_wf writes"
  shows "keeps P (reg_commit_all ag writes tick trig)"
proof (rule keepsI)
  fix g
  assume P: "P g"
  have noted: "P (fold (\<lambda>(art, d). note_conflict art ag (detail_reason d)) cs g)" for cs
    using P by (induction cs arbitrary: g) (auto intro: P_conflict)
  show "wp (reg_commit_all ag writes tick trig) (\<lambda>_. P) (\<lambda>_. P) g"
  proof (rule wp_reg_commit_all)
    fix s d
    assume "check_members ag g writes [] = Inr (CheckConflicts [])"
    then show "P (fold (apply_staged ag) (stage_members ag tick trig g writes) (g\<lparr>seq := s, delivered := d\<rparr>))"
      by (intro frame_apply_staged P_log P assms) (simp_all add: check_members_clean)
  qed (simp_all add: P P_log noted)
qed

lemma frame_commit_all:
  assumes "dict_wf writes"
  shows "keeps P (commit_all ag writes tick abort)"
proof -
  have sigs: "keeps P (for_loop vs (member_signals ag tick res) acc)" for vs res acc
    unfolding member_signals_def case_prod_unfold by (intro keeps_intros frame_prims)
  have pre: "keeps P (for_loop writes (commit_all_precondition ag) ())"
    unfolding commit_all_precondition_def case_prod_unfold case_write_holder by (intro keeps_intros)
  show ?thesis
    unfolding commit_all_def commit_all_impl_def
    by (intro keeps_intros pre frame_reg_commit_all [OF assms])
      (simp split: multi_result.split add: keeps_ret keeps_throw keeps_andthen sigs)
qed

end

end
