(* ===== verification/System.thy ===== *)
theory System
  imports Frames
begin

text \<open>
  The coordinator as a transition system on the service state: a \<open>request\<close> for every operation
  that changes state, \<open>perform\<close>, the state it leaves whether it returns or raises, and the step
  relation \<open>coord_step\<close>, whose parameter restricts the requests considered. The crash-recovery
  sweeps take the registry lock once per pair, so one pair is a request of its own beside the
  whole sweep; \<open>Clock\<close> is the passing of wall-clock time. The locale \<open>coordinator_frame\<close> lists
  what a predicate of the registry has to survive for every request to keep it; \<open>service_frame\<close>
  gives it from the elementary updates of \<open>registry_frame\<close>.
\<close>

section \<open>Requests\<close>

datatype request =
    Register uuid string body "uuid option" "int option" "string option" "uuid list"
  | Fetch uuid uuid int
  | Write uuid uuid int bool
  | Upgrade uuid uuid int
  | Commit uuid uuid string int "string option" "int option" bool
  | CommitCas uuid uuid int string int "int option" "body option" bool
  | CommitAll uuid "(uuid, CommitAllEntry) dict" int bool
  | Invalidate uuid uuid int uuid int bool
  | Delete uuid uuid int
  | Heartbeat uuid int
  | ExpirePair int int uuid uuid
  | TransientSweep int int
  | ReclaimPair int int int uuid uuid
  | StableSweep int int int
  | BeginSession string "uuid list" uuid int
  | SessionCommit string uuid body uuid "int option" int bool
  | SessionCommitAll string "(uuid, body \<times> int option) dict" uuid int bool
  | SessionHeartbeat string uuid int
  | DropSession string
  | SessionSweep "string list \<Rightarrow> string list" int int
  | CreateCheckpoint string string "uuid option" "CheckpointMember list" rat rat int bool
  | SetRestoreStatus string string rat bool
  | SetMemberRestore string string "string option" "rat option" bool
  | SetMemberPin string string string "string option" bool
  | AdjustRefcount string int bool
  | RegisterRestore "string \<Rightarrow> uuid" string uuid "WorkspaceRestoreWrite list" int bool
  | Clock rat

definition after :: "'a sop \<Rightarrow> service \<Rightarrow> service" where
  "after m s = snd (m s)"

definition set_clock :: "rat \<Rightarrow> unit rop" where
  "set_clock now = modify (\<lambda>g. g\<lparr>wall_clock := now\<rparr>)"

primrec perform :: "(string \<Rightarrow> string) \<Rightarrow> (string \<Rightarrow> uuid) \<Rightarrow> request \<Rightarrow> service \<Rightarrow> service" where
  "perform sha u5 (Register minted name b owner toks chash deps) =
     after (on_registry (register_artifact minted name b owner toks chash deps))"
| "perform sha u5 (Fetch art ag tick) = after (on_registry (fetch art ag tick))"
| "perform sha u5 (Write ag art tick abort) = after (on_registry (write_op ag art tick abort))"
| "perform sha u5 (Upgrade ag art tick) = after (on_registry (upgrade ag art tick))"
| "perform sha u5 (Commit ag art text tick chash toks abort) =
     after (on_registry (commit sha ag art text tick chash toks abort))"
| "perform sha u5 (CommitCas ag art expected chash tick toks b abort) =
     after (on_registry (commit_cas ag art expected chash tick toks b abort))"
| "perform sha u5 (CommitAll ag writes tick abort) = after (on_registry (commit_all ag writes tick abort))"
| "perform sha u5 (Invalidate ag art v issuer tick abort) =
     after (on_registry (invalidate ag art v issuer tick abort))"
| "perform sha u5 (Delete ag art tick) = after (on_registry (delete ag art tick))"
| "perform sha u5 (Heartbeat ag now) = after (on_registry (record_heartbeat ag now))"
| "perform sha u5 (ExpirePair cur timeout art ag) = after (on_registry (expire_pair cur timeout art 0 ag))"
| "perform sha u5 (TransientSweep cur timeout) = after (on_registry (enforce_transient_timeouts cur timeout))"
| "perform sha u5 (ReclaimPair cur hb_timeout max_hold art ag) =
     after (on_registry (reclaim_pair cur hb_timeout max_hold [] (art, ag)))"
| "perform sha u5 (StableSweep cur hb_timeout max_hold) =
     after (on_registry (enforce_stable_grant_timeouts cur hb_timeout max_hold))"
| "perform sha u5 (BeginSession minted read_set owner created) =
     after (begin_session minted read_set owner created)"
| "perform sha u5 (SessionCommit token art content caller toks tick abort) =
     after (session_commit sha u5 token art content caller toks tick abort)"
| "perform sha u5 (SessionCommitAll token writes caller tick abort) =
     after (session_commit_all sha u5 token writes caller tick abort)"
| "perform sha u5 (SessionHeartbeat token owner now) = after (record_session_heartbeat token owner now)"
| "perform sha u5 (DropSession token) = after (drop_session_state token)"
| "perform sha u5 (SessionSweep set_order cur hb_timeout) =
     after (enforce_session_liveness set_order cur hb_timeout)"
| "perform sha u5 (CreateCheckpoint minted name owner members wmin wmax tick abort) =
     after (on_registry (create_workspace_checkpoint minted name owner members wmin wmax tick abort))"
| "perform sha u5 (SetRestoreStatus cid status updated abort) =
     after (on_registry (set_workspace_checkpoint_restore_status cid status updated abort))"
| "perform sha u5 (SetMemberRestore cid path outcome deleted abort) =
     after (on_registry (set_workspace_checkpoint_member_restore cid path outcome deleted abort))"
| "perform sha u5 (SetMemberPin cid path pin tier abort) =
     after (on_registry (set_workspace_checkpoint_member_pin cid path pin tier abort))"
| "perform sha u5 (AdjustRefcount cid delta abort) =
     after (on_registry (adjust_workspace_checkpoint_pin_refcount cid delta abort))"
| "perform sha u5 (RegisterRestore mint cid controller writes tick abort) =
     after (on_registry (register_workspace_restore mint cid controller writes tick abort))"
| "perform sha u5 (Clock now) = after (on_registry (set_clock now))"

text \<open>A Python dictionary has no key twice.\<close>

definition request_ok :: "request \<Rightarrow> bool" where
  "request_ok q =
     (case q of
        CommitAll ag writes tick abort \<Rightarrow> dict_wf writes
      | SessionCommitAll token writes caller tick abort \<Rightarrow> dict_wf writes
      | _ \<Rightarrow> True)"

inductive coord_step ::
  "(string \<Rightarrow> string) \<Rightarrow> (string \<Rightarrow> uuid) \<Rightarrow> (request \<Rightarrow> service \<Rightarrow> bool) \<Rightarrow> service \<Rightarrow> service \<Rightarrow> bool"
  for sha u5 allowed where
  serve: "request_ok q \<Longrightarrow> allowed q s \<Longrightarrow> coord_step sha u5 allowed s (perform sha u5 q s)"

inductive_cases coord_stepE: "coord_step sha u5 allowed s t"

inductive coord_init :: "service \<Rightarrow> bool" where
  "new_ArtifactRegistry sink names inst retain policy minted epoch now = Inr g \<Longrightarrow>
   coord_init (new_CoordinatorService g caps)"

inductive_cases coord_initE: "coord_init s"

section \<open>Lifting registry methods\<close>

lemma wp_on_registry [wp_simps]:
  "wp (on_registry m) Q E s =
     wp m (\<lambda>a g. Q a (s\<lparr>svc_registry := g\<rparr>)) (\<lambda>e g. E e (s\<lparr>svc_registry := g\<rparr>)) (svc_registry s)"
  by (simp add: wp_def on_registry_def on_field_def split: prod.splits sum.splits)

lemma wp_asks_registry [wp_simps]: "wp (asks_registry f) Q E s = Q (f (svc_registry s)) s"
  by (simp add: asks_registry_def wp_simps)

definition on_reg :: "(registry \<Rightarrow> bool) \<Rightarrow> service \<Rightarrow> bool" where
  "on_reg P s = P (svc_registry s)"

lemma keeps_on_registry: "keeps P m \<Longrightarrow> keeps (on_reg P) (on_registry m)"
  by (auto simp: keeps_def on_reg_def on_registry_def on_field_def split: prod.splits)

lemma keeps_asks_registry: "keeps P (asks_registry f)"
  by (simp add: asks_registry_def keeps_asks)

lemma keeps_service_maps:
  assumes "\<And>s. svc_registry (f s) = svc_registry s"
  shows "keeps (on_reg P) (modify f)"
  using assms by (simp add: keeps_def on_reg_def modify_def)

lemma keeps_lift_sum: "keeps P (lift_sum x)"
  by (simp add: keeps_def lift_sum_def)

lemma keeps_prod: "(\<And>x y. keeps P (f x y)) \<Longrightarrow> keeps P (case p of (x, y) \<Rightarrow> f x y)"
  by (simp split: prod.split)

lemma keeps_finally: "keeps P m \<Longrightarrow> keeps P fin \<Longrightarrow> keeps P (finally_do m fin)"
  by (force simp: keeps_def finally_do_def split: prod.splits sum.splits)

lemma keeps_validate_session_owner: "keeps P (validate_session_owner token caller pins)"
  unfolding validate_session_owner_def by (intro keeps_intros)

lemma keeps_after: "keeps P m \<Longrightarrow> P s \<Longrightarrow> P (after m s)"
  by (simp add: keeps_def after_def)

lemmas svc_intros = keeps_intros keeps_on_registry keeps_asks_registry keeps_lift_sum keeps_prod
  keeps_validate_session_owner

section \<open>Which requests a predicate of the registry survives\<close>

text \<open>
  \<open>permitted claim touch removable q s\<close>: request \<open>q\<close> makes no new claim outside \<open>claim\<close>, opens or
  drops no session outside \<open>touch\<close>, removes no artifact outside \<open>removable\<close>, and the identifiers
  it mints are new in \<open>s\<close>.
\<close>

definition permitted ::
  "(uuid \<Rightarrow> uuid \<Rightarrow> bool) \<Rightarrow> (string \<Rightarrow> bool) \<Rightarrow> (uuid \<Rightarrow> bool) \<Rightarrow> request \<Rightarrow> service \<Rightarrow> bool" where
  "permitted claim touch removable q s =
     (case q of
        Register minted name b owner toks chash deps \<Rightarrow>
          dict_get (records (svc_registry s)) minted = None \<and>
          (case owner of None \<Rightarrow> True | Some ow \<Rightarrow> claim minted ow)
      | Fetch art ag tick \<Rightarrow> claim art ag
      | Write ag art tick abort \<Rightarrow> claim art ag
      | Upgrade ag art tick \<Rightarrow> claim art ag
      | Commit ag art text tick chash toks abort \<Rightarrow> claim art ag
      | Delete ag art tick \<Rightarrow> removable art
      | BeginSession minted read_set owner created \<Rightarrow> touch minted
      | DropSession token \<Rightarrow> touch token
      | SessionSweep set_order cur hb_timeout \<Rightarrow>
          (\<forall>t. session_expired cur hb_timeout (session_meta (svc_registry s)) t s \<longrightarrow> touch t)
      | RegisterRestore mint cid controller writes tick abort \<Rightarrow>
          distinct (map (\<lambda>w. mint (write_path w)) writes) \<and>
          list_all (\<lambda>w. dict_get (records (svc_registry s)) (mint (write_path w)) = None) writes
      | _ \<Rightarrow> True)"

text \<open>
  The updates of the checkpoint store: a new checkpoint, a new header for a stored one, a new row
  for a stored member.
\<close>

definition checkpoint_sound :: "CheckpointRecord \<Rightarrow> bool" where
  "checkpoint_sound cp \<longleftrightarrow> cp_owner cp \<noteq> None \<and> \<not> blank (cp_name cp) \<and> window_min cp \<le> window_max cp \<and>
     restore_status cp \<in> RESTORE_STATUSES \<and> 0 \<le> pin_refcount cp"

inductive manifest_update :: "registry \<Rightarrow> registry \<Rightarrow> bool" where
  new_checkpoint: "dict_get (checkpoints g) (checkpoint_id cp) = None \<Longrightarrow> checkpoint_sound cp \<Longrightarrow> members \<noteq> [] \<Longrightarrow>
     member_index members [] = Inr ms \<Longrightarrow>
     manifest_update g (g\<lparr>checkpoints := dict_set (checkpoint_id cp) cp (checkpoints g),
       checkpoint_members := dict_set (checkpoint_id cp) ms (checkpoint_members g)\<rparr>)"
| new_header: "dict_get (checkpoints g) cid = Some cp \<Longrightarrow> checkpoint_id cp' = checkpoint_id cp \<Longrightarrow>
     (checkpoint_sound cp \<Longrightarrow> checkpoint_sound cp') \<Longrightarrow>
     manifest_update g (g\<lparr>checkpoints := dict_set cid cp' (checkpoints g)\<rparr>)"
| new_row: "dict_get (get_default (checkpoint_members g) cid []) path = Some m \<Longrightarrow> member_path m' = member_path m \<Longrightarrow>
     manifest_update g (g\<lparr>checkpoint_members :=
       dict_set cid (dict_set path m' (get_default (checkpoint_members g) cid [])) (checkpoint_members g)\<rparr>)"

lemma manifest_updateE:
  assumes "manifest_update g h"
  obtains cps ms where "h = g\<lparr>checkpoints := cps, checkpoint_members := ms\<rparr>"
  using assms
proof (cases rule: manifest_update.cases)
  case (new_header cid cp cp')
  then show ?thesis using that [where ms = "checkpoint_members g"] by simp
next
  case (new_row cid path m m')
  then show ?thesis using that [where cps = "checkpoints g"] by simp
qed (rule that)

locale coordinator_frame =
  fixes P :: "registry \<Rightarrow> bool" and claim :: "uuid \<Rightarrow> uuid \<Rightarrow> bool" and touch :: "string \<Rightarrow> bool"
    and removable :: "uuid \<Rightarrow> bool"
  assumes op_fetch: "claim art ag \<Longrightarrow> keeps P (fetch art ag tick)"
    and op_write: "claim art ag \<Longrightarrow> keeps P (write_op ag art tick abort)"
    and op_commit: "claim art ag \<Longrightarrow> keeps P (commit sha ag art text tick chash toks abort)"
    and op_commit_cas: "keeps P (commit_cas ag art expected hash tick toks b abort)"
    and op_commit_all: "dict_wf writes \<Longrightarrow> keeps P (commit_all ag writes tick abort)"
    and op_invalidate: "keeps P (invalidate ag art new_v issuer tick abort)"
    and op_heartbeat: "keeps P (record_heartbeat ag tick)"
    and op_expire: "keeps P (expire_pair cur timeout art n ag)"
    and op_reclaim: "keeps P (reclaim_pair cur hb_timeout max_hold notices pair)"
    and op_register: "P g \<Longrightarrow> dict_get (records g) (art_id a) = None \<Longrightarrow> art_version a = 1 \<Longrightarrow>
      P (snd (reg_register_artifact a c g))"
    and op_first_owner: "P g \<Longrightarrow> dict_get (records g) art = None \<Longrightarrow> claim art ag \<Longrightarrow>
      P (snd (register_artifact art name c (Some ag) toks chash deps g))"
    and op_remove: "removable art \<Longrightarrow> keeps P (remove_artifact art)"
    and op_pins: "P g \<Longrightarrow> (\<And>t. \<not> touch t \<Longrightarrow> dict_get pins t = dict_get (session_pins g) t) \<Longrightarrow>
      (\<And>t. \<not> touch t \<Longrightarrow> dict_get meta t = dict_get (session_meta g) t) \<Longrightarrow>
      (dict_wf (session_meta g) \<Longrightarrow> dict_wf meta) \<Longrightarrow>
      P (g\<lparr>session_pins := pins, session_meta := meta\<rparr>)"
    and op_checkpoints: "P g \<Longrightarrow> manifest_update g h \<Longrightarrow> P h"
    and op_clock: "P g \<Longrightarrow> P (g\<lparr>wall_clock := now\<rparr>)"

locale service_frame = registry_frame +
  fixes touch :: "string \<Rightarrow> bool" and removable :: "uuid \<Rightarrow> bool"
  assumes P_new: "P g \<Longrightarrow> dict_get (records g) (art_id a) = None \<Longrightarrow> P (snd (reg_register_artifact a c g))"
    and P_remove: "P g \<Longrightarrow> removable art \<Longrightarrow> P (g\<lparr>records := dict_pop art (records g)\<rparr>)"
    and P_pins: "P g \<Longrightarrow> (\<And>t. \<not> touch t \<Longrightarrow> dict_get pins t = dict_get (session_pins g) t) \<Longrightarrow>
      (\<And>t. \<not> touch t \<Longrightarrow> dict_get meta t = dict_get (session_meta g) t) \<Longrightarrow>
      (dict_wf (session_meta g) \<Longrightarrow> dict_wf meta) \<Longrightarrow>
      P (g\<lparr>session_pins := pins, session_meta := meta\<rparr>)"
    and P_checkpoints: "P g \<Longrightarrow> manifest_update g h \<Longrightarrow> P h"
    and P_clock: "P g \<Longrightarrow> P (g\<lparr>wall_clock := now\<rparr>)"
begin

lemma frame_first_owner:
  assumes "P g" and "dict_get (records g) art = None" and "claim art ag"
  shows "P (snd (register_artifact art name c (Some ag) toks chash deps g))"
proof -
  let ?a = "\<lparr>art_id = art, art_name = name, art_version = 1, art_hash = chash, art_tokens = toks,
    art_depends_on = deps\<rparr>"
  have "P (snd (reg_register_artifact ?a c g))" by (rule P_new) (simp_all add: assms)
  then have "wp (reg_register_artifact ?a c) (\<lambda>_. P) (\<lambda>_. P) g" by (simp add: wp_state)
  then have "wp (register_artifact art name c (Some ag) toks chash deps) (\<lambda>_. P) (\<lambda>_. P) g"
    unfolding register_artifact_def Let_def option.case wp_andthen
    by (rule wp_mono)
      (auto intro: keepsD [OF frame_set_claimed [OF assms(3)]] simp: wp_simps wp_ret [abs_def])
  then show ?thesis by (simp add: wp_state)
qed

end

sublocale service_frame \<subseteq> coordinator_frame
proof (unfold_locales, goal_cases)
  case (12 art)
  then show ?case by (auto simp: keeps_def remove_artifact_def modify_def intro: P_remove)
next
  case (14 g h)
  then show ?case by (rule P_checkpoints)
qed (blast intro: frame_fetch frame_write frame_commit frame_commit_cas frame_commit_all frame_invalidate
  frame_heartbeat frame_expire_pair frame_reclaim_pair P_new frame_first_owner P_pins P_clock)+

end
