(* ===== verification/System_Inv.thy ===== *)
theory System_Inv
  imports System
begin

text \<open>
  Every request keeps a predicate with the contract \<open>coordinator_frame\<close>: the session operations,
  the session sweep, the checkpoint operations and the registration of a restore run are proved
  once, from the contract. The interpretation \<open>coh\<close> instantiates it with the coherence invariant
  and \<open>system\<close> gives the invariant of every reachable state of the coordinator.
\<close>

section \<open>Sessions\<close>

lemma session_batch_keys: "session_batch sha pins ws = Inr batch \<Longrightarrow> dict_keys batch = dict_keys ws"
  by (induction sha pins ws arbitrary: batch rule: session_batch.induct)
    (auto split: option.splits sum.splits)

context coordinator_frame
begin

lemma keeps_capture: "touch token \<Longrightarrow> keeps P (capture_version_vector read_set token owner created)"
proof (rule keepsI)
  fix g
  assume t: "touch token" and P: "P g"
  have "P (g\<lparr>session_pins := dict_set token pins (session_pins g), session_meta := session_meta g\<rparr>)" for pins
    by (rule op_pins [OF P]) (use t in auto)
  moreover have "P (g\<lparr>session_pins := dict_set token pins (session_pins g),
      session_meta := dict_set token m (session_meta g)\<rparr>)" for pins m
    by (rule op_pins [OF P]) (use t in auto)
  ultimately show "wp (capture_version_vector read_set token owner created) (\<lambda>_. P) (\<lambda>_. P) g"
    using P by (simp add: wp_def capture_version_vector_def Let_def split: prod.split option.split)
qed

lemma keeps_release: "touch token \<Longrightarrow> keeps P (release_session token)"
  by (rule keepsI) (auto simp: release_session_def wp_simps intro: op_pins)

lemma keeps_begin_session: "touch minted \<Longrightarrow> keeps (on_reg P) (begin_session minted read_set owner created)"
  unfolding begin_session_def
  by (intro svc_intros)
    (auto split: capture_result.split intro!: svc_intros keeps_capture keeps_service_maps)

lemma keeps_session_commit: "keeps (on_reg P) (session_commit sha u5 token art content caller toks tick abort)"
  unfolding session_commit_def by (intro svc_intros op_commit_cas)

lemma keeps_session_commit_all:
  assumes "dict_wf writes"
  shows "keeps (on_reg P) (session_commit_all sha u5 token writes caller tick abort)"
proof -
  have batch: "keeps (on_reg P) (andthen (lift_sum (session_batch sha pins writes)) (\<lambda>batch.
     andthen (on_registry (commit_all (session_committer_id u5 token) batch tick abort)) (\<lambda>outcome.
     ret (SessionOutcome outcome))))" for pins
  proof (cases "session_batch sha pins writes")
    case (Inr batch)
    then have "dict_wf batch" using assms by (simp add: session_batch_keys)
    with Inr show ?thesis
      unfolding Inr andthen_lift_Inr by (intro svc_intros op_commit_all)
  qed (simp add: keeps_def andthen_def lift_sum_def)
  show ?thesis unfolding session_commit_all_def by (rule batch svc_intros)+
qed

lemma keeps_session_heartbeat: "keeps (on_reg P) (record_session_heartbeat token owner now)"
  unfolding record_session_heartbeat_def
  by (intro svc_intros) (auto split: option.split intro!: svc_intros keeps_service_maps)

lemma keeps_drop_session: "touch token \<Longrightarrow> keeps (on_reg P) (drop_session_state token)"
  unfolding drop_session_state_def by (intro svc_intros keeps_release keeps_service_maps) simp_all

lemma keeps_reap_session: "touch token \<Longrightarrow> keeps (on_reg P) (reap_session token)"
  unfolding reap_session_def tombstone_token_def
  by (intro svc_intros keeps_drop_session keeps_service_maps) simp_all

end

text \<open>Reaping one session does not change what the sweep decides about another.\<close>

lemma reap_session_fields [simp]:
  "fst (reap_session token s) = Inr ()"
  "session_owners (snd (reap_session token s)) = dict_pop token (session_owners s)"
  "session_heartbeats (snd (reap_session token s)) = dict_pop token (session_heartbeats s)"
  "session_created (snd (reap_session token s)) = dict_pop token (session_created s)"
  "session_caps (snd (reap_session token s)) = session_caps s"
  "reaped_tombstone (snd (reap_session token s)) =
     evict_oldest (filter (\<lambda>t. t \<noteq> token) (reaped_tombstone s) @ [token])"
  "svc_registry (snd (reap_session token s)) =
     (svc_registry s)\<lparr>session_pins := dict_pop token (session_pins (svc_registry s)),
                       session_meta := dict_pop token (session_meta (svc_registry s))\<rparr>"
  by (simp_all add: reap_session_def drop_session_state_def tombstone_token_def on_registry_def on_field_def
      release_session_def modify_def andthen_def)

lemma reap_session_other:
  "t \<noteq> token \<Longrightarrow> session_expired cur hb_timeout durable t (snd (reap_session token s)) =
    session_expired cur hb_timeout durable t s"
  unfolding session_expired_def reap_session_fields by simp

context coordinator_frame
begin

lemma sweep_one:
  assumes P: "on_reg P s" and spare: "\<And>t. session_expired cur hb_timeout durable t s \<Longrightarrow> touch t"
  shows "wp (andthen (asks (session_expired cur hb_timeout durable token)) (\<lambda>expired.
         if \<not> expired then ret reaped else andthen (reap_session token) (\<lambda>_. ret (reaped + 1 :: int))))
     (\<lambda>_ s'. on_reg P s' \<and> (\<forall>t. session_expired cur hb_timeout durable t s' \<longrightarrow> touch t)) (\<lambda>_. on_reg P) s"
proof (cases "session_expired cur hb_timeout durable token s")
  case False
  with P spare show ?thesis by (simp add: wp_simps)
next
  case True
  then have tok: "touch token" by (rule spare)
  obtain s' where run: "reap_session token s = (Inr (), s')"
    by (metis prod.collapse reap_session_fields(1))
  have "on_reg P s'" using keeps_reap_session [OF tok] P run by (auto simp: keeps_def)
  moreover have "touch t" if "session_expired cur hb_timeout durable t s'" for t
    using that tok spare reap_session_other [of t token cur hb_timeout durable s] run
    by (cases "t = token") simp_all
  ultimately show ?thesis using True by (simp add: wp_simps wp_def [of "reap_session token"] run)
qed

lemma keeps_session_sweep:
  assumes "on_reg P s"
    and "\<And>t. session_expired cur hb_timeout (session_meta (svc_registry s)) t s \<Longrightarrow> touch t"
  shows "on_reg P (after (enforce_session_liveness set_order cur hb_timeout) s)"
proof -
  let ?d = "session_meta (svc_registry s)"
  have "wp (for_loop ts (\<lambda>reaped token. andthen (asks (session_expired cur hb_timeout ?d token)) (\<lambda>expired.
         if \<not> expired then ret reaped else andthen (reap_session token) (\<lambda>_. ret (reaped + 1 :: int)))) 0)
       (\<lambda>_. on_reg P) (\<lambda>_. on_reg P) s" for ts
    by (rule wp_for_loop [where I = "\<lambda>_ _ s'. on_reg P s' \<and> (\<forall>t. session_expired cur hb_timeout ?d t s' \<longrightarrow> touch t)"])
      (use assms sweep_one in auto)
  then have "wp (enforce_session_liveness set_order cur hb_timeout) (\<lambda>_. on_reg P) (\<lambda>_. on_reg P) s"
    unfolding enforce_session_liveness_def using assms(1)
    by (simp add: wp_simps all_session_meta_def)
  then show ?thesis by (simp add: wp_state after_def)
qed

end

section \<open>Checkpoints and restore registration\<close>

lemma check_restore_writes_distinct:
  "check_restore_writes ws seen = Inr () \<Longrightarrow> distinct (map write_path ws)"
proof -
  have "check_restore_writes ws seen = Inr () \<Longrightarrow>
      distinct (map write_path ws) \<and> set (map write_path ws) \<inter> set seen = {}"
    by (induction ws seen rule: check_restore_writes.induct) (auto split: if_splits)
  then show "check_restore_writes ws seen = Inr () \<Longrightarrow> distinct (map write_path ws)" by blast
qed

lemma keeps_multi_outcome:
  "(\<And>res sigs. keeps P (f res sigs)) \<Longrightarrow> (\<And>cs. keeps P (h cs)) \<Longrightarrow>
   keeps P (case out of MultiCommitted res sigs \<Rightarrow> f res sigs | MultiHeld cs \<Rightarrow> h cs)"
  by (cases out) simp_all

lemma plan_write_batch:
  "plan_write mint plan w g = (Inr plan', g') \<Longrightarrow> dict_wf (rp_batch plan) \<Longrightarrow> dict_wf (rp_batch plan')"
  by (auto simp: plan_write_def andthen_def asks_def ret_def throw_def
      split: prod.splits sum.splits option.splits if_splits)

lemma plan_write_new:
  "art \<noteq> mint (write_path w) \<Longrightarrow> dict_get (records (snd (plan_write mint plan w g))) art = dict_get (records g) art"
  by (auto simp: plan_write_def resolve_workspace_member_artifact_def reg_register_artifact_def Let_def
      andthen_def asks_def ret_def throw_def modify_def put_record_def split: option.splits)

context coordinator_frame
begin

lemmas checkpoint_intros = keeps_intros keeps_lift_sum

lemma keeps_new_checkpoint:
  assumes "P g" and "dict_get (checkpoints g) cid = None" and "checkpoint_sound cp" and "members \<noteq> []"
    and "member_index members [] = Inr ms" and "checkpoint_id cp = cid"
  shows "P (g\<lparr>checkpoints := dict_set cid cp (checkpoints g), checkpoint_members := dict_set cid ms (checkpoint_members g)\<rparr>)"
  using op_checkpoints [OF assms(1) manifest_update.new_checkpoint [of g cp, OF _ assms(3-5)]] assms(2,6) by simp

lemma keeps_create_checkpoint: "keeps P (create_workspace_checkpoint minted name owner members wmin wmax tick abort)"
proof (rule keepsI)
  fix g
  assume "P g"
  moreover have "checkpoint_sound \<lparr>checkpoint_id = minted, cp_name = name, cp_owner = owner,
      cp_created_at = of_int tick, cp_created_at_tick = tick, window_min = wmin, window_max = wmax,
      restore_status = ''none'', restore_updated_at = None, pin_refcount = 0\<rparr>"
    if "\<not> blank name" "owner \<noteq> None" "\<not> wmax < wmin"
    using that by (simp add: checkpoint_sound_def RESTORE_STATUSES_def)
  ultimately show "wp (create_workspace_checkpoint minted name owner members wmin wmax tick abort) (\<lambda>_. P) (\<lambda>_. P) g"
    unfolding create_workspace_checkpoint_def create_checkpoint_def Let_def abort_guard_def
    by (auto simp: wp_simps split: sum.split intro!: keeps_new_checkpoint)
qed

lemma keeps_header:
  assumes "P g" and "dict_get (checkpoints g) cid = Some cp" and "checkpoint_id cp' = checkpoint_id cp"
    and "checkpoint_sound cp \<Longrightarrow> checkpoint_sound cp'"
  shows "P (g\<lparr>checkpoints := dict_set cid cp' (checkpoints g)\<rparr>)"
  by (rule op_checkpoints [OF assms(1) manifest_update.new_header [OF assms(2-4)]])

lemma keeps_restore_status: "keeps P (set_workspace_checkpoint_restore_status cid status updated abort)"
  unfolding set_workspace_checkpoint_restore_status_def set_checkpoint_restore_status_def abort_guard_def get_checkpoint_def
  by (rule keepsI) (auto simp: wp_simps checkpoint_sound_def split: option.split intro!: keeps_header)

lemma keeps_update_member: "(\<And>m. member_path (f m) = member_path m) \<Longrightarrow> keeps P (update_member cid path f)"
  unfolding update_member_def
  by (rule keepsI) (auto simp: wp_simps split: option.split intro!: op_checkpoints [OF _ manifest_update.new_row])

lemma keeps_member_restore: "keeps P (set_workspace_checkpoint_member_restore cid path outcome deleted abort)"
  unfolding set_workspace_checkpoint_member_restore_def set_checkpoint_member_restore_def abort_guard_def
  by (intro checkpoint_intros keeps_update_member) simp

lemma keeps_member_pin: "keeps P (set_workspace_checkpoint_member_pin cid path pin tier abort)"
  unfolding set_workspace_checkpoint_member_pin_def set_checkpoint_member_pin_def abort_guard_def
  by (intro checkpoint_intros keeps_update_member) simp

lemma keeps_refcount: "keeps P (adjust_workspace_checkpoint_pin_refcount cid delta abort)"
  unfolding adjust_workspace_checkpoint_pin_refcount_def adjust_checkpoint_pin_refcount_def Let_def abort_guard_def get_checkpoint_def
  by (rule keepsI) (auto simp: wp_simps checkpoint_sound_def split: option.split intro!: keeps_header)

lemma keeps_resolve:
  assumes P: "P g" and new: "dict_get (records g) minted = None"
  shows "wp (resolve_workspace_member_artifact minted path fp) (\<lambda>_. P) (\<lambda>_. P) g"
proof -
  let ?a = "\<lparr>art_id = minted, art_name = path, art_version = 1, art_hash = Some fp, art_tokens = None,
    art_depends_on = []\<rparr>"
  have "P (snd (reg_register_artifact ?a (Text '''') g))" by (rule op_register [OF P]) (simp_all add: new)
  then have "wp (reg_register_artifact ?a (Text '''')) (\<lambda>_. wp (ret minted) (\<lambda>_. P) (\<lambda>_. P)) (\<lambda>_. P) g"
    unfolding wp_ret [abs_def] by (simp add: wp_state)
  with P show ?thesis
    unfolding resolve_workspace_member_artifact_def wp_simps
    by (auto simp: wp_simps wp_ret [abs_def] split: option.split)
qed

lemma keeps_plan_write:
  assumes "P g" and "dict_get (records g) (mint (write_path w)) = None"
  shows "wp (plan_write mint plan w) (\<lambda>_. P) (\<lambda>_. P) g"
  unfolding plan_write_def wp_andthen
proof (rule wp_mono [OF keeps_resolve [OF assms]])
  fix art t
  assume "P t"
  then show "wp (asks (get_artifact art)) (\<lambda>found. wp (case found of None \<Rightarrow> throw (MemberArtifactVanished art)
       | Some a \<Rightarrow>
           (if art_hash a = Some (write_fingerprint w)
            then ret (plan\<lparr>rp_skipped := rp_skipped plan @ [write_path w]\<rparr>)
            else ret (plan\<lparr>rp_path := dict_set art (write_path w) (rp_path plan),
                           rp_pre := dict_set art (art_version a) (rp_pre plan),
                           rp_batch := dict_set art
                             \<lparr>entry_expected = art_version a, entry_hash = write_fingerprint w,
                              entry_tokens = None, entry_content = None\<rparr> (rp_batch plan)\<rparr>)))
      (\<lambda>_. P) (\<lambda>_. P)) (\<lambda>_. P) t"
    by (simp add: wp_simps split: option.split)
qed

lemma keeps_plan_loop:
  assumes "P g" and "distinct (map (\<lambda>w. mint (write_path w)) writes)"
    and "\<forall>w \<in> set writes. dict_get (records g) (mint (write_path w)) = None" and "dict_wf (rp_batch plan)"
  shows "wp (for_loop writes (plan_write mint) plan) (\<lambda>plan' g'. P g' \<and> dict_wf (rp_batch plan')) (\<lambda>_. P) g"
proof (rule wp_for_loop [where I = "\<lambda>ws plan g. P g \<and> distinct (map (\<lambda>w. mint (write_path w)) ws) \<and>
    (\<forall>w \<in> set ws. dict_get (records g) (mint (write_path w)) = None) \<and> dict_wf (rp_batch plan)"])
  fix w :: WorkspaceRestoreWrite and ws g and plan :: registration_plan
  assume I: "P g \<and> distinct (map (\<lambda>w. mint (write_path w)) (w # ws)) \<and>
    (\<forall>w \<in> set (w # ws). dict_get (records g) (mint (write_path w)) = None) \<and> dict_wf (rp_batch plan)"
  then have "wp (plan_write mint plan w) (\<lambda>_. P) (\<lambda>_. P) g" by (intro keeps_plan_write) simp_all
  then have "P (snd (plan_write mint plan w g))" by (simp add: wp_state)
  moreover have "\<forall>v \<in> set ws. dict_get (records (snd (plan_write mint plan w g))) (mint (write_path v)) = None"
  proof
    fix v
    assume v: "v \<in> set ws"
    have "mint (write_path w) \<notin> (\<lambda>w. mint (write_path w)) ` set ws" using I by simp
    with v have "mint (write_path v) \<noteq> mint (write_path w)" by (auto simp: image_iff)
    with I v show "dict_get (records (snd (plan_write mint plan w g))) (mint (write_path v)) = None"
      by (simp add: plan_write_new)
  qed
  moreover note plan_write_batch [of mint plan w g]
  ultimately show "wp (plan_write mint plan w) (\<lambda>plan g. P g \<and> distinct (map (\<lambda>w. mint (write_path w)) ws) \<and>
    (\<forall>w \<in> set ws. dict_get (records g) (mint (write_path w)) = None) \<and> dict_wf (rp_batch plan)) (\<lambda>_. P) g"
    using I by (auto simp: wp_def split: prod.splits sum.splits)
qed (use assms in auto)

lemma keeps_register_restore:
  assumes P: "P g" and new: "distinct (map (\<lambda>w. mint (write_path w)) writes)"
    "\<forall>w \<in> set writes. dict_get (records g) (mint (write_path w)) = None"
  shows "wp (register_workspace_restore mint cid controller writes tick abort) (\<lambda>_. P) (\<lambda>_. P) g"
proof -
  have versions: "keeps P (for_loop vs (register_versions plan) acc)" for vs plan acc
    unfolding register_versions_def case_prod_unfold by (intro checkpoint_intros)
  have refused: "keeps P (for_loop cs (refused_path plan) acc)" for cs plan acc
    unfolding refused_path_def case_prod_unfold by (intro checkpoint_intros)
  have tail: "wp (if rp_batch plan = [] then ret (a plan) else
     andthen (commit_all controller (rp_batch plan) tick abort) (\<lambda>out.
       case out of
         MultiHeld conflicts \<Rightarrow> andthen (for_loop conflicts (refused_path plan) []) (\<lambda>refused. ret (b plan refused))
       | MultiCommitted res signals \<Rightarrow>
           andthen (for_loop (mcr_versions res) (register_versions plan) []) (\<lambda>versions. ret (c plan versions signals))))
      (\<lambda>_. P) (\<lambda>_. P) g'" if "P g' \<and> dict_wf (rp_batch plan)" for g' plan a b c
    by (rule keepsD, intro keeps_if keeps_ret keeps_andthen op_commit_all keeps_multi_outcome versions refused)
      (use that in simp_all)
  let ?plan = "\<lparr>rp_skipped = [], rp_batch = [], rp_path = [], rp_pre = []\<rparr> :: registration_plan"
  have "wp (for_loop writes (plan_write mint) ?plan) Q (\<lambda>_. P) g"
    if "\<And>plan g'. P g' \<and> dict_wf (rp_batch plan) \<Longrightarrow> Q plan g'" for Q
    by (rule wp_mono [OF keeps_plan_loop [OF P new, where plan = ?plan]]) (simp_all add: that)
  note loop = this [OF tail]
  show ?thesis
  proof (cases "get_checkpoint cid g = None \<or> check_restore_writes writes [] \<noteq> Inr () \<or> writes = []")
    case True
    with P show ?thesis
      unfolding register_workspace_restore_def Let_def by (auto simp: wp_simps split: sum.split)
  next
    case False
    then have "get_checkpoint cid g \<noteq> None" "check_restore_writes writes [] = Inr ()" "writes \<noteq> []" by auto
    then show ?thesis
      unfolding register_workspace_restore_def Let_def wp_andthen wp_asks
      by (simp only: wp_andthen wp_lift_sum sum.case if_False) (rule loop)
  qed
qed

end

section \<open>Every request\<close>

context coordinator_frame
begin

lemma keeps_register:
  assumes "P g" and "dict_get (records g) minted = None" and "\<And>ow. owner = Some ow \<Longrightarrow> claim minted ow"
  shows "P (snd (register_artifact minted name b owner toks chash deps g))"
proof (cases owner)
  case None
  let ?a = "\<lparr>art_id = minted, art_name = name, art_version = 1, art_hash = chash, art_tokens = toks,
    art_depends_on = deps\<rparr>"
  have "P (snd (reg_register_artifact ?a b g))" by (rule op_register) (simp_all add: assms)
  with None show ?thesis
    by (simp add: register_artifact_def andthen_def ret_def reg_register_artifact_def modify_def Let_def)
next
  case (Some ow)
  with assms show ?thesis by (simp add: op_first_owner)
qed

lemma keeps_delete: "removable art \<Longrightarrow> keeps P (delete ag art tick)"
  unfolding delete_def by (intro keeps_intros op_remove)

lemma after_on_registry: "on_reg P s \<Longrightarrow> keeps P m \<Longrightarrow> on_reg P (after (on_registry m) s)"
  by (rule keeps_after [OF keeps_on_registry])

lemma after_service: "on_reg P s \<Longrightarrow> keeps (on_reg P) m \<Longrightarrow> on_reg P (after m s)"
  by (rule keeps_after)

lemma after_wp: "wp m (\<lambda>_. P) (\<lambda>_. P) (svc_registry s) \<Longrightarrow> on_reg P (after (on_registry m) s)"
  by (auto simp: wp_state on_reg_def after_def on_registry_def on_field_def split: prod.splits)

lemma perform_keeps:
  assumes P: "on_reg P s" and ok: "request_ok q" and may: "permitted claim touch removable q s"
  shows "on_reg P (perform sha u5 q s)"
proof (cases q)
  case (Register minted name b owner toks chash deps)
  with may P show ?thesis
    by (simp, intro after_wp) (auto simp: wp_state permitted_def on_reg_def intro!: keeps_register)
next
  case (SessionSweep set_order cur hb_timeout)
  with may P show ?thesis by (auto simp: permitted_def intro!: keeps_session_sweep)
next
  case (RegisterRestore mint cid controller writes tick abort)
  with may P show ?thesis
    by (simp, intro after_wp keeps_register_restore) (auto simp: permitted_def on_reg_def list_all_iff)
next
  case (StableSweep cur hb_timeout max_hold)
  then show ?thesis
    unfolding StableSweep perform.simps enforce_stable_grant_timeouts_def
    by (intro after_on_registry P keeps_intros op_reclaim)
next
  case (TransientSweep cur timeout)
  then show ?thesis
    unfolding TransientSweep perform.simps enforce_transient_timeouts_def
    by (intro after_on_registry P keeps_intros op_expire)
next
  case (Clock now)
  have "keeps P (set_clock now)" by (simp add: set_clock_def keeps_def modify_def op_clock)
  with Clock P show ?thesis by (simp add: after_on_registry)
qed (use ok may P in \<open>simp_all add: permitted_def request_ok_def upgrade_def after_on_registry after_service
    keeps_begin_session keeps_session_commit keeps_session_commit_all keeps_session_heartbeat keeps_drop_session
    keeps_create_checkpoint keeps_restore_status keeps_member_restore keeps_member_pin keeps_refcount
    op_fetch op_write op_commit op_commit_cas op_commit_all op_invalidate op_heartbeat op_expire op_reclaim
    keeps_delete\<close>)

lemma steps_keep:
  assumes "(coord_step sha u5 (permitted claim touch removable))\<^sup>*\<^sup>* s t" and "on_reg P s"
  shows "on_reg P t"
  using assms by (induction rule: rtranclp_induct) (auto elim!: coord_stepE intro: perform_keeps)

end

section \<open>The coherence invariant\<close>

text \<open>Any request whatever; the only condition is that a minted identifier is new.\<close>

abbreviation any_request :: "request \<Rightarrow> service \<Rightarrow> bool" where
  "any_request \<equiv> permitted (\<lambda>_ _. True) (\<lambda>_. True) (\<lambda>_. True)"

lemma reg_ok_register: "reg_ok F g \<Longrightarrow> reg_ok F (snd (reg_register_artifact a c g))"
  by (simp add: reg_register_artifact_def modify_def Let_def)
    (auto intro!: reg_ok_put new_record_ok [where retain = True, simplified] new_record_ok [where retain = False, simplified])

lemma reg_ok_environment [simp]:
  "reg_ok F (g\<lparr>session_pins := pins, session_meta := meta\<rparr>) = reg_ok F g"
  "reg_ok F (g\<lparr>checkpoints := cps, checkpoint_members := members\<rparr>) = reg_ok F g"
  "reg_ok F (g\<lparr>wall_clock := now\<rparr>) = reg_ok F g"
  by (simp_all add: reg_ok_def log_ok_def)

interpretation coh: coordinator_frame "reg_ok F" "\<lambda>_ _. True" "\<lambda>_. True" "\<lambda>_. True"
  for F
proof (unfold_locales, goal_cases)
  case (11 g art ag name c toks chash deps)
  then show ?case using register_reg_ok by (simp add: keeps_def)
next
  case (12 art)
  show ?case
    by (rule keepsI) (auto simp: remove_artifact_def wp_simps reg_ok_def log_ok_def)
next
  case (14 g h)
  then show ?case by (auto elim!: manifest_updateE)
qed (simp_all add: write_op_def commit_def commit_cas_def commit_all_def invalidate_def keeps_abort_guard
    fetch_reg_ok write_reg_ok commit_reg_ok commit_cas_reg_ok commit_all_reg_ok invalidate_reg_ok
    heartbeat_reg_ok expire_pair_reg_ok reclaim_pair_reg_ok reg_ok_register)

lemma coord_init_reg_ok: "coord_init s \<Longrightarrow> on_reg (reg_ok False) s"
  by (auto elim!: coord_initE simp: new_ArtifactRegistry_def new_CoordinatorService_def on_reg_def reg_ok_def
      split: if_splits)

lemma coord_init_fresh: "coord_init s \<Longrightarrow> log_ok (svc_registry s) \<Longrightarrow> on_reg (reg_ok True) s"
  by (auto elim!: coord_initE simp: new_ArtifactRegistry_def new_CoordinatorService_def on_reg_def reg_ok_def
      split: if_splits)

interpretation system: invariant_system coord_init "coord_step sha u5 any_request" "on_reg (reg_ok False)"
  for sha u5
  by unfold_locales (auto intro: coord_init_reg_ok coh.perform_keeps elim!: coord_stepE)

text \<open>The same with a \<open>state_log\<close> callback that never raises, or none at all.\<close>

interpretation reliable: invariant_system "\<lambda>s. coord_init s \<and> log_ok (svc_registry s)"
    "coord_step sha u5 any_request" "on_reg (reg_ok True)"
  for sha u5
  by unfold_locales (auto intro: coord_init_fresh coh.perform_keeps elim!: coord_stepE)

end
