(* ===== verification/Persistence.thy ===== *)
theory Persistence
  imports System_Inv
begin

text \<open>
  What survives any sequence of requests while an artifact exists. The locale \<open>record_contract\<close>
  asks a property of one artifact's record to survive the updates of that record; it then holds
  along every run that does not delete the artifact. Its interpretations: versions and fence
  generations never decrease, a reclaimed claim stays fenced until its agent claims again, and a
  body pinned by a live session stays retrievable.
\<close>

section \<open>A property of one record\<close>

definition record_has :: "uuid \<Rightarrow> (registry \<Rightarrow> ArtifactRecord \<Rightarrow> bool) \<Rightarrow> registry \<Rightarrow> bool" where
  "record_has art R g \<longleftrightarrow> maps_wf g \<and> (\<exists>r. dict_get (records g) art = Some r \<and> R g r)"

locale record_contract =
  fixes art :: uuid and R :: "registry \<Rightarrow> ArtifactRecord \<Rightarrow> bool"
    and claim :: "uuid \<Rightarrow> uuid \<Rightarrow> bool" and touch :: "string \<Rightarrow> bool"
  assumes R_env: "R g r \<Longrightarrow> (\<And>t. \<not> touch t \<Longrightarrow> dict_get (session_pins g') t = dict_get (session_pins g) t) \<Longrightarrow> R g' r"
    and R_state: "R g r \<Longrightarrow> st = INVALID \<or> grant_of r ag \<in> M_OR_E_STATES \<or> claim art ag \<Longrightarrow>
      R g (apply_agent_state ag st trig tick r)"
    and R_transient: "R g r \<Longrightarrow> R g (r\<lparr>transient_by_agent := x, transient_tick_by_agent := y\<rparr>)"
    and R_reclamation: "R g r \<Longrightarrow> R g (r\<lparr>last_reclamation_by_agent := z\<rparr>)"
    and R_store: "R g r \<Longrightarrow> art_version upd = art_version (artifact r) + 1 \<Longrightarrow> art_id upd = art_id (artifact r) \<Longrightarrow>
      R g (stored g upd b w r)"
    and R_win: "R g r \<Longrightarrow> arbitrate ag expected r = Admitted \<Longrightarrow> R g (won_record g art ag chash toks c r)"
begin

lemma holds_put:
  assumes "record_has art R g" and "dict_wf (state_by_agent r')"
    and "a = art \<Longrightarrow> (\<And>r. dict_get (records g) art = Some r \<Longrightarrow> R g r \<Longrightarrow> R g r')"
  shows "record_has art R (put_record a r' g)"
proof -
  obtain r where r: "dict_get (records g) art = Some r" "R g r" and wf: "maps_wf g"
    using assms(1) unfolding record_has_def by blast
  have "maps_wf (put_record a r' g)" using wf assms(2) by (simp add: maps_wf_def)
  moreover have "R (put_record a r' g) (if a = art then r' else r)"
    by (rule R_env [of g]) (use r assms(3) in auto)
  ultimately show ?thesis using r(1) by (auto simp: record_has_def)
qed

lemma holds_maps: "record_has art R g \<Longrightarrow> dict_get (records g) a = Some r \<Longrightarrow> dict_wf (state_by_agent r)"
  by (simp add: record_has_def maps_wf_def)

lemma holds_env:
  assumes "record_has art R g" and "records g' = records g"
    and "\<And>t. \<not> touch t \<Longrightarrow> dict_get (session_pins g') t = dict_get (session_pins g) t"
  shows "record_has art R g'"
  using assms R_env unfolding record_has_def maps_wf_def by metis

end

lemma won_record_wf: "dict_wf (state_by_agent r) \<Longrightarrow> dict_wf (state_by_agent (won_record g art ag chash toks b r))"
  by (simp add: won_record_def apply_win_def Let_def wf_invalidate_peers split: option.splits)

lemma new_record_wf: "dict_wf (state_by_agent (new_ArtifactRecord a b))"
  by (simp add: new_ArtifactRecord_def)

sublocale record_contract \<subseteq> service_frame "record_has art R" claim touch "\<lambda>a. a \<noteq> art"
proof (unfold_locales, goal_cases)
  case (1 g)
  then show ?case by (simp add: record_has_def)
next
  case (3 g a r st ag trig tick)
  then show ?case by (intro holds_put) (auto dest: holds_maps intro: R_state)
next
  case (4 g a r x y)
  then show ?case by (intro holds_put) (auto dest: holds_maps intro: R_transient)
next
  case (5 g a r z)
  then show ?case by (intro holds_put) (auto dest: holds_maps intro: R_reclamation)
next
  case (6 g a r upd b w)
  then show ?case by (intro holds_put) (auto dest: holds_maps intro: R_store)
next
  case (7 g a r ag expected chash toks c)
  then show ?case by (intro holds_put) (auto dest: holds_maps intro: R_win won_record_wf)
next
  case (10 g a c)
  then have "record_has art R (put_record (art_id a) r' g)" if "dict_wf (state_by_agent r')" for r'
    using that by (intro holds_put) (auto simp: record_has_def)
  then show ?case by (simp add: reg_register_artifact_def modify_def Let_def new_record_wf)
next
  case (11 g a)
  have "R (g\<lparr>records := dict_pop a (records g)\<rparr>) r" if "R g r" for r
    by (rule R_env [OF that]) simp
  with 11 show ?case unfolding record_has_def maps_wf_def by auto
next
  case (13 g h)
  then show ?case by (elim manifest_updateE) (erule holds_env; simp)
qed (erule holds_env; simp add: note_conflict_def)+

section \<open>Versions and generations only grow\<close>

definition grown :: "int \<Rightarrow> nat \<Rightarrow> registry \<Rightarrow> ArtifactRecord \<Rightarrow> bool" where
  "grown v n g r \<longleftrightarrow> v \<le> art_version (artifact r) \<and> n \<le> owner_generation r"

interpretation growth: record_contract art "grown v n" "\<lambda>_ _. True" "\<lambda>_. True"
  for art v n
  by unfold_locales (auto simp: grown_def apply_agent_state_generation bumped_artifact_def)

section \<open>A superseded claim stays fenced\<close>

definition superseded :: "uuid \<Rightarrow> registry \<Rightarrow> ArtifactRecord \<Rightarrow> bool" where
  "superseded ag g r \<longleftrightarrow> fenced_out ag r \<and> grant_of r ag \<notin> M_OR_E_STATES"

lemma superseded_state:
  assumes "superseded ag g r" and "st = INVALID \<or> grant_of r p \<in> M_OR_E_STATES \<or> p \<noteq> ag"
  shows "superseded ag g (apply_agent_state p st trig tick r)"
proof (cases "p = ag")
  case True
  with assms show ?thesis
    by (auto simp: superseded_def fenced_out_def apply_agent_state_read_generation apply_agent_state_generation
        split: option.splits)
next
  case False
  with assms(1) show ?thesis
    by (auto simp: superseded_def fenced_out_def apply_agent_state_read_generation apply_agent_state_generation
        split: option.splits)
qed

interpretation fence: record_contract art "superseded ag" "\<lambda>a p. \<not> (a = art \<and> p = ag)" "\<lambda>_. True"
  for art ag
proof (unfold_locales, goal_cases)
  case (2 g r st p trig tick)
  then show ?case by (intro superseded_state) auto
qed (auto simp: superseded_def fenced_out_def grant_of_won_record split: option.splits)

section \<open>A pinned body stays retrievable\<close>

definition pinned_body :: "string \<Rightarrow> uuid \<Rightarrow> int \<Rightarrow> body \<Rightarrow> rat \<Rightarrow> registry \<Rightarrow> ArtifactRecord \<Rightarrow> bool" where
  "pinned_body tok art v b t g r \<longleftrightarrow>
     (\<exists>pins. dict_get (session_pins g) tok = Some pins \<and> dict_get pins art = Some v) \<and>
     art_id (artifact r) = art \<and> v \<le> art_version (artifact r) \<and>
     dict_get (version_history r) v = Some b \<and> dict_get (version_captured_at r) v = Some t"

lemma pinned_live:
  assumes "dict_get (session_pins g) tok = Some pins" and "dict_get pins art = Some v"
  shows "v \<in> live_pins_for_artifact art g"
  using assms dict_get_in_set [OF assms(1)]
  by (force simp: live_pins_for_artifact_def List.map_filter_def)

lemma capture_version_exempt:
  assumes "v \<in> live_pins_for_artifact (art_id (artifact r)) g" and "v \<noteq> nv"
  shows "dict_get (version_history (capture_version g nv b r)) v = dict_get (version_history r) v"
    and "dict_get (version_captured_at (capture_version g nv b r)) v = dict_get (version_captured_at r) v"
  using assms by (simp_all add: capture_version_def Let_def collectible_never_exempt split: option.split)

lemma pinned_body_cong:
  "pinned_body tok art v b t g r \<Longrightarrow> artifact r' = artifact r \<Longrightarrow> version_history r' = version_history r \<Longrightarrow>
   version_captured_at r' = version_captured_at r \<Longrightarrow> pinned_body tok art v b t g r'"
  by (simp add: pinned_body_def)

lemma pinned_body_capture:
  assumes "pinned_body tok art v b t g r" and "nv = art_version (artifact r) + 1"
  shows "pinned_body tok art v b t g (capture_version g nv c r)"
proof -
  obtain pins where pins: "dict_get (session_pins g) tok = Some pins" "dict_get pins art = Some v"
    and r: "art_id (artifact r) = art" "v \<le> art_version (artifact r)"
    using assms(1) unfolding pinned_body_def by blast
  have "v \<in> live_pins_for_artifact (art_id (artifact r)) g" using pinned_live [OF pins] r(1) by simp
  moreover have "v \<noteq> nv" using r(2) assms(2) by simp
  ultimately show ?thesis using assms(1) by (simp add: pinned_body_def capture_version_exempt)
qed

lemma pinned_body_artifact:
  "pinned_body tok art v b t g r \<Longrightarrow> art_id (artifact r') = art \<Longrightarrow>
   art_version (artifact r) \<le> art_version (artifact r') \<Longrightarrow> version_history r' = version_history r \<Longrightarrow>
   version_captured_at r' = version_captured_at r \<Longrightarrow> pinned_body tok art v b t g r'"
  by (simp add: pinned_body_def)

lemma pinned_body_win:
  assumes R: "pinned_body tok art v b t g r"
  shows "pinned_body tok art v b t g (won_record g art ag chash toks c r)"
proof (cases "c = None \<or> \<not> retain_versions g")
  case True
  then show ?thesis
    by (intro pinned_body_artifact [OF R])
      (auto simp: won_record_def apply_win_def Let_def bumped_artifact_def split: option.splits)
next
  case False
  then obtain x where c: "c = Some x" "retain_versions g" by auto
  have "pinned_body tok art v b t g (r\<lparr>rec_content := x\<rparr>)" by (rule pinned_body_cong [OF R]) simp_all
  then have "pinned_body tok art v b t g (capture_version g (art_version (artifact r) + 1) x (r\<lparr>rec_content := x\<rparr>))"
    by (rule pinned_body_capture) simp
  then show ?thesis
    by (rule pinned_body_artifact)
      (simp_all add: c won_record_def apply_win_def Let_def bumped_artifact_def)
qed

lemma pinned_body_store:
  assumes R: "pinned_body tok art v b t g r"
    and upd: "art_version upd = art_version (artifact r) + 1" "art_id upd = art_id (artifact r)"
  shows "pinned_body tok art v b t g (stored g upd c w r)"
proof -
  have id: "art_id (artifact r) = art" using R by (simp add: pinned_body_def)
  have "pinned_body tok art v b t g (if retain_versions g then capture_version g (art_version upd) c r else r)"
    using R pinned_body_capture [OF R upd(1)] by simp
  then show ?thesis by (rule pinned_body_artifact) (simp_all add: upd id stored_def)
qed

interpretation pin: record_contract art "pinned_body tok art v b t" "\<lambda>_ _. True" "\<lambda>s. s \<noteq> tok"
  for art tok v b t
proof (unfold_locales, goal_cases)
  case (5 g r upd c w)
  then show ?case by (rule pinned_body_store)
next
  case (6 g r ag expected chash toks c)
  from 6(1) show ?case by (rule pinned_body_win)
qed (auto simp: pinned_body_def)

end
