(* ===== verification/Optimistic.thy ===== *)
theory Optimistic
  imports Persistence
begin

text \<open>
  The contract of a compare-and-swap store and what its clients get from it: along any sequence of
  attempts a key's version grows by exactly the number of wins, and no two wins share the version
  they were based on, so no update is lost. The registry's \<open>commit_cas\<close> and the service's
  \<open>commit_cas\<close> are interpretations. Then the all-or-nothing \<open>commit_all\<close>.
\<close>

section \<open>The contract\<close>

locale cas_store =
  fixes ver :: "'s \<Rightarrow> 'k \<Rightarrow> int option" and cas :: "'k \<Rightarrow> int \<Rightarrow> 'w \<Rightarrow> 's \<Rightarrow> bool \<times> 's" and ok :: "'s \<Rightarrow> bool"
  assumes cas_ok: "ok s \<Longrightarrow> cas k e w s = (won, s') \<Longrightarrow> ok s'"
    and cas_win: "ok s \<Longrightarrow> cas k e w s = (True, s') \<Longrightarrow> ver s k = Some e \<and> ver s' k = Some (e + 1)"
    and cas_lose: "ok s \<Longrightarrow> cas k e w s = (False, s') \<Longrightarrow> ver s' k = ver s k"
    and cas_other: "ok s \<Longrightarrow> cas k e w s = (won, s') \<Longrightarrow> k' \<noteq> k \<Longrightarrow> ver s' k' = ver s k'"

text \<open>A run of attempts, with the outcome of each.\<close>

fun run_cas :: "('k \<Rightarrow> int \<Rightarrow> 'w \<Rightarrow> 's \<Rightarrow> bool \<times> 's) \<Rightarrow> ('k \<times> int \<times> 'w) list \<Rightarrow> 's \<Rightarrow> bool list \<times> 's" where
  "run_cas cas [] s = ([], s)"
| "run_cas cas ((k, e, w) # xs) s =
     (case cas k e w s of (won, s') \<Rightarrow> (case run_cas cas xs s' of (ws, t) \<Rightarrow> (won # ws, t)))"

text \<open>The versions on which the wins for a key were based, in order.\<close>

definition win_bases :: "'k \<Rightarrow> ('k \<times> int \<times> 'w) list \<Rightarrow> bool list \<Rightarrow> int list" where
  "win_bases k xs ws = map (\<lambda>((k', e, w), won). e) (filter (\<lambda>((k', e, w), won). k' = k \<and> won) (zip xs ws))"

lemma win_bases_Nil [simp]: "win_bases k [] ws = []"
  by (simp add: win_bases_def)

lemma win_bases_Cons [simp]:
  "win_bases k ((k', e, w) # xs) (won # ws) = (if k' = k \<and> won then e # win_bases k xs ws else win_bases k xs ws)"
  by (simp add: win_bases_def)

context cas_store
begin

lemma run_wins:
  "ok s \<Longrightarrow> ver s k = Some v \<Longrightarrow> run_cas cas xs s = (ws, t) \<Longrightarrow>
   ver t k = Some (v + int (length (win_bases k xs ws))) \<and>
   win_bases k xs ws = map (\<lambda>i. v + int i) [0..<length (win_bases k xs ws)]"
proof (induction xs arbitrary: s v ws)
  case (Cons x xs)
  obtain k' e w where x: "x = (k', e, w)" by (cases x) auto
  obtain won s' where cas: "cas k' e w s = (won, s')" by (cases "cas k' e w s") auto
  obtain us where us: "run_cas cas xs s' = (us, t)" "ws = won # us"
    using Cons.prems(3) x cas by (auto split: prod.splits)
  have ok': "ok s'" using Cons.prems(1) cas by (rule cas_ok)
  show ?case
  proof (cases "k' = k \<and> won")
    case True
    with cas Cons.prems(1,2) have e: "e = v" and v': "ver s' k = Some (v + 1)"
      using cas_win [of s k e w s'] by auto
    from Cons.IH [OF ok' v' us(1)] True e x us(2) show ?thesis
      by (simp add: upt_conv_Cons map_Suc_upt [symmetric] comp_def add.assoc del: upt_Suc map_Suc_upt)
  next
    case False
    then have "ver s' k = Some v"
      using cas Cons.prems(1,2) cas_lose [of s k' e w s'] cas_other [of s k' e w won s' k] by (cases "k' = k") auto
    from Cons.IH [OF ok' this us(1)] False x us(2) show ?thesis by auto
  qed
qed simp

lemma one_win_per_version:
  assumes "ok s" and "ver s k = Some v" and "run_cas cas xs s = (ws, t)"
  shows "distinct (win_bases k xs ws)"
proof -
  have "win_bases k xs ws = map (\<lambda>i. v + int i) [0..<length (win_bases k xs ws)]"
    using run_wins [OF assms] by blast
  moreover have "distinct (map (\<lambda>i. v + int i) [0..<n])" for n
    by (simp add: distinct_map inj_on_def)
  ultimately show ?thesis by metis
qed

end

section \<open>The registry and the service implement it\<close>

definition version_of :: "registry \<Rightarrow> uuid \<Rightarrow> int option" where
  "version_of g art = map_option (\<lambda>r. art_version (artifact r)) (dict_get (records g) art)"

type_synonym cas_args = "uuid \<times> string \<times> int option \<times> body option \<times> int"

text \<open>One attempt, and whether it won.\<close>

definition registry_attempt :: "uuid \<Rightarrow> int \<Rightarrow> cas_args \<Rightarrow> registry \<Rightarrow> bool \<times> registry" where
  "registry_attempt art expected = (\<lambda>(ag, chash, toks, b, tick) g.
     case reg_commit_cas art ag expected chash toks b tick ''commit_cas'' g of
       (Inr (CasWin _ _), g') \<Rightarrow> (True, g') | (_, g') \<Rightarrow> (False, g'))"

definition service_attempt :: "uuid \<Rightarrow> int \<Rightarrow> cas_args \<Rightarrow> registry \<Rightarrow> bool \<times> registry" where
  "service_attempt art expected = (\<lambda>(ag, chash, toks, b, tick) g.
     case commit_cas ag art expected chash tick toks b False g of
       (Inr (Committed _ _), g') \<Rightarrow> (True, g') | (_, g') \<Rightarrow> (False, g'))"

lemma version_of_log [simp]: "version_of (g\<lparr>seq := s, delivered := d\<rparr>) = version_of g"
  by (simp add: version_of_def fun_eq_iff)

lemma version_of_note [simp]: "version_of (note_conflict art ag why g) = version_of g"
  by (simp add: version_of_def note_conflict_def fun_eq_iff)

lemma version_of_put:
  "version_of (put_record art r g) a = (if a = art then Some (art_version (artifact r)) else version_of g a)"
  by (simp add: version_of_def)

text \<open>What a compare-and-swap does to the versions, as one predicate over its outcome.\<close>

definition cas_effect :: "uuid \<Rightarrow> int \<Rightarrow> registry \<Rightarrow> bool \<Rightarrow> registry \<Rightarrow> bool" where
  "cas_effect art expected g won g' \<longleftrightarrow>
     (if won then version_of g art = Some expected \<and> version_of g' = (version_of g)(art \<mapsto> expected + 1)
      else version_of g' = version_of g)"

lemma cas_effect_put:
  assumes "dict_get (records g) art = Some r" and "arbitrate ag expected r = Admitted"
  shows "cas_effect art expected g True (put_record art (won_record g' art ag chash toks b r) (g\<lparr>seq := s, delivered := d\<rparr>))"
  using assms by (auto simp: cas_effect_def version_of_def arbitrate_Admitted bumped_artifact_def fun_eq_iff)

lemma registry_attempt_effect:
  "registry_attempt art expected w g = (won, g') \<Longrightarrow> cas_effect art expected g won g'"
proof -
  assume run: "registry_attempt art expected w g = (won, g')"
  obtain ag chash toks b tick where w: "w = (ag, chash, toks, b, tick)" by (cases w) auto
  have "wp (reg_commit_cas art ag expected chash toks b tick ''commit_cas'')
    (\<lambda>res g'. cas_effect art expected g (case res of CasWin _ _ \<Rightarrow> True | _ \<Rightarrow> False) g')
    (\<lambda>_ g'. cas_effect art expected g False g') g"
  proof (cases "dict_get (records g) art")
    case None
    then show ?thesis by (simp add: reg_commit_cas_def wp_simps cas_effect_def)
  next
    case (Some r)
    show ?thesis
      by (rule wp_reg_commit_cas [OF Some]) (simp_all add: cas_effect_put [OF Some], simp_all add: cas_effect_def)
  qed
  with run w show ?thesis
    by (auto simp: registry_attempt_def wp_def split: prod.splits sum.splits cas_result.splits)
qed

interpretation rcas: cas_store version_of registry_attempt "\<lambda>_. True"
  by unfold_locales (auto dest!: registry_attempt_effect simp: cas_effect_def split: if_splits)

text \<open>
  The service's \<open>commit_cas\<close> on a coherent registry: every way it can end. The checks after a win
  never fail.
\<close>

definition cas_blocked :: "uuid \<Rightarrow> uuid \<Rightarrow> int \<Rightarrow> bool \<Rightarrow> registry \<Rightarrow> bool" where
  "cas_blocked ag art expected abort g \<longleftrightarrow>
     abort \<or> get_agent_transient art ag g \<noteq> None \<or> get_agent_state art ag g \<in> {Some EXCLUSIVE, Some MODIFIED} \<or>
     (case version_of g art of None \<Rightarrow> True | Some v \<Rightarrow> expected > v)"

lemma wp_commit_cas:
  assumes ok: "reg_ok F g" and bad: "\<And>e. cas_blocked ag art expected abort g \<Longrightarrow> E e g"
    and conf: "\<And>r d. dict_get (records g) art = Some r \<Longrightarrow> arbitrate ag expected r = Conflicting d \<Longrightarrow>
      Q (Conflict d) (note_conflict art ag (detail_reason d) g)"
    and win: "\<And>r s d. dict_get (records g) art = Some r \<Longrightarrow> arbitrate ag expected r = Admitted \<Longrightarrow>
      grant_of r ag \<notin> M_OR_E_STATES \<Longrightarrow>
      Q (Committed (bumped_artifact art chash toks (artifact r))
           (map (\<lambda>_. signal art (art_version (artifact r) + 1) tick ag) (valid_peers ag r)))
        (put_record art (won_record g art ag chash toks b r) (g\<lparr>seq := s, delivered := d\<rparr>))"
    and err: "\<And>s d. \<not> log_ok g \<Longrightarrow> E CallbackError (g\<lparr>seq := s, delivered := d\<rparr>)"
  shows "wp (commit_cas ag art expected chash tick toks b abort) Q E g"
proof -
  have main: "wp (reg_commit_cas art ag expected chash toks b tick ''commit_cas'')
      (\<lambda>result. wp (case result of
         CasCorruption cur \<Rightarrow> throw (CommitCasCorruption ag art expected cur)
       | CasConflict d \<Rightarrow> ret (Conflict d)
       | CasWin upd invalidated_ids \<Rightarrow>
           andthen (lift_sum (check_monotonic_version (art_version a) (art_version upd))) (\<lambda>_.
           andthen (validate_single_writer art) (\<lambda>_.
           ret (Committed upd (map (\<lambda>_. signal art (art_version upd) tick ag) invalidated_ids))))) Q E) E g"
    if a: "get_artifact art g = Some a" and st: "get_agent_state art ag g \<notin> {Some EXCLUSIVE, Some MODIFIED}" for a
  proof -
    obtain r where r: "dict_get (records g) art = Some r" "a = artifact r"
      using a by (auto simp: get_artifact_def)
    have free: "grant_of r ag \<notin> M_OR_E_STATES"
      using st r(1) by (auto simp: get_agent_state_def get_default_def split: option.splits)
    show ?thesis
    proof (rule wp_reg_commit_cas [OF r(1)])
      fix s d
      assume adm: "arbitrate ag expected r = Admitted"
      let ?g = "put_record art (won_record g art ag chash toks b r) (g\<lparr>seq := s, delivered := d\<rparr>)"
      have "rec_ok F art (won_record g art ag chash toks b r)"
        using adm by (intro won_record_ok reg_ok_lookup [OF ok r(1)] free) (simp add: arbitrate_Admitted)
      then have "reg_ok F ?g" using ok by (intro reg_ok_put) simp_all
      with win [OF r(1) adm free, where s = s and d = d] r(2)
      show "wp (case CasWin (bumped_artifact art chash toks (artifact r)) (map fst (valid_peers ag r)) of
         CasCorruption cur \<Rightarrow> throw (CommitCasCorruption ag art expected cur)
       | CasConflict d \<Rightarrow> ret (Conflict d)
       | CasWin upd invalidated_ids \<Rightarrow>
           andthen (lift_sum (check_monotonic_version (art_version a) (art_version upd))) (\<lambda>_.
           andthen (validate_single_writer art) (\<lambda>_.
           ret (Committed upd (map (\<lambda>_. signal art (art_version upd) tick ag) invalidated_ids))))) Q E ?g"
        by (simp add: wp_simps validate_single_writer_ok check_monotonic_version_def bumped_artifact_def comp_def)
    next
      fix cur
      assume "arbitrate ag expected r = Corrupt cur"
      then have "cas_blocked ag art expected abort g"
        by (simp add: cas_blocked_def version_of_def r(1) arbitrate_def Let_def split: if_splits)
      then show "wp (case CasCorruption cur of
         CasCorruption cur \<Rightarrow> throw (CommitCasCorruption ag art expected cur)
       | CasConflict d \<Rightarrow> ret (Conflict d)
       | CasWin upd invalidated_ids \<Rightarrow>
           andthen (lift_sum (check_monotonic_version (art_version a) (art_version upd))) (\<lambda>_.
           andthen (validate_single_writer art) (\<lambda>_.
           ret (Committed upd (map (\<lambda>_. signal art (art_version upd) tick ag) invalidated_ids))))) Q E g"
        by (simp add: wp_simps bad)
    qed (use conf r(1) err in \<open>simp_all add: wp_simps\<close>)
  qed
  show ?thesis
    unfolding commit_cas_def commit_cas_impl_def case_write_holder wp_simps
    using bad by (auto split: option.split intro!: main simp: cas_blocked_def version_of_def get_artifact_def)
qed

lemma service_attempt_effect:
  assumes ok: "reg_ok False g" and run: "service_attempt art expected w g = (won, g')"
  shows "reg_ok False g' \<and> cas_effect art expected g won g'"
proof -
  obtain ag chash toks b tick where w: "w = (ag, chash, toks, b, tick)" by (cases w) auto
  have "wp (commit_cas ag art expected chash tick toks b False)
    (\<lambda>res g'. cas_effect art expected g (case res of Committed _ _ \<Rightarrow> True | _ \<Rightarrow> False) g')
    (\<lambda>_ g'. cas_effect art expected g False g') g"
    by (rule wp_commit_cas [OF ok]) (simp_all add: cas_effect_put, simp_all add: cas_effect_def)
  moreover have "reg_ok False (snd (commit_cas ag art expected chash tick toks b False g))"
    using coh.op_commit_cas ok by (simp add: keeps_def)
  ultimately show ?thesis
    using run w by (auto simp: service_attempt_def wp_def split: prod.splits sum.splits cas_outcome.splits)
qed

interpretation scas: cas_store version_of service_attempt "reg_ok False"
proof (unfold_locales, goal_cases)
  case (1 s k e w won s')
  from service_attempt_effect [OF this] show ?case by blast
next
  case (2 s k e w s')
  from service_attempt_effect [OF this] show ?case by (simp add: cas_effect_def)
next
  case (3 s k e w s')
  from service_attempt_effect [OF this] show ?case by (simp add: cas_effect_def)
next
  case (4 s k e w won s' k')
  from service_attempt_effect [OF 4(1,2)] 4(3) show ?case by (simp add: cas_effect_def split: if_splits)
qed

section \<open>The all-or-nothing commit\<close>

lemma all_won_lookup:
  assumes "all_won g ag writes g'"
  shows "dict_get (records g') a =
     (case dict_get writes a of None \<Rightarrow> dict_get (records g) a
      | Some e \<Rightarrow> map_option (member_record g ag a e) (dict_get (records g) a))"
  using assms unfolding all_won_def by auto

definition admits_all :: "uuid \<Rightarrow> registry \<Rightarrow> (uuid, CommitAllEntry) dict \<Rightarrow> bool" where
  "admits_all ag g writes \<longleftrightarrow>
     (\<forall>(art, e) \<in> set writes. \<exists>r. dict_get (records g) art = Some r \<and> arbitrate ag (entry_expected e) r = Admitted)"

lemma wp_commit_all:
  assumes ok: "reg_ok F g" and wf: "dict_wf writes"
    and rest: "\<And>x g'. records g' = records g \<Longrightarrow> (\<forall>res sigs. x \<noteq> Inr (MultiCommitted res sigs)) \<Longrightarrow>
      (case x of Inl e \<Rightarrow> E e g' | Inr out \<Rightarrow> Q out g')"
    and win: "\<And>sigs g'. admits_all ag g writes \<Longrightarrow> all_won g ag writes g' \<Longrightarrow>
      Q (MultiCommitted (multi_commit_result (stage_members ag tick ''commit_all'' g writes)) sigs) g'"
  shows "wp (commit_all ag writes tick abort) Q E g"
proof -
  have E: "E e g'" if "records g' = records g" for e g' using rest [OF that, of "Inl e"] by simp
  have held: "records (fold (\<lambda>(art, d). note_conflict art ag (detail_reason d)) cs g) = records g" for cs
    by (induction cs arbitrary: g) (auto simp: note_conflict_def)
  let ?K = "\<lambda>result. wp (case result of
         MultiCorruption cur \<Rightarrow> throw (CommitAllCorruption ag cur)
       | MultiCommitConflict conflicts \<Rightarrow> ret (MultiHeld conflicts)
       | MultiWin res \<Rightarrow>
           andthen (for_loop (mcr_versions res) (member_signals ag tick res) []) (\<lambda>signals.
           ret (MultiCommitted res signals))) Q E"
  have "wp (andthen (for_loop writes (commit_all_precondition ag) ()) (\<lambda>_.
     andthen (reg_commit_all ag writes tick ''commit_all'') (\<lambda>result.
       case result of
         MultiCorruption cur \<Rightarrow> throw (CommitAllCorruption ag cur)
       | MultiCommitConflict conflicts \<Rightarrow> ret (MultiHeld conflicts)
       | MultiWin res \<Rightarrow>
           andthen (for_loop (mcr_versions res) (member_signals ag tick res) []) (\<lambda>signals.
           ret (MultiCommitted res signals))))) Q E g"
    unfolding wp_andthen
  proof (rule wp_commit_all_precondition)
    assume pre: "\<forall>(art, e) \<in> set writes. get_artifact art g \<noteq> None \<and> get_agent_transient art ag g = None \<and>
      get_agent_state art ag g \<notin> {Some EXCLUSIVE, Some MODIFIED}"
    show "wp (reg_commit_all ag writes tick ''commit_all'') ?K E g"
    proof (rule wp_reg_commit_all, goal_cases)
      case (4 s d)
      let ?g' = "fold (apply_staged ag) (stage_members ag tick ''commit_all'' g writes) (g\<lparr>seq := s, delivered := d\<rparr>)"
      let ?res = "multi_commit_result (stage_members ag tick ''commit_all'' g writes)"
      have adm: "admits_all ag g writes" using 4 by (simp add: check_members_clean admits_all_def)
      have won: "all_won g ag writes ?g'" by (rule all_wonI [OF wf refl])
      have ok': "reg_ok F ?g'"
        by (rule all_won_reg_ok [OF ok won]) (use adm pre in \<open>auto simp: admits_all_def\<close>)
      have "wp (for_loop vs (member_signals ag tick ?res) acc) (\<lambda>sigs. Q (MultiCommitted ?res sigs)) E ?g'" for vs acc
        by (rule wp_for_loop [where I = "\<lambda>_ _ t. t = ?g'"])
          (auto simp: member_signals_def wp_simps validate_single_writer_ok [OF ok'] intro: win [OF adm won])
      then show ?case by (simp add: wp_simps wp_ret [abs_def])
    next
      case (3 cs)
      show ?case using rest [of _ "Inr (MultiHeld cs)", OF held] by (simp add: wp_simps)
    qed (simp_all add: E wp_simps)
  qed (simp add: E)
  then show ?thesis
    unfolding commit_all_def commit_all_impl_def by (simp add: wp_abort_guard wp_throw E)
qed

end
