(* ===== verification/Scenarios.thy ===== *)
theory Scenarios
  imports Optimistic
begin

text \<open>
  Concrete runs of the model, the inputs at which the properties are exercised. The digest is
  instantiated by the identity and the name-based identifier by an offset from the token's length.
\<close>

definition demo_sha :: "string \<Rightarrow> string" where
  "demo_sha s = s"

definition demo_u5 :: "string \<Rightarrow> uuid" where
  "demo_u5 token = 1000 + length token"

definition demo_policy :: RetentionPolicy where
  "demo_policy = \<lparr>max_versions = Some 2, max_age_seconds = None\<rparr>"

text \<open>A registry that keeps history, bounded to two versions, and has no state log.\<close>

definition demo_registry :: registry where
  "demo_registry =
     \<lparr>records = [], heartbeat_by_agent = [], state_log = None, agent_names = None, instance_id = ''i'',
      coordinator_epoch = ''e'', seq = 0, retain_versions = True, retention_policy = Some demo_policy,
      session_pins = [], session_meta = [], checkpoints = [], checkpoint_members = [], conflict_counts = [],
      delivered = [], wall_clock = 0\<rparr>"

definition demo_start :: service where
  "demo_start = new_CoordinatorService demo_registry None"

definition demo_run :: "request list \<Rightarrow> service" where
  "demo_run qs = fold (perform demo_sha demo_u5) qs demo_start"

definition demo_record :: "request list \<Rightarrow> uuid \<Rightarrow> ArtifactRecord option" where
  "demo_record qs art = dict_get (records (svc_registry (demo_run qs))) art"

lemma demo_run_snoc: "demo_run (qs @ [q]) = perform demo_sha demo_u5 q (demo_run qs)"
  by (simp add: demo_run_def)

lemma demo_init: "coord_init demo_start"
proof -
  have "new_ArtifactRegistry None None (Some ''i'') True (Some demo_policy) ''i'' ''e'' 0 = Inr demo_registry"
    by (simp add: new_ArtifactRegistry_def demo_registry_def)
  then show ?thesis unfolding demo_start_def by (rule coord_init.intros)
qed

section \<open>The runs are reachable\<close>

definition demo_setup :: "request list" where
  "demo_setup = [Register 1 ''a'' (Text ''x'') None None None [], Register 2 ''b'' (Text ''y'') None None None []]"

text \<open>A request that mints no artifact identifier is permitted in every state.\<close>

definition plain :: "request \<Rightarrow> bool" where
  "plain q \<longleftrightarrow> request_ok q \<and>
     (case q of Register _ _ _ _ _ _ _ \<Rightarrow> False | RegisterRestore _ _ _ _ _ _ \<Rightarrow> False | _ \<Rightarrow> True)"

abbreviation demo_step :: "service \<Rightarrow> service \<Rightarrow> bool" where
  "demo_step \<equiv> coord_step demo_sha demo_u5 any_request"

lemma plain_step: "plain q \<Longrightarrow> demo_step s (perform demo_sha demo_u5 q s)"
  by (intro coord_step.intros; cases q) (simp_all add: plain_def permitted_def)

lemma demo_setup_reachable:
  assumes "init demo_start"
  shows "reachable init demo_step (demo_run demo_setup)"
proof -
  have "reachable init demo_step (demo_run [])"
    by (simp add: demo_run_def reach_init assms)
  then have "reachable init demo_step (demo_run ([] @ [Register 1 ''a'' (Text ''x'') None None None []]))"
    unfolding demo_run_snoc
    by (rule reach_step, intro coord_step.intros)
      (simp_all add: request_ok_def permitted_def demo_run_def demo_start_def new_CoordinatorService_def demo_registry_def)
  then have "reachable init demo_step
      (demo_run (([] @ [Register 1 ''a'' (Text ''x'') None None None []]) @ [Register 2 ''b'' (Text ''y'') None None None []]))"
    unfolding demo_run_snoc [of "_ @ _"]
  proof (rule reach_step, intro coord_step.intros)
    have "dict_get (records (svc_registry (demo_run [Register 1 ''a'' (Text ''x'') None None None []]))) 2 = None"
      by code_simp
    then show "any_request (Register 2 ''b'' (Text ''y'') None None None [])
       (demo_run ([] @ [Register 1 ''a'' (Text ''x'') None None None []]))"
      by (simp add: permitted_def)
  qed (simp add: request_ok_def)
  then show ?thesis by (simp add: demo_setup_def)
qed

lemma demo_reachable:
  assumes "init demo_start"
  shows "list_all plain qs \<Longrightarrow> reachable init demo_step (demo_run (demo_setup @ qs))"
proof (induction qs rule: rev_induct)
  case Nil
  then show ?case by (simp add: demo_setup_reachable assms)
next
  case (snoc q qs)
  then have "reachable init demo_step (demo_run (demo_setup @ qs))" and "plain q" by simp_all
  then have "reachable init demo_step (perform demo_sha demo_u5 q (demo_run (demo_setup @ qs)))"
    by (blast intro: reach_step plain_step)
  then show ?case using demo_run_snoc [of "demo_setup @ qs" q] by simp
qed

lemma demo_reg_ok: "list_all plain qs \<Longrightarrow> reg_ok False (svc_registry (demo_run (demo_setup @ qs)))"
  using system.reachable_inv [OF demo_reachable [of coord_init, OF demo_init]] by (simp add: on_reg_def)

lemma demo_log_ok: "log_ok (svc_registry demo_start)"
  by (simp add: demo_start_def new_CoordinatorService_def demo_registry_def log_ok_def)

text \<open>Requests whose permission does not depend on the state.\<close>

definition stateless :: "request \<Rightarrow> bool" where
  "stateless q \<longleftrightarrow> plain q \<and> (case q of SessionSweep _ _ _ \<Rightarrow> False | _ \<Rightarrow> True)"

lemma stateless_permitted:
  assumes "stateless q" and "permitted c t d q s"
  shows "permitted c t d q s'"
  using assms by (cases q) (simp_all add: stateless_def plain_def permitted_def)

lemma demo_steps:
  "list_all (\<lambda>q. stateless q \<and> permitted c t d q demo_start) qs2 \<Longrightarrow>
   (coord_step demo_sha demo_u5 (permitted c t d))\<^sup>*\<^sup>* (demo_run qs) (demo_run (qs @ qs2))"
proof (induction qs2 rule: rev_induct)
  case (snoc q qs2)
  then have q: "stateless q" "permitted c t d q demo_start"
    and steps: "(coord_step demo_sha demo_u5 (permitted c t d))\<^sup>*\<^sup>* (demo_run qs) (demo_run (qs @ qs2))"
    by simp_all
  have "coord_step demo_sha demo_u5 (permitted c t d) (demo_run (qs @ qs2)) (demo_run ((qs @ qs2) @ [q]))"
    unfolding demo_run_snoc by (rule coord_step.intros)
      (use q(1) in \<open>simp_all add: stateless_permitted [OF q] stateless_def plain_def\<close>)
  with steps show ?case by simp
qed simp

end
