(* ===== verification/Safety.thy ===== *)
theory Safety
  imports Scenarios
begin

text \<open>
  Safety of the coordinator along all runs: single writer, freshness of valid copies, bookkeeping
  of grants, growth of versions and generations, and the read-generation fence.
\<close>

section \<open>Reading the invariant through the accessors\<close>

lemma reachable_rec_inv:
  assumes "reachable coord_init (coord_step sha u5 any_request) s"
    and "dict_get (records (svc_registry s)) art = Some r"
  shows "rec_inv r"
  using system.reachable_inv [OF assms(1)] reg_ok_lookup [OF _ assms(2)]
  by (auto simp: on_reg_def rec_ok_def)

lemma get_agent_state_Some:
  "get_agent_state art ag g = Some st \<longleftrightarrow>
     (\<exists>r. dict_get (records g) art = Some r \<and> dict_get (state_by_agent r) ag = Some st)"
  by (auto simp: get_agent_state_def Option.bind_eq_Some_conv)

lemma write_holder_grant:
  "get_agent_state art ag g \<in> {Some MODIFIED, Some EXCLUSIVE} \<longleftrightarrow>
     (\<exists>r. dict_get (records g) art = Some r \<and> grant_of r ag \<in> M_OR_E_STATES)"
  by (auto simp: get_agent_state_def get_default_def Option.bind_eq_Some_conv split: option.splits)

lemma grant_INVALID:
  "dict_get (records g) art = Some r \<Longrightarrow> grant_of r ag = INVALID \<longleftrightarrow> get_agent_state art ag g \<in> {None, Some INVALID}"
  by (auto simp: get_agent_state_def get_default_def split: option.splits)

section \<open>Coherence\<close>

text \<open>
  C1: Single writer, multiple readers. In every reachable state of the coordinator, whatever
  requests were served, in whatever order, with whatever failures of the \<open>state_log\<close> callback and
  watchdog aborts: if an agent holds an artifact in MODIFIED or EXCLUSIVE, every other agent's state
  for that artifact is absent or INVALID.
\<close>

theorem single_writer_always:
  assumes "reachable coord_init (coord_step sha u5 any_request) s"
    and "get_agent_state art a (svc_registry s) \<in> {Some MODIFIED, Some EXCLUSIVE}" and "b \<noteq> a"
  shows "get_agent_state art b (svc_registry s) \<in> {None, Some INVALID}"
proof -
  obtain r where r: "dict_get (records (svc_registry s)) art = Some r" "grant_of r a \<in> M_OR_E_STATES"
    using assms(2) unfolding write_holder_grant by blast
  have "swmr r" using rec_invD(2) [OF reachable_rec_inv [OF assms(1) r(1)]] .
  from swmrD [OF this r(2) assms(3) [symmetric]] show ?thesis using grant_INVALID [OF r(1)] by blast
qed

text \<open>The run of the witness: agent 10 reads, agent 11 reads, agent 10 writes and commits.\<close>

definition demo_commit :: "request list" where
  "demo_commit = [Fetch 1 10 1, Fetch 1 11 2, Write 10 1 3 False, Commit 10 1 ''z'' 4 None None False]"

theorem single_writer_always_witness:
  "get_agent_state 1 10 (svc_registry (demo_run (demo_setup @ demo_commit))) = Some MODIFIED \<and>
   get_agent_state 1 11 (svc_registry (demo_run (demo_setup @ demo_commit))) \<in> {None, Some INVALID}"
proof
  show holder: "get_agent_state 1 10 (svc_registry (demo_run (demo_setup @ demo_commit))) = Some MODIFIED"
    by code_simp
  have "list_all plain demo_commit" by code_simp
  then show "get_agent_state 1 11 (svc_registry (demo_run (demo_setup @ demo_commit))) \<in> {None, Some INVALID}"
    by (rule single_writer_always [OF demo_reachable [of coord_init, OF demo_init], where a = 10]) (simp_all only: holder, simp_all)
qed

text \<open>
  C2: No stale valid copy. When the \<open>state_log\<close> callback never raises (or none is installed), in
  every reachable state an agent whose copy of an artifact is not INVALID has observed exactly the
  artifact's current version.
\<close>

theorem valid_copy_is_current:
  assumes "reachable (\<lambda>s. coord_init s \<and> log_ok (svc_registry s)) (coord_step sha u5 any_request) s"
    and "get_agent_state art ag (svc_registry s) = Some st" and "st \<noteq> INVALID"
  shows "last_observed_version_for art ag (svc_registry s) = version_of (svc_registry s) art"
proof -
  obtain r where r: "dict_get (records (svc_registry s)) art = Some r" "dict_get (state_by_agent r) ag = Some st"
    using assms(2) unfolding get_agent_state_Some by blast
  have "rec_ok True art r"
    using reliable.reachable_inv [OF assms(1)] reg_ok_lookup [OF _ r(1)] by (simp add: on_reg_def)
  then have "fresh r" by (simp add: rec_ok_def)
  moreover have "grant_of r ag \<noteq> INVALID" using r(2) assms(3) by (simp add: get_default_def)
  ultimately show ?thesis
    using r(1) by (simp add: fresh_def last_observed_version_for_def version_of_def)
qed

theorem valid_copy_is_current_witness:
  "get_agent_state 1 11 (svc_registry (demo_run (demo_setup @ demo_commit @ [Fetch 1 11 5]))) = Some SHARED \<and>
   last_observed_version_for 1 11 (svc_registry (demo_run (demo_setup @ demo_commit @ [Fetch 1 11 5]))) =
   version_of (svc_registry (demo_run (demo_setup @ demo_commit @ [Fetch 1 11 5]))) 1"
proof
  show holder: "get_agent_state 1 11 (svc_registry (demo_run (demo_setup @ demo_commit @ [Fetch 1 11 5]))) = Some SHARED"
    by code_simp
  have "list_all plain (demo_commit @ [Fetch 1 11 5])" by code_simp
  from demo_reachable [of "\<lambda>s. coord_init s \<and> log_ok (svc_registry s)", OF conjI [OF demo_init demo_log_ok] this]
  show "last_observed_version_for 1 11 (svc_registry (demo_run (demo_setup @ demo_commit @ [Fetch 1 11 5]))) =
   version_of (svc_registry (demo_run (demo_setup @ demo_commit @ [Fetch 1 11 5]))) 1"
    by (rule valid_copy_is_current [OF _ holder]) simp
qed

text \<open>
  C10: Grant bookkeeping. In every reachable state an agent has a grant tick for an artifact exactly
  when it holds the artifact in MODIFIED or EXCLUSIVE, so that the max-hold sweep can judge every
  write holder, and its captured read generation is the artifact's current one, so that the fence
  never refuses a holder.
\<close>

theorem write_holder_bookkeeping:
  assumes "reachable coord_init (coord_step sha u5 any_request) s"
  shows "(granted_at_tick ag art (svc_registry s) \<noteq> None) =
      (get_agent_state art ag (svc_registry s) \<in> {Some MODIFIED, Some EXCLUSIVE}) \<and>
    (get_agent_state art ag (svc_registry s) \<in> {Some MODIFIED, Some EXCLUSIVE} \<longrightarrow>
      (\<exists>n. get_owner_generation art (svc_registry s) = Inr n \<and> get_read_generation art ag (svc_registry s) = Some n))"
proof -
  let ?g = "svc_registry s"
  have inv: "grants_ok r" "fence_ok r" if "dict_get (records ?g) art = Some r" for r
    using rec_invD [OF reachable_rec_inv [OF assms that]] by blast+
  have "(granted_at_tick ag art ?g \<noteq> None) = (get_agent_state art ag ?g \<in> {Some MODIFIED, Some EXCLUSIVE})"
    unfolding write_holder_grant using inv(1)
    by (auto simp: granted_at_tick_def grants_ok_def Option.bind_eq_Some_conv simp del: M_OR_E_iff)
  moreover have "\<exists>n. get_owner_generation art ?g = Inr n \<and> get_read_generation art ag ?g = Some n"
    if "get_agent_state art ag ?g \<in> {Some MODIFIED, Some EXCLUSIVE}"
    using that inv(2) unfolding write_holder_grant
    by (auto simp: get_owner_generation_def get_read_generation_def fence_ok_def simp del: M_OR_E_iff)
  ultimately show ?thesis by blast
qed

theorem write_holder_bookkeeping_witness:
  "granted_at_tick 10 1 (svc_registry (demo_run (demo_setup @ demo_commit))) = Some 3 \<and>
   (\<exists>n. get_owner_generation 1 (svc_registry (demo_run (demo_setup @ demo_commit))) = Inr n \<and>
      get_read_generation 1 10 (svc_registry (demo_run (demo_setup @ demo_commit))) = Some n)"
proof
  show tick: "granted_at_tick 10 1 (svc_registry (demo_run (demo_setup @ demo_commit))) = Some 3"
    by code_simp
  have "list_all plain demo_commit" by code_simp
  from write_holder_bookkeeping [OF demo_reachable [of coord_init, OF demo_init this], of 10 1]
  show "\<exists>n. get_owner_generation 1 (svc_registry (demo_run (demo_setup @ demo_commit))) = Inr n \<and>
      get_read_generation 1 10 (svc_registry (demo_run (demo_setup @ demo_commit))) = Some n"
    unfolding tick by auto
qed

section \<open>What only grows, and what stays fenced\<close>

lemma reachable_maps_wf:
  assumes "reachable coord_init (coord_step sha u5 any_request) s"
  shows "maps_wf (svc_registry s)"
  using reachable_rec_inv [OF assms] by (auto simp: maps_wf_def rec_inv_def)

lemma permitted_any: "permitted c t d q s \<Longrightarrow> any_request q s"
  by (cases q) (auto simp: permitted_def split: option.splits)

lemma reachable_permitted:
  assumes "reachable coord_init (coord_step sha u5 any_request) s" and "(coord_step sha u5 (permitted c t d))\<^sup>*\<^sup>* s s'"
  shows "reachable coord_init (coord_step sha u5 any_request) s'"
  using assms(2,1)
proof (induction rule: rtranclp_induct)
  case (step y z)
  have "coord_step sha u5 any_request y z"
    using step.hyps(2) by (auto elim!: coord_stepE intro!: coord_step.intros permitted_any)
  with step show ?case by (blast intro: reach_step)
qed

lemma commit_not_holder:
  assumes "get_agent_state art ag g \<notin> {Some MODIFIED, Some EXCLUSIVE}"
  shows "\<exists>e. commit sha ag art text tick h toks abort g = (Inl e, g)"
  using assms
  by (auto simp: commit_def abort_guard_def commit_impl_def require_artifact_def andthen_def asks_def throw_def ret_def
      split: option.splits)

text \<open>
  C9: Versions and ownership generations never regress. From any reachable state, along any sequence
  of requests that does not delete the artifact, its version and its ownership generation never
  decrease, and the artifact stays registered.
\<close>

theorem versions_and_generations_grow:
  assumes "reachable coord_init (coord_step sha u5 any_request) s"
    and "(coord_step sha u5 (permitted (\<lambda>_ _. True) (\<lambda>_. True) (\<lambda>a. a \<noteq> art)))\<^sup>*\<^sup>* s t"
    and "get_artifact_and_generation art (svc_registry s) = Some (a, n)"
  shows "\<exists>a' n'. get_artifact_and_generation art (svc_registry t) = Some (a', n') \<and>
    art_version a \<le> art_version a' \<and> n \<le> n'"
proof -
  have "on_reg (record_has art (grown (art_version a) n)) s"
    using assms(3) reachable_maps_wf [OF assms(1)]
    by (auto simp: on_reg_def record_has_def grown_def get_artifact_and_generation_def)
  from growth.steps_keep [OF assms(2) this] show ?thesis
    by (auto simp: on_reg_def record_has_def grown_def get_artifact_and_generation_def)
qed

theorem versions_and_generations_grow_witness:
  "get_artifact_and_generation 1 (svc_registry (demo_run demo_setup)) =
     Some (\<lparr>art_id = 1, art_name = ''a'', art_version = 1, art_hash = None, art_tokens = None, art_depends_on = []\<rparr>, 0) \<and>
   (\<exists>a' n'. get_artifact_and_generation 1 (svc_registry (demo_run (demo_setup @ demo_commit))) = Some (a', n') \<and>
      1 \<le> art_version a' \<and> 0 \<le> n')"
proof
  show start: "get_artifact_and_generation 1 (svc_registry (demo_run demo_setup)) =
     Some (\<lparr>art_id = 1, art_name = ''a'', art_version = 1, art_hash = None, art_tokens = None, art_depends_on = []\<rparr>, 0)"
    by code_simp
  have steps: "list_all (\<lambda>q. stateless q \<and> permitted (\<lambda>_ _. True) (\<lambda>_. True) (\<lambda>a. a \<noteq> 1) q demo_start) demo_commit"
    by (simp add: demo_commit_def stateless_def plain_def request_ok_def permitted_def)
  from versions_and_generations_grow [OF demo_setup_reachable [of coord_init, OF demo_init] demo_steps [OF steps] start]
  show "\<exists>a' n'. get_artifact_and_generation 1 (svc_registry (demo_run (demo_setup @ demo_commit))) = Some (a', n') \<and>
      1 \<le> art_version a' \<and> 0 \<le> n'" by simp
qed

text \<open>
  C3: A reclaimed claim stays fenced. Once an agent's claim on an artifact has been superseded (its
  captured read generation is below the artifact's ownership generation and it holds no write
  grant), then along any sequence of requests in which the agent neither fetches, writes, upgrades
  nor commits this artifact and the artifact is not deleted, no \<open>commit_cas\<close> of that agent is
  admitted, whatever version it expects, and a \<open>commit\<close> of that agent changes nothing.
\<close>

theorem superseded_claim_stays_fenced:
  assumes "reachable coord_init (coord_step sha u5 any_request) s"
    and "get_read_generation art ag (svc_registry s) = Some n"
    and "get_owner_generation art (svc_registry s) = Inr m" and "n < m"
    and "get_agent_state art ag (svc_registry s) \<notin> {Some MODIFIED, Some EXCLUSIVE}"
    and "(coord_step sha u5 (permitted (\<lambda>a p. \<not> (a = art \<and> p = ag)) (\<lambda>_. True) (\<lambda>a. a \<noteq> art)))\<^sup>*\<^sup>* s t"
  shows "(\<forall>upd signals. fst (commit_cas ag art expected chash tick toks b abort (svc_registry t)) \<noteq> Inr (Committed upd signals)) \<and>
    (\<exists>e. commit sha ag art text tick h toks abort (svc_registry t) = (Inl e, svc_registry t))"
proof -
  obtain r where r: "dict_get (records (svc_registry s)) art = Some r" and "superseded ag (svc_registry s) r"
    using assms(2-5) unfolding write_holder_grant
    by (auto simp: superseded_def fenced_out_def get_owner_generation_def get_read_generation_def
        split: option.splits simp del: M_OR_E_iff)
  then have "on_reg (record_has art (superseded ag)) s"
    using reachable_maps_wf [OF assms(1)] by (auto simp: on_reg_def record_has_def)
  from fence.steps_keep [OF assms(6) this]
  obtain r' where r': "dict_get (records (svc_registry t)) art = Some r'" "fenced_out ag r'" "grant_of r' ag \<notin> M_OR_E_STATES"
    by (auto simp: on_reg_def record_has_def superseded_def)
  have ok: "reg_ok False (svc_registry t)"
    using system.reachable_inv [OF reachable_permitted [OF assms(1,6)]] by (simp add: on_reg_def)
  have "wp (commit_cas ag art expected chash tick toks b abort) (\<lambda>out _. \<forall>upd signals. out \<noteq> Committed upd signals) (\<lambda>_ _. True) (svc_registry t)"
    by (rule wp_commit_cas [OF ok]) (use r' in \<open>simp_all add: arbitrate_Admitted\<close>)
  then have "\<forall>upd signals. fst (commit_cas ag art expected chash tick toks b abort (svc_registry t)) \<noteq> Inr (Committed upd signals)"
    by (auto simp: wp_def split: sum.splits prod.splits)
  moreover have "\<exists>e. commit sha ag art text tick h toks abort (svc_registry t) = (Inl e, svc_registry t)"
    by (rule commit_not_holder, unfold write_holder_grant) (use r'(1,3) in simp)
  ultimately show ?thesis by blast
qed

text \<open>The run of the witness: agent 10 writes and is swept; agent 11 then takes over and commits.\<close>

definition demo_reclaim :: "request list" where
  "demo_reclaim = [Write 10 1 3 False, ReclaimPair 20 5 5 1 10]"

definition demo_takeover :: "request list" where
  "demo_takeover = [Write 11 1 21 False, Commit 11 1 ''z'' 22 None None False, Invalidate 11 1 2 11 23 False]"

theorem superseded_claim_stays_fenced_witness:
  "get_read_generation 1 10 (svc_registry (demo_run (demo_setup @ demo_reclaim))) = Some 0 \<and>
   get_owner_generation 1 (svc_registry (demo_run (demo_setup @ demo_reclaim))) = Inr 1 \<and>
   (\<forall>upd signals. fst (commit_cas 10 1 2 ''h'' 30 None None False
      (svc_registry (demo_run ((demo_setup @ demo_reclaim) @ demo_takeover)))) \<noteq> Inr (Committed upd signals))"
proof -
  let ?s = "demo_run (demo_setup @ demo_reclaim)"
  have read: "get_read_generation 1 10 (svc_registry ?s) = Some 0" by code_simp
  have owner: "get_owner_generation 1 (svc_registry ?s) = Inr 1" by code_simp
  have state: "get_agent_state 1 10 (svc_registry ?s) \<notin> {Some MODIFIED, Some EXCLUSIVE}" by code_simp
  have plain: "list_all plain demo_reclaim" by code_simp
  have steps: "list_all (\<lambda>q. stateless q \<and> permitted (\<lambda>a p. \<not> (a = 1 \<and> p = 10)) (\<lambda>_. True) (\<lambda>a. a \<noteq> 1) q demo_start) demo_takeover"
    by (simp add: demo_takeover_def stateless_def plain_def request_ok_def permitted_def)
  from superseded_claim_stays_fenced [OF demo_reachable [of coord_init, OF demo_init plain] read owner _ state demo_steps [OF steps]]
  show ?thesis using read owner by simp
qed

end
