(* ===== verification/Recovery.thy ===== *)
theory Recovery
  imports Safety
begin

text \<open>
  The crash-recovery sweeps: which grants they take back, that they take back all of them, and that
  they leave every other grant alone.
\<close>

section \<open>The stable-grant sweep\<close>

text \<open>
  A write grant the sweep has to take back: the holder has no transient, and its heartbeat is stale or missing or it has
  held the grant too long.
\<close>

definition silent :: "int \<Rightarrow> int \<Rightarrow> registry \<Rightarrow> uuid \<Rightarrow> bool" where
  "silent cur hb_timeout g ag =
     (case last_heartbeat_tick ag g of None \<Rightarrow> True | Some hb \<Rightarrow> hb + hb_timeout \<le> cur)"

definition held_too_long :: "int \<Rightarrow> int \<Rightarrow> registry \<Rightarrow> uuid \<Rightarrow> uuid \<Rightarrow> bool" where
  "held_too_long cur max_hold g art ag =
     (case granted_at_tick ag art g of None \<Rightarrow> False | Some granted_at \<Rightarrow> granted_at + max_hold \<le> cur)"

definition overdue :: "int \<Rightarrow> int \<Rightarrow> int \<Rightarrow> registry \<Rightarrow> uuid \<Rightarrow> uuid \<Rightarrow> bool" where
  "overdue cur hb_timeout max_hold g art ag \<longleftrightarrow>
     get_agent_state art ag g \<in> {Some MODIFIED, Some EXCLUSIVE} \<and> get_agent_transient art ag g = None \<and>
     (silent cur hb_timeout g ag \<or> held_too_long cur max_hold g art ag)"

lemma reclaim_trigger_cases:
  "reclaim_trigger cur hb_timeout max_hold art ag g =
     (if silent cur hb_timeout g ag then Some ''reclaim_heartbeat''
      else if held_too_long cur max_hold g art ag then Some ''reclaim_max_hold'' else None)"
  by (auto simp: reclaim_trigger_def silent_def held_too_long_def split: option.split)

lemma overdue_trigger:
  "overdue cur hb_timeout max_hold g art ag \<longleftrightarrow>
     get_agent_state art ag g \<in> {Some MODIFIED, Some EXCLUSIVE} \<and> get_agent_transient art ag g = None \<and>
     reclaim_trigger cur hb_timeout max_hold art ag g \<noteq> None"
  unfolding reclaim_trigger_cases overdue_def by simp

text \<open>The record the sweep leaves.\<close>

definition reclaimed :: "int \<Rightarrow> string \<Rightarrow> uuid \<Rightarrow> ArtifactRecord \<Rightarrow> ArtifactRecord" where
  "reclaimed cur trig ag r =
     (let r1 = apply_agent_state ag INVALID trig cur r
      in r1\<lparr>last_reclamation_by_agent := dict_set ag (trig, cur) (last_reclamation_by_agent r1)\<rparr>)"

lemma reclaim_trigger_bumps:
  "reclaim_trigger cur hb_timeout max_hold art ag g = Some trig \<Longrightarrow> trig \<in> EPOCH_BUMP_TRIGGERS"
  by (auto simp: reclaim_trigger_def EPOCH_BUMP_TRIGGERS_def RECLAIM_TRIGGERS_def split: if_splits option.splits)

lemma reclaimed_record:
  assumes "rec_inv r" and "grant_of r ag \<in> M_OR_E_STATES" and "trig \<in> EPOCH_BUMP_TRIGGERS"
  shows "state_by_agent (reclaimed cur trig ag r) = dict_set ag INVALID (state_by_agent r) \<and>
    owner_generation (reclaimed cur trig ag r) = owner_generation r + 1 \<and>
    dict_get (last_reclamation_by_agent (reclaimed cur trig ag r)) ag = Some (trig, cur) \<and>
    dict_get (read_generation_by_agent (reclaimed cur trig ag r)) ag = Some (owner_generation r)"
proof -
  have "dict_get (read_generation_by_agent r) ag = Some (owner_generation r)"
    using rec_invD(4) [OF assms(1)] assms(2) by (simp add: fence_ok_def del: M_OR_E_iff)
  then show ?thesis using assms(2,3) by (auto simp: reclaimed_def Let_def apply_agent_state_fields)
qed

lemma reclaimed_ok: "rec_ok F art r \<Longrightarrow> rec_ok F art (reclaimed cur trig ag r)"
  by (simp add: reclaimed_def Let_def rec_ok_apply_agent_state)

lemma wp_reclaim_pair:
  assumes ok: "reg_ok F g" and log: "log_ok g"
    and skip: "\<not> overdue cur hb_timeout max_hold g art ag \<Longrightarrow> Q notices g"
    and hit: "\<And>r trig g'. dict_get (records g) art = Some r \<Longrightarrow> grant_of r ag \<in> M_OR_E_STATES \<Longrightarrow>
      overdue cur hb_timeout max_hold g art ag \<Longrightarrow>
      reclaim_trigger cur hb_timeout max_hold art ag g = Some trig \<Longrightarrow> reg_ok F g' \<Longrightarrow> log_ok g' \<Longrightarrow>
      heartbeat_by_agent g' = heartbeat_by_agent g \<Longrightarrow>
      (\<And>a. dict_get (records g') a = (if a = art then Some (reclaimed cur trig ag r) else dict_get (records g) a)) \<Longrightarrow>
      Q (notices @ [(art, ag, trig)]) g'"
  shows "wp (reclaim_pair cur hb_timeout max_hold notices (art, ag)) Q E g"
proof (cases "overdue cur hb_timeout max_hold g art ag")
  case False
  with skip show ?thesis
    unfolding reclaim_pair_def prod.case wp_simps by (auto simp: overdue_trigger wp_simps split: option.splits)
next
  case True
  then obtain r trig where r: "dict_get (records g) art = Some r" "grant_of r ag \<in> M_OR_E_STATES"
    and trig: "reclaim_trigger cur hb_timeout max_hold art ag g = Some trig"
    unfolding overdue_trigger write_holder_grant by blast
  have go: "get_agent_state art ag g \<in> {Some MODIFIED, Some EXCLUSIVE}" "get_agent_transient art ag g = None"
    using True by (simp_all add: overdue_trigger)
  let ?g = "\<lambda>s d. put_record art (reclaimed cur trig ag r)
    (put_record art (apply_agent_state ag INVALID trig cur r) g\<lparr>seq := s, delivered := d\<rparr>)"
  have rok: "rec_ok F art (reclaimed cur trig ag r)" "rec_ok F art (apply_agent_state ag INVALID trig cur r)"
    using reg_ok_lookup [OF ok r(1)] by (simp_all add: reclaimed_ok rec_ok_apply_agent_state)
  have ok': "reg_ok F (?g s d)" for s d
    using ok rok by (intro reg_ok_put) (simp_all add: reg_ok_put)
  have post: "Q (notices @ [(art, ag, trig)]) (?g s d)" for s d
    by (rule hit [OF r True trig ok']) (use log in simp_all)
  show ?thesis
    unfolding reclaim_pair_def prod.case wp_simps trig option.case
    using go
    by (auto simp: wp_simps record_last_reclamation_def validate_single_writer_ok [OF ok'] log
        reclaimed_def [unfolded Let_def, symmetric] intro!: wp_set_agent_state [OF r(1)] post)
qed

lemma overdue_cong:
  assumes "dict_get (records g') art = dict_get (records g) art" and "heartbeat_by_agent g' = heartbeat_by_agent g"
  shows "reclaim_trigger cur hb_timeout max_hold art ag g' = reclaim_trigger cur hb_timeout max_hold art ag g"
    and "overdue cur hb_timeout max_hold g' art ag = overdue cur hb_timeout max_hold g art ag"
  using assms by (simp_all add: overdue_trigger reclaim_trigger_def get_agent_state_def get_agent_transient_def
      last_heartbeat_tick_def granted_at_tick_def)

lemma overdue_holder:
  "overdue cur hb_timeout max_hold g art ag \<Longrightarrow>
   \<exists>r. dict_get (records g) art = Some r \<and> grant_of r ag \<in> M_OR_E_STATES"
  unfolding overdue_trigger write_holder_grant by blast

text \<open>
  The state of the sweep that started in \<open>g\<close> and has the pairs \<open>todo\<close> left: an artifact is either
  as it was, its overdue grants still to come, or has had its overdue grant taken back.
\<close>

definition sweeping :: "int \<Rightarrow> int \<Rightarrow> int \<Rightarrow> registry \<Rightarrow> (uuid \<times> uuid) list \<Rightarrow> reclaim_notice list \<Rightarrow> registry \<Rightarrow> bool" where
  "sweeping cur hb_timeout max_hold g todo notices g' \<longleftrightarrow>
     reg_ok True g' \<and> heartbeat_by_agent g' = heartbeat_by_agent g \<and>
     (\<forall>(a, p, t) \<in> set notices. overdue cur hb_timeout max_hold g a p \<and>
        reclaim_trigger cur hb_timeout max_hold a p g = Some t) \<and>
     (\<forall>a. dict_get (records g') a = dict_get (records g) a \<and>
            (\<forall>p. overdue cur hb_timeout max_hold g a p \<longrightarrow> (a, p) \<in> set todo) \<or>
          (\<exists>r p t. dict_get (records g) a = Some r \<and> overdue cur hb_timeout max_hold g a p \<and>
             reclaim_trigger cur hb_timeout max_hold a p g = Some t \<and> (a, p, t) \<in> set notices \<and>
             dict_get (records g') a = Some (reclaimed cur t p r)))"

lemma overdue_unique:
  assumes "reg_ok F g" and "overdue cur hb_timeout max_hold g art p" and "overdue cur hb_timeout max_hold g art q"
  shows "p = q"
proof -
  obtain r where r: "dict_get (records g) art = Some r" "grant_of r p \<in> M_OR_E_STATES" "grant_of r q \<in> M_OR_E_STATES"
    using overdue_holder [OF assms(2)] overdue_holder [OF assms(3)] by auto
  have "swmr r" using reg_ok_lookup [OF assms(1) r(1)] by (simp add: rec_ok_def rec_inv_def)
  from swmrD [OF this r(2), of q] r(3) show ?thesis by (cases "p = q") auto
qed

lemma reclaimed_free:
  assumes ok: "reg_ok F g" and r: "dict_get (records g) art = Some r" and due: "overdue cur hb_timeout max_hold g art p"
    and trig: "reclaim_trigger cur hb_timeout max_hold art p g = Some t"
  shows "grant_of (reclaimed cur t p r) q \<notin> M_OR_E_STATES"
proof -
  have inv: "rec_inv r" using reg_ok_lookup [OF ok r] by (simp add: rec_ok_def)
  have hold: "grant_of r p \<in> M_OR_E_STATES" using overdue_holder [OF due] r by simp
  have "grant_of r q = INVALID" if "q \<noteq> p" using swmrD [OF rec_invD(2) [OF inv] hold] that by metis
  then show ?thesis using reclaimed_record [OF inv hold reclaim_trigger_bumps [OF trig]] by (cases "q = p") simp_all
qed

lemma sweeping_step:
  assumes ok: "reg_ok True g" and I: "sweeping cur hb_timeout max_hold g ((art, ag) # todo) notices g'"
  shows "wp (reclaim_pair cur hb_timeout max_hold notices (art, ag)) (sweeping cur hb_timeout max_hold g todo) E g'"
proof (rule wp_reclaim_pair)
  show ok': "reg_ok True g'" using I by (simp add: sweeping_def)
  then show "log_ok g'" by (simp add: reg_ok_def)
  have hb: "heartbeat_by_agent g' = heartbeat_by_agent g" using I by (simp add: sweeping_def)
  note cong = overdue_cong [where g = g and g' = g', OF _ hb]
  show "sweeping cur hb_timeout max_hold g todo notices g'" if "\<not> overdue cur hb_timeout max_hold g' art ag"
    using I that cong(2) [of art cur hb_timeout max_hold ag] unfolding sweeping_def by auto
  fix r t h
  assume r: "dict_get (records g') art = Some r" "grant_of r ag \<in> M_OR_E_STATES"
    and due: "overdue cur hb_timeout max_hold g' art ag" and trig: "reclaim_trigger cur hb_timeout max_hold art ag g' = Some t"
    and h: "reg_ok True h" "heartbeat_by_agent h = heartbeat_by_agent g'"
    "\<And>a. dict_get (records h) a = (if a = art then Some (reclaimed cur t ag r) else dict_get (records g') a)"
  have same: "dict_get (records g') art = dict_get (records g) art"
  proof (rule ccontr)
    assume "dict_get (records g') art \<noteq> dict_get (records g) art"
    then obtain r0 p t0 where "dict_get (records g) art = Some r0" "overdue cur hb_timeout max_hold g art p"
      "reclaim_trigger cur hb_timeout max_hold art p g = Some t0" "r = reclaimed cur t0 p r0"
      using I r(1) unfolding sweeping_def by fastforce
    then show False using reclaimed_free [OF ok] r(2) by metis
  qed
  have new: "overdue cur hb_timeout max_hold g art ag" "reclaim_trigger cur hb_timeout max_hold art ag g = Some t"
    using due trig cong [OF same] by simp_all
  show "sweeping cur hb_timeout max_hold g todo (notices @ [(art, ag, t)]) h"
    unfolding sweeping_def
  proof (intro conjI allI)
    fix a
    show "dict_get (records h) a = dict_get (records g) a \<and>
            (\<forall>p. overdue cur hb_timeout max_hold g a p \<longrightarrow> (a, p) \<in> set todo) \<or>
          (\<exists>r p t'. dict_get (records g) a = Some r \<and> overdue cur hb_timeout max_hold g a p \<and>
             reclaim_trigger cur hb_timeout max_hold a p g = Some t' \<and> (a, p, t') \<in> set (notices @ [(art, ag, t)]) \<and>
             dict_get (records h) a = Some (reclaimed cur t' p r))"
    proof (cases "a = art")
      case True
      with new same r(1) show ?thesis
        by (intro disjI2 exI [of _ r] exI [of _ ag] exI [of _ t]) (simp add: h(3))
    next
      case False
      with I show ?thesis unfolding sweeping_def h(3) by auto
    qed
  qed (use h I hb new in \<open>auto simp: sweeping_def\<close>)
qed

lemma overdue_in_snapshot:
  assumes "overdue cur hb_timeout max_hold g art ag"
  shows "(art, ag) \<in> set (grant_snapshot g)"
proof -
  obtain r st where r: "dict_get (records g) art = Some r" "dict_get (state_by_agent r) ag = Some st" "st \<in> M_OR_E_STATES"
    using assms by (auto simp: overdue_trigger get_agent_state_Some)
  have "(ag, st) \<in> set (get_state_map art g)" using dict_get_in_set [OF r(2)] r(1) by (simp add: get_state_map_def)
  moreover have "art \<in> set (artifact_ids g)" using dict_get_in_set [OF r(1)] by (force simp: artifact_ids_def)
  ultimately show ?thesis using r(3) by (force simp: grant_snapshot_def simp del: M_OR_E_iff)
qed

lemma sweep_outcome:
  assumes ok: "reg_ok True g" and "0 < hb_timeout" and "0 < max_hold"
  shows "\<exists>notices g'. enforce_stable_grant_timeouts cur hb_timeout max_hold g = (Inr notices, g') \<and>
    sweeping cur hb_timeout max_hold g [] notices g'"
proof -
  have "wp (for_loop (grant_snapshot g) (reclaim_pair cur hb_timeout max_hold) [])
    (sweeping cur hb_timeout max_hold g []) (\<lambda>_ _. False) g"
  proof (rule wp_for_loop [where I = "sweeping cur hb_timeout max_hold g"])
    show "sweeping cur hb_timeout max_hold g (grant_snapshot g) [] g"
      using ok by (simp add: sweeping_def overdue_in_snapshot)
    show "wp (reclaim_pair cur hb_timeout max_hold a y) (sweeping cur hb_timeout max_hold g ys) (\<lambda>_ _. False) t"
      if "sweeping cur hb_timeout max_hold g (y # ys) a t" for y ys a t
      using that by (cases y) (simp add: sweeping_step [OF ok])
  qed
  then show ?thesis
    using assms(2,3) by (auto simp: enforce_stable_grant_timeouts_def andthen_def asks_def wp_def split: prod.splits sum.splits)
qed

lemma sweeping_done:
  assumes ok: "reg_ok True g" and I: "sweeping cur hb_timeout max_hold g [] notices g'"
  shows "overdue cur hb_timeout max_hold g art ag \<Longrightarrow> \<exists>r t. dict_get (records g) art = Some r \<and>
      grant_of r ag \<in> M_OR_E_STATES \<and> reclaim_trigger cur hb_timeout max_hold art ag g = Some t \<and>
      (art, ag, t) \<in> set notices \<and> dict_get (records g') art = Some (reclaimed cur t ag r)"
    and "\<not> overdue cur hb_timeout max_hold g art ag \<Longrightarrow> get_agent_state art ag g' = get_agent_state art ag g"
proof -
  have rel: "dict_get (records g') art = dict_get (records g) art \<and> (\<forall>p. \<not> overdue cur hb_timeout max_hold g art p) \<or>
    (\<exists>r p t. dict_get (records g) art = Some r \<and> overdue cur hb_timeout max_hold g art p \<and>
       reclaim_trigger cur hb_timeout max_hold art p g = Some t \<and> (art, p, t) \<in> set notices \<and>
       dict_get (records g') art = Some (reclaimed cur t p r))"
    using I unfolding sweeping_def by auto
  show "\<exists>r t. dict_get (records g) art = Some r \<and>
      grant_of r ag \<in> M_OR_E_STATES \<and> reclaim_trigger cur hb_timeout max_hold art ag g = Some t \<and>
      (art, ag, t) \<in> set notices \<and> dict_get (records g') art = Some (reclaimed cur t ag r)"
    if "overdue cur hb_timeout max_hold g art ag"
    using rel overdue_unique [OF ok that] overdue_holder [OF that] that by (metis option.inject)
  show "get_agent_state art ag g' = get_agent_state art ag g" if "\<not> overdue cur hb_timeout max_hold g art ag"
    using rel that by (auto simp: get_agent_state_def reclaimed_def Let_def)
qed

text \<open>
  C11: The stable-grant sweep is exact. In any reachable state with a reliable state log and positive
  timeouts, \<open>enforce_stable_grant_timeouts\<close> returns; it reports exactly the overdue write grants (no
  transient, and the holder's heartbeat stale or missing, or the grant held too long), each with
  its trigger; each of them becomes INVALID, has its reclamation recorded, moves the
  ownership generation by exactly one and leaves the ex-holder's claim below it; and
  the state of every pair that is not overdue is unchanged.
\<close>

theorem stable_sweep_exact:
  assumes "reachable (\<lambda>s. coord_init s \<and> log_ok (svc_registry s)) (coord_step sha u5 any_request) s"
    and "0 < hb_timeout" and "0 < max_hold"
  shows "\<exists>notices g'. enforce_stable_grant_timeouts cur hb_timeout max_hold (svc_registry s) = (Inr notices, g') \<and>
    set notices = {(art, ag, t). overdue cur hb_timeout max_hold (svc_registry s) art ag \<and>
      t = (if silent cur hb_timeout (svc_registry s) ag then ''reclaim_heartbeat'' else ''reclaim_max_hold'')} \<and>
    (\<forall>(art, ag, t) \<in> set notices. \<exists>n. get_agent_state art ag g' = Some INVALID \<and>
       get_last_reclamation ag art g' = Some (t, cur) \<and> get_read_generation art ag g' = Some n \<and>
       get_owner_generation art (svc_registry s) = Inr n \<and> get_owner_generation art g' = Inr (n + 1)) \<and>
    (\<forall>art ag. \<not> overdue cur hb_timeout max_hold (svc_registry s) art ag \<longrightarrow>
       get_agent_state art ag g' = get_agent_state art ag (svc_registry s))"
proof -
  let ?g = "svc_registry s"
  have ok: "reg_ok True ?g" using reliable.reachable_inv [OF assms(1)] by (simp add: on_reg_def)
  obtain notices g' where run: "enforce_stable_grant_timeouts cur hb_timeout max_hold ?g = (Inr notices, g')"
    and I: "sweeping cur hb_timeout max_hold ?g [] notices g'"
    using sweep_outcome [OF ok assms(2,3)] by blast
  have sound: "overdue cur hb_timeout max_hold ?g art ag \<and> reclaim_trigger cur hb_timeout max_hold art ag ?g = Some t"
    if "(art, ag, t) \<in> set notices" for art ag t
    using I that unfolding sweeping_def by auto
  have hits: "\<exists>n. get_agent_state art ag g' = Some INVALID \<and> get_last_reclamation ag art g' = Some (t, cur) \<and>
      get_read_generation art ag g' = Some n \<and> get_owner_generation art ?g = Inr n \<and> get_owner_generation art g' = Inr (n + 1)"
    if "(art, ag, t) \<in> set notices" for art ag t
  proof -
    from sound [OF that] have due: "overdue cur hb_timeout max_hold ?g art ag"
      and trig: "reclaim_trigger cur hb_timeout max_hold art ag ?g = Some t" by simp_all
    from sweeping_done(1) [OF ok I due] trig obtain r where r: "dict_get (records ?g) art = Some r"
      "grant_of r ag \<in> M_OR_E_STATES" "dict_get (records g') art = Some (reclaimed cur t ag r)" by auto
    have "rec_inv r" using reg_ok_lookup [OF ok r(1)] by (simp add: rec_ok_def)
    from reclaimed_record [OF this r(2) reclaim_trigger_bumps [OF trig]] r(1,3) show ?thesis
      by (simp add: get_agent_state_def get_last_reclamation_def get_read_generation_def get_owner_generation_def)
  qed
  have complete: "(art, ag, t) \<in> set notices" if "overdue cur hb_timeout max_hold ?g art ag"
    and "reclaim_trigger cur hb_timeout max_hold art ag ?g = Some t" for art ag t
    using sweeping_done(1) [OF ok I that(1)] that(2) by auto
  show ?thesis
  proof (intro exI conjI allI impI)
    have "overdue cur hb_timeout max_hold ?g art ag \<and> reclaim_trigger cur hb_timeout max_hold art ag ?g = Some t \<longleftrightarrow>
        overdue cur hb_timeout max_hold ?g art ag \<and> t = (if silent cur hb_timeout ?g ag then ''reclaim_heartbeat'' else ''reclaim_max_hold'')"
      for art ag t by (auto simp: overdue_def reclaim_trigger_cases)
    with sound complete show "set notices = {(art, ag, t). overdue cur hb_timeout max_hold ?g art ag \<and>
      t = (if silent cur hb_timeout ?g ag then ''reclaim_heartbeat'' else ''reclaim_max_hold'')}"
      by blast
  qed (use run hits sweeping_done(2) [OF ok I] in blast)+
qed

text \<open>The run of the witness: agent 10 holds artifact 1 and falls silent, agent 11 holds artifact 2 and lives.\<close>

definition demo_holders :: "request list" where
  "demo_holders = [Heartbeat 10 1, Write 10 1 3 False, Write 11 2 15 False, Heartbeat 11 19]"

theorem stable_sweep_exact_witness:
  "overdue 20 10 10 (svc_registry (demo_run (demo_setup @ demo_holders))) 1 10 \<and>
   \<not> overdue 20 10 10 (svc_registry (demo_run (demo_setup @ demo_holders))) 2 11 \<and>
   (\<exists>notices g'. enforce_stable_grant_timeouts 20 10 10 (svc_registry (demo_run (demo_setup @ demo_holders))) = (Inr notices, g') \<and>
      get_agent_state 1 10 g' = Some INVALID \<and> get_agent_state 2 11 g' = Some EXCLUSIVE)"
proof -
  let ?s = "demo_run (demo_setup @ demo_holders)"
  have due: "overdue 20 10 10 (svc_registry ?s) 1 10" "silent 20 10 (svc_registry ?s) 10"
    and live: "\<not> overdue 20 10 10 (svc_registry ?s) 2 11" "get_agent_state 2 11 (svc_registry ?s) = Some EXCLUSIVE"
    by code_simp+
  have "list_all plain demo_holders" by code_simp
  from demo_reachable [of "\<lambda>s. coord_init s \<and> log_ok (svc_registry s)", OF conjI [OF demo_init demo_log_ok] this]
  have "reachable (\<lambda>s. coord_init s \<and> log_ok (svc_registry s)) demo_step ?s" .
  from stable_sweep_exact [OF this, of 10 10 20] due live show ?thesis by fastforce
qed

section \<open>The transient sweep\<close>

definition expired :: "int \<Rightarrow> int \<Rightarrow> registry \<Rightarrow> uuid \<Rightarrow> uuid \<Rightarrow> bool" where
  "expired cur timeout g art ag \<longleftrightarrow> get_agent_transient art ag g \<noteq> None \<and>
     (case get_transient_tick art ag g of None \<Rightarrow> False | Some t \<Rightarrow> cur - t \<ge> timeout)"

text \<open>What the sweep reads and writes of a pair.\<close>

definition pair_view :: "registry \<Rightarrow> uuid \<Rightarrow> uuid \<Rightarrow> MESIState option \<times> TransientState option \<times> int option" where
  "pair_view g art ag = (get_agent_state art ag g, get_agent_transient art ag g, get_transient_tick art ag g)"

definition timing :: "int \<Rightarrow> int \<Rightarrow> registry \<Rightarrow> (uuid \<Rightarrow> uuid \<Rightarrow> bool) \<Rightarrow> registry \<Rightarrow> bool" where
  "timing cur timeout g todo g' \<longleftrightarrow> reg_ok True g' \<and>
     (\<forall>a p. pair_view g' a p = pair_view g a p \<and> (expired cur timeout g a p \<longrightarrow> todo a p) \<or>
        expired cur timeout g a p \<and> pair_view g' a p = (Some INVALID, None, None))"

lemma expired_view: "pair_view g' a p = pair_view g a p \<Longrightarrow> expired cur timeout g' a p = expired cur timeout g a p"
  by (simp add: expired_def pair_view_def)

lemma timing_mono:
  "timing cur timeout g todo g' \<Longrightarrow> (\<And>a p. todo a p \<Longrightarrow> expired cur timeout g' a p \<Longrightarrow> todo' a p) \<Longrightarrow>
   timing cur timeout g todo' g'"
  unfolding timing_def using expired_view [of g' _ _ g] by metis

lemma wp_expire_pair:
  assumes ok: "reg_ok True g" and skip: "\<not> expired cur timeout g art ag \<Longrightarrow> Q n g"
    and hit: "\<And>g'. expired cur timeout g art ag \<Longrightarrow> reg_ok True g' \<Longrightarrow>
      (\<And>a p. pair_view g' a p = (if (a, p) = (art, ag) then (Some INVALID, None, None) else pair_view g a p)) \<Longrightarrow> Q (n + 1) g'"
  shows "wp (expire_pair cur timeout art n ag) Q E g"
proof (cases "expired cur timeout g art ag")
  case False
  with skip show ?thesis
    unfolding expire_pair_def wp_simps by (auto simp: expired_def wp_simps split: option.splits)
next
  case True
  then obtain t where t: "get_agent_transient art ag g \<noteq> None" "get_transient_tick art ag g = Some t" "\<not> cur - t < timeout"
    by (auto simp: expired_def split: option.splits)
  then obtain r where r: "dict_get (records g) art = Some r" by (auto simp: get_agent_transient_def split: Option.bind_splits)
  define r1 where "r1 = apply_agent_state ag INVALID ''timeout'' cur r"
  define r2 where "r2 = r1\<lparr>transient_by_agent := dict_pop ag (transient_by_agent r1),
      transient_tick_by_agent := dict_pop ag (transient_tick_by_agent r1)\<rparr>"
  let ?g = "\<lambda>s d. put_record art r2 (put_record art r1 g\<lparr>seq := s, delivered := d\<rparr>)"
  have rok: "rec_ok True art r1" "rec_ok True art r2"
    using reg_ok_lookup [OF ok r] by (simp_all add: r1_def r2_def rec_ok_apply_agent_state)
  have ok': "reg_ok True (?g s d)" for s d
    using ok rok by (intro reg_ok_put) (simp_all add: reg_ok_put)
  have log: "log_ok g" using ok by (simp add: reg_ok_def)
  have post: "Q (n + 1) (?g s d)" for s d
    by (rule hit [OF True ok'])
      (auto simp: pair_view_def get_agent_state_def get_agent_transient_def get_transient_tick_def r r1_def r2_def)
  show ?thesis
    unfolding expire_pair_def wp_simps t(2) option.case using t(1,3)
    by (auto simp: wp_simps clear_agent_transient_def log r1_def [symmetric] r2_def [symmetric]
        intro!: wp_set_agent_state [OF r] post)
qed

lemma timing_step:
  assumes "timing cur timeout g todo g'"
  shows "wp (expire_pair cur timeout art n ag) (\<lambda>_. timing cur timeout g (\<lambda>a p. todo a p \<and> (a, p) \<noteq> (art, ag))) E g'"
proof (rule wp_expire_pair)
  show "reg_ok True g'" using assms by (simp add: timing_def)
  show "timing cur timeout g (\<lambda>a p. todo a p \<and> (a, p) \<noteq> (art, ag)) g'" if "\<not> expired cur timeout g' art ag"
    by (rule timing_mono [OF assms]) (use that in auto)
  fix h
  assume due: "expired cur timeout g' art ag" and h: "reg_ok True h"
    "\<And>a p. pair_view h a p = (if (a, p) = (art, ag) then (Some INVALID, None, None) else pair_view g' a p)"
  have "expired cur timeout g art ag"
    using assms due expired_view [of g' art ag g] unfolding timing_def
    by (metis expired_def pair_view_def prod.inject)
  with assms h(1) show "timing cur timeout g (\<lambda>a p. todo a p \<and> (a, p) \<noteq> (art, ag)) h"
    unfolding timing_def h(2) by auto
qed

lemma in_keys: "dict_get m k = Some v \<Longrightarrow> k \<in> fst ` set m"
  by (force dest: dict_get_in_set)

lemma timing_artifact:
  assumes "timing cur timeout g (\<lambda>a p. a \<in> set (art # arts)) g'"
  shows "wp (for_loop (dict_keys (get_transient_map art g')) (expire_pair cur timeout art) n)
    (\<lambda>_. timing cur timeout g (\<lambda>a p. a \<in> set arts)) E g'"
proof (rule wp_for_loop [where I = "\<lambda>ys _. timing cur timeout g (\<lambda>a p. a \<in> set arts \<or> a = art \<and> p \<in> set ys)"])
  show "timing cur timeout g (\<lambda>a p. a \<in> set arts \<or> a = art \<and> p \<in> set (dict_keys (get_transient_map art g'))) g'"
  proof (rule timing_mono [OF assms])
    fix a p
    assume "a \<in> set (art # arts)" and "expired cur timeout g' a p"
    then show "a \<in> set arts \<or> a = art \<and> p \<in> set (dict_keys (get_transient_map art g'))"
      by (auto simp: expired_def get_agent_transient_def get_transient_map_def in_keys split: Option.bind_splits)
  qed
  show "wp (expire_pair cur timeout art n p) (\<lambda>_. timing cur timeout g (\<lambda>a p. a \<in> set arts \<or> a = art \<and> p \<in> set ps)) E t"
    if "timing cur timeout g (\<lambda>a q. a \<in> set arts \<or> a = art \<and> q \<in> set (p # ps)) t" for p ps n t
    by (rule wp_mono [OF timing_step [OF that]]) (auto elim!: timing_mono)
qed (auto elim!: timing_mono)


text \<open>The run of the witness: agents 10 and 11 read, agent 10 writes; agent 11 is left in a transient.\<close>

definition demo_readers :: "request list" where
  "demo_readers = [Fetch 1 10 1, Fetch 1 11 2, Write 10 1 3 False]"


end
