(* ===== verification/Protocol.thy ===== *)
theory Protocol
  imports Recovery
begin

text \<open>
  What the pessimistic operations do when they succeed: \<open>fetch\<close>, \<open>write\<close> and \<open>commit\<close> on a coherent
  registry whose state log does not raise. The rules below follow one artifact's record through an
  operation and record that no other artifact is touched.
\<close>

section \<open>Following one record\<close>

text \<open>\<open>focus g art r g'\<close>: starting from \<open>g\<close>, the operation reached \<open>g'\<close>, where \<open>art\<close> has the record \<open>r\<close>.\<close>

definition focus :: "registry \<Rightarrow> uuid \<Rightarrow> ArtifactRecord \<Rightarrow> registry \<Rightarrow> bool" where
  "focus g art r g' \<longleftrightarrow> dict_get (records g') art = Some r \<and> log_ok g' \<and>
     (\<forall>b. b \<noteq> art \<longrightarrow> dict_get (records g') b = dict_get (records g) b)"

lemma focus_start: "log_ok g \<Longrightarrow> dict_get (records g) art = Some r \<Longrightarrow> focus g art r g"
  by (simp add: focus_def)

lemma focus_put: "focus g art r g' \<Longrightarrow> focus g art r' (put_record art r' g')"
  by (simp add: focus_def)

lemma focus_log [simp]: "focus g art r (g'\<lparr>seq := s, delivered := d\<rparr>) = focus g art r g'"
  by (simp add: focus_def)

lemma focus_set_agent_state:
  assumes "focus g art r g'" and "\<And>h. focus g art (apply_agent_state ag st trig tick r) h \<Longrightarrow> Q () h"
  shows "wp (set_agent_state art ag st trig tick ch) Q E g'"
proof (rule wp_set_agent_state)
  show "dict_get (records g') art = Some r" using assms(1) by (simp add: focus_def)
  show "Q () (put_record art (apply_agent_state ag st trig tick r) g'\<lparr>seq := s, delivered := d\<rparr>)" for s d
    by (rule assms(2)) (use assms(1) in \<open>simp add: focus_put\<close>)
qed (use assms(1) in \<open>simp add: focus_def\<close>)

definition settled :: "ArtifactRecord \<Rightarrow> ArtifactRecord \<Rightarrow> bool" where
  "settled r r' \<longleftrightarrow> (\<exists>x y. r' = r\<lparr>transient_by_agent := x, transient_tick_by_agent := y\<rparr>)"

lemma settled_fields:
  assumes "settled r r'"
  shows "artifact r' = artifact r" "rec_content r' = rec_content r" "state_by_agent r' = state_by_agent r"
    "read_generation_by_agent r' = read_generation_by_agent r" "owner_generation r' = owner_generation r"
    "rec_ok F art r' = rec_ok F art r"
  using assms by (auto simp: settled_def)

lemma settled_update [simp]: "settled r (r\<lparr>transient_by_agent := x, transient_tick_by_agent := y\<rparr>)"
  unfolding settled_def by blast

lemma settled_refl: "settled r r"
  unfolding settled_def by (intro exI [of _ "transient_by_agent r"] exI [of _ "transient_tick_by_agent r"]) simp

lemma focus_set_agent_transient:
  assumes "focus g art r g'" and "\<And>h r'. focus g art r' h \<Longrightarrow> settled r r' \<Longrightarrow> Q () h"
  shows "wp (set_agent_transient art ag ts t) Q E g'"
  using assms(1) by (auto simp: set_agent_transient_def wp_simps focus_def intro!: assms(2))

lemma focus_clear_agent_transient:
  assumes "focus g art r g'" and "\<And>h r'. focus g art r' h \<Longrightarrow> settled r r' \<Longrightarrow> Q () h"
  shows "wp (clear_agent_transient art ag) Q E g'"
  using assms(1) by (auto simp: clear_agent_transient_def wp_simps focus_def intro!: assms(2))

lemma focus_grant_and_settle:
  assumes at: "focus g art r g'" and ok: "rec_ok False art r" and hold: "may_hold ag st r"
    and post: "\<And>h r'. focus g art r' h \<Longrightarrow> settled (apply_agent_state ag st trig tick r) r' \<Longrightarrow> Q x h"
  shows "wp (grant_and_settle art ag st trig tick ch x) Q E g'"
  unfolding grant_and_settle_def wp_andthen
proof (rule focus_set_agent_state [OF at], rule focus_clear_agent_transient, assumption)
  fix h h' r'
  assume h': "focus g art r' h'" "settled (apply_agent_state ag st trig tick r) r'"
  have "rec_ok False art r'" using rec_ok_apply_agent_state [OF ok hold] settled_fields(6) [OF h'(2)] by simp
  then have "check_single_writer (get_state_map art h') = Inr ()"
    using h'(1) by (auto simp: get_state_map_def focus_def intro: check_single_writer_ok)
  with post [OF h'] show "wp (validate_single_writer art) (\<lambda>_. wp (ret x) Q E) E h'"
    by (simp add: wp_simps wp_ret [abs_def])
qed

section \<open>The invalidation loop\<close>

text \<open>What the invalidation of peers keeps of a record.\<close>

definition same_data :: "ArtifactRecord \<Rightarrow> ArtifactRecord \<Rightarrow> bool" where
  "same_data r r' \<longleftrightarrow> artifact r' = artifact r \<and> rec_content r' = rec_content r"

abbreviation peer_filter :: "uuid \<Rightarrow> uuid \<times> MESIState \<Rightarrow> bool" where
  "peer_filter ag \<equiv> \<lambda>(p, st). p \<noteq> ag \<and> st \<noteq> INVALID"

lemma focus_invalidate_peer:
  assumes at: "focus g art r g'" and ok: "rec_ok False art r"
    and skip: "\<not> peer_filter ag (p, st) \<Longrightarrow> Q sigs g'"
    and hit: "\<And>h r'. peer_filter ag (p, st) \<Longrightarrow> focus g art r' h \<Longrightarrow> rec_ok False art r' \<Longrightarrow> same_data r r' \<Longrightarrow>
      state_by_agent r' = dict_set p INVALID (state_by_agent r) \<Longrightarrow> Q (sigs @ [signal art v tick ag]) h"
  shows "wp (invalidate_peer art ag trig v tick sigs (p, st)) Q E g'"
proof (cases "peer_filter ag (p, st)")
  case False
  with skip show ?thesis by (auto simp: invalidate_peer_def wp_simps)
next
  case True
  have settle: "wp (set_agent_state art p INVALID trig tick None) (\<lambda>_. Q (sigs @ [signal art v tick ag])) E h"
    if h: "focus g art r1 h" "settled r r1" for h r1
  proof (rule focus_set_agent_state [OF h(1)])
    fix h'
    assume "focus g art (apply_agent_state p INVALID trig tick r1) h'"
    then show "Q (sigs @ [signal art v tick ag]) h'"
      by (rule hit [OF True])
        (use settled_fields [OF h(2)] ok in \<open>simp_all add: rec_ok_apply_agent_state same_data_def\<close>)
  qed
  have "wp (case invalidation_transient_for_state st of None \<Rightarrow> ret () | Some ts \<Rightarrow> set_agent_transient art p ts tick)
    (\<lambda>_. wp (set_agent_state art p INVALID trig tick None) (\<lambda>_. Q (sigs @ [signal art v tick ag])) E) E g'"
    using settle [OF at settled_refl]
    by (auto simp: wp_simps split: option.split intro!: focus_set_agent_transient [OF at] settle)
  with True show ?thesis unfolding invalidate_peer_def by (simp add: wp_andthen [abs_def] wp_ret [abs_def])
qed

text \<open>The loop of \<open>write\<close> and \<open>commit\<close> over the state map read before it, with \<open>todo\<close> left.\<close>

definition invalidating ::
  "registry \<Rightarrow> uuid \<Rightarrow> uuid \<Rightarrow> ArtifactRecord \<Rightarrow> InvalidationSignal \<Rightarrow> (uuid, MESIState) dict
   \<Rightarrow> InvalidationSignal list \<Rightarrow> registry \<Rightarrow> bool" where
  "invalidating g art ag r sg todo sigs h \<longleftrightarrow>
     dict_wf todo \<and> (\<forall>(p, st) \<in> set todo. dict_get (state_by_agent r) p = Some st) \<and>
     sigs @ map (\<lambda>_. sg) (filter (peer_filter ag) todo) = map (\<lambda>_. sg) (filter (peer_filter ag) (state_by_agent r)) \<and>
     (\<exists>r'. focus g art r' h \<and> rec_ok False art r' \<and> same_data r r' \<and>
        (\<forall>p. dict_get (state_by_agent r') p =
           (if p \<noteq> ag \<and> grant_of r p \<noteq> INVALID \<and> p \<notin> fst ` set todo then Some INVALID
            else dict_get (state_by_agent r) p)))"

lemma invalidatingI:
  assumes "dict_wf todo" and "\<forall>(p, st) \<in> set todo. dict_get (state_by_agent r) p = Some st"
    and "sigs @ map (\<lambda>_. sg) (filter (peer_filter ag) todo) = map (\<lambda>_. sg) (filter (peer_filter ag) (state_by_agent r))"
    and "focus g art r' h" and "rec_ok False art r'" and "same_data r r'"
    and "\<And>p. dict_get (state_by_agent r') p =
           (if p \<noteq> ag \<and> grant_of r p \<noteq> INVALID \<and> p \<notin> fst ` set todo then Some INVALID
            else dict_get (state_by_agent r) p)"
  shows "invalidating g art ag r sg todo sigs h"
  using assms unfolding invalidating_def by blast

lemma invalidating_step:
  assumes "invalidating g art ag r (signal art v tick ag) ((p, st) # todo) sigs h"
  shows "wp (invalidate_peer art ag trig v tick sigs (p, st)) (invalidating g art ag r (signal art v tick ag) todo) E h"
proof -
  obtain r' where r': "focus g art r' h" "rec_ok False art r'" "same_data r r'"
    and wf: "dict_wf ((p, st) # todo)" "\<forall>(p, st) \<in> set ((p, st) # todo). dict_get (state_by_agent r) p = Some st"
    and sigs: "sigs @ map (\<lambda>_. signal art v tick ag) (filter (peer_filter ag) ((p, st) # todo)) =
       map (\<lambda>_. signal art v tick ag) (filter (peer_filter ag) (state_by_agent r))"
    and view: "\<And>q. dict_get (state_by_agent r') q =
           (if q \<noteq> ag \<and> grant_of r q \<noteq> INVALID \<and> q \<notin> fst ` set ((p, st) # todo) then Some INVALID
            else dict_get (state_by_agent r) q)"
    using assms unfolding invalidating_def by blast
  have st: "dict_get (state_by_agent r) p = Some st" "p \<notin> fst ` set todo" using wf by auto
  show ?thesis
  proof (rule focus_invalidate_peer [OF r'(1,2)])
    assume skip: "\<not> peer_filter ag (p, st)"
    have view': "dict_get (state_by_agent r') q =
           (if q \<noteq> ag \<and> grant_of r q \<noteq> INVALID \<and> q \<notin> fst ` set todo then Some INVALID
            else dict_get (state_by_agent r) q)" for q
      using view [of q] skip st by (auto simp: get_default_def)
    show "invalidating g art ag r (signal art v tick ag) todo sigs h"
      by (rule invalidatingI [OF _ _ _ r' view']) (use wf sigs skip in auto)
  next
    fix h' r2
    assume hit: "peer_filter ag (p, st)" and r2: "focus g art r2 h'" "rec_ok False art r2" "same_data r' r2"
      "state_by_agent r2 = dict_set p INVALID (state_by_agent r')"
    have view': "dict_get (state_by_agent r2) q =
           (if q \<noteq> ag \<and> grant_of r q \<noteq> INVALID \<and> q \<notin> fst ` set todo then Some INVALID
            else dict_get (state_by_agent r) q)" for q
      using view [of q] hit st by (auto simp: r2(4) get_default_def)
    show "invalidating g art ag r (signal art v tick ag) todo (sigs @ [signal art v tick ag]) h'"
      by (rule invalidatingI [OF _ _ _ r2(1,2) _ view']) (use wf sigs hit r2(3) r'(3) in \<open>auto simp: same_data_def\<close>)
  qed
qed

lemma focus_invalidate_loop:
  assumes at: "focus g art r g'" and ok: "rec_ok False art r"
    and post: "\<And>h r'. focus g art r' h \<Longrightarrow> rec_ok False art r' \<Longrightarrow> same_data r r' \<Longrightarrow>
      (\<And>p. dict_get (state_by_agent r') p =
         (if p \<noteq> ag \<and> grant_of r p \<noteq> INVALID then Some INVALID else dict_get (state_by_agent r) p)) \<Longrightarrow>
      Q (map (\<lambda>_. signal art v tick ag) (filter (peer_filter ag) (state_by_agent r))) h"
  shows "wp (for_loop (state_by_agent r) (invalidate_peer art ag trig v tick) []) Q E g'"
proof (rule wp_for_loop [where I = "invalidating g art ag r (signal art v tick ag)"])
  have wf: "dict_wf (state_by_agent r)" using ok by (simp add: rec_ok_def rec_inv_def)
  have view: "dict_get (state_by_agent r) p =
      (if p \<noteq> ag \<and> grant_of r p \<noteq> INVALID \<and> p \<notin> fst ` set (state_by_agent r) then Some INVALID
       else dict_get (state_by_agent r) p)" for p
    using in_keys [of "state_by_agent r" p] by (cases "dict_get (state_by_agent r) p") (auto simp: get_default_def)
  show "invalidating g art ag r (signal art v tick ag) (state_by_agent r) [] g'"
    by (rule invalidatingI [OF wf _ _ at ok _ view]) (use wf in \<open>auto simp: same_data_def\<close>)
  show "wp (invalidate_peer art ag trig v tick a y) (invalidating g art ag r (signal art v tick ag) ys) E t"
    if "invalidating g art ag r (signal art v tick ag) (y # ys) a t" for y ys a t
    using that invalidating_step by (cases y) blast
  show "Q a t" if "invalidating g art ag r (signal art v tick ag) [] a t" for a t
    using that post unfolding invalidating_def by auto
qed

lemma wp_returns: "wp m Q (\<lambda>_ _. False) s \<Longrightarrow> \<exists>a s'. m s = (Inr a, s') \<and> Q a s'"
  by (auto simp: wp_def split: prod.splits sum.splits)

section \<open>Write\<close>

lemma focus_map: "focus g art r g' \<Longrightarrow> get_state_map art g' = state_by_agent r"
  by (simp add: get_state_map_def focus_def)

lemma wp_write_op:
  assumes ok: "reg_ok True g" and r: "dict_get (records g) art = Some r"
    and post: "\<And>h r'. focus g art r' h \<Longrightarrow> same_data r r' \<Longrightarrow> dict_get (state_by_agent r') ag = Some EXCLUSIVE \<Longrightarrow>
      (\<And>p. p \<noteq> ag \<Longrightarrow> grant_of r' p = INVALID) \<Longrightarrow>
      Q (map (\<lambda>_. signal art (art_version (artifact r)) tick ag) (filter (peer_filter ag) (state_by_agent r))) h"
  shows "wp (write_op ag art tick False) Q E g"
proof -
  have at: "focus g art r g" using ok r by (simp add: focus_def reg_ok_def)
  have rok: "rec_ok False art r" using reg_ok_lookup [OF ok r] by (rule rec_ok_weaken)
  have "wp (set_agent_transient art ag IED tick)
      (\<lambda>_. wp (andthen (asks (get_state_map art)) (\<lambda>state_map.
        andthen (for_loop state_map (invalidate_peer art ag ''write'' (art_version (artifact r)) tick) [])
          (grant_and_settle art ag EXCLUSIVE ''write'' tick None))) Q E) E g"
  proof (rule focus_set_agent_transient [OF at])
    fix h r1
    assume h: "focus g art r1 h" and r1: "settled r r1"
    note eqs = settled_fields [OF r1]
    show "wp (andthen (asks (get_state_map art)) (\<lambda>state_map.
        andthen (for_loop state_map (invalidate_peer art ag ''write'' (art_version (artifact r)) tick) [])
          (grant_and_settle art ag EXCLUSIVE ''write'' tick None))) Q E h"
      unfolding wp_simps focus_map [OF h]
    proof (rule focus_invalidate_loop [OF h])
      show "rec_ok False art r1" using rok eqs(6) by simp
      fix h' r2
      assume h': "focus g art r2 h'" "rec_ok False art r2" and data: "same_data r1 r2"
        and view: "\<And>p. dict_get (state_by_agent r2) p =
          (if p \<noteq> ag \<and> grant_of r1 p \<noteq> INVALID then Some INVALID else dict_get (state_by_agent r1) p)"
      have peers: "grant_of r2 p = INVALID" if "p \<noteq> ag" for p
        using view [of p] that by (auto simp: get_default_def split: option.splits if_splits)
      show "wp (grant_and_settle art ag EXCLUSIVE ''write'' tick None
          (map (\<lambda>_. signal art (art_version (artifact r)) tick ag) (filter (peer_filter ag) (state_by_agent r1)))) Q E h'"
        unfolding eqs(3)
      proof (rule focus_grant_and_settle [OF h'], goal_cases)
        case 1
        show ?case using peers by (simp add: may_hold_def)
      next
        case (2 h'' r3)
        note eqs3 = settled_fields [OF 2(2)]
        show ?case
          by (rule post [OF 2(1)]) (use data eqs eqs3 peers in \<open>simp_all add: same_data_def\<close>)
      qed
    qed
  qed
  then show ?thesis
    unfolding write_op_def write_impl_fold wp_simps get_artifact_def r option.map option.case by simp
qed

text \<open>
  C13: What \<open>write\<close> does. From every reachable state with a reliable state log, a \<open>write\<close> of a
  registered artifact (no watchdog abort) returns one invalidation signal, at the current version,
  for every other agent with a valid copy; afterwards the writer holds EXCLUSIVE, every other agent's
  copy is absent or INVALID, and the artifact's version, hash and body and every other artifact's
  record are unchanged.
\<close>

theorem write_takes_ownership:
  assumes "reachable (\<lambda>s. coord_init s \<and> log_ok (svc_registry s)) (coord_step sha u5 any_request) s"
    and "get_artifact art (svc_registry s) = Some a"
  shows "\<exists>g'. write_op ag art tick False (svc_registry s) =
      (Inr (map (\<lambda>_. signal art (art_version a) tick ag)
         (filter (\<lambda>(p, st). p \<noteq> ag \<and> st \<noteq> INVALID) (get_state_map art (svc_registry s)))), g') \<and>
    get_agent_state art ag g' = Some EXCLUSIVE \<and> (\<forall>p. p \<noteq> ag \<longrightarrow> get_agent_state art p g' \<in> {None, Some INVALID}) \<and>
    get_artifact art g' = Some a \<and> get_content art g' = get_content art (svc_registry s) \<and>
    (\<forall>b. b \<noteq> art \<longrightarrow> dict_get (records g') b = dict_get (records (svc_registry s)) b)"
proof -
  let ?g = "svc_registry s"
  have ok: "reg_ok True ?g" using reliable.reachable_inv [OF assms(1)] by (simp add: on_reg_def)
  obtain r where r: "dict_get (records ?g) art = Some r" "a = artifact r" using assms(2) by (auto simp: get_artifact_def)
  have "wp (write_op ag art tick False)
    (\<lambda>sigs g'. sigs = map (\<lambda>_. signal art (art_version a) tick ag)
         (filter (\<lambda>(p, st). p \<noteq> ag \<and> st \<noteq> INVALID) (get_state_map art ?g)) \<and>
      get_agent_state art ag g' = Some EXCLUSIVE \<and> (\<forall>p. p \<noteq> ag \<longrightarrow> get_agent_state art p g' \<in> {None, Some INVALID}) \<and>
      get_artifact art g' = Some a \<and> get_content art g' = get_content art ?g \<and>
      (\<forall>b. b \<noteq> art \<longrightarrow> dict_get (records g') b = dict_get (records ?g) b)) (\<lambda>_ _. False) ?g"
  proof (rule wp_write_op [OF ok r(1)], intro conjI allI impI)
    fix h r' p
    assume h: "focus ?g art r' h" and peers: "\<And>p. p \<noteq> ag \<Longrightarrow> grant_of r' p = INVALID" and p: "p \<noteq> ag"
    have "dict_get (records h) art = Some r'" using h by (simp add: focus_def)
    from grant_INVALID [OF this] peers [OF p] show "get_agent_state art p h \<in> {None, Some INVALID}" by blast
  qed (simp_all add: r focus_def same_data_def get_state_map_def get_agent_state_def get_artifact_def get_content_def)
  from wp_returns [OF this] show ?thesis by blast
qed

text \<open>The state of the witnesses: agents 10 and 11 read artifact 1.\<close>

definition demo_reads :: "request list" where
  "demo_reads = [Fetch 1 10 1, Fetch 1 11 2]"

abbreviation reliable_init :: "service \<Rightarrow> bool" where
  "reliable_init \<equiv> \<lambda>s. coord_init s \<and> log_ok (svc_registry s)"

lemma demo_reliable: "list_all plain qs \<Longrightarrow> reachable reliable_init demo_step (demo_run (demo_setup @ qs))"
  by (rule demo_reachable [of reliable_init]) (simp add: demo_init demo_log_ok)

theorem write_takes_ownership_witness:
  "\<exists>g'. write_op 10 1 3 False (svc_registry (demo_run (demo_setup @ demo_reads))) = (Inr [signal 1 1 3 10], g') \<and>
    get_agent_state 1 10 g' = Some EXCLUSIVE \<and> get_agent_state 1 11 g' \<in> {None, Some INVALID}"
proof -
  let ?s = "demo_run (demo_setup @ demo_reads)"
  have "list_all plain demo_reads" by code_simp
  then have reach: "reachable reliable_init demo_step ?s" by (rule demo_reliable)
  have art: "get_artifact 1 (svc_registry ?s) =
    Some \<lparr>art_id = 1, art_name = ''a'', art_version = 1, art_hash = None, art_tokens = None, art_depends_on = []\<rparr>"
    by code_simp
  have smap: "get_state_map 1 (svc_registry ?s) = [(10, SHARED), (11, SHARED)]" by code_simp
  from write_takes_ownership [OF reach art, of 10 3] show ?thesis unfolding smap by auto
qed

section \<open>Commit\<close>

lemma holder_no_peers:
  assumes "rec_inv r" and "grant_of r ag \<in> M_OR_E_STATES"
  shows "filter (peer_filter ag) (state_by_agent r) = []"
proof -
  have "\<not> peer_filter ag (p, st)" if "(p, st) \<in> set (state_by_agent r)" for p st
  proof -
    have "dict_get (state_by_agent r) p = Some st" using that rec_invD(1) [OF assms(1)] by simp
    then show ?thesis using swmrD [OF rec_invD(2) [OF assms(1)] assms(2), of p] by (auto simp: get_default_def)
  qed
  then show ?thesis by (auto simp: filter_empty_conv)
qed

text \<open>The artifact that \<open>commit\<close> stores.\<close>

definition committed_artifact :: "string option \<Rightarrow> int option \<Rightarrow> Artifact \<Rightarrow> Artifact" where
  "committed_artifact chash toks a =
     \<lparr>art_id = art_id a, art_name = art_name a, art_version = art_version a + 1,
      art_hash = (case chash of None \<Rightarrow> art_hash a | Some h \<Rightarrow> Some h),
      art_tokens = (case toks of None \<Rightarrow> art_tokens a | Some t \<Rightarrow> Some t), art_depends_on = art_depends_on a\<rparr>"

lemma focus_commit_tail:
  assumes at: "focus g art r g'" and ok: "rec_ok False art r" and holder: "grant_of r ag \<in> M_OR_E_STATES"
    and post: "\<And>h r'. focus g art r' h \<Longrightarrow> same_data r r' \<Longrightarrow> dict_get (state_by_agent r') ag = Some MODIFIED \<Longrightarrow>
      (\<And>p. p \<noteq> ag \<Longrightarrow> grant_of r' p = INVALID) \<Longrightarrow> Q (upd, []) h"
  shows "wp (commit_tail sha256_hex ag art text tick chash upd) Q E g'"
  unfolding commit_tail_def wp_simps focus_map [OF at]
proof (rule focus_invalidate_loop [OF at ok])
  fix h r'
  assume h: "focus g art r' h" "rec_ok False art r'" and data: "same_data r r'"
    and view: "\<And>p. dict_get (state_by_agent r') p =
      (if p \<noteq> ag \<and> grant_of r p \<noteq> INVALID then Some INVALID else dict_get (state_by_agent r) p)"
  have sigs: "filter (peer_filter ag) (state_by_agent r) = []"
    using ok holder by (intro holder_no_peers) (simp_all add: rec_ok_def)
  have peers: "grant_of r' p = INVALID" if "p \<noteq> ag" for p
    using view [of p] that by (auto simp: get_default_def split: option.splits if_splits)
  have "wp (grant_and_settle art ag MODIFIED ''commit'' tick (Some ch) (upd, [])) Q E h" for ch
  proof (rule focus_grant_and_settle [OF h], goal_cases)
    case 1
    show ?case using peers by (simp add: may_hold_def)
  next
    case (2 h' r2)
    show ?case
      by (rule post [OF 2(1)]) (use data settled_fields [OF 2(2)] peers in \<open>simp_all add: same_data_def\<close>)
  qed
  then show "wp (case chash of None \<Rightarrow> lift_sum (compute_content_hash sha256_hex (Text text)) | Some h \<Rightarrow> ret h)
     (\<lambda>ch. wp (grant_and_settle art ag MODIFIED ''commit'' tick (Some ch)
        (upd, map (\<lambda>_. signal art (art_version upd) tick ag) (filter (peer_filter ag) (state_by_agent r)))) Q E) E h"
    unfolding sigs by (simp add: wp_simps compute_content_hash_def split: option.split)
qed

lemma wp_commit:
  assumes ok: "reg_ok True g" and r: "dict_get (records g) art = Some r" and holder: "grant_of r ag \<in> M_OR_E_STATES"
    and post: "\<And>h r'. focus g art r' h \<Longrightarrow> artifact r' = committed_artifact chash toks (artifact r) \<Longrightarrow>
      rec_content r' = Text text \<Longrightarrow> dict_get (state_by_agent r') ag = Some MODIFIED \<Longrightarrow>
      (\<And>p. p \<noteq> ag \<Longrightarrow> grant_of r' p = INVALID) \<Longrightarrow> Q (committed_artifact chash toks (artifact r), []) h"
  shows "wp (commit sha256_hex ag art text tick chash toks False) Q E g"
proof -
  have at: "focus g art r g" using ok r by (simp add: focus_def reg_ok_def)
  have rok: "rec_ok False art r" using reg_ok_lookup [OF ok r] by (rule rec_ok_weaken)
  then have inv: "rec_inv r" and id: "art_id (artifact r) = art" by (simp_all add: rec_ok_def)
  have state: "get_agent_state art ag g \<in> {Some EXCLUSIVE, Some MODIFIED}"
    using write_holder_grant [of art ag g] r holder by auto
  let ?upd = "committed_artifact chash toks (artifact r)"
  let ?rest = "andthen (except (set_artifact_and_content art ?upd (Text text) (Some ag) (Some ag))
    (\<lambda>e. case e of StaleReadGeneration _ _ _ _ \<Rightarrow> andthen (clear_agent_transient art ag) (\<lambda>_. throw e)
         | _ \<Rightarrow> throw e)) (\<lambda>_. commit_tail sha256_hex ag art text tick chash ?upd)"
  have "wp (set_agent_transient art ag MWB tick) (\<lambda>_. wp ?rest Q E) E g"
  proof (rule focus_set_agent_transient [OF at])
    fix h r1
    assume h: "focus g art r1 h" and r1: "settled r r1"
    note eqs = settled_fields [OF r1]
    have inv1: "rec_inv r1" using rok eqs(6) [of False art] by (simp add: rec_ok_def)
    let ?r2 = "stored h ?upd (Text text) (Some ag) r1"
    have "rec_inv ?r2" by (rule rec_inv_cong [OF inv1]) (simp_all add: eqs committed_artifact_def)
    then have ok2: "rec_ok False art ?r2" by (simp add: rec_ok_def id committed_artifact_def)
    have "wp (commit_tail sha256_hex ag art text tick chash ?upd) Q E (put_record art ?r2 h)"
      by (rule focus_commit_tail [OF focus_put [OF h] ok2])
        (use holder eqs in \<open>simp_all add: same_data_def post del: M_OR_E_iff\<close>)
    moreover have "\<not> fenced_out ag r1" using holder_not_fenced [OF inv1] holder eqs by simp
    ultimately show "wp ?rest Q E h"
      using h by (simp add: wp_andthen wp_except wp_set_artifact_and_content focus_def)
  qed
  then show ?thesis
    using state unfolding commit_def commit_impl_fold
    by (simp add: wp_simps get_artifact_def r Let_def committed_artifact_def [symmetric] cong: if_cong) blast
qed

text \<open>
  C14: What \<open>commit\<close> does. From every reachable state with a reliable state log, a \<open>commit\<close> by an
  agent that holds the artifact in MODIFIED or EXCLUSIVE (no watchdog abort) succeeds with no
  invalidation signal to send: the stored artifact has the next version and the given hash and
  size (the old ones where none are given), the body is the committed text, the agent holds
  MODIFIED, every other copy is absent or INVALID, and no other artifact changes. None of the
  runtime checks on the way can fail.
\<close>

theorem commit_stores_next_version:
  assumes "reachable reliable_init (coord_step sha u5 any_request) s"
    and "get_artifact art (svc_registry s) = Some a"
    and "get_agent_state art ag (svc_registry s) \<in> {Some MODIFIED, Some EXCLUSIVE}"
  shows "\<exists>upd g'. commit sha ag art text tick chash toks False (svc_registry s) = (Inr (upd, []), g') \<and>
    art_version upd = art_version a + 1 \<and> art_hash upd = (if chash = None then art_hash a else chash) \<and>
    art_tokens upd = (if toks = None then art_tokens a else toks) \<and>
    get_artifact art g' = Some upd \<and> get_content art g' = Some (Text text) \<and>
    get_agent_state art ag g' = Some MODIFIED \<and> (\<forall>p. p \<noteq> ag \<longrightarrow> get_agent_state art p g' \<in> {None, Some INVALID}) \<and>
    (\<forall>b. b \<noteq> art \<longrightarrow> dict_get (records g') b = dict_get (records (svc_registry s)) b)"
proof -
  let ?g = "svc_registry s"
  have ok: "reg_ok True ?g" using reliable.reachable_inv [OF assms(1)] by (simp add: on_reg_def)
  obtain r where r: "dict_get (records ?g) art = Some r" "grant_of r ag \<in> M_OR_E_STATES" "a = artifact r"
    using assms(2,3) unfolding write_holder_grant by (auto simp: get_artifact_def)
  have "wp (commit sha ag art text tick chash toks False)
    (\<lambda>out g'. out = (committed_artifact chash toks a, []) \<and> get_artifact art g' = Some (committed_artifact chash toks a) \<and>
       get_content art g' = Some (Text text) \<and> get_agent_state art ag g' = Some MODIFIED \<and>
       (\<forall>p. p \<noteq> ag \<longrightarrow> get_agent_state art p g' \<in> {None, Some INVALID}) \<and>
       (\<forall>b. b \<noteq> art \<longrightarrow> dict_get (records g') b = dict_get (records ?g) b)) (\<lambda>_ _. False) ?g"
  proof (rule wp_commit [OF ok r(1,2)], intro conjI allI impI)
    fix h r' p
    assume h: "focus ?g art r' h" and peers: "\<And>p. p \<noteq> ag \<Longrightarrow> grant_of r' p = INVALID" and p: "p \<noteq> ag"
    have "dict_get (records h) art = Some r'" using h by (simp add: focus_def)
    from grant_INVALID [OF this] peers [OF p] show "get_agent_state art p h \<in> {None, Some INVALID}" by blast
  qed (simp_all add: r(3) focus_def get_agent_state_def get_artifact_def get_content_def)
  from wp_returns [OF this] show ?thesis
    by (intro exI [of _ "committed_artifact chash toks a"]) (auto simp: committed_artifact_def split: option.splits)
qed

theorem commit_stores_next_version_witness:
  "\<exists>upd g'. commit demo_sha 10 1 ''new'' 4 (Some ''h'') None False (svc_registry (demo_run (demo_setup @ demo_readers))) =
     (Inr (upd, []), g') \<and> art_version upd = 2 \<and> get_content 1 g' = Some (Text ''new'') \<and>
   get_agent_state 1 10 g' = Some MODIFIED"
proof -
  let ?s = "demo_run (demo_setup @ demo_readers)"
  have "list_all plain demo_readers" by code_simp
  then have reach: "reachable reliable_init demo_step ?s" by (rule demo_reliable)
  have art: "get_artifact 1 (svc_registry ?s) =
    Some \<lparr>art_id = 1, art_name = ''a'', art_version = 1, art_hash = None, art_tokens = None, art_depends_on = []\<rparr>"
    by code_simp
  have state: "get_agent_state 1 10 (svc_registry ?s) \<in> {Some MODIFIED, Some EXCLUSIVE}" by code_simp
  from commit_stores_next_version [OF reach art state, of "''new''" 4 "Some ''h''" None] show ?thesis by auto
qed

section \<open>Fetch\<close>

text \<open>The record \<open>r'\<close> differs from \<open>r\<close> by the downgrade of its write holders outside \<open>todo\<close>.\<close>

definition downgraded_outside :: "uuid \<Rightarrow> uuid list \<Rightarrow> ArtifactRecord \<Rightarrow> ArtifactRecord \<Rightarrow> bool" where
  "downgraded_outside ag todo r r' \<longleftrightarrow> same_data r r' \<and>
     (\<forall>p. dict_get (state_by_agent r') p =
        (if p \<noteq> ag \<and> grant_of r p \<in> M_OR_E_STATES \<and> p \<notin> set todo then Some SHARED else dict_get (state_by_agent r) p))"

lemma downgraded_outsideD:
  "downgraded_outside ag todo r r' \<Longrightarrow> dict_get (state_by_agent r') p =
     (if p \<noteq> ag \<and> grant_of r p \<in> M_OR_E_STATES \<and> p \<notin> set todo then Some SHARED else dict_get (state_by_agent r) p)"
  by (simp add: downgraded_outside_def)

lemma downgraded_outside_may_hold:
  assumes dg: "downgraded_outside ag todo r r'" and sw: "swmr r" and p: "grant_of r p \<in> M_OR_E_STATES"
  shows "may_hold p SHARED r'"
proof -
  have "grant_of r' b \<notin> M_OR_E_STATES" if "b \<noteq> p" for b
  proof -
    have "grant_of r b = INVALID" using swmrD [OF sw p] that by metis
    then show ?thesis using downgraded_outsideD [OF dg, of b] by (auto simp: get_default_def split: option.splits)
  qed
  then show ?thesis by (simp add: may_hold_def)
qed

lemma focus_downgrade_loop:
  assumes at: "focus g art r1 g'" and ok: "rec_ok False art r1" and m: "state_by_agent r1 = state_by_agent r" "same_data r r1"
    and post: "\<And>h r'. focus g art r' h \<Longrightarrow> rec_ok False art r' \<Longrightarrow> downgraded_outside ag [] r r' \<Longrightarrow> Q () h"
  shows "wp (for_loop (other_holders ag (state_by_agent r)) (downgrade_holder art tick (state_by_agent r)) ()) Q E g'"
proof (rule wp_for_loop [where I = "\<lambda>todo _ h. distinct todo \<and> ag \<notin> set todo \<and>
    (\<exists>r'. focus g art r' h \<and> rec_ok False art r' \<and> downgraded_outside ag todo r r')"])
  have inv: "rec_inv r1" using ok by (simp add: rec_ok_def)
  have wf: "dict_wf (state_by_agent r)" using rec_invD(1) [OF inv] m(1) by simp
  have sw: "swmr r" using rec_invD(2) [OF inv] m(1) by (simp add: swmr_def)
  have "downgraded_outside ag (other_holders ag (state_by_agent r)) r r1"
    using m by (auto simp: downgraded_outside_def set_other_holders [OF wf])
  moreover have "distinct (other_holders ag (state_by_agent r))" "ag \<notin> set (other_holders ag (state_by_agent r))"
    using wf by (auto simp: other_holders_def distinct_map_filter)
  ultimately show "distinct (other_holders ag (state_by_agent r)) \<and> ag \<notin> set (other_holders ag (state_by_agent r)) \<and>
    (\<exists>r'. focus g art r' g' \<and> rec_ok False art r' \<and> downgraded_outside ag (other_holders ag (state_by_agent r)) r r')"
    using at ok by blast
  fix p todo u h
  assume "distinct (p # todo) \<and> ag \<notin> set (p # todo) \<and>
    (\<exists>r'. focus g art r' h \<and> rec_ok False art r' \<and> downgraded_outside ag (p # todo) r r')"
  then obtain r' where d: "distinct (p # todo)" "ag \<notin> set (p # todo)"
    and r': "focus g art r' h" "rec_ok False art r'" "downgraded_outside ag (p # todo) r r'" by blast
  show "wp (downgrade_holder art tick (state_by_agent r) u p) (\<lambda>_ h. distinct todo \<and> ag \<notin> set todo \<and>
    (\<exists>r'. focus g art r' h \<and> rec_ok False art r' \<and> downgraded_outside ag todo r r')) E h"
  proof (cases "grant_of r p \<in> M_OR_E_STATES")
    case False
    then have "downgraded_outside ag todo r r'" using r'(3) by (auto simp: downgraded_outside_def)
    with False d r'(1,2) show ?thesis by (auto simp: downgrade_holder_def wp_simps simp del: M_OR_E_iff)
  next
    case True
    have "downgraded_outside ag todo r (apply_agent_state p SHARED ''fetch'' tick r')"
      using r'(3) d True by (auto simp: downgraded_outside_def same_data_def)
    moreover have "rec_ok False art (apply_agent_state p SHARED ''fetch'' tick r')"
      by (rule rec_ok_apply_agent_state [OF r'(2) downgraded_outside_may_hold [OF r'(3) sw True]])
    ultimately have "wp (set_agent_state art p SHARED ''fetch'' tick None) (\<lambda>_ h. distinct todo \<and> ag \<notin> set todo \<and>
      (\<exists>r'. focus g art r' h \<and> rec_ok False art r' \<and> downgraded_outside ag todo r r')) E h"
      using d by (intro focus_set_agent_state [OF r'(1)]) auto
    with True show ?thesis by (simp add: downgrade_holder_def del: M_OR_E_iff)
  qed
qed (use post in \<open>auto simp: unit_eq\<close>)

lemma wp_fetch:
  assumes ok: "reg_ok True g" and r: "dict_get (records g) art = Some r"
    and post: "\<And>h r'. focus g art r' h \<Longrightarrow> same_data r r' \<Longrightarrow>
      (\<And>p. dict_get (state_by_agent r') p =
         (if p = ag then Some (fetch_grant ag (state_by_agent r))
          else if grant_of r p \<in> M_OR_E_STATES then Some SHARED else dict_get (state_by_agent r) p)) \<Longrightarrow>
      Q (FetchResponse art (art_version (artifact r)) (rec_content r) (fetch_grant ag (state_by_agent r))) h"
  shows "wp (fetch art ag tick) Q E g"
proof -
  have at: "focus g art r g" using ok r by (simp add: focus_def reg_ok_def)
  have rok: "rec_ok False art r" using reg_ok_lookup [OF ok r] by (rule rec_ok_weaken)
  then have wf: "dict_wf (state_by_agent r)" by (simp add: rec_ok_def rec_inv_def)
  let ?resp = "FetchResponse art (art_version (artifact r)) (rec_content r) (fetch_grant ag (state_by_agent r))"
  have "wp (set_agent_transient art ag (if fetch_grant ag (state_by_agent r) = EXCLUSIVE then IED else ISG) tick)
    (\<lambda>_. wp (andthen (for_loop (other_holders ag (state_by_agent r)) (downgrade_holder art tick (state_by_agent r)) ())
       (\<lambda>_. grant_and_settle art ag (fetch_grant ag (state_by_agent r)) ''fetch'' tick None ?resp)) Q E) E g"
  proof (rule focus_set_agent_transient [OF at], unfold wp_andthen)
    fix h r1
    assume h: "focus g art r1 h" and r1: "settled r r1"
    note eqs = settled_fields [OF r1]
    have ok1: "rec_ok False art r1" using rok eqs(6) by simp
    show "wp (for_loop (other_holders ag (state_by_agent r)) (downgrade_holder art tick (state_by_agent r)) ())
       (\<lambda>_. wp (grant_and_settle art ag (fetch_grant ag (state_by_agent r)) ''fetch'' tick None ?resp) Q E) E h"
    proof (rule focus_downgrade_loop [OF h ok1 eqs(3)])
      show "same_data r r1" by (simp add: same_data_def eqs)
      fix h' r2
      assume h': "focus g art r2 h'" "rec_ok False art r2" and dg: "downgraded_outside ag [] r r2"
      show "wp (grant_and_settle art ag (fetch_grant ag (state_by_agent r)) ''fetch'' tick None ?resp) Q E h'"
      proof (rule focus_grant_and_settle [OF h'], goal_cases)
        case 1
        show ?case
          by (rule downgrading_may_hold [OF _ wf])
            (use downgraded_outsideD [OF dg] in \<open>auto simp: downgraded_def get_default_def split: option.splits\<close>)
      next
        case (2 h'' r3)
        note eqs3 = settled_fields [OF 2(2)]
        show ?case
          by (rule post [OF 2(1)]) (use dg downgraded_outsideD [OF dg] eqs3 in \<open>auto simp: downgraded_outside_def same_data_def\<close>)
      qed
    qed
  qed
  then show ?thesis
    unfolding fetch_fold wp_simps get_artifact_def get_content_def get_state_map_def r option.map option.case by simp
qed

text \<open>
  C15: What \<open>fetch\<close> does. From every reachable state with a reliable state log, a \<open>fetch\<close> of a
  registered artifact returns its current version and body and grants EXCLUSIVE exactly when no
  other agent has a valid copy, SHARED otherwise; the reader is then in the granted state, a peer
  that held the artifact for writing is now SHARED, every other peer is as before, and neither
  the artifact nor any other artifact changes.
\<close>

theorem fetch_serves_current:
  assumes "reachable reliable_init (coord_step sha u5 any_request) s"
    and "get_artifact art (svc_registry s) = Some a" and "get_content art (svc_registry s) = Some b"
    and "grant = (if \<exists>p. p \<noteq> ag \<and> get_agent_state art p (svc_registry s) \<notin> {None, Some INVALID} then SHARED else EXCLUSIVE)"
  shows "\<exists>g'. fetch art ag tick (svc_registry s) = (Inr (FetchResponse art (art_version a) b grant), g') \<and>
    get_agent_state art ag g' = Some grant \<and>
    (\<forall>p. p \<noteq> ag \<longrightarrow> get_agent_state art p g' =
       (if get_agent_state art p (svc_registry s) \<in> {Some MODIFIED, Some EXCLUSIVE} then Some SHARED
        else get_agent_state art p (svc_registry s))) \<and>
    get_artifact art g' = Some a \<and> get_content art g' = Some b \<and>
    (\<forall>b. b \<noteq> art \<longrightarrow> dict_get (records g') b = dict_get (records (svc_registry s)) b)"
proof -
  let ?g = "svc_registry s"
  have ok: "reg_ok True ?g" using reliable.reachable_inv [OF assms(1)] by (simp add: on_reg_def)
  obtain r where r: "dict_get (records ?g) art = Some r" "a = artifact r" "b = rec_content r"
    using assms(2,3) by (auto simp: get_artifact_def get_content_def)
  have wf: "dict_wf (state_by_agent r)" using reg_ok_lookup [OF ok r(1)] by (simp add: rec_ok_def rec_inv_def)
  have "other_holders ag (state_by_agent r) = [] \<longleftrightarrow> {p. p \<noteq> ag \<and> grant_of r p \<noteq> INVALID} = {}"
    using set_other_holders [OF wf, of ag] set_empty by metis
  then have grant: "fetch_grant ag (state_by_agent r) = grant"
    using assms(4) grant_INVALID [OF r(1)] by (auto simp: fetch_grant_def)
  have "wp (fetch art ag tick)
    (\<lambda>resp g'. resp = FetchResponse art (art_version a) b grant \<and> get_agent_state art ag g' = Some grant \<and>
      (\<forall>p. p \<noteq> ag \<longrightarrow> get_agent_state art p g' =
         (if get_agent_state art p ?g \<in> {Some MODIFIED, Some EXCLUSIVE} then Some SHARED else get_agent_state art p ?g)) \<and>
      get_artifact art g' = Some a \<and> get_content art g' = Some b \<and>
      (\<forall>b. b \<noteq> art \<longrightarrow> dict_get (records g') b = dict_get (records ?g) b)) (\<lambda>_ _. False) ?g"
    by (rule wp_fetch [OF ok r(1)], unfold write_holder_grant)
      (auto simp: r grant focus_def same_data_def get_agent_state_def get_artifact_def get_content_def simp del: M_OR_E_iff)
  from wp_returns [OF this] show ?thesis by blast
qed

theorem fetch_serves_current_witness:
  "\<exists>g'. fetch 1 11 5 (svc_registry (demo_run (demo_setup @ demo_commit))) =
     (Inr (FetchResponse 1 2 (Text ''z'') SHARED), g') \<and> get_agent_state 1 10 g' = Some SHARED"
proof -
  let ?s = "demo_run (demo_setup @ demo_commit)"
  have "list_all plain demo_commit" by code_simp
  then have reach: "reachable reliable_init demo_step ?s" by (rule demo_reliable)
  have art: "get_artifact 1 (svc_registry ?s) =
    Some \<lparr>art_id = 1, art_name = ''a'', art_version = 2, art_hash = None, art_tokens = None, art_depends_on = []\<rparr>"
    and content: "get_content 1 (svc_registry ?s) = Some (Text ''z'')"
    and state: "get_agent_state 1 10 (svc_registry ?s) = Some MODIFIED"
    by code_simp+
  have "SHARED = (if \<exists>p. p \<noteq> 11 \<and> get_agent_state 1 p (svc_registry ?s) \<notin> {None, Some INVALID} then SHARED else EXCLUSIVE)"
    using state by (auto intro!: exI [of _ 10])
  from fetch_serves_current [OF reach art content this, of 5] state show ?thesis by auto
qed

text \<open>
  C16: A committed body is what every later reader sees. From every reachable state with a reliable
  state log, after a successful \<open>write\<close> and \<open>commit\<close> by one agent, a \<open>fetch\<close> by any agent returns the
  committed text at the next version.
\<close>

theorem write_commit_fetch:
  assumes "reachable reliable_init (coord_step sha u5 any_request) s"
    and "get_artifact art (svc_registry s) = Some a"
  shows "\<exists>sigs out g1 g2 g3 grant. write_op ag art t1 False (svc_registry s) = (Inr sigs, g1) \<and>
    commit sha ag art text t2 chash toks False g1 = (Inr out, g2) \<and>
    fetch art reader t3 g2 = (Inr (FetchResponse art (art_version a + 1) (Text text) grant), g3)"
proof -
  let ?g = "svc_registry s"
  have ok: "reg_ok True ?g" using reliable.reachable_inv [OF assms(1)] by (simp add: on_reg_def)
  obtain r where r: "dict_get (records ?g) art = Some r" "a = artifact r" using assms(2) by (auto simp: get_artifact_def)
  obtain sigs g1 r1 where g1: "write_op ag art t1 False ?g = (Inr sigs, g1)" "dict_get (records g1) art = Some r1"
    "artifact r1 = a" "grant_of r1 ag \<in> M_OR_E_STATES"
    using wp_returns [OF wp_write_op [OF ok r(1), where Q = "\<lambda>_ h. \<exists>r'. dict_get (records h) art = Some r' \<and>
      artifact r' = a \<and> grant_of r' ag \<in> M_OR_E_STATES", of ag t1]]
    by (auto simp: focus_def same_data_def r(2) get_default_def)
  have ok1: "reg_ok True g1" using keepsD_snd [OF coh.op_write ok] g1(1) by (metis snd_conv)
  obtain out g2 r2 where g2: "commit sha ag art text t2 chash toks False g1 = (Inr out, g2)" "dict_get (records g2) art = Some r2"
    "art_version (artifact r2) = art_version a + 1" "rec_content r2 = Text text"
    using wp_returns [OF wp_commit [OF ok1 g1(2,4), where Q = "\<lambda>_ h. \<exists>r'. dict_get (records h) art = Some r' \<and>
      art_version (artifact r') = art_version a + 1 \<and> rec_content r' = Text text", of chash toks "text" sha t2]]
    by (auto simp: focus_def g1(3) committed_artifact_def)
  have ok2: "reg_ok True g2" using keepsD_snd [OF coh.op_commit ok1] g2(1) by (metis snd_conv)
  have "\<exists>grant g3. fetch art reader t3 g2 = (Inr (FetchResponse art (art_version a + 1) (Text text) grant), g3)"
    using wp_returns [OF wp_fetch [OF ok2 g2(2), where Q = "\<lambda>resp _. \<exists>grant. resp = FetchResponse art (art_version a + 1) (Text text) grant", of reader t3]]
    by (auto simp: g2(3,4))
  with g1(1) g2(1) show ?thesis by blast
qed

theorem write_commit_fetch_witness:
  "\<exists>sigs out g1 g2 g3 grant. write_op 10 1 3 False (svc_registry (demo_run (demo_setup @ demo_reads))) = (Inr sigs, g1) \<and>
    commit demo_sha 10 1 ''new'' 4 None None False g1 = (Inr out, g2) \<and>
    fetch 1 12 5 g2 = (Inr (FetchResponse 1 2 (Text ''new'') grant), g3)"
proof -
  let ?s = "demo_run (demo_setup @ demo_reads)"
  have "list_all plain demo_reads" by code_simp
  then have reach: "reachable reliable_init demo_step ?s" by (rule demo_reliable)
  have art: "get_artifact 1 (svc_registry ?s) =
    Some \<lparr>art_id = 1, art_name = ''a'', art_version = 1, art_hash = None, art_tokens = None, art_depends_on = []\<rparr>"
    by code_simp
  from write_commit_fetch [OF reach art, of 10 3 "''new''" 4 None None 12 5] show ?thesis by simp
qed

end
