(* ===== verification/Commits.thy ===== *)
theory Commits
  imports Protocol
begin

text \<open>
  The optimistic commits: no lost update, when \<open>commit_cas\<close> wins and what it answers otherwise, the
  all-or-nothing \<open>commit_all\<close>, and that a batch of one is a single compare-and-swap.
\<close>

section \<open>No lost update\<close>

text \<open>
  C17: No lost update. From every reachable state, along any sequence of \<open>commit_cas\<close> attempts by any
  agents on any artifacts, an artifact's version grows by exactly the number of wins on it, and no
  two wins were based on the same version: \<open>commit_cas\<close> implements the compare-and-swap contract.
\<close>

theorem no_lost_update:
  assumes "reachable coord_init (coord_step sha u5 any_request) s"
    and "version_of (svc_registry s) art = Some v"
    and "run_cas service_attempt attempts (svc_registry s) = (wins, g')"
  shows "version_of g' art = Some (v + int (length (win_bases art attempts wins))) \<and>
    distinct (win_bases art attempts wins)"
proof -
  have ok: "reg_ok False (svc_registry s)" using system.reachable_inv [OF assms(1)] by (simp add: on_reg_def)
  from scas.run_wins [OF ok assms(2,3)] scas.one_win_per_version [OF ok assms(2,3)] show ?thesis by blast
qed

text \<open>The attempts of the witness: two agents try version 1, one of them wins; then version 2.\<close>

definition demo_attempts :: "(uuid \<times> int \<times> cas_args) list" where
  "demo_attempts = [(1, 1, 20, ''h'', None, Some (Text ''p''), 5), (1, 1, 21, ''k'', None, Some (Text ''q''), 6),
     (1, 2, 21, ''k'', None, Some (Text ''q''), 7)]"

theorem no_lost_update_witness:
  "fst (run_cas service_attempt demo_attempts (svc_registry (demo_run demo_setup))) = [True, False, True] \<and>
   version_of (snd (run_cas service_attempt demo_attempts (svc_registry (demo_run demo_setup)))) 1 = Some 3 \<and>
   distinct (win_bases 1 demo_attempts [True, False, True])"
proof -
  let ?g = "svc_registry (demo_run demo_setup)"
  have v: "version_of ?g 1 = Some 1" by code_simp
  have wins: "fst (run_cas service_attempt demo_attempts ?g) = [True, False, True]" by code_simp
  then have run: "run_cas service_attempt demo_attempts ?g = ([True, False, True], snd (run_cas service_attempt demo_attempts ?g))"
    by (metis prod.collapse)
  have "length (win_bases 1 demo_attempts [True, False, True]) = 2" by code_simp
  with no_lost_update [OF demo_setup_reachable [of coord_init, OF demo_init] v run] wins show ?thesis by simp
qed

section \<open>What a single compare-and-swap answers\<close>

lemma won_record_content:
  "rec_content (won_record g art ag chash toks b r) = (case b of None \<Rightarrow> rec_content r | Some c \<Rightarrow> c)"
  by (simp add: won_record_def apply_win_def Let_def split: option.split)

lemma won_record_self: "dict_get (state_by_agent (won_record g art ag chash toks b r)) ag = Some SHARED"
  by (simp add: won_record_def apply_win_def Let_def)

text \<open>The checks of \<open>commit_cas\<close>, through the accessors.\<close>

definition other_writer :: "uuid \<Rightarrow> uuid \<Rightarrow> registry \<Rightarrow> bool" where
  "other_writer ag art g \<longleftrightarrow> (\<exists>p. p \<noteq> ag \<and> get_agent_state art p g \<in> {Some MODIFIED, Some EXCLUSIVE})"

definition stale_claim :: "uuid \<Rightarrow> uuid \<Rightarrow> registry \<Rightarrow> bool" where
  "stale_claim ag art g \<longleftrightarrow>
     (\<exists>n m. get_read_generation art ag g = Some n \<and> get_owner_generation art g = Inr m \<and> n < m)"

lemma has_other_holder_iff:
  assumes "dict_wf (state_by_agent r)"
  shows "has_other_holder ag r \<longleftrightarrow> (\<exists>p. p \<noteq> ag \<and> grant_of r p \<in> M_OR_E_STATES)"
proof
  assume "has_other_holder ag r"
  then obtain p st where "(p, st) \<in> set (state_by_agent r)" "p \<noteq> ag" "st \<in> M_OR_E_STATES"
    unfolding has_other_holder_def list_ex_iff by blast
  with assms show "\<exists>p. p \<noteq> ag \<and> grant_of r p \<in> M_OR_E_STATES"
    by (intro exI [of _ p]) (simp add: get_default_def)
qed (use no_other_holder in blast)

lemma other_writer_record:
  assumes "reg_ok F g" and "dict_get (records g) art = Some r"
  shows "other_writer ag art g \<longleftrightarrow> has_other_holder ag r"
    and "stale_claim ag art g \<longleftrightarrow> fenced_out ag r"
proof -
  have "dict_wf (state_by_agent r)" using reg_ok_lookup [OF assms] by (simp add: rec_ok_def rec_inv_def)
  from has_other_holder_iff [OF this] show "other_writer ag art g \<longleftrightarrow> has_other_holder ag r"
    unfolding other_writer_def write_holder_grant by (simp add: assms(2))
  show "stale_claim ag art g \<longleftrightarrow> fenced_out ag r"
    by (simp add: stale_claim_def fenced_out_def get_read_generation_def get_owner_generation_def assms(2) split: option.split)
qed

text \<open>
  C18: When \<open>commit_cas\<close> wins. From every reachable state with a reliable state log, for a caller that
  is SHARED, INVALID or unknown and not mid-transient, and an expected version not above the current
  one, \<open>commit_cas\<close> returns: a \<open>version_mismatch\<close> when the version moved on; else \<open>other_holder\<close> when
  another agent holds the artifact for writing; else \<open>stale_read_generation\<close> when the caller's claim
  is superseded, each with the current version and no record changed; and otherwise it wins: the
  artifact is at the next version with the given hash, the body is the given one (the old one if
  none is given), the caller is SHARED and every other copy is absent or INVALID.
\<close>

theorem commit_cas_answer:
  assumes "reachable reliable_init (coord_step sha u5 any_request) s"
    and "get_artifact art (svc_registry s) = Some a" and "expected \<le> art_version a"
    and "get_agent_transient art ag (svc_registry s) = None"
    and "get_agent_state art ag (svc_registry s) \<notin> {Some EXCLUSIVE, Some MODIFIED}"
  shows "\<exists>out g'. commit_cas ag art expected chash tick toks b False (svc_registry s) = (Inr out, g') \<and>
    (if expected < art_version a \<or> other_writer ag art (svc_registry s) \<or> stale_claim ag art (svc_registry s)
     then records g' = records (svc_registry s) \<and>
       out = Conflict (ConflictDetail
         (if expected < art_version a then version_mismatch
          else if other_writer ag art (svc_registry s) then other_holder else stale_read_generation) (art_version a))
     else \<exists>upd sigs. out = Committed upd sigs \<and> art_version upd = expected + 1 \<and> art_hash upd = Some chash \<and>
       get_artifact art g' = Some upd \<and>
       get_content art g' = (if b = None then get_content art (svc_registry s) else b) \<and>
       get_agent_state art ag g' = Some SHARED \<and>
       (\<forall>p. p \<noteq> ag \<longrightarrow> get_agent_state art p g' \<in> {None, Some INVALID}))"
proof -
  let ?g = "svc_registry s"
  have ok: "reg_ok True ?g" using reliable.reachable_inv [OF assms(1)] by (simp add: on_reg_def)
  obtain r where r: "dict_get (records ?g) art = Some r" "a = artifact r" using assms(2) by (auto simp: get_artifact_def)
  note rec = other_writer_record [OF ok r(1)]
  let ?P = "\<lambda>out g'. if expected < art_version a \<or> other_writer ag art ?g \<or> stale_claim ag art ?g
     then records g' = records ?g \<and> out = Conflict (ConflictDetail
         (if expected < art_version a then version_mismatch
          else if other_writer ag art ?g then other_holder else stale_read_generation) (art_version a))
     else \<exists>upd sigs. out = Committed upd sigs \<and> art_version upd = expected + 1 \<and> art_hash upd = Some chash \<and>
       get_artifact art g' = Some upd \<and> get_content art g' = (if b = None then get_content art ?g else b) \<and>
       get_agent_state art ag g' = Some SHARED \<and> (\<forall>p. p \<noteq> ag \<longrightarrow> get_agent_state art p g' \<in> {None, Some INVALID})"
  have "wp (commit_cas ag art expected chash tick toks b False) ?P (\<lambda>_ _. False) ?g"
  proof (rule wp_commit_cas [OF ok])
    show False if "cas_blocked ag art expected False ?g"
      using that assms(3-5) r by (auto simp: cas_blocked_def version_of_def)
    show "?P (Conflict d) (note_conflict art ag (detail_reason d) ?g)"
      if "dict_get (records ?g) art = Some r'" and "arbitrate ag expected r' = Conflicting d" for r' d
      using that r rec by (auto simp: arbitrate_def Let_def note_conflict_def split: if_splits)
    fix r' q d
    assume "dict_get (records ?g) art = Some r'" and adm: "arbitrate ag expected r' = Admitted"
    then have r': "r' = r" using r(1) by simp
    let ?h = "put_record art (won_record ?g art ag chash toks b r) (?g\<lparr>seq := q, delivered := d\<rparr>)"
    have "dict_get (records ?h) art = Some (won_record ?g art ag chash toks b r)" by simp
    from grant_INVALID [OF this] have "\<forall>p. p \<noteq> ag \<longrightarrow> get_agent_state art p ?h \<in> {None, Some INVALID}"
      using grant_of_won_record [of ?g art ag chash toks b r] by metis
    then show "?P (Committed (bumped_artifact art chash toks (artifact r'))
           (map (\<lambda>_. signal art (art_version (artifact r') + 1) tick ag) (valid_peers ag r')))
        (put_record art (won_record ?g art ag chash toks b r') (?g\<lparr>seq := q, delivered := d\<rparr>))"
      using adm r unfolding r' arbitrate_Admitted rec
      by (auto simp: bumped_artifact_def get_artifact_def get_content_def get_agent_state_def won_record_content won_record_self)
  qed (use ok in \<open>simp add: reg_ok_def\<close>)
  from wp_returns [OF this] show ?thesis .
qed

theorem commit_cas_answer_witness:
  "(\<exists>g'. commit_cas 20 1 1 ''h'' 5 None None False (svc_registry (demo_run (demo_setup @ demo_readers))) =
      (Inr (Conflict (ConflictDetail other_holder 1)), g')) \<and>
   (\<exists>upd sigs g'. commit_cas 20 2 1 ''h'' 5 None (Some (Text ''p'')) False (svc_registry (demo_run (demo_setup @ demo_readers))) =
      (Inr (Committed upd sigs), g') \<and> art_version upd = 2 \<and> get_content 2 g' = Some (Text ''p''))"
proof -
  let ?s = "demo_run (demo_setup @ demo_readers)"
  have "list_all plain demo_readers" by code_simp
  then have reach: "reachable reliable_init demo_step ?s" by (rule demo_reliable)
  have art: "get_artifact n (svc_registry ?s) =
    Some \<lparr>art_id = n, art_name = (if n = 1 then ''a'' else ''b''), art_version = 1, art_hash = None, art_tokens = None, art_depends_on = []\<rparr>"
    if "n = 1 \<or> n = 2" for n
    using that by (elim disjE; hypsubst; code_simp)
  have one: "get_agent_transient 1 20 (svc_registry ?s) = None" "get_agent_state 1 20 (svc_registry ?s) = None"
    "get_agent_state 1 10 (svc_registry ?s) = Some EXCLUSIVE"
    and two: "get_agent_transient 2 20 (svc_registry ?s) = None" "get_state_map 2 (svc_registry ?s) = []"
    "get_read_generation 2 20 (svc_registry ?s) = None"
    by code_simp+
  have busy: "other_writer 20 1 (svc_registry ?s)" using one(3) by (auto simp: other_writer_def intro!: exI [of _ 10])
  have none: "get_agent_state 2 p (svc_registry ?s) = None" for p
    using two(2) by (auto simp: get_agent_state_def get_state_map_def split: option.splits)
  then have free: "\<not> other_writer 20 2 (svc_registry ?s)" "\<not> stale_claim 20 2 (svc_registry ?s)"
    by (simp_all add: other_writer_def stale_claim_def two)
  from commit_cas_answer [OF reach art _ one(1), of 1 "''h''" 5 None None] busy one(2)
    commit_cas_answer [OF reach art _ two(1), of 1 "''h''" 5 None "Some (Text ''p'')"] free none
  show ?thesis by auto
qed

section \<open>The all-or-nothing batch\<close>

text \<open>
  C19: \<open>commit_all\<close> is all-or-nothing. From every reachable state (also when the state log raises or
  the watchdog aborts), a \<open>commit_all\<close> either wins, and then every member was at its expected
  version, is now one above it, holds the given body, and the caller is SHARED on it, while every
  artifact outside the batch is untouched; or it does not win, whatever the error or conflict,
  and then no record at all has changed.
\<close>

theorem commit_all_atomic:
  assumes "reachable coord_init (coord_step sha u5 any_request) s" and "dict_wf writes"
    and "commit_all ag writes tick abort (svc_registry s) = (out, g')"
  shows "if \<exists>res sigs. out = Inr (MultiCommitted res sigs)
    then (\<forall>(art, e) \<in> set writes. version_of (svc_registry s) art = Some (entry_expected e) \<and>
           version_of g' art = Some (entry_expected e + 1) \<and> get_agent_state art ag g' = Some SHARED \<and>
           get_content art g' = (if entry_content e = None then get_content art (svc_registry s) else entry_content e)) \<and>
         (\<forall>art. art \<notin> fst ` set writes \<longrightarrow> dict_get (records g') art = dict_get (records (svc_registry s)) art)
    else records g' = records (svc_registry s)"
proof -
  let ?g = "svc_registry s"
  let ?won = "\<lambda>g'. (\<forall>(art, e) \<in> set writes. version_of ?g art = Some (entry_expected e) \<and>
       version_of g' art = Some (entry_expected e + 1) \<and> get_agent_state art ag g' = Some SHARED \<and>
       get_content art g' = (if entry_content e = None then get_content art ?g else entry_content e)) \<and>
     (\<forall>art. art \<notin> fst ` set writes \<longrightarrow> dict_get (records g') art = dict_get (records ?g) art)"
  let ?P = "\<lambda>out g'. if \<exists>res sigs. out = Inr (MultiCommitted res sigs) then ?won g' else records g' = records ?g"
  have ok: "reg_ok False ?g" using system.reachable_inv [OF assms(1)] by (simp add: on_reg_def)
  have "wp (commit_all ag writes tick abort) (\<lambda>out. ?P (Inr out)) (\<lambda>e. ?P (Inl e)) ?g"
  proof (rule wp_commit_all [OF ok assms(2)])
    show "case x of Inl e \<Rightarrow> ?P (Inl e) h | Inr out \<Rightarrow> ?P (Inr out) h"
      if "records h = records ?g" and "\<forall>res sigs. x \<noteq> Inr (MultiCommitted res sigs)" for x h
      using that by (cases x) auto
    fix sigs h
    assume adm: "admits_all ag ?g writes" and won: "all_won ?g ag writes h"
    have member: "version_of ?g art = Some (entry_expected e) \<and>
       version_of h art = Some (entry_expected e + 1) \<and> get_agent_state art ag h = Some SHARED \<and>
       get_content art h = (if entry_content e = None then get_content art ?g else entry_content e)"
      if mem: "(art, e) \<in> set writes" for art e
    proof -
      have e: "dict_get writes art = Some e" using mem assms(2) by simp
      obtain r where r: "dict_get (records ?g) art = Some r" "arbitrate ag (entry_expected e) r = Admitted"
        using bspec [OF adm [unfolded admits_all_def] mem] by auto
      have "dict_get (records h) art = Some (member_record ?g ag art e r)"
        using all_won_lookup [OF won, of art] by (simp add: e r(1))
      with r show ?thesis
        by (auto simp: version_of_def get_agent_state_def get_content_def arbitrate_Admitted member_record_def
            bumped_artifact_def won_record_content won_record_self)
    qed
    have "dict_get (records h) art = dict_get (records ?g) art" if "art \<notin> fst ` set writes" for art
      using all_won_lookup [OF won, of art] that by (simp add: map_of_eq_None_iff [THEN iffD2])
    with member show "?P (Inr (MultiCommitted (multi_commit_result (stage_members ag tick ''commit_all'' ?g writes)) sigs)) h"
      by auto
  qed
  then show ?thesis by (cases out) (simp_all only: wp_def assms(3) prod.case sum.case)
qed

text \<open>The batches of the witness: two members, then the same batch again, now stale.\<close>

definition demo_batch :: "(uuid, CommitAllEntry) dict" where
  "demo_batch = [(1, \<lparr>entry_expected = 1, entry_hash = ''h'', entry_tokens = None, entry_content = Some (Text ''p'')\<rparr>),
     (2, \<lparr>entry_expected = 1, entry_hash = ''k'', entry_tokens = None, entry_content = None\<rparr>)]"

theorem commit_all_atomic_witness:
  "(\<exists>res sigs g'. commit_all 20 demo_batch 5 False (svc_registry (demo_run demo_setup)) = (Inr (MultiCommitted res sigs), g') \<and>
      version_of g' 1 = Some 2 \<and> version_of g' 2 = Some 2) \<and>
   (\<exists>out g'. commit_all 20 demo_batch 6 False (svc_registry (demo_run (demo_setup @ demo_commit))) = (out, g') \<and>
      records g' = records (svc_registry (demo_run (demo_setup @ demo_commit))))"
proof
  have wf: "dict_wf demo_batch" by (simp add: demo_batch_def)
  let ?g = "svc_registry (demo_run demo_setup)"
  have win: "case fst (commit_all 20 demo_batch 5 False ?g) of Inr (MultiCommitted _ _) \<Rightarrow> True | _ \<Rightarrow> False" by code_simp
  then obtain res sigs g' where run: "commit_all 20 demo_batch 5 False ?g = (Inr (MultiCommitted res sigs), g')"
    by (cases "commit_all 20 demo_batch 5 False ?g") (auto split: sum.splits multi_outcome.splits)
  from commit_all_atomic [OF demo_setup_reachable [of coord_init, OF demo_init] wf run] run
  show "\<exists>res sigs g'. commit_all 20 demo_batch 5 False ?g = (Inr (MultiCommitted res sigs), g') \<and>
      version_of g' 1 = Some 2 \<and> version_of g' 2 = Some 2"
    by (auto simp: demo_batch_def)
  let ?h = "svc_registry (demo_run (demo_setup @ demo_commit))"
  have lose: "case fst (commit_all 20 demo_batch 6 False ?h) of Inr (MultiCommitted _ _) \<Rightarrow> False | _ \<Rightarrow> True" by code_simp
  have "list_all plain demo_commit" by code_simp
  then have reach: "reachable coord_init demo_step (demo_run (demo_setup @ demo_commit))"
    by (rule demo_reachable [of coord_init, OF demo_init])
  obtain out h' where run': "commit_all 20 demo_batch 6 False ?h = (out, h')"
    by (cases "commit_all 20 demo_batch 6 False ?h")
  have "\<not> (\<exists>res sigs. out = Inr (MultiCommitted res sigs))" using lose by (auto simp: run')
  with commit_all_atomic [OF reach wf run'] run'
  show "\<exists>out g'. commit_all 20 demo_batch 6 False ?h = (out, g') \<and> records g' = records ?h" by simp
qed

section \<open>A batch of one\<close>

definition batch_of_one :: "uuid \<Rightarrow> cas_result \<Rightarrow> multi_result" where
  "batch_of_one art res =
     (case res of
        CasWin upd peers \<Rightarrow> MultiWin \<lparr>mcr_versions = [(art, art_version upd)],
          mcr_invalidated = (if peers = [] then [] else [(art, peers)])\<rparr>
      | CasConflict d \<Rightarrow> MultiCommitConflict [(art, d)]
      | CasCorruption cur \<Rightarrow> MultiCorruption cur)"

text \<open>
  C20: A batch of one is a compare-and-swap. On every registry, \<open>commit_all\<close> of the registry on a
  single member does exactly what its \<open>commit_cas\<close> does: the same registry afterwards, log entries
  and conflict counters included, the same exception, and the corresponding answer.
\<close>

theorem commit_all_singleton:
  "reg_commit_all ag [(art, e)] tick trig g =
     map_prod (map_sum id (batch_of_one art)) id
       (reg_commit_cas art ag (entry_expected e) (entry_hash e) (entry_tokens e) (entry_content e) tick trig g)"
proof (cases "dict_get (records g) art")
  case None
  then show ?thesis by (simp add: reg_commit_all_def reg_commit_cas_def with_record_def)
next
  case (Some r)
  show ?thesis
  proof (cases "arbitrate ag (entry_expected e) r")
    case Admitted
    let ?reqs = "win_requests art ag (entry_hash e) trig tick r"
    have same: "records (snd (emit_batch ?reqs 0 g)) = records g"
      using wp_emit_batch [of "\<lambda>_ h. records h = records g" g "\<lambda>_ h. records h = records g" ?reqs 0]
      by (auto simp: wp_def split: prod.splits sum.splits)
    show ?thesis
      using Some Admitted same
      by (cases "emit_batch ?reqs 0 g"; cases "fst (emit_batch ?reqs 0 g)")
        (simp_all add: reg_commit_all_def reg_commit_cas_def with_record_def stage_member_def andthen_def modify_def ret_def
          Let_def apply_staged_def multi_commit_result_def batch_of_one_def)
  qed (use Some in \<open>simp_all add: reg_commit_all_def reg_commit_cas_def with_record_def andthen_def modify_def ret_def batch_of_one_def\<close>)
qed

end
