(* ===== verification/Session_Life.thy ===== *)
theory Session_Life
  imports Commits
begin

text \<open>
  The lifetime of snapshot sessions along runs of the coordinator: which requests touch which
  session, the caps, the owner binding and the stability of a pinned cut.
\<close>

section \<open>Requests that leave the sessions alone\<close>

text \<open>The registry's session tables, looked up.\<close>

definition session_tables :: "(string \<Rightarrow> (uuid, int) dict option) \<Rightarrow> (string \<Rightarrow> (uuid \<times> int) option) \<Rightarrow> registry \<Rightarrow> bool" where
  "session_tables pins meta g \<longleftrightarrow> maps_wf g \<and> dict_wf (session_meta g) \<and>
     dict_get (session_pins g) = pins \<and> dict_get (session_meta g) = meta"

text \<open>A predicate of the session tables is a frame for requests that touch no session.\<close>

lemma session_tables_put:
  "session_tables pins meta g \<Longrightarrow> dict_wf (state_by_agent r) \<Longrightarrow> session_tables pins meta (put_record art r g)"
  by (simp add: session_tables_def maps_wf_def)

lemma session_tables_wf:
  "session_tables pins meta g \<Longrightarrow> dict_get (records g) art = Some r \<Longrightarrow> dict_wf (state_by_agent r)"
  by (simp add: session_tables_def maps_wf_def)

interpretation tables: service_frame "session_tables pins meta" "\<lambda>_ _. True" "\<lambda>_. False" "\<lambda>_. True"
  for pins meta
proof (unfold_locales, goal_cases)
  case (3 g art r st ag trig tick)
  then show ?case by (intro session_tables_put) (auto dest: session_tables_wf)
next
  case (7 g art r ag expected chash toks c)
  then show ?case by (intro session_tables_put won_record_wf) (auto dest: session_tables_wf)
next
  case (10 g a c)
  then show ?case
    by (simp add: reg_register_artifact_def modify_def Let_def session_tables_put new_record_wf)
next
  case (12 g ps ms)
  then show ?case by (auto simp: session_tables_def maps_wf_def)
qed (auto simp: session_tables_def maps_wf_def note_conflict_def elim!: manifest_updateE)

text \<open>The service's own session maps.\<close>

definition service_maps ::
  "service \<Rightarrow> SessionCapsConfig \<times> (string, uuid) dict \<times> (string, int) dict \<times> (string, int) dict \<times> string list" where
  "service_maps s = (session_caps s, session_owners s, session_created s, session_heartbeats s, reaped_tombstone s)"

definition lifetime_request :: "request \<Rightarrow> bool" where
  "lifetime_request q =
     (case q of BeginSession _ _ _ _ \<Rightarrow> True | SessionHeartbeat _ _ _ \<Rightarrow> True | DropSession _ \<Rightarrow> True
      | SessionSweep _ _ _ \<Rightarrow> True | _ \<Rightarrow> False)"

lemma maps_on_registry: "keeps (\<lambda>s. service_maps s = m) (on_registry op)"
  by (auto simp: keeps_def service_maps_def on_registry_def on_field_def split: prod.splits)

lemma maps_session_commit:
  "keeps (\<lambda>s. service_maps s = m) (session_commit sha u5 token art content caller toks tick abort)"
  "keeps (\<lambda>s. service_maps s = m) (session_commit_all sha u5 token writes caller tick abort)"
  unfolding session_commit_def session_commit_all_def
  by (intro keeps_intros keeps_asks_registry keeps_lift_sum keeps_prod keeps_validate_session_owner maps_on_registry)+

lemma service_maps_after [simp]:
  "service_maps (after (on_registry op) s) = service_maps s"
  "service_maps (after (session_commit sha u5 token art content caller toks tick abort) s) = service_maps s"
  "service_maps (after (session_commit_all sha u5 token writes caller tick abort) s) = service_maps s"
  by (rule keeps_after [OF maps_on_registry refl], rule keeps_after [OF maps_session_commit(1) refl],
      rule keeps_after [OF maps_session_commit(2) refl])

lemma perform_service_maps: "\<not> lifetime_request q \<Longrightarrow> service_maps (perform sha u5 q s) = service_maps s"
  by (cases q) (simp_all add: lifetime_request_def)

lemma perform_session_tables:
  assumes "\<not> lifetime_request q" and "request_ok q" and "any_request q s" and "maps_wf (svc_registry s)"
    and "dict_wf (session_meta (svc_registry s))"
  shows "maps_wf (svc_registry (perform sha u5 q s)) \<and> dict_wf (session_meta (svc_registry (perform sha u5 q s))) \<and>
    dict_get (session_pins (svc_registry (perform sha u5 q s))) = dict_get (session_pins (svc_registry s)) \<and>
    dict_get (session_meta (svc_registry (perform sha u5 q s))) = dict_get (session_meta (svc_registry s))"
proof -
  let ?P = "session_tables (dict_get (session_pins (svc_registry s))) (dict_get (session_meta (svc_registry s)))"
  have "permitted (\<lambda>_ _. True) (\<lambda>_. False) (\<lambda>_. True) q s"
    using assms(1,3) by (cases q) (simp_all add: permitted_def lifetime_request_def)
  moreover have "on_reg ?P s" using assms(4,5) by (simp add: on_reg_def session_tables_def)
  ultimately have "on_reg ?P (perform sha u5 q s)" by (intro tables.perform_keeps assms(2))
  then show ?thesis by (simp add: on_reg_def session_tables_def)
qed

section \<open>Opening a session\<close>

lemma capture_loop_missing:
  "snd (capture_loop g arts pins missing) = missing @ filter (\<lambda>a. version_of g a = None) arts"
  by (induction g arts pins missing rule: capture_loop.induct) (auto simp: version_of_def split: option.split)

lemma capture_loop_pins:
  "dict_get (fst (capture_loop g arts pins missing)) a =
     (if a \<in> set arts \<and> version_of g a \<noteq> None then version_of g a else dict_get pins a)"
  by (induction g arts pins missing rule: capture_loop.induct) (auto simp: version_of_def split: option.split)

text \<open>The versions of a read-set, as one cut.\<close>

definition cut_of :: "registry \<Rightarrow> uuid list \<Rightarrow> uuid \<Rightarrow> int option" where
  "cut_of g arts a = (if a \<in> set arts then version_of g a else None)"

lemma wp_begin_session:
  assumes small: "\<And>rej. Q (BeginRejected rej) s"
    and unknown: "\<And>rej. \<exists>a \<in> set read_set. version_of (svc_registry s) a = None \<Longrightarrow>
      Q (BeginRejected rej) (s\<lparr>session_owners := dict_pop minted (dict_set minted owner (session_owners s))\<rparr>)"
    and opened: "\<And>pins. int (length read_set) \<le> max_read_set_cardinality (session_caps s) \<Longrightarrow>
      int (session_count (svc_registry s)) < max_sessions (session_caps s) \<Longrightarrow>
      \<forall>a \<in> set read_set. version_of (svc_registry s) a \<noteq> None \<Longrightarrow> dict_get pins = cut_of (svc_registry s) read_set \<Longrightarrow>
      Q (Opened \<lparr>snap_token = minted, snap_cut = pins, snap_epoch = coordinator_epoch (svc_registry s),
                 snap_retains = retain_versions (svc_registry s)\<rparr>)
        (s\<lparr>session_owners := dict_set minted owner (session_owners s),
           svc_registry := (svc_registry s)\<lparr>session_pins := dict_set minted pins (session_pins (svc_registry s)),
              session_meta := dict_set minted (owner, created) (session_meta (svc_registry s))\<rparr>,
           session_heartbeats := dict_set minted created (session_heartbeats s),
           session_created := dict_set minted created (session_created s)\<rparr>)"
  shows "wp (begin_session minted read_set owner created) Q E s"
proof -
  let ?g = "svc_registry s"
  obtain pins missing where run: "capture_loop ?g read_set [] [] = (pins, missing)"
    by (cases "capture_loop ?g read_set [] []")
  have missing: "missing = filter (\<lambda>a. version_of ?g a = None) read_set"
    using capture_loop_missing [of ?g read_set "[]" "[]"] run by simp
  have pins: "dict_get pins = cut_of ?g read_set" if "missing = []"
    using that capture_loop_pins [of ?g read_set "[]" "[]"] run missing
    by (auto simp: fun_eq_iff cut_of_def filter_empty_conv)
  have cap: "capture_version_vector read_set minted (Some owner) (Some created) ?g =
    (if missing \<noteq> []
     then (Inr (CaptureRejected (VersionedReadRejection UNKNOWN_ARTIFACT (hd (sort missing)) 0 None (coordinator_epoch ?g))), ?g)
     else (Inr (Cut pins), ?g\<lparr>session_pins := dict_set minted pins (session_pins ?g),
              session_meta := dict_set minted (owner, created) (session_meta ?g)\<rparr>))"
    by (simp add: capture_version_vector_def run Let_def)
  have all: "\<forall>a \<in> set read_set. version_of ?g a \<noteq> None" if "missing = []"
    using that missing by (auto simp: filter_empty_conv)
  have some: "\<exists>a \<in> set read_set. version_of ?g a = None" if "missing \<noteq> []"
    using that missing by (auto simp: filter_empty_conv)
  show ?thesis
    using small opened [OF _ _ all pins] unknown [OF some]
    unfolding begin_session_def
    by (cases "missing = []")
      (auto simp: wp_simps wp_def [of "capture_version_vector read_set minted (Some owner) (Some created)"] cap retention_meta_def)
qed

text \<open>
  C24: Opening a session captures one consistent cut or nothing. \<open>begin_session\<close> with a new token never
  raises. Either it is rejected and the whole coordinator is as before; or the read-set is within
  its cap, every member is registered, the cut holds for each of them the version it had at that
  one moment and nothing else, the session's pins are that cut, its owner is bound, and no
  record has changed.
\<close>

theorem begin_session_consistent_cut:
  assumes "dict_get (session_owners s) minted = None"
  shows "\<exists>res s'. begin_session minted read_set owner created s = (Inr res, s') \<and>
    (case res of
       BeginRejected rej \<Rightarrow> s' = s
     | Opened snap \<Rightarrow>
         int (length read_set) \<le> max_read_set_cardinality (session_caps s) \<and>
         (\<forall>a \<in> set read_set. version_of (svc_registry s) a \<noteq> None) \<and>
         dict_get (snap_cut snap) = cut_of (svc_registry s) read_set \<and> snap_token snap = minted \<and>
         get_session_cut minted (svc_registry s') = Some (snap_cut snap) \<and> bound_owner minted s' = Some owner \<and>
         records (svc_registry s') = records (svc_registry s))"
proof -
  have "minted \<notin> fst ` set (session_owners s)"
    using assms by (simp add: map_of_eq_None_iff)
  then have "dict_pop minted (dict_set minted owner (session_owners s)) = session_owners s"
    by (simp add: AList.delete_update_same)
  then have same: "s\<lparr>session_owners := dict_pop minted (dict_set minted owner (session_owners s))\<rparr> = s" by simp
  show ?thesis
    by (rule wp_returns [OF wp_begin_session], unfold same)
      (simp_all add: get_session_cut_def bound_owner_def)
qed

theorem begin_session_consistent_cut_witness:
  "\<exists>res s'. begin_session ''t'' [1, 2] 10 5 (demo_run demo_setup) = (Inr res, s') \<and>
    (case res of BeginRejected rej \<Rightarrow> s' = demo_run demo_setup
     | Opened snap \<Rightarrow> dict_get (snap_cut snap) = cut_of (svc_registry (demo_run demo_setup)) [1, 2] \<and>
         bound_owner ''t'' s' = Some 10)"
proof -
  have "dict_get (session_owners (demo_run demo_setup)) ''t'' = None" by code_simp
  from begin_session_consistent_cut [OF this, of "[1, 2]" 10 5] show ?thesis
    by (auto split: begin_result.splits)
qed

section \<open>Caps\<close>

text \<open>The capped tables of the session service.\<close>

definition within_caps :: "service \<Rightarrow> bool" where
  "within_caps s \<longleftrightarrow> maps_wf (svc_registry s) \<and> dict_wf (session_meta (svc_registry s)) \<and>
     int (session_count (svc_registry s)) \<le> max 0 (max_sessions (session_caps s)) \<and>
     length (reaped_tombstone s) \<le> REAPED_TOMBSTONE_CAP"

lemma dict_length_eq:
  assumes "dict_wf m" and "dict_wf n" and "dict_get m = dict_get n"
  shows "length m = length n"
proof -
  have "fst ` set m = fst ` set n" using assms(3) by (metis dom_map_of_conv_image_fst)
  then show ?thesis using assms(1,2) by (metis distinct_card length_map set_map)
qed

lemma dict_length_update: "dict_wf m \<Longrightarrow> length (dict_set k v m) \<le> Suc (length m)"
  by (induction m) auto

lemma dict_length_delete: "length (dict_pop k m) \<le> length m"
  by (simp add: AList.length_delete_le)

lemma evict_oldest_bound: "length (evict_oldest ts) \<le> REAPED_TOMBSTONE_CAP"
  by (induction ts rule: evict_oldest.induct) (simp_all add: REAPED_TOMBSTONE_CAP_def)

lemma reap_within_caps: "within_caps s \<Longrightarrow> within_caps (snd (reap_session token s))"
  using dict_length_delete [of token "session_meta (svc_registry s)"]
  by (auto simp: within_caps_def maps_wf_def session_count_def evict_oldest_bound)

lemma caps_begin: "keeps within_caps (begin_session minted read_set owner created)"
proof (rule keepsI)
  fix s
  assume I: "within_caps s"
  show "wp (begin_session minted read_set owner created) (\<lambda>_. within_caps) (\<lambda>_. within_caps) s"
    by (rule wp_begin_session)
      (use I dict_length_update [of "session_meta (svc_registry s)" minted "(owner, created)"]
       in \<open>auto simp: within_caps_def maps_wf_def session_count_def\<close>)
qed

lemma caps_service_maps:
  "(\<And>s. svc_registry (f s) = svc_registry s \<and> session_caps (f s) = session_caps s \<and> reaped_tombstone (f s) = reaped_tombstone s) \<Longrightarrow>
   keeps within_caps (modify f)"
  by (simp add: keeps_def modify_def within_caps_def)

lemma caps_heartbeat: "keeps within_caps (record_session_heartbeat token owner now)"
  unfolding record_session_heartbeat_def
  by (intro keeps_intros keeps_asks_registry caps_service_maps)
    (auto split: option.split intro!: keeps_intros caps_service_maps)

lemma caps_drop: "keeps within_caps (drop_session_state token)"
proof (rule keepsI)
  fix s
  assume "within_caps s"
  then show "wp (drop_session_state token) (\<lambda>_. within_caps) (\<lambda>_. within_caps) s"
    using dict_length_delete [of token "session_meta (svc_registry s)"]
    by (auto simp: drop_session_state_def wp_simps release_session_def within_caps_def maps_wf_def session_count_def)
qed

lemma caps_sweep: "keeps within_caps (enforce_session_liveness set_order cur hb_timeout)"
proof -
  have "keeps within_caps (reap_session token)" for token
    by (simp add: keeps_def reap_within_caps)
  then show ?thesis
    unfolding enforce_session_liveness_def by (intro keeps_intros keeps_asks_registry)
qed

lemma caps_step:
  assumes I: "within_caps s" and q: "request_ok q" "any_request q s"
  shows "within_caps (perform sha u5 q s)"
proof (cases "lifetime_request q")
  case True
  then show ?thesis
    using keeps_after [OF caps_begin I] keeps_after [OF caps_heartbeat I] keeps_after [OF caps_drop I]
      keeps_after [OF caps_sweep I] by (cases q) (simp_all add: lifetime_request_def)
next
  case False
  have wf: "maps_wf (svc_registry s)" "dict_wf (session_meta (svc_registry s))" using I by (simp_all add: within_caps_def)
  note tables = perform_session_tables [OF False q wf, of sha u5]
  have "service_maps (perform sha u5 q s) = service_maps s" using False by (rule perform_service_maps)
  moreover have "session_count (svc_registry (perform sha u5 q s)) = session_count (svc_registry s)"
    unfolding session_count_def by (rule dict_length_eq) (use tables wf in auto)
  ultimately show ?thesis using I tables by (simp add: within_caps_def service_maps_def)
qed

interpretation caps: invariant_system coord_init "coord_step sha u5 any_request" within_caps
  for sha u5
proof (unfold_locales, goal_cases)
  case (1 s)
  then show ?case
    by (auto elim!: coord_initE simp: new_ArtifactRegistry_def new_CoordinatorService_def within_caps_def maps_wf_def
        session_count_def split: option.splits if_splits)
next
  case (2 s t)
  then show ?case by (auto elim!: coord_stepE intro: caps_step)
qed

text \<open>
  C26: Session tables stay within their caps. In every reachable state the number of live sessions is
  at most \<open>max_sessions\<close> (or zero, if the cap is negative) and the tombstone of reaped sessions holds
  at most 4096 tokens.
\<close>

theorem sessions_within_caps:
  assumes "reachable coord_init (coord_step sha u5 any_request) s"
  shows "int (session_count (svc_registry s)) \<le> max 0 (max_sessions (session_caps s)) \<and>
    length (reaped_tombstone s) \<le> 4096"
  using caps.reachable_inv [OF assms] by (simp add: within_caps_def REAPED_TOMBSTONE_CAP_def)

theorem sessions_within_caps_witness:
  "session_count (svc_registry (demo_run (demo_setup @ [BeginSession ''t'' [1, 2] 10 5]))) = 1 \<and>
   int (session_count (svc_registry (demo_run (demo_setup @ [BeginSession ''t'' [1, 2] 10 5])))) \<le>
     max 0 (max_sessions (session_caps (demo_run (demo_setup @ [BeginSession ''t'' [1, 2] 10 5]))))"
proof
  have "list_all plain [BeginSession ''t'' [1, 2] 10 5]" by code_simp
  from sessions_within_caps [OF demo_reachable [of coord_init, OF demo_init this]]
  show "int (session_count (svc_registry (demo_run (demo_setup @ [BeginSession ''t'' [1, 2] 10 5])))) \<le>
     max 0 (max_sessions (session_caps (demo_run (demo_setup @ [BeginSession ''t'' [1, 2] 10 5]))))" by blast
qed code_simp

section \<open>The owner binding and the cut persist\<close>

lemma owner_heartbeat:
  "keeps (\<lambda>s :: service. dict_get (session_owners s) tok = Some ow) (record_session_heartbeat token owner now)"
proof (rule keepsI)
  fix s :: service
  assume ow: "dict_get (session_owners s) tok = Some ow"
  have beat: "keeps (\<lambda>s :: service. dict_get (session_owners s) tok = Some ow) (andthen (modify (\<lambda>s.
        case dict_get (session_heartbeats s) token of
          None \<Rightarrow> s\<lparr>session_heartbeats := dict_set token now (session_heartbeats s)\<rparr>
        | Some prev \<Rightarrow> (if now > prev then s\<lparr>session_heartbeats := dict_set token now (session_heartbeats s)\<rparr> else s)))
     (\<lambda>_. ret True))"
    by (auto simp: keeps_def modify_def andthen_def ret_def split: option.split)
  show "wp (record_session_heartbeat token owner now) (\<lambda>_ s. dict_get (session_owners s) tok = Some ow)
      (\<lambda>_ s. dict_get (session_owners s) tok = Some ow) s"
    unfolding record_session_heartbeat_def
    by (cases "dict_get (session_owners s) token")
      (use ow in \<open>auto simp: wp_simps split: option.split intro!: keepsD [OF beat]\<close>)
qed

lemma owner_sweep:
  assumes "dict_get (session_owners s) tok = Some ow"
    and "\<not> session_expired cur hb_timeout (session_meta (svc_registry s)) tok s"
  shows "dict_get (session_owners (after (enforce_session_liveness set_order cur hb_timeout) s)) tok = Some ow"
proof -
  let ?d = "session_meta (svc_registry s)"
  let ?I = "\<lambda>s'. dict_get (session_owners s') tok = Some ow \<and> \<not> session_expired cur hb_timeout ?d tok s'"
  have "wp (for_loop ts (\<lambda>reaped token. andthen (asks (session_expired cur hb_timeout ?d token)) (\<lambda>expired.
         if \<not> expired then ret reaped else andthen (reap_session token) (\<lambda>_. ret (reaped + 1 :: int)))) 0)
       (\<lambda>_ s. dict_get (session_owners s) tok = Some ow) (\<lambda>_ s. dict_get (session_owners s) tok = Some ow) s" for ts
  proof (rule wp_for_loop [where I = "\<lambda>_ _. ?I"])
    fix token ts reaped s'
    assume I: "?I s'"
    show "wp (andthen (asks (session_expired cur hb_timeout ?d token)) (\<lambda>expired.
         if \<not> expired then ret reaped else andthen (reap_session token) (\<lambda>_. ret (reaped + 1 :: int))))
       (\<lambda>_. ?I) (\<lambda>_ s. dict_get (session_owners s) tok = Some ow) s'"
    proof (cases "session_expired cur hb_timeout ?d token s'")
      case True
      then have "tok \<noteq> token" using I by auto
      moreover obtain s2 where "reap_session token s' = (Inr (), s2)" by (metis prod.collapse reap_session_fields(1))
      ultimately show ?thesis
        using True I reap_session_other [of tok token cur hb_timeout ?d s'] reap_session_fields(2) [of token s']
        by (simp add: wp_simps wp_def [of "reap_session token"])
    qed (use I in \<open>simp add: wp_simps\<close>)
  qed (use assms in auto)
  then have "wp (enforce_session_liveness set_order cur hb_timeout)
      (\<lambda>_ s. dict_get (session_owners s) tok = Some ow) (\<lambda>_ s. dict_get (session_owners s) tok = Some ow) s"
    unfolding enforce_session_liveness_def using assms(1)
    by (simp add: wp_simps all_session_meta_def)
  then show ?thesis by (simp add: wp_state after_def)
qed

lemma owner_persists:
  assumes ow: "dict_get (session_owners s) tok = Some ow" and may: "permitted c (\<lambda>t. t \<noteq> tok) d q s"
  shows "dict_get (session_owners (perform sha u5 q s)) tok = Some ow"
proof (cases "lifetime_request q")
  case False
  from perform_service_maps [OF this, of sha u5 s] ow show ?thesis by (simp add: service_maps_def)
next
  case True
  show ?thesis
  proof (cases q)
    case (BeginSession minted read_set owner created)
    have "wp (begin_session minted read_set owner created) (\<lambda>_ s. dict_get (session_owners s) tok = Some ow)
      (\<lambda>_ s. dict_get (session_owners s) tok = Some ow) s"
      by (rule wp_begin_session) (use may ow BeginSession in \<open>simp_all add: permitted_def\<close>)
    then show ?thesis using BeginSession by (simp add: wp_state after_def)
  next
    case (SessionHeartbeat token owner now)
    then show ?thesis using keeps_after [where P = "\<lambda>s. dict_get (session_owners s) tok = Some ow", OF owner_heartbeat ow] by simp
  next
    case (DropSession token)
    then show ?thesis using may ow
      by (simp add: permitted_def after_def drop_session_state_def andthen_def on_registry_def on_field_def release_session_def modify_def)
  next
    case (SessionSweep set_order cur hb_timeout)
    then show ?thesis using may by (auto simp: permitted_def intro!: owner_sweep ow)
  qed (use True in \<open>simp_all add: lifetime_request_def\<close>)
qed

text \<open>Whether the registry keeps history is fixed when it is created.\<close>

definition retaining :: "registry \<Rightarrow> bool" where
  "retaining g \<longleftrightarrow> maps_wf g \<and> retain_versions g"

lemma retaining_put: "retaining g \<Longrightarrow> dict_wf (state_by_agent r) \<Longrightarrow> retaining (put_record art r g)"
  by (simp add: retaining_def maps_wf_def)

lemma retaining_wf: "retaining g \<Longrightarrow> dict_get (records g) art = Some r \<Longrightarrow> dict_wf (state_by_agent r)"
  by (simp add: retaining_def maps_wf_def)

interpretation retain: service_frame retaining "\<lambda>_ _. True" "\<lambda>_. True" "\<lambda>_. True"
proof (unfold_locales, goal_cases)
  case (3 g art r st ag trig tick)
  then show ?case by (intro retaining_put) (auto dest: retaining_wf)
next
  case (7 g art r ag expected chash toks c)
  then show ?case by (intro retaining_put won_record_wf) (auto dest: retaining_wf)
next
  case (10 g a c)
  then show ?case by (simp add: reg_register_artifact_def modify_def Let_def retaining_put new_record_wf)
qed (auto simp: retaining_def maps_wf_def note_conflict_def elim!: manifest_updateE)

lemma served:
  assumes cut: "dict_get (session_pins (svc_registry s)) tok = Some pins" "dict_get pins art = Some v"
    and owner: "dict_get (session_owners s) tok = Some owner"
    and row: "retain_versions (svc_registry s)" "get_version_record art v (svc_registry s) = Some (b, t)"
  shows "session_read tok art owner s = (Inr (Served (VersionedContent art v b t (coordinator_epoch (svc_registry s)))), s)"
  using assms
  by (simp add: session_read_def andthen_def asks_registry_def asks_def ret_def throw_def get_session_cut_def
      validate_session_owner_def bound_owner_def retention_meta_def Let_def collectible_never_exempt split: option.split)

text \<open>
  C25: A session reads its snapshot whatever happens around it. Take any reachable state with retention
  on, and a session opened there over a read-set whose member \<open>art\<close> is at version \<open>v\<close> with retained
  body \<open>b\<close>. After any sequence of requests by anyone that neither ends nor reopens this session nor
  deletes this artifact (commits of new versions, retention collection, sweeps, other sessions and
  their reaping included), the owner's \<open>session_read\<close> returns version \<open>v\<close> with body \<open>b\<close> and changes nothing.
\<close>

theorem session_cut_is_stable:
  assumes "reachable coord_init (coord_step sha u5 any_request) s" and "retain_versions (svc_registry s)"
    and "begin_session tok read_set owner created s = (Inr (Opened snap), s')"
    and "art \<in> set read_set" and "version_of (svc_registry s) art = Some v"
    and "get_version_record art v (svc_registry s) = Some (b, t)"
    and "(coord_step sha u5 (permitted (\<lambda>_ _. True) (\<lambda>x. x \<noteq> tok) (\<lambda>a. a \<noteq> art)))\<^sup>*\<^sup>* s' u"
  shows "session_read tok art owner u =
    (Inr (Served (VersionedContent art v b t (coordinator_epoch (svc_registry u)))), u)"
proof -
  let ?P = "\<lambda>s. on_reg (record_has art (pinned_body tok art v b t)) s \<and> on_reg retaining s \<and>
    dict_get (session_owners s) tok = Some owner"
  have ok: "reg_ok False (svc_registry s)" using system.reachable_inv [OF assms(1)] by (simp add: on_reg_def)
  have wf: "maps_wf (svc_registry s)" by (rule reachable_maps_wf [OF assms(1)])
  obtain r where r: "dict_get (records (svc_registry s)) art = Some r" "art_version (artifact r) = v"
    using assms(5) by (auto simp: version_of_def)
  have id: "art_id (artifact r) = art" using reg_ok_lookup [OF ok r(1)] by (simp add: rec_ok_def)
  have row: "dict_get (version_history r) v = Some b" "dict_get (version_captured_at r) v = Some t"
    using assms(6) r(1) by (auto simp: get_version_record_def split: option.splits)
  have "wp (begin_session tok read_set owner created) (\<lambda>res s'. \<forall>snap. res = Opened snap \<longrightarrow> ?P s') (\<lambda>_ _. True) s"
  proof (rule wp_begin_session, goal_cases)
    case (3 pins)
    have "dict_get pins art = Some v" using 3(4) assms(4,5) by (simp add: cut_of_def)
    with r id row wf assms(2) show ?case
      by (simp add: on_reg_def record_has_def pinned_body_def retaining_def maps_wf_def)
  qed simp_all
  then have start: "?P s'" using assms(3) by (simp add: wp_def)
  have "?P u" using assms(7) start
  proof (induction rule: rtranclp_induct)
    case (step y z)
    from step.hyps(2) obtain q where q: "request_ok q" "permitted (\<lambda>_ _. True) (\<lambda>x. x \<noteq> tok) (\<lambda>a. a \<noteq> art) q y"
      "z = perform sha u5 q y" by (auto elim!: coord_stepE)
    with step.IH step.prems show ?case
      by (auto intro: pin.perform_keeps retain.perform_keeps [OF _ _ permitted_any] owner_persists)
  qed
  then obtain r' pins where r': "dict_get (records (svc_registry u)) art = Some r'"
    "dict_get (version_history r') v = Some b" "dict_get (version_captured_at r') v = Some t"
    and "dict_get (session_pins (svc_registry u)) tok = Some pins" "dict_get pins art = Some v"
      "retain_versions (svc_registry u)" "dict_get (session_owners u) tok = Some owner"
    by (auto simp: on_reg_def record_has_def pinned_body_def retaining_def)
  then show ?thesis by (intro served) (simp_all add: get_version_record_def)
qed

text \<open>
  The run of the witness: a session pins artifact 1 at version 1; three commits follow, so that
  the retention bound of two versions would have dropped version 1.
\<close>

definition demo_open :: "request list" where
  "demo_open = [BeginSession ''t'' [1, 2] 10 5]"

definition demo_moves :: "request list" where
  "demo_moves = [CommitCas 20 1 1 ''h'' 6 None (Some (Text ''p'')) False, CommitCas 20 1 2 ''k'' 7 None (Some (Text ''q'')) False,
     CommitCas 20 1 3 ''l'' 8 None (Some (Text ''r'')) False]"

theorem session_cut_is_stable_witness:
  "version_of (svc_registry (demo_run ((demo_setup @ demo_open) @ demo_moves))) 1 = Some 4 \<and>
   session_read ''t'' 1 10 (demo_run ((demo_setup @ demo_open) @ demo_moves)) =
     (Inr (Served (VersionedContent 1 1 (Text ''x'') 0
        (coordinator_epoch (svc_registry (demo_run ((demo_setup @ demo_open) @ demo_moves)))))),
      demo_run ((demo_setup @ demo_open) @ demo_moves))"
proof -
  let ?s = "demo_run demo_setup"
  let ?u = "demo_run ((demo_setup @ demo_open) @ demo_moves)"
  have facts: "retain_versions (svc_registry ?s)" "version_of (svc_registry ?s) 1 = Some 1"
    "get_version_record 1 1 (svc_registry ?s) = Some (Text ''x'', 0)" "version_of (svc_registry ?u) 1 = Some 4"
    by code_simp+
  have "case fst (begin_session ''t'' [1, 2] 10 5 ?s) of Inr (Opened _) \<Rightarrow> True | _ \<Rightarrow> False" by code_simp
  then obtain snap where "fst (begin_session ''t'' [1, 2] 10 5 ?s) = Inr (Opened snap)"
    by (auto split: sum.splits begin_result.splits)
  moreover have "demo_run (demo_setup @ demo_open) = snd (begin_session ''t'' [1, 2] 10 5 ?s)"
    by (simp add: demo_open_def demo_run_snoc after_def)
  ultimately have opened: "begin_session ''t'' [1, 2] 10 5 ?s = (Inr (Opened snap), demo_run (demo_setup @ demo_open))"
    by (metis prod.collapse)
  have "list_all (\<lambda>q. stateless q \<and> permitted (\<lambda>_ _. True) (\<lambda>x. x \<noteq> ''t'') (\<lambda>a. a \<noteq> 1) q demo_start) demo_moves"
    by (simp add: demo_moves_def stateless_def plain_def request_ok_def permitted_def)
  from session_cut_is_stable [OF demo_setup_reachable [of coord_init, OF demo_init] facts(1) opened _ facts(2,3) demo_steps [OF this]] facts(4)
  show ?thesis by simp
qed

end
