(* ===== verification/Session_Safety.thy ===== *)
theory Session_Safety
  imports Session_Life
begin

text \<open>
  Who may use a session, what its commits may overwrite, and what becomes of it when it dies.
\<close>

section \<open>Owners\<close>

text \<open>
  C28: Only the owner uses a session. Whatever the state, when a session is bound to an owner, a read,
  a commit or a batch commit through it by any other caller raises \<open>SessionInvalidated\<close> and
  changes nothing, whether or not the artifact is in its cut.
\<close>

theorem foreign_caller_refused:
  assumes "bound_owner tok s = Some owner" and "caller \<noteq> owner" and "writes \<noteq> []"
  shows "session_read tok art caller s = (Inl SessionInvalidated, s) \<and>
    session_commit sha u5 tok art content caller toks tick abort s = (Inl SessionInvalidated, s) \<and>
    session_commit_all sha u5 tok writes caller tick abort s = (Inl SessionInvalidated, s)"
  using assms
  by (simp add: session_read_def session_commit_def session_commit_all_def validate_session_owner_def
      andthen_def asks_registry_def asks_def throw_def)

theorem foreign_caller_refused_witness:
  "session_read ''t'' 1 11 (demo_run (demo_setup @ demo_open)) = (Inl SessionInvalidated, demo_run (demo_setup @ demo_open))"
proof -
  have "bound_owner ''t'' (demo_run (demo_setup @ demo_open)) = Some 10" by code_simp
  from foreign_caller_refused [OF this, of 11 "[(1, Text ''w'', None)]" 1] show ?thesis by simp
qed

section \<open>First committer wins\<close>

lemma session_commit_win:
  assumes ok: "reg_ok False (svc_registry s)"
    and run: "session_commit sha u5 tok art content caller toks tick abort s = (Inr (SessionOutcome (Committed upd sigs)), s')"
  shows "\<exists>pins v. get_session_cut tok (svc_registry s) = Some pins \<and> dict_get pins art = Some v \<and>
    bound_owner tok s = Some caller \<and> version_of (svc_registry s) art = Some v \<and>
    version_of (svc_registry s') art = Some (v + 1) \<and> art_version upd = v + 1 \<and>
    get_content art (svc_registry s') = Some content"
proof -
  let ?g = "svc_registry s"
  obtain pins v chash g' where pins: "get_session_cut tok ?g = Some pins" "dict_get pins art = Some v"
    and own: "bound_owner tok s = Some caller"
    and cas: "commit_cas (session_committer_id u5 tok) art v chash tick toks (Some content) abort ?g = (Inr (Committed upd sigs), g')"
    and s': "s' = s\<lparr>svc_registry := g'\<rparr>"
    using run
    by (auto simp: session_commit_def validate_session_owner_def andthen_def asks_registry_def asks_def throw_def ret_def
        lift_sum_def on_registry_def on_field_def split: option.splits if_splits sum.splits prod.splits)
  have "wp (commit_cas (session_committer_id u5 tok) art v chash tick toks (Some content) abort)
    (\<lambda>out h. \<forall>upd sigs. out = Committed upd sigs \<longrightarrow> version_of ?g art = Some v \<and> version_of h art = Some (v + 1) \<and>
       art_version upd = v + 1 \<and> get_content art h = Some content) (\<lambda>_ _. True) ?g"
    by (rule wp_commit_cas [OF ok])
      (auto simp: version_of_def arbitrate_Admitted bumped_artifact_def get_content_def won_record_content)
  with cas have "version_of ?g art = Some v \<and> version_of g' art = Some (v + 1) \<and> art_version upd = v + 1 \<and>
    get_content art g' = Some content" by (simp add: wp_def)
  with pins own s' show ?thesis by simp
qed

text \<open>
  C27: First committer wins. If a commit through a session succeeds in a reachable state, the caller
  is the session's owner, the artifact is in the session's cut, it was still at the version the
  session had pinned, and it is now exactly one version further with the committed body: nothing
  that was committed since the session was opened is overwritten.
\<close>

theorem session_commit_first_committer:
  assumes "reachable coord_init (coord_step sha u5 any_request) s"
    and "session_commit sha u5 tok art content caller toks tick abort s = (Inr (SessionOutcome (Committed upd sigs)), s')"
  shows "\<exists>pins v. get_session_cut tok (svc_registry s) = Some pins \<and> dict_get pins art = Some v \<and>
    bound_owner tok s = Some caller \<and> version_of (svc_registry s) art = Some v \<and>
    version_of (svc_registry s') art = Some (v + 1) \<and> art_version upd = v + 1 \<and>
    get_content art (svc_registry s') = Some content"
proof -
  have "reg_ok False (svc_registry s)" using system.reachable_inv [OF assms(1)] by (simp add: on_reg_def)
  then show ?thesis by (rule session_commit_win [OF _ assms(2)])
qed

theorem session_commit_first_committer_witness:
  "\<exists>upd sigs s'. session_commit demo_sha demo_u5 ''t'' 1 (Text ''w'') 10 None 6 False (demo_run (demo_setup @ demo_open)) =
     (Inr (SessionOutcome (Committed upd sigs)), s') \<and>
   version_of (svc_registry s') 1 = Some 2 \<and> get_content 1 (svc_registry s') = Some (Text ''w'')"
proof -
  let ?s = "demo_run (demo_setup @ demo_open)"
  let ?run = "session_commit demo_sha demo_u5 ''t'' 1 (Text ''w'') 10 None 6 False ?s"
  have "case fst ?run of Inr (SessionOutcome (Committed _ _)) \<Rightarrow> True | _ \<Rightarrow> False" by code_simp
  then obtain upd sigs where "fst ?run = Inr (SessionOutcome (Committed upd sigs))"
    by (auto split: sum.splits session_outcome.splits cas_outcome.splits)
  then have run: "?run = (Inr (SessionOutcome (Committed upd sigs)), snd ?run)" by (metis prod.collapse)
  have v: "version_of (svc_registry ?s) 1 = Some 1" by code_simp
  have "list_all plain demo_open" by code_simp
  from session_commit_first_committer [OF demo_reachable [of coord_init, OF demo_init this] run] v
  have "version_of (svc_registry (snd ?run)) 1 = Some 2 \<and> get_content 1 (svc_registry (snd ?run)) = Some (Text ''w'')" by auto
  with run show ?thesis by blast
qed

section \<open>Dead sessions\<close>

text \<open>A session of which nothing is left.\<close>

definition dead :: "string \<Rightarrow> service \<Rightarrow> bool" where
  "dead tok s \<longleftrightarrow> dict_get (session_owners s) tok = None \<and> dict_get (session_pins (svc_registry s)) tok = None \<and>
     dict_get (session_meta (svc_registry s)) tok = None"

lemma dead_reap: "dead tok (snd (reap_session tok s))"
  by (simp add: dead_def)

lemma dead_reap_other: "dead tok s \<Longrightarrow> dead tok (snd (reap_session token s))"
  by (cases "token = tok") (simp_all add: dead_def)

lemma dead_sweep: "keeps (dead tok) (enforce_session_liveness set_order cur hb_timeout)"
proof -
  have "keeps (dead tok) (reap_session token)" for token by (simp add: keeps_def dead_reap_other)
  then show ?thesis unfolding enforce_session_liveness_def by (intro keeps_intros keeps_asks_registry)
qed

lemma dead_heartbeat: "keeps (dead tok) (record_session_heartbeat token owner now)"
proof (rule keepsI)
  fix s
  assume d: "dead tok s"
  have beat: "keeps (dead tok) (andthen (modify (\<lambda>s.
        case dict_get (session_heartbeats s) token of
          None \<Rightarrow> s\<lparr>session_heartbeats := dict_set token now (session_heartbeats s)\<rparr>
        | Some prev \<Rightarrow> (if now > prev then s\<lparr>session_heartbeats := dict_set token now (session_heartbeats s)\<rparr> else s)))
     (\<lambda>_. ret True))"
    by (auto simp: keeps_def modify_def andthen_def ret_def dead_def split: option.split)
  show "wp (record_session_heartbeat token owner now) (\<lambda>_. dead tok) (\<lambda>_. dead tok) s"
    unfolding record_session_heartbeat_def
    by (cases "dict_get (session_owners s) token"; cases "token = tok")
      (use d in \<open>auto simp: wp_simps get_session_meta_def split: option.split intro!: keepsD [OF beat], auto simp: dead_def\<close>)
qed

lemma dead_begin:
  assumes "minted \<noteq> tok"
  shows "keeps (dead tok) (begin_session minted read_set owner created)"
proof (rule keepsI)
  fix s
  assume "dead tok s"
  with assms show "wp (begin_session minted read_set owner created) (\<lambda>_. dead tok) (\<lambda>_. dead tok) s"
    by (intro wp_begin_session) (auto simp: dead_def)
qed

lemma dead_drop: "keeps (dead tok) (drop_session_state token)"
proof (rule keepsI)
  fix s
  assume "dead tok s"
  then show "wp (drop_session_state token) (\<lambda>_. dead tok) (\<lambda>_. dead tok) s"
    by (cases "token = tok") (auto simp: drop_session_state_def wp_simps release_session_def dead_def)
qed

definition no_reopen :: "string \<Rightarrow> request \<Rightarrow> service \<Rightarrow> bool" where
  "no_reopen tok q s \<longleftrightarrow> any_request q s \<and> (\<forall>read_set owner created. q \<noteq> BeginSession tok read_set owner created)"

lemma dead_step:
  assumes d: "dead tok s" and I: "within_caps s" and q: "request_ok q" "no_reopen tok q s"
  shows "dead tok (perform sha u5 q s)"
proof (cases "lifetime_request q")
  case True
  then show ?thesis
    using keeps_after [OF dead_begin d] keeps_after [OF dead_heartbeat d] keeps_after [OF dead_drop d]
      keeps_after [OF dead_sweep d] q(2) by (cases q) (auto simp: lifetime_request_def no_reopen_def)
next
  case False
  have wf: "maps_wf (svc_registry s)" "dict_wf (session_meta (svc_registry s))" using I by (simp_all add: within_caps_def)
  have any: "any_request q s" using q(2) by (simp add: no_reopen_def)
  from perform_session_tables [OF False q(1) any wf, of sha u5] perform_service_maps [OF False, of sha u5 s] d
  show ?thesis by (simp add: dead_def service_maps_def)
qed

text \<open>
  C29: A reaped session fails closed for good. Reap any session, in any reachable state, whose token
  has the shape of a minted one; then along any sequence of requests that does not mint the same
  token again, a read and a commit through it, by anyone, are answered \<open>session_invalidated\<close> and
  change nothing: they never fall through to live data, even after the tombstone has been evicted.
\<close>

theorem reaped_session_stays_dead:
  assumes "reachable coord_init (coord_step sha u5 any_request) s" and "looks_like_session_token tok"
    and "(coord_step sha u5 (no_reopen tok))\<^sup>*\<^sup>* (snd (reap_session tok s)) u"
  shows "session_read tok art caller u =
      (Inr (SessionReadRejected (SessionReadRejection SESSION_INVALIDATED art (coordinator_epoch (svc_registry u)))), u) \<and>
    session_commit sha u5 tok art content caller toks tick abort u =
      (Inr (SessionCommitRejected (SessionCommitRejection SESSION_INVALIDATED art (coordinator_epoch (svc_registry u)))), u)"
proof -
  have "dead tok u \<and> within_caps u" using assms(3)
  proof (induction rule: rtranclp_induct)
    case base
    show ?case using reap_within_caps [OF caps.reachable_inv [OF assms(1)]] by (simp add: dead_reap)
  next
    case (step y z)
    from step.hyps(2) obtain q where q: "request_ok q" "no_reopen tok q y" "z = perform sha u5 q y"
      by (auto elim!: coord_stepE)
    then have "any_request q y" by (simp add: no_reopen_def)
    with q step.IH dead_step caps_step show ?case by metis
  qed
  then have "dead tok u" ..
  with assms(2) show ?thesis
    by (simp add: session_read_def session_commit_def andthen_def asks_registry_def asks_def ret_def get_session_cut_def
        validate_session_owner_def bound_owner_def get_session_meta_def dead_def classify_no_cut_reason_def)
qed

text \<open>A token of the minted shape, and the run of the witness: it is opened, reaped, and the artifact moves on.\<close>

definition demo_token :: string where
  "demo_token = replicate 43 CHR ''a''"

theorem reaped_session_stays_dead_witness:
  "session_read demo_token 1 10
     (perform demo_sha demo_u5 (CommitCas 20 1 1 ''h'' 6 None (Some (Text ''p'')) False)
        (snd (reap_session demo_token (demo_run (demo_setup @ [BeginSession demo_token [1, 2] 10 5]))))) =
   (Inr (SessionReadRejected (SessionReadRejection SESSION_INVALIDATED 1 ''e'')),
     perform demo_sha demo_u5 (CommitCas 20 1 1 ''h'' 6 None (Some (Text ''p'')) False)
        (snd (reap_session demo_token (demo_run (demo_setup @ [BeginSession demo_token [1, 2] 10 5])))))"
proof -
  let ?q = "CommitCas 20 1 1 ''h'' 6 None (Some (Text ''p'')) False"
  let ?s = "demo_run (demo_setup @ [BeginSession demo_token [1, 2] 10 5])"
  have tok: "looks_like_session_token demo_token" by code_simp
  have "list_all plain [BeginSession demo_token [1, 2] 10 5]" by (simp add: plain_def request_ok_def)
  then have reach: "reachable coord_init demo_step ?s" by (rule demo_reachable [of coord_init, OF demo_init])
  have "coord_step demo_sha demo_u5 (no_reopen demo_token) (snd (reap_session demo_token ?s))
      (perform demo_sha demo_u5 ?q (snd (reap_session demo_token ?s)))"
    by (rule coord_step.intros) (simp_all add: request_ok_def no_reopen_def permitted_def)
  then have "(coord_step demo_sha demo_u5 (no_reopen demo_token))\<^sup>*\<^sup>* (snd (reap_session demo_token ?s))
      (perform demo_sha demo_u5 ?q (snd (reap_session demo_token ?s)))" by (rule r_into_rtranclp)
  note dead_read = reaped_session_stays_dead [OF reach tok this, of 1 10, THEN conjunct1]
  have "coordinator_epoch (svc_registry (perform demo_sha demo_u5 ?q (snd (reap_session demo_token ?s)))) = ''e''"
    by code_simp
  with dead_read show ?thesis by simp
qed

section \<open>The session sweep\<close>

text \<open>Everything the coordinator stores under a token.\<close>

definition session_view ::
  "string \<Rightarrow> service \<Rightarrow> uuid option \<times> int option \<times> int option \<times> (uuid, int) dict option \<times> (uuid \<times> int) option" where
  "session_view t s = (dict_get (session_owners s) t, dict_get (session_created s) t, dict_get (session_heartbeats s) t,
     dict_get (session_pins (svc_registry s)) t, dict_get (session_meta (svc_registry s)) t)"

definition live_session :: "string \<Rightarrow> service \<Rightarrow> bool" where
  "live_session t s \<longleftrightarrow> dict_get (session_owners s) t \<noteq> None \<or> dict_get (session_meta (svc_registry s)) t \<noteq> None"

text \<open>The sweep that started in \<open>s\<close> over \<open>tokens\<close>, with \<open>todo\<close> left and \<open>n\<close> sessions reaped.\<close>

definition reaping :: "(string \<Rightarrow> bool) \<Rightarrow> string list \<Rightarrow> service \<Rightarrow> string list \<Rightarrow> int \<Rightarrow> service \<Rightarrow> bool" where
  "reaping due tokens s todo n s' \<longleftrightarrow> distinct todo \<and> set todo \<subseteq> set tokens \<and> session_caps s' = session_caps s \<and>
     records (svc_registry s') = records (svc_registry s) \<and>
     n + int (length (filter due todo)) = int (length (filter due tokens)) \<and>
     (\<forall>t. session_view t s' = (if t \<in> set tokens \<and> t \<notin> set todo \<and> due t then (None, None, None, None, None) else session_view t s))"

lemma session_expired_view:
  "session_view t s' = session_view t s \<Longrightarrow> session_caps s' = session_caps s \<Longrightarrow>
   session_expired cur hb_timeout durable t s' = session_expired cur hb_timeout durable t s"
  by (simp add: session_expired_def session_view_def split: option.splits)

lemma reap_session_view:
  "session_view t (snd (reap_session token s)) = (if t = token then (None, None, None, None, None) else session_view t s)"
  by (simp add: session_view_def)

lemma reaping_step:
  assumes I: "reaping (\<lambda>t. session_expired cur hb_timeout d t s) tokens s (token # todo) n s'"
  shows "wp (andthen (asks (session_expired cur hb_timeout d token)) (\<lambda>expired.
         if \<not> expired then ret n else andthen (reap_session token) (\<lambda>_. ret (n + 1))))
     (reaping (\<lambda>t. session_expired cur hb_timeout d t s) tokens s todo) E s'"
proof -
  have view: "\<And>t. session_view t s' = (if t \<in> set tokens \<and> t \<notin> set (token # todo) \<and> session_expired cur hb_timeout d t s
      then (None, None, None, None, None) else session_view t s)"
    using I unfolding reaping_def by blast
  have "session_view token s' = session_view token s" using view [of token] by simp
  then have due: "session_expired cur hb_timeout d token s' = session_expired cur hb_timeout d token s"
    using I by (intro session_expired_view) (simp_all add: reaping_def)
  show ?thesis
  proof (cases "session_expired cur hb_timeout d token s")
    case False
    with I view due show ?thesis by (auto simp: wp_simps reaping_def)
  next
    case True
    obtain s2 where run: "reap_session token s' = (Inr (), s2)" by (metis prod.collapse reap_session_fields(1))
    have "session_view t s2 = (if t \<in> set tokens \<and> t \<notin> set todo \<and> session_expired cur hb_timeout d t s
      then (None, None, None, None, None) else session_view t s)" for t
      using view [of t] reap_session_view [of t token s'] run True I by (auto simp: reaping_def)
    moreover have "session_caps s2 = session_caps s'" "records (svc_registry s2) = records (svc_registry s')"
      using reap_session_fields(5,7) [of token s'] run by simp_all
    ultimately have "reaping (\<lambda>t. session_expired cur hb_timeout d t s) tokens s todo (n + 1) s2"
      using I True unfolding reaping_def by auto
    with True due run show ?thesis by (simp add: wp_simps wp_def [of "reap_session token"])
  qed
qed

text \<open>
  C30: The session sweep is exact. With a positive timeout and any iteration order of the token set,
  \<open>enforce_session_liveness\<close> returns the number of live sessions that were expired when it started
  (lease stale or missing, or older than the absolute age); of each of them nothing is left, and
  every other session keeps its owner, lease, pins and metadata.
\<close>

theorem session_sweep_exact:
  assumes "0 < hb_timeout" and "\<And>xs. set (set_order xs) = set xs" and "\<And>xs. distinct xs \<Longrightarrow> distinct (set_order xs)"
    and "due = (\<lambda>t. live_session t s \<and> session_expired cur hb_timeout (session_meta (svc_registry s)) t s)"
  shows "\<exists>s'. enforce_session_liveness set_order cur hb_timeout s = (Inr (int (card {t. due t})), s') \<and>
    (\<forall>t. session_view t s' = (if due t then (None, None, None, None, None) else session_view t s)) \<and>
    records (svc_registry s') = records (svc_registry s)"
proof -
  let ?d = "session_meta (svc_registry s)"
  let ?exp = "\<lambda>t. session_expired cur hb_timeout ?d t s"
  let ?ts = "set_order (remdups (dict_keys (session_owners s) @ dict_keys ?d))"
  have live: "t \<in> set ?ts \<longleftrightarrow> live_session t s" for t
    by (simp add: assms(2) live_session_def map_of_eq_None_iff)
  have distinct: "distinct ?ts" by (rule assms(3)) simp
  have "int (length (filter ?exp ?ts)) = int (card {t. due t})"
    using distinct_card [OF distinct_filter [OF distinct, of ?exp]] by (simp add: assms(4) live)
  note count = this
  have "wp (enforce_session_liveness set_order cur hb_timeout)
    (\<lambda>n s'. n = int (card {t. due t}) \<and>
      (\<forall>t. session_view t s' = (if due t then (None, None, None, None, None) else session_view t s)) \<and>
      records (svc_registry s') = records (svc_registry s)) (\<lambda>_ _. False) s"
  proof -
    have "wp (for_loop ?ts (\<lambda>reaped token. andthen (asks (session_expired cur hb_timeout ?d token)) (\<lambda>expired.
         if \<not> expired then ret reaped else andthen (reap_session token) (\<lambda>_. ret (reaped + 1)))) 0)
      (\<lambda>n s'. n = int (card {t. due t}) \<and>
        (\<forall>t. session_view t s' = (if due t then (None, None, None, None, None) else session_view t s)) \<and>
        records (svc_registry s') = records (svc_registry s)) (\<lambda>_ _. False) s"
    proof (rule wp_for_loop [where I = "reaping ?exp ?ts s"])
      show "reaping ?exp ?ts s ?ts 0 s" using distinct unfolding reaping_def by auto
      fix n s'
      assume "reaping ?exp ?ts s [] n s'"
      then show "n = int (card {t. due t}) \<and>
        (\<forall>t. session_view t s' = (if due t then (None, None, None, None, None) else session_view t s)) \<and>
        records (svc_registry s') = records (svc_registry s)"
        using count by (simp add: reaping_def live assms(4))
    qed (rule reaping_step)
    then show ?thesis
      unfolding enforce_session_liveness_def using assms(1) by (simp add: wp_simps all_session_meta_def)
  qed
  from wp_returns [OF this] show ?thesis by blast
qed

theorem session_sweep_exact_witness:
  "\<exists>s'. enforce_session_liveness rev 30 10 (demo_run (demo_setup @ demo_open)) =
      (Inr (int (card {t. live_session t (demo_run (demo_setup @ demo_open)) \<and>
         session_expired 30 10 (session_meta (svc_registry (demo_run (demo_setup @ demo_open)))) t (demo_run (demo_setup @ demo_open))})), s') \<and>
    session_view ''t'' (demo_run (demo_setup @ demo_open)) \<noteq> (None, None, None, None, None) \<and>
    session_view ''t'' s' = (None, None, None, None, None)"
proof -
  let ?s = "demo_run (demo_setup @ demo_open)"
  have due: "live_session ''t'' ?s \<and> session_expired 30 10 (session_meta (svc_registry ?s)) ''t'' ?s"
    and start: "session_view ''t'' ?s \<noteq> (None, None, None, None, None)" by code_simp+
  from session_sweep_exact [where hb_timeout = 10 and set_order = rev and s = ?s and cur = 30, OF _ _ _ refl] due start show ?thesis by auto
qed

end
