(* ===== verification/Gate_Safety.thy ===== *)
theory Gate_Safety
  imports Session_Safety
begin

text \<open>
  What the effect gate promises, in both modes: an escaping effect runs if and only if no member of
  the read-set moved between the pin and the re-validation, an atomic one commits exactly one
  version above the pinned one, and a one-shot gate leaves no session behind however it ends.
\<close>

section \<open>Re-validation\<close>

lemma capture_loop_wf: "dict_wf pins \<Longrightarrow> dict_wf (fst (capture_loop g arts pins missing))"
  by (induction g arts pins missing rule: capture_loop.induct) (auto split: option.split)

lemma begin_session_opened:
  assumes "begin_session minted read_set owner created s = (Inr (Opened snap), s1)"
  shows "snap_token snap = minted" "dict_get (snap_cut snap) = cut_of (svc_registry s) read_set"
    "dict_wf (snap_cut snap)" "\<forall>a \<in> set read_set. version_of (svc_registry s) a \<noteq> None"
    "records (svc_registry s1) = records (svc_registry s)"
proof -
  have "wp (begin_session minted read_set owner created) (\<lambda>res s1. case res of BeginRejected _ \<Rightarrow> True
     | Opened snap \<Rightarrow> snap_token snap = minted \<and> dict_get (snap_cut snap) = cut_of (svc_registry s) read_set \<and>
         (\<forall>a \<in> set read_set. version_of (svc_registry s) a \<noteq> None) \<and>
         records (svc_registry s1) = records (svc_registry s)) (\<lambda>_ _. False) s"
    by (rule wp_begin_session) simp_all
  from wp_result [OF assms this] show "snap_token snap = minted" "dict_get (snap_cut snap) = cut_of (svc_registry s) read_set"
    "\<forall>a \<in> set read_set. version_of (svc_registry s) a \<noteq> None"
    "records (svc_registry s1) = records (svc_registry s)" by simp_all
  show "dict_wf (snap_cut snap)"
    using assms capture_loop_wf [of "[]" _ read_set "[]"]
    by (auto simp: begin_session_def capture_version_vector_def py_defs on_registry_def asks_registry_def Let_def
        split: if_splits prod.splits sum.splits capture_result.splits)
      (metis fst_conv)+
qed

definition drift :: "(uuid \<Rightarrow> int option) \<Rightarrow> registry \<Rightarrow> uuid \<Rightarrow> (int \<times> int option) option" where
  "drift pinned g a = (case pinned a of None \<Rightarrow> None | Some v \<Rightarrow> if version_of g a = Some v then None else Some (v, version_of g a))"

lemma version_of_get_artifact: "map_option art_version (get_artifact a g) = version_of g a"
  by (simp add: get_artifact_def version_of_def option.map_comp comp_def)

lemma revalidate_fold:
  "dict_wf pins \<Longrightarrow> dict_get (fold (\<lambda>(art, pinned) moved.
        if version_of g art \<noteq> Some pinned then dict_set art (pinned, version_of g art) moved else moved) pins acc) a =
     (case drift (dict_get pins) g a of None \<Rightarrow> dict_get acc a | Some m \<Rightarrow> Some m)"
proof (induction pins arbitrary: acc)
  case (Cons x pins)
  obtain b v where x: "x = (b, v)" by (cases x)
  have "dict_get pins b = None" using Cons.prems x by (auto simp: map_of_eq_None_iff)
  then show ?case
    using Cons.prems x by (auto simp: Cons.IH drift_def split: option.split)
qed (simp add: drift_def)

lemma revalidate_get: "dict_wf pins \<Longrightarrow> dict_get (revalidate_cut pins g) a = drift (dict_get pins) g a"
  unfolding revalidate_cut_def by (simp add: version_of_get_artifact Let_def revalidate_fold split: option.split)

lemma revalidate_empty:
  assumes "dict_wf pins"
  shows "revalidate_cut pins g = [] \<longleftrightarrow> (\<forall>a. drift (dict_get pins) g a = None)"
proof
  assume "revalidate_cut pins g = []"
  then show "\<forall>a. drift (dict_get pins) g a = None" using revalidate_get [OF assms, of g] by (metis map_of.simps(1))
next
  assume "\<forall>a. drift (dict_get pins) g a = None"
  then have "dict_get (revalidate_cut pins g) = dict_get []" by (simp add: revalidate_get assms fun_eq_iff)
  then show "revalidate_cut pins g = []" by (metis map_of_eq_empty_iff map_of.simps(1))
qed

lemma drift_cut_none:
  assumes "\<forall>a \<in> set read_set. version_of g a \<noteq> None"
  shows "(\<forall>a. drift (cut_of g read_set) h a = None) \<longleftrightarrow> (\<forall>a \<in> set read_set. version_of h a = version_of g a)"
  using assms by (force simp: drift_def cut_of_def split: option.splits if_splits)

section \<open>The gate, opened up\<close>

text \<open>The state in which the gate leaves a session: dropped when the gate is one-shot.\<close>

definition leave :: "bool \<Rightarrow> string \<Rightarrow> service \<Rightarrow> service" where
  "leave release token s = (if release then after (drop_session_state token) s else s)"

lemma drop_session_returns: "drop_session_state token s = (Inr (), after (drop_session_state token) s)"
  by (simp add: drop_session_state_def py_defs on_registry_def release_session_def after_def)

lemma records_leave [simp]: "records (svc_registry (leave release token s)) = records (svc_registry s)"
  by (simp add: leave_def after_def drop_session_state_def py_defs on_registry_def release_session_def)

lemma session_view_leave: "session_view token (leave True token s) = (None, None, None, None, None)"
  by (simp add: leave_def after_def session_view_def drop_session_state_def py_defs on_registry_def release_session_def)

text \<open>What the gate runs once the session is open.\<close>

definition gate_body ::
  "(string \<Rightarrow> string) \<Rightarrow> (string \<Rightarrow> uuid) \<Rightarrow> unit sop \<Rightarrow> SnapshotSession \<Rightarrow> uuid
   \<Rightarrow> (string \<Rightarrow> 'd sop) \<Rightarrow> ('d \<Rightarrow> 'r sop) option \<Rightarrow> (uuid \<times> body) option \<Rightarrow> int \<Rightarrow> 'r gate_outcome sop" where
  "gate_body sha u5 peers snap owner decide effect commit_arg tick =
     andthen (decide (snap_token snap)) (\<lambda>decision.
       case commit_arg of
         Some c \<Rightarrow> effect_gate_atomic sha u5 peers snap owner c tick
       | None \<Rightarrow> (case effect of None \<Rightarrow> throw AssertionError | Some e \<Rightarrow> effect_gate_escaping snap e decision))"

lemma effect_gate_cases:
  assumes "effect_gate sha u5 peers minted read_set owner decide effect commit_arg created tick release s = (res, s')"
  obtains (misuse) "res = Inl ValueError" "s' = s"
  | (raised) e where "begin_session minted read_set owner created s = (Inl e, s')" "res = Inl e"
  | (rejected) rej where "begin_session minted read_set owner created s = (Inr (BeginRejected rej), s')" "res = Inl SessionInvalidated"
  | (opened) snap s1 s2 where "begin_session minted read_set owner created s = (Inr (Opened snap), s1)"
      "gate_body sha u5 peers snap owner decide effect commit_arg tick s1 = (res, s2)" "s' = leave release minted s2"
      "(effect = None) \<noteq> (commit_arg = None)"
proof (cases "(effect = None) = (commit_arg = None)")
  case True
  then show ?thesis using assms misuse by (simp add: effect_gate_def throw_def)
next
  case False
  obtain b s1 where run: "begin_session minted read_set owner created s = (b, s1)" by (cases "begin_session minted read_set owner created s")
  show ?thesis
  proof (cases b)
    case (Inl e)
    then show ?thesis using assms False run raised by (auto simp: effect_gate_def andthen_def)
  next
    case (Inr op)
    show ?thesis
    proof (cases op)
      case (BeginRejected rej)
      then show ?thesis using assms False run Inr rejected by (auto simp: effect_gate_def andthen_def throw_def)
    next
      case (Opened snap)
      then have token: "snap_token snap = minted" using begin_session_opened(1) run Inr by blast
      obtain s2 where "gate_body sha u5 peers snap owner decide effect commit_arg tick s1 = (res, s2)" "s' = leave release minted s2"
        using assms False run Inr Opened token
        by (cases "gate_body sha u5 peers snap owner decide effect commit_arg tick s1")
          (auto simp: effect_gate_def andthen_def [of "begin_session minted read_set owner created"] gate_body_def
            finally_do_def leave_def ret_def drop_session_returns split: if_splits)
      then show ?thesis using opened run Inr Opened False by blast
    qed
  qed
qed

text \<open>
  C33: The gate cleans up. However a one-shot gate ends (fired, held, refused, or with an exception
  from the decision, the effect, the commit or the gate itself), whatever the callbacks and the
  other threads did, nothing is left under its token if nothing was there before.
\<close>

theorem gate_leaves_no_session:
  assumes "session_view minted s = (None, None, None, None, None)"
  shows "session_view minted
      (snd (effect_gate sha u5 peers minted read_set owner decide effect commit_arg created tick True s)) =
    (None, None, None, None, None)"
proof -
  obtain res s' where run: "effect_gate sha u5 peers minted read_set owner decide effect commit_arg created tick True s = (res, s')"
    by (cases "effect_gate sha u5 peers minted read_set owner decide effect commit_arg created tick True s")
  have "dict_get (session_owners s) minted = None" using assms by (simp add: session_view_def)
  then have same: "session_view minted (s\<lparr>session_owners := dict_pop minted (dict_set minted owner (session_owners s))\<rparr>) = session_view minted s"
    by (simp add: session_view_def)
  have "wp (begin_session minted read_set owner created)
    (\<lambda>r s'. \<forall>rej. r = BeginRejected rej \<longrightarrow> session_view minted s' = (None, None, None, None, None)) (\<lambda>_ _. False) s"
    by (rule wp_begin_session) (use assms same in auto)
  note reject = this
  from run show ?thesis
  proof (cases rule: effect_gate_cases)
    case (raised e)
    then show ?thesis using reject by (simp add: wp_def)
  next
    case (rejected rej)
    then show ?thesis using reject run by (simp add: wp_def)
  qed (use run assms in \<open>simp_all add: session_view_leave\<close>)
qed

theorem gate_leaves_no_session_witness:
  "session_view ''g''
      (snd (effect_gate demo_sha demo_u5 (ret ()) ''g'' [1, 2] 10 (\<lambda>_. throw AssertionError) (Some (\<lambda>_. ret ())) None 5 6 True
         (demo_run demo_setup) :: (py_error + unit gate_outcome) \<times> service)) =
    (None, None, None, None, None)"
proof -
  have "session_view ''g'' (demo_run demo_setup) = (None, None, None, None, None)" by code_simp
  from gate_leaves_no_session [OF this] show ?thesis by blast
qed

section \<open>Escaping effects\<close>

text \<open>
  C32: An escaping effect fires if and only if the read-set is unchanged. When the gate answers, the
  session was opened on the versions of that moment and the decision ran; if it answers \<open>fired\<close>,
  every member of the read-set was, right before the effect, at the version it had at the pin,
  and the answer carries the result of the one run of the effect; if it answers \<open>held\<close>, the
  effect did not run, at least one member had moved, and the answer lists exactly the members that
  did, each with its pinned and its current version.
\<close>

theorem escaping_gate_fires_iff_unchanged:
  assumes "effect_gate sha u5 peers minted read_set owner decide (Some effect) None created tick release s = (Inr out, s')"
  shows "\<exists>snap s1 d s2. begin_session minted read_set owner created s = (Inr (Opened snap), s1) \<and>
    decide minted s1 = (Inr d, s2) \<and>
    (if \<forall>a \<in> set read_set. version_of (svc_registry s2) a = version_of (svc_registry s) a
     then \<exists>r s3. effect d s2 = (Inr r, s3) \<and> s' = leave release minted s3 \<and>
       out = EffectFired (snap_cut snap) (snap_epoch snap) None (Some r) \<and>
       dict_get (snap_cut snap) = cut_of (svc_registry s) read_set
     else \<exists>moved. s' = leave release minted s2 \<and> out = EffectHeld moved (snap_epoch snap) None \<and>
       dict_get moved = drift (cut_of (svc_registry s) read_set) (svc_registry s2))"
  using assms
proof (cases rule: effect_gate_cases)
  case (opened snap s1 s2)
  note snap = begin_session_opened [OF opened(1)]
  obtain d t where d: "decide minted s1 = (Inr d, t)" and gate: "effect_gate_escaping snap effect d t = (Inr out, s2)"
    using opened(2) snap(1) by (auto simp: gate_body_def andthen_def split: prod.splits sum.splits)
  have unmoved: "revalidate_cut (snap_cut snap) (svc_registry t) = [] \<longleftrightarrow>
      (\<forall>a \<in> set read_set. version_of (svc_registry t) a = version_of (svc_registry s) a)"
    using revalidate_empty [OF snap(3)] drift_cut_none [OF snap(4)] by (simp add: snap(2))
  have "dict_get (revalidate_cut (snap_cut snap) (svc_registry t)) = drift (cut_of (svc_registry s) read_set) (svc_registry t)"
    by (simp add: fun_eq_iff revalidate_get [OF snap(3)] snap(2))
  with gate unmoved opened(3) snap(2)
  have "if \<forall>a \<in> set read_set. version_of (svc_registry t) a = version_of (svc_registry s) a
     then \<exists>r s3. effect d t = (Inr r, s3) \<and> s' = leave release minted s3 \<and>
       out = EffectFired (snap_cut snap) (snap_epoch snap) None (Some r) \<and>
       dict_get (snap_cut snap) = cut_of (svc_registry s) read_set
     else \<exists>moved. s' = leave release minted t \<and> out = EffectHeld moved (snap_epoch snap) None \<and>
       dict_get moved = drift (cut_of (svc_registry s) read_set) (svc_registry t)"
    by (cases "revalidate_cut (snap_cut snap) (svc_registry t) = []")
      (auto simp: effect_gate_escaping_def py_defs asks_registry_def split: prod.splits sum.splits)
  with opened(1) d show ?thesis by blast
qed simp_all

text \<open>
  The witness: the decision returns while a peer commits a new version of artifact 2, and the effect
  is held; without the peer it fires.
\<close>

definition demo_decide :: "request list \<Rightarrow> string \<Rightarrow> int sop" where
  "demo_decide qs = (\<lambda>_ s. (Inr 7, fold (perform demo_sha demo_u5) qs s))"

definition demo_effect :: "int \<Rightarrow> int sop" where
  "demo_effect d = ret (d + 1)"

definition demo_gate :: "request list \<Rightarrow> (py_error + int gate_outcome) \<times> service" where
  "demo_gate qs = effect_gate demo_sha demo_u5 (ret ()) ''g'' [1, 2] 10 (demo_decide qs) (Some demo_effect) None 5 6 True (demo_run demo_setup)"

theorem escaping_gate_fires_iff_unchanged_witness:
  "(case demo_gate [CommitCas 11 2 1 ''h'' 5 None (Some (Text ''w'')) False] of
      (Inr (EffectHeld moved _ _), _) \<Rightarrow> dict_get moved = [2 \<mapsto> (1, Some 2)]
    | _ \<Rightarrow> False) \<and>
   (case demo_gate [] of (Inr (EffectFired _ _ _ r), _) \<Rightarrow> r = Some 8 | _ \<Rightarrow> False)"
proof -
  let ?q = "[CommitCas 11 2 1 ''h'' 5 None (Some (Text ''w'')) False]"
  have held: "(case fst (demo_gate ?q) of Inr (EffectHeld moved _ _) \<Rightarrow> moved = [(2, 1, Some 2)] | _ \<Rightarrow> False)"
    and fired: "(case fst (demo_gate []) of Inr (EffectFired _ _ _ r) \<Rightarrow> r = Some 8 | _ \<Rightarrow> False)" by code_simp+
  obtain out s' where run: "demo_gate [] = (Inr out, s')" using fired by (cases "demo_gate []") (auto split: sum.splits)
  from escaping_gate_fires_iff_unchanged [OF run [unfolded demo_gate_def]] run held fired
  show ?thesis by (cases "demo_gate ?q") (auto simp: split: sum.splits gate_outcome.splits)
qed

section \<open>Atomic effects\<close>

text \<open>The cut of a session is fixed as long as nobody touches the session.\<close>

definition cut_held :: "string \<Rightarrow> (uuid, int) dict option \<Rightarrow> registry \<Rightarrow> bool" where
  "cut_held tok pins g \<longleftrightarrow> maps_wf g \<and> dict_get (session_pins g) tok = pins"

lemma cut_held_put: "cut_held tok pins g \<Longrightarrow> dict_wf (state_by_agent r) \<Longrightarrow> cut_held tok pins (put_record art r g)"
  by (simp add: cut_held_def maps_wf_def)

lemma cut_held_wf: "cut_held tok pins g \<Longrightarrow> dict_get (records g) art = Some r \<Longrightarrow> dict_wf (state_by_agent r)"
  by (simp add: cut_held_def maps_wf_def)

interpretation held: service_frame "cut_held tok pins" "\<lambda>_ _. True" "\<lambda>t. t \<noteq> tok" "\<lambda>_. True"
  for tok pins
proof (unfold_locales, goal_cases)
  case (3 g art r st ag trig tick)
  then show ?case by (intro cut_held_put) (auto dest: cut_held_wf)
next
  case (7 g art r ag expected chash toks c)
  then show ?case by (intro cut_held_put won_record_wf) (auto dest: cut_held_wf)
next
  case (10 g a c)
  then show ?case by (simp add: reg_register_artifact_def modify_def Let_def cut_held_put new_record_wf)
next
  case (12 g ps ms)
  then show ?case by (auto simp: cut_held_def maps_wf_def)
qed (auto simp: cut_held_def maps_wf_def note_conflict_def elim!: manifest_updateE)

lemma begin_session_step:
  assumes "begin_session minted read_set owner created s = (Inr (Opened snap), s1)"
  shows "coord_step sha u5 any_request s s1" "dict_get (session_pins (svc_registry s1)) minted = Some (snap_cut snap)"
proof -
  have "coord_step sha u5 any_request s (perform sha u5 (BeginSession minted read_set owner created) s)"
    by (rule coord_step.intros) (simp_all add: request_ok_def permitted_def)
  then show "coord_step sha u5 any_request s s1" by (simp add: after_def assms)
  have "wp (begin_session minted read_set owner created) (\<lambda>res s1. \<forall>snap. res = Opened snap \<longrightarrow>
      dict_get (session_pins (svc_registry s1)) minted = Some (snap_cut snap)) (\<lambda>_ _. False) s"
    by (rule wp_begin_session) simp_all
  from wp_result [OF assms this] show "dict_get (session_pins (svc_registry s1)) minted = Some (snap_cut snap)" by simp
qed

text \<open>Between the pin and the commit nobody but the gate itself uses the gate's token.\<close>

abbreviation others_move :: "(string \<Rightarrow> string) \<Rightarrow> (string \<Rightarrow> uuid) \<Rightarrow> string \<Rightarrow> 'a sop \<Rightarrow> bool" where
  "others_move sha u5 tok m \<equiv>
     \<forall>x. (coord_step sha u5 (permitted (\<lambda>_ _. True) (\<lambda>t. t \<noteq> tok) (\<lambda>_. True)))\<^sup>*\<^sup>* x (snd (m x))"

lemma others_move_keep:
  assumes "others_move sha u5 tok m" and s: "reachable coord_init (coord_step sha u5 any_request) s"
    and pins: "dict_get (session_pins (svc_registry s)) tok = pins"
  shows "reachable coord_init (coord_step sha u5 any_request) (snd (m s))" "dict_get (session_pins (svc_registry (snd (m s)))) tok = pins"
proof -
  have steps: "(coord_step sha u5 (permitted (\<lambda>_ _. True) (\<lambda>t. t \<noteq> tok) (\<lambda>_. True)))\<^sup>*\<^sup>* s (snd (m s))"
    using assms(1) by blast
  then show "reachable coord_init (coord_step sha u5 any_request) (snd (m s))" by (rule reachable_permitted [OF s])
  have "on_reg (cut_held tok pins) s" using pins reachable_maps_wf [OF s] by (simp add: on_reg_def cut_held_def)
  from held.steps_keep [OF steps this] show "dict_get (session_pins (svc_registry (snd (m s)))) tok = pins"
    by (simp add: on_reg_def cut_held_def)
qed

text \<open>
  C31: An atomic effect closes the window. Let the decision, and the peers that run between the
  re-validation and the commit, do whatever requests of the coordinator can do short of using the gate's
  own token. If the gate answers \<open>fired\<close>, then the target was in the read-set and, at the commit,
  still at the version it had when the gate started; it is now exactly one version further with the given
  body, and the answer carries that artifact.
\<close>

theorem atomic_gate_commits_at_pin:
  assumes "reachable coord_init (coord_step sha u5 any_request) s"
    and "others_move sha u5 minted (decide minted)" and "others_move sha u5 minted peers"
    and "effect_gate sha u5 peers minted read_set owner decide None (Some (art, content)) created tick release s =
      (Inr (EffectFired revalidated epoch won result), s')"
  shows "\<exists>v upd sigs. art \<in> set read_set \<and> version_of (svc_registry s) art = Some v \<and> dict_get revalidated art = Some v \<and>
    won = Some (upd, sigs) \<and> art_version upd = v + 1 \<and>
    version_of (svc_registry s') art = Some (v + 1) \<and> get_content art (svc_registry s') = Some content"
  using assms(4)
proof (cases rule: effect_gate_cases)
  case (opened snap s1 s2)
  note snap = begin_session_opened [OF opened(1)]
  have s1: "reachable coord_init (coord_step sha u5 any_request) s1"
    "dict_get (session_pins (svc_registry s1)) minted = Some (snap_cut snap)"
    using begin_session_step [OF opened(1)] assms(1) by (auto intro: reach_step)
  have out: "gate_body sha u5 peers snap owner decide None (Some (art, content)) tick s1 =
    (Inr (EffectFired revalidated epoch won result), s2)" by (fact opened(2))
  obtain d t where d: "decide minted s1 = (Inr d, t)"
    and gate: "effect_gate_atomic sha u5 peers snap owner (art, content) tick t = (Inr (EffectFired revalidated epoch won result), s2)"
    using out snap(1) by (auto simp: gate_body_def andthen_def split: prod.splits sum.splits)
  obtain u upd sigs where p: "peers t = (Inr (), u)" and won: "won = Some (upd, sigs)" "revalidated = snap_cut snap"
    and commit: "session_commit sha u5 minted art content owner None tick False u = (Inr (SessionOutcome (Committed upd sigs)), s2)"
    using gate snap(1)
    by (auto simp: effect_gate_atomic_def py_defs asks_registry_def
        split: prod.splits sum.splits if_splits session_outcome.splits cas_outcome.splits)
  note t = others_move_keep [OF assms(2) s1, unfolded d snd_conv]
  note u = others_move_keep [OF assms(3) t, unfolded p snd_conv]
  have "reg_ok False (svc_registry u)" using system.reachable_inv [OF u(1)] by (simp add: on_reg_def)
  from session_commit_win [OF this commit] u(2) obtain v where v: "dict_get (snap_cut snap) art = Some v"
    "version_of (svc_registry s2) art = Some (v + 1)" "art_version upd = v + 1" "get_content art (svc_registry s2) = Some content"
    by (auto simp: get_session_cut_def)
  with snap(2) won opened(3) show ?thesis
    by (auto simp: cut_of_def version_of_def get_content_def split: if_splits)
qed simp_all

text \<open>
  The witness: both artifacts are pinned at version 1; while the decision runs, a peer commits version
  2 of artifact 2, and the gate then commits artifact 1.
\<close>

lemma stateless_steps:
  "list_all (\<lambda>q. stateless q \<and> permitted c t d q demo_start) qs \<Longrightarrow>
   (coord_step demo_sha demo_u5 (permitted c t d))\<^sup>*\<^sup>* s (fold (perform demo_sha demo_u5) qs s)"
proof (induction qs arbitrary: s)
  case (Cons q qs)
  then have q: "stateless q" "permitted c t d q demo_start" by simp_all
  have "coord_step demo_sha demo_u5 (permitted c t d) s (perform demo_sha demo_u5 q s)"
    by (rule coord_step.intros) (use q(1) in \<open>simp_all add: stateless_permitted [OF q] stateless_def plain_def\<close>)
  then show ?case using Cons by (auto intro: converse_rtranclp_into_rtranclp)
qed simp

definition demo_peer :: "request list" where
  "demo_peer = [CommitCas 11 2 1 ''h'' 5 None (Some (Text ''w'')) False]"

definition demo_atomic :: "(py_error + int gate_outcome) \<times> service" where
  "demo_atomic = effect_gate demo_sha demo_u5 (ret ()) ''g'' [1, 2] 10 (demo_decide demo_peer) None (Some (1, Text ''v'')) 5 6 True
     (demo_run demo_setup)"

lemma demo_atomic_fires:
  "\<exists>upd sigs s'. demo_atomic = (Inr (EffectFired [(1, 1), (2, 1)] ''e'' (Some (upd, sigs)) None), s') \<and>
    version_of (svc_registry s') 2 = Some 2"
proof -
  have "case fst demo_atomic of Inr (EffectFired r e (Some _) None) \<Rightarrow> r = [(1, 1), (2, 1)] \<and> e = ''e'' | _ \<Rightarrow> False" by code_simp
  then obtain upd sigs where "fst demo_atomic = Inr (EffectFired [(1, 1), (2, 1)] ''e'' (Some (upd, sigs)) None)"
    by (auto split: sum.splits gate_outcome.splits option.splits)
  moreover have "version_of (svc_registry (snd demo_atomic)) 2 = Some 2" by code_simp
  ultimately show ?thesis by (metis prod.collapse)
qed

theorem atomic_gate_commits_at_pin_witness:
  "version_of (svc_registry (demo_run demo_setup)) 1 = Some 1 \<and> version_of (svc_registry (snd demo_atomic)) 1 = Some 2 \<and>
   get_content 1 (svc_registry (snd demo_atomic)) = Some (Text ''v'')"
proof -
  have v: "version_of (svc_registry (demo_run demo_setup)) 1 = Some 1" by code_simp
  obtain upd sigs s' where run: "demo_atomic = (Inr (EffectFired [(1, 1), (2, 1)] ''e'' (Some (upd, sigs)) None), s')"
    using demo_atomic_fires by blast
  have qs: "list_all (\<lambda>q. stateless q \<and> permitted (\<lambda>_ _. True) (\<lambda>t. t \<noteq> ''g'') (\<lambda>_. True) q demo_start) demo_peer"
    by (simp add: demo_peer_def stateless_def plain_def request_ok_def permitted_def)
  have "others_move demo_sha demo_u5 ''g'' (demo_decide demo_peer ''g'')"
    by (simp add: demo_decide_def stateless_steps [OF qs])
  moreover have "others_move demo_sha demo_u5 ''g'' (ret ())" by (simp add: ret_def)
  ultimately have "version_of (svc_registry s') 1 = Some 2 \<and> get_content 1 (svc_registry s') = Some (Text ''v'')"
    using atomic_gate_commits_at_pin [OF demo_setup_reachable [of coord_init, OF demo_init] _ _ run [unfolded demo_atomic_def]] v
    by auto
  moreover have "snd demo_atomic = s'" using run by (metis snd_conv)
  ultimately show ?thesis using v by (metis (no_types))
qed

text \<open>
  The atomic mode validates the target only. Although the gate's contract says that any moved member
  holds the effect, the run above fires with member 2 of the read-set moved from version 1 to 2, and
  its answer lists the pinned version 1 of that member as re-validated.
\<close>

theorem atomic_gate_ignores_other_members:
  "version_of (svc_registry (demo_run demo_setup)) 2 = Some 1 \<and>
   (\<exists>upd sigs s'. demo_atomic = (Inr (EffectFired [(1, 1), (2, 1)] ''e'' (Some (upd, sigs)) None), s') \<and>
      version_of (svc_registry s') 2 = Some 2)"
proof
  show "version_of (svc_registry (demo_run demo_setup)) 2 = Some 1" by code_simp
qed (rule demo_atomic_fires)

end
