(* ===== verification/Checkpoint_Safety.thy ===== *)
theory Checkpoint_Safety
  imports Gate_Safety "HOL-Library.Multiset"
begin

text \<open>
  Workspace checkpoints: the soundness of the stored manifests in every reachable state, the round
  trip through the store, and the exactly-once registration of a restore run.
\<close>

section \<open>The manifest store\<close>

definition rows_sound :: "(string, CheckpointMember) dict \<Rightarrow> bool" where
  "rows_sound rows \<longleftrightarrow> rows \<noteq> [] \<and> dict_wf rows \<and> (\<forall>path m. dict_get rows path = Some m \<longrightarrow> member_path m = path)"

definition manifest_ok :: "registry \<Rightarrow> bool" where
  "manifest_ok g \<longleftrightarrow> maps_wf g \<and>
     (\<forall>cid cp. dict_get (checkpoints g) cid = Some cp \<longrightarrow> checkpoint_id cp = cid \<and> checkpoint_sound cp) \<and>
     (\<forall>cid rows. dict_get (checkpoint_members g) cid = Some rows \<longrightarrow> rows_sound rows) \<and>
     (\<forall>cid. dict_get (checkpoint_members g) cid = None \<longleftrightarrow> dict_get (checkpoints g) cid = None)"

lemma dict_set_new: "dict_get d k = None \<Longrightarrow> dict_set k v d = d @ [(k, v)]"
  by (induction d) (auto split: if_splits)

text \<open>The index of a member list, and when there is one.\<close>

lemma member_index_paths:
  "member_index ms acc = Inr rows \<Longrightarrow> dict_wf acc \<Longrightarrow>
   distinct (map member_path ms) \<and> (\<forall>m \<in> set ms. member_path m \<notin> fst ` set acc) \<and> rows = acc @ map (\<lambda>m. (member_path m, m)) ms"
proof (induction ms acc rule: member_index.induct)
  case (2 m ms acc)
  from "2.prems"(1) have new: "dict_get acc (member_path m) = None" by (simp split: if_splits)
  then have set: "dict_set (member_path m) m acc = acc @ [(member_path m, m)]" by (simp add: dict_set_new)
  from "2.IH" "2.prems" new have "distinct (map member_path ms) \<and>
      (\<forall>x \<in> set ms. member_path x \<notin> fst ` set (dict_set (member_path m) m acc)) \<and>
      rows = dict_set (member_path m) m acc @ map (\<lambda>m. (member_path m, m)) ms" by simp
  with new set show ?case by (auto simp: map_of_eq_None_iff)
qed simp

lemma member_index_rows:
  assumes "member_index ms [] = Inr rows"
  shows "rows = map (\<lambda>m. (member_path m, m)) ms" "distinct (map member_path ms)"
  using member_index_paths [OF assms] by simp_all

lemma rows_sound_index: "member_index ms [] = Inr rows \<Longrightarrow> ms \<noteq> [] \<Longrightarrow> rows_sound rows"
  using member_index_rows [of ms rows] by (auto simp: rows_sound_def comp_def dest!: dict_get_in_set)

lemma rows_sound_set:
  "rows_sound rows \<Longrightarrow> dict_get rows path = Some m \<Longrightarrow> member_path m' = member_path m \<Longrightarrow> rows_sound (dict_set path m' rows)"
  by (auto simp: rows_sound_def)

lemma manifest_ok_update:
  assumes ok: "manifest_ok g" and step: "manifest_update g h"
  shows "manifest_ok h"
  using step
proof (cases rule: manifest_update.cases)
  case (new_checkpoint cp members ms)
  then show ?thesis using ok rows_sound_index [of members ms]
    by (auto simp: manifest_ok_def maps_wf_def split: if_splits)
next
  case (new_header cid cp cp')
  then show ?thesis using ok by (auto simp: manifest_ok_def maps_wf_def split: if_splits)
next
  case (new_row cid path m m')
  then obtain rows where "dict_get (checkpoint_members g) cid = Some rows"
    by (auto simp: get_default_def split: option.splits)
  moreover from this ok have "dict_get (checkpoints g) cid \<noteq> None" by (metis manifest_ok_def option.distinct(1))
  ultimately show ?thesis using new_row ok rows_sound_set [of rows path m m']
    by (auto simp: manifest_ok_def maps_wf_def get_default_def split: if_splits)
qed

lemma manifest_ok_put: "manifest_ok g \<Longrightarrow> dict_wf (state_by_agent r) \<Longrightarrow> manifest_ok (put_record art r g)"
  by (simp add: manifest_ok_def maps_wf_def)

lemma manifest_ok_wf: "manifest_ok g \<Longrightarrow> dict_get (records g) art = Some r \<Longrightarrow> dict_wf (state_by_agent r)"
  by (simp add: manifest_ok_def maps_wf_def)

interpretation manifests: service_frame manifest_ok "\<lambda>_ _. True" "\<lambda>_. True" "\<lambda>_. True"
proof (unfold_locales, goal_cases)
  case (3 g art r st ag trig tick)
  then show ?case by (intro manifest_ok_put) (auto dest: manifest_ok_wf)
next
  case (7 g art r ag expected chash toks c)
  then show ?case by (intro manifest_ok_put won_record_wf) (auto dest: manifest_ok_wf)
next
  case (10 g a c)
  then show ?case by (simp add: reg_register_artifact_def modify_def Let_def manifest_ok_put new_record_wf)
next
  case (13 g h)
  then show ?case by (rule manifest_ok_update)
qed (auto simp: manifest_ok_def maps_wf_def note_conflict_def)

lemma coord_init_manifests: "coord_init s \<Longrightarrow> on_reg manifest_ok s"
  by (auto elim!: coord_initE simp: on_reg_def manifest_ok_def maps_wf_def new_CoordinatorService_def new_ArtifactRegistry_def
      split: if_splits)

interpretation manifest_inv: invariant_system coord_init "coord_step sha u5 any_request" "on_reg manifest_ok"
  for sha u5
  by unfold_locales (auto intro: coord_init_manifests manifests.perform_keeps elim!: coord_stepE)

text \<open>
  C36: Stored manifests are sound. In every reachable state every checkpoint is stored under its own
  identifier, has an owner, a name that is not blank, a capture window that is not inverted, a restore
  status of the closed vocabulary and a pin refcount that is not negative, and it comes with a
  member table that is not empty and has each member under its own path.
\<close>

theorem stored_manifests_sound:
  assumes "reachable coord_init (coord_step sha u5 any_request) s"
    and "get_checkpoint cid (svc_registry s) = Some cp"
  shows "checkpoint_id cp = cid \<and> cp_owner cp \<noteq> None \<and> \<not> blank (cp_name cp) \<and> window_min cp \<le> window_max cp \<and>
    restore_status cp \<in> RESTORE_STATUSES \<and> 0 \<le> pin_refcount cp \<and>
    (\<exists>rows. dict_get (checkpoint_members (svc_registry s)) cid = Some rows \<and> rows \<noteq> [] \<and> dict_wf rows \<and>
       (\<forall>path m. dict_get rows path = Some m \<longrightarrow> member_path m = path))"
proof -
  have ok: "manifest_ok (svc_registry s)" using manifest_inv.reachable_inv [OF assms(1)] by (simp add: on_reg_def)
  have cp: "dict_get (checkpoints (svc_registry s)) cid = Some cp" using assms(2) by (simp add: get_checkpoint_def)
  with ok obtain rows where rows: "dict_get (checkpoint_members (svc_registry s)) cid = Some rows"
    unfolding manifest_ok_def by (metis not_None_eq)
  from ok cp have "checkpoint_id cp = cid \<and> checkpoint_sound cp" by (simp add: manifest_ok_def)
  moreover from ok rows have "rows_sound rows" by (auto simp: manifest_ok_def)
  ultimately show ?thesis using rows by (simp add: checkpoint_sound_def rows_sound_def)
qed

text \<open>The checkpoint of the witnesses: two members, then a status change and two pins.\<close>

definition demo_member :: "string \<Rightarrow> CheckpointMember" where
  "demo_member path = \<lparr>member_path = path, member_artifact = None, native_token = None, fingerprint = Some ''f'',
     member_captured_at = 1, member_absent = False, dirty_during_window = False, arbitration_tier = ''t'',
     restore_tier = ''restorable'', pin_state = ''unpinned'', restore_outcome = None, deleted_at_restore = None\<rparr>"

definition demo_checkpoint :: "request list" where
  "demo_checkpoint = [CreateCheckpoint ''c'' ''nightly'' (Some 10) [demo_member ''b'', demo_member ''a''] 1 2 5 False,
     SetRestoreStatus ''c'' ''in_progress'' 6 False, AdjustRefcount ''c'' 2 False, AdjustRefcount ''c'' (- 3) False]"

theorem stored_manifests_sound_witness:
  "case get_checkpoint ''c'' (svc_registry (demo_run (demo_setup @ demo_checkpoint))) of
     None \<Rightarrow> False | Some cp \<Rightarrow> restore_status cp = ''in_progress'' \<and> 0 \<le> pin_refcount cp \<and> pin_refcount cp = 2"
proof -
  let ?g = "svc_registry (demo_run (demo_setup @ demo_checkpoint))"
  have run: "case get_checkpoint ''c'' ?g of None \<Rightarrow> False | Some cp \<Rightarrow> restore_status cp = ''in_progress'' \<and> pin_refcount cp = 2"
    by code_simp
  then obtain cp where cp: "get_checkpoint ''c'' ?g = Some cp" by (auto split: option.splits)
  have "list_all plain demo_checkpoint" by code_simp
  from stored_manifests_sound [OF demo_reachable [of coord_init, OF demo_init this] cp] run cp show ?thesis by simp
qed

section \<open>Creating and reading back\<close>

lemma str_le_total: "str_le a b \<or> str_le b a"
  by (induction a b rule: str_le.induct) (auto simp: not_less_iff_gr_or_eq)

lemma str_le_trans: "str_le a b \<Longrightarrow> str_le b c \<Longrightarrow> str_le a c"
proof (induction a b arbitrary: c rule: str_le.induct)
  case (3 x s y t)
  then show ?case by (cases c) auto
qed simp_all

lemma insert_by_mset: "mset (insert_by le x xs) = add_mset x (mset xs)"
  by (induction xs) auto

lemma sorted_by_mset: "mset (sorted_by le xs) = mset xs"
  unfolding sorted_by_def by (induction xs) (auto simp: insert_by_mset)

lemma insert_by_sorted:
  assumes "\<And>a b. le a b \<or> le b a" and "\<And>a b c. le a b \<Longrightarrow> le b c \<Longrightarrow> le a c"
  shows "sorted_wrt le xs \<Longrightarrow> sorted_wrt le (insert_by le x xs)"
proof (induction xs)
  case (Cons y ys)
  have "set (insert_by le x ys) = insert x (set ys)"
    using insert_by_mset [of le x ys] by (metis set_mset_add_mset_insert set_mset_mset)
  with Cons assms show ?case by auto
qed simp

lemma sorted_by_sorted:
  assumes "\<And>a b. le a b \<or> le b a" and "\<And>a b c. le a b \<Longrightarrow> le b c \<Longrightarrow> le a c"
  shows "sorted_wrt le (sorted_by le xs)"
  unfolding sorted_by_def by (induction xs) (simp_all add: insert_by_sorted [of le, OF assms])

text \<open>
  C35: A checkpoint is stored whole or not at all, and reads back as captured. If creating a checkpoint
  raises (bad arguments, a repeated member path, a repeated identifier, a watchdog abort), the
  registry is unchanged. If it returns, the header reads back as returned, with the given name, owner
  and window, no restore yet and no pins; the member rows read back as a permutation of the given
  ones, in the order of their paths; and every other checkpoint and every artifact is untouched.
\<close>

theorem checkpoint_round_trip:
  assumes "create_workspace_checkpoint minted name owner members wmin wmax tick abort g = (out, g')"
  shows "case out of Inl e \<Rightarrow> g' = g
    | Inr cp \<Rightarrow> get_checkpoint minted g = None \<and> get_checkpoint minted g' = Some cp \<and> cp_name cp = name \<and> cp_owner cp = owner \<and>
        window_min cp = wmin \<and> window_max cp = wmax \<and> restore_status cp = ''none'' \<and> pin_refcount cp = 0 \<and>
        mset (get_checkpoint_members minted g') = mset members \<and>
        sorted_wrt (\<lambda>a b. str_le (member_path a) (member_path b)) (get_checkpoint_members minted g') \<and>
        (\<forall>cid. cid \<noteq> minted \<longrightarrow> get_checkpoint cid g' = get_checkpoint cid g \<and>
           get_checkpoint_members cid g' = get_checkpoint_members cid g) \<and> records g' = records g"
proof (cases out)
  case (Inl e)
  then show ?thesis using assms
    by (auto simp: create_workspace_checkpoint_def create_checkpoint_def abort_guard_def py_defs Let_def
        split: if_splits prod.splits sum.splits)
next
  case (Inr cp)
  let ?le = "\<lambda>a b. str_le (fst a) (fst (b :: string \<times> CheckpointMember))"
  from assms Inr obtain rows where rows: "member_index members [] = Inr rows" "dict_get (checkpoints g) minted = None"
    and g': "g' = g\<lparr>checkpoints := dict_set minted cp (checkpoints g), checkpoint_members := dict_set minted rows (checkpoint_members g)\<rparr>"
    and cp: "cp_name cp = name" "cp_owner cp = owner" "window_min cp = wmin" "window_max cp = wmax"
      "restore_status cp = ''none''" "pin_refcount cp = 0"
    by (auto simp: create_workspace_checkpoint_def create_checkpoint_def abort_guard_def py_defs Let_def
        split: if_splits prod.splits sum.splits)
  note index = member_index_rows [OF rows(1)]
  have read: "get_checkpoint_members minted g' = map snd (sorted_by ?le rows)"
    by (simp add: g' get_checkpoint_members_def get_default_def)
  have "mset (map snd (sorted_by ?le rows)) = image_mset snd (mset rows)" by (simp add: sorted_by_mset)
  then have perm: "mset (get_checkpoint_members minted g') = mset members" by (simp add: read index(1) multiset.map_comp comp_def)
  have "set (sorted_by ?le rows) = set rows" using sorted_by_mset [of ?le rows] by (metis set_mset_mset)
  then have keyed: "\<forall>x \<in> set (sorted_by ?le rows). fst x = member_path (snd x)" by (auto simp: index(1))
  have "sorted_wrt ?le (sorted_by ?le rows)" by (rule sorted_by_sorted) (rule str_le_total, erule (1) str_le_trans)
  then have "sorted_wrt (\<lambda>a b. str_le (member_path (snd a)) (member_path (snd b))) (sorted_by ?le rows)"
  proof (rule sorted_wrt_mono_rel [rotated])
    fix x y
    assume "x \<in> set (sorted_by ?le rows)" "y \<in> set (sorted_by ?le rows)" "str_le (fst x) (fst y)"
    then show "str_le (member_path (snd x)) (member_path (snd y))" using keyed by metis
  qed
  then have "sorted_wrt (\<lambda>a b. str_le (member_path a) (member_path b)) (get_checkpoint_members minted g')"
    by (simp add: read sorted_wrt_map)
  with perm rows(2) cp show ?thesis
    by (simp add: Inr) (simp add: g' get_checkpoint_def get_checkpoint_members_def get_default_def)
qed

theorem checkpoint_round_trip_witness:
  "map member_path (get_checkpoint_members ''c''
     (snd (create_workspace_checkpoint ''c'' ''nightly'' (Some 10) [demo_member ''b'', demo_member ''a''] 1 2 5 False demo_registry))) =
     [''a'', ''b''] \<and>
   mset (get_checkpoint_members ''c''
     (snd (create_workspace_checkpoint ''c'' ''nightly'' (Some 10) [demo_member ''b'', demo_member ''a''] 1 2 5 False demo_registry))) =
     mset [demo_member ''b'', demo_member ''a'']"
proof
  let ?run = "create_workspace_checkpoint ''c'' ''nightly'' (Some 10) [demo_member ''b'', demo_member ''a''] 1 2 5 False demo_registry"
  show "map member_path (get_checkpoint_members ''c'' (snd ?run)) = [''a'', ''b'']" by code_simp
  have "case fst ?run of Inl _ \<Rightarrow> False | Inr _ \<Rightarrow> True" by code_simp
  then obtain cp g' where run: "?run = (Inr cp, g')" by (cases ?run) (auto split: sum.splits)
  from checkpoint_round_trip [OF run] run
  show "mset (get_checkpoint_members ''c'' (snd ?run)) = mset [demo_member ''b'', demo_member ''a'']" by simp
qed

section \<open>Artifacts by name\<close>

definition named :: "string \<Rightarrow> registry \<Rightarrow> (uuid \<times> Artifact) option" where
  "named path g = find_by_name path (artifact_ids g) g"

lemma find_by_name_Some:
  "find_by_name path arts g = Some (art, a) \<Longrightarrow> get_artifact art g = Some a \<and> art_name a = path"
  by (induction path arts g rule: find_by_name.induct) (auto split: option.splits if_splits)

lemma named_Some: "named path g = Some (art, a) \<Longrightarrow> get_artifact art g = Some a \<and> art_name a = path"
  unfolding named_def by (rule find_by_name_Some)

lemma named_inj: "named p g = Some (art, a) \<Longrightarrow> named q g = Some (art, b) \<Longrightarrow> p = q"
  using named_Some [of p g art a] named_Some [of q g art b] by simp

lemma find_by_name_append:
  "find_by_name path (xs @ ys) g = (case find_by_name path xs g of None \<Rightarrow> find_by_name path ys g | Some x \<Rightarrow> Some x)"
  by (induction xs) (auto split: option.splits)

lemma find_by_name_put: "art \<notin> set xs \<Longrightarrow> find_by_name path xs (put_record art r g) = find_by_name path xs g"
  by (induction xs) (simp_all add: get_artifact_def put_record_def split: option.split)

lemma named_put:
  assumes "dict_get (records g) art = None"
  shows "named path (put_record art r g) =
    (case named path g of Some x \<Rightarrow> Some x
     | None \<Rightarrow> if art_name (artifact r) = path then Some (art, artifact r) else None)"
proof -
  have "artifact_ids (put_record art r g) = artifact_ids g @ [art]"
    using dict_set_new [OF assms, of r] by (simp add: artifact_ids_def put_record_def)
  moreover have "art \<notin> set (artifact_ids g)" using assms by (simp add: artifact_ids_def map_of_eq_None_iff)
  ultimately show ?thesis
    by (simp add: named_def find_by_name_append find_by_name_put)
      (simp add: get_artifact_def put_record_def split: option.split)
qed

lemma named_update:
  assumes "dict_keys (records h) = dict_keys (records g)"
    and names: "\<And>art. map_option art_name (get_artifact art h) = map_option art_name (get_artifact art g)"
    and "named path g = Some (art, a)"
  shows "named path h = Some (art, the (get_artifact art h))"
proof -
  have "find_by_name path xs g = Some (art, a) \<Longrightarrow> find_by_name path xs h = Some (art, the (get_artifact art h))" for xs
  proof (induction xs)
    case (Cons x xs)
    then show ?case using names [of x] by (auto split: option.splits if_splits)
  qed simp
  with assms(1,3) show ?thesis by (simp add: named_def artifact_ids_def)
qed

lemma registered_named:
  "workspace_member_registered path fp g \<longleftrightarrow> (\<exists>art a. named path g = Some (art, a) \<and> art_hash a = Some fp)"
  by (auto simp: workspace_member_registered_def named_def split: option.split)

section \<open>Registering a restore run\<close>

definition plan_entry :: "WorkspaceRestoreWrite \<Rightarrow> Artifact \<Rightarrow> CommitAllEntry" where
  "plan_entry w a = \<lparr>entry_expected = art_version a, entry_hash = write_fingerprint w, entry_tokens = None, entry_content = None\<rparr>"

lemma plan_write_found:
  assumes "named (write_path w) g = Some (art, a)"
  shows "plan_write mint plan w g =
    (Inr (if art_hash a = Some (write_fingerprint w) then plan\<lparr>rp_skipped := rp_skipped plan @ [write_path w]\<rparr>
      else plan\<lparr>rp_path := dict_set art (write_path w) (rp_path plan), rp_pre := dict_set art (art_version a) (rp_pre plan),
             rp_batch := dict_set art (plan_entry w a) (rp_batch plan)\<rparr>), g)"
  using assms named_Some [OF assms]
  by (simp add: plan_write_def resolve_workspace_member_artifact_def named_def py_defs plan_entry_def)

lemma plan_write_minted:
  assumes "named (write_path w) g = None"
  shows "\<exists>r. artifact r = \<lparr>art_id = mint (write_path w), art_name = write_path w, art_version = 1,
      art_hash = Some (write_fingerprint w), art_tokens = None, art_depends_on = []\<rparr> \<and>
    plan_write mint plan w g = (Inr (plan\<lparr>rp_skipped := rp_skipped plan @ [write_path w]\<rparr>), put_record (mint (write_path w)) r g)"
proof (intro exI conjI)
  let ?a = "\<lparr>art_id = mint (write_path w), art_name = write_path w, art_version = 1,
      art_hash = Some (write_fingerprint w), art_tokens = None, art_depends_on = []\<rparr>"
  let ?r = "if retain_versions g then capture_version g (art_version ?a) (Text '''') (new_ArtifactRecord ?a (Text ''''))
    else new_ArtifactRecord ?a (Text '''')"
  show art: "artifact ?r = ?a" by (simp add: new_ArtifactRecord_def)
  show "plan_write mint plan w g = (Inr (plan\<lparr>rp_skipped := rp_skipped plan @ [write_path w]\<rparr>), put_record (mint (write_path w)) ?r g)"
    using assms art
    by (simp add: plan_write_def resolve_workspace_member_artifact_def named_def py_defs reg_register_artifact_def Let_def
        get_artifact_def put_record_def)
qed

text \<open>A write that the plan accounts for: its artifact has the fingerprint, or a batch entry that sets it.\<close>

definition planned :: "registration_plan \<Rightarrow> registry \<Rightarrow> WorkspaceRestoreWrite \<Rightarrow> bool" where
  "planned plan g w \<longleftrightarrow> (\<exists>art a. named (write_path w) g = Some (art, a) \<and>
     dict_get (rp_batch plan) art = (if art_hash a = Some (write_fingerprint w) then None else Some (plan_entry w a)))"

text \<open>The planning loop, with \<open>ps\<close> done and \<open>ws\<close> to go.\<close>

definition planning ::
  "(string \<Rightarrow> uuid) \<Rightarrow> WorkspaceRestoreWrite list \<Rightarrow> WorkspaceRestoreWrite list \<Rightarrow> registration_plan \<Rightarrow> registry \<Rightarrow> bool" where
  "planning mint ps ws plan g \<longleftrightarrow> reg_ok False g \<and> dict_wf (rp_batch plan) \<and> (\<forall>w \<in> set ps. planned plan g w) \<and>
     (\<forall>art. dict_get (rp_batch plan) art \<noteq> None \<longrightarrow> (\<exists>w \<in> set ps. \<exists>a. named (write_path w) g = Some (art, a))) \<and>
     distinct (map (\<lambda>w. mint (write_path w)) ws) \<and> (\<forall>w \<in> set ws. dict_get (records g) (mint (write_path w)) = None)"

lemma planning_key:
  assumes "planning mint ps ws plan g" and "dict_get (rp_batch plan) art \<noteq> None"
  obtains w a where "w \<in> set ps" "named (write_path w) g = Some (art, a)"
proof -
  have "\<forall>art. dict_get (rp_batch plan) art \<noteq> None \<longrightarrow> (\<exists>w \<in> set ps. \<exists>a. named (write_path w) g = Some (art, a))"
    using assms(1) unfolding planning_def by (elim conjE)
  then show ?thesis using assms(2) that by metis
qed

lemma planning_found:
  assumes I: "planning mint ps (w # ws) plan g" and new: "\<forall>v \<in> set ps. write_path v \<noteq> write_path w"
    and found: "named (write_path w) g = Some (art, a)"
  shows "\<exists>plan'. plan_write mint plan w g = (Inr plan', g) \<and> planning mint (ps @ [w]) ws plan' g"
proof -
  have other: "named (write_path v) g \<noteq> Some (art, b)" if "v \<in> set ps" for v b
    using named_inj [OF found, of "write_path v" b] new that by auto
  then have free: "dict_get (rp_batch plan) art = None" using planning_key [OF I] by metis
  have "planned plan' g v" if "v \<in> set ps" "planned plan g v" and "\<And>x. x \<noteq> art \<Longrightarrow> dict_get (rp_batch plan') x = dict_get (rp_batch plan) x"
    for v and plan' :: registration_plan
    using that other [OF that(1)] unfolding planned_def by metis
  note keep = this
  show ?thesis
  proof (cases "art_hash a = Some (write_fingerprint w)")
    case True
    let ?plan = "plan\<lparr>rp_skipped := rp_skipped plan @ [write_path w]\<rparr>"
    have "planned ?plan g w" using found True free by (simp add: planned_def)
    then have "planning mint (ps @ [w]) ws ?plan g" using I keep [of _ ?plan] unfolding planning_def by auto
    with True show ?thesis by (simp add: plan_write_found [OF found])
  next
    case False
    let ?plan = "plan\<lparr>rp_path := dict_set art (write_path w) (rp_path plan), rp_pre := dict_set art (art_version a) (rp_pre plan),
             rp_batch := dict_set art (plan_entry w a) (rp_batch plan)\<rparr>"
    have "planned ?plan g w" using found False by (simp add: planned_def)
    then have "planning mint (ps @ [w]) ws ?plan g" using I keep [of _ ?plan] found unfolding planning_def by auto
    with False show ?thesis by (simp add: plan_write_found [OF found])
  qed
qed

lemma planning_minted:
  assumes I: "planning mint ps (w # ws) plan g" and none: "named (write_path w) g = None"
  shows "\<exists>plan' g'. plan_write mint plan w g = (Inr plan', g') \<and> planning mint (ps @ [w]) ws plan' g'"
proof -
  let ?plan = "plan\<lparr>rp_skipped := rp_skipped plan @ [write_path w]\<rparr>" and ?id = "mint (write_path w)"
  have fresh: "dict_get (records g) ?id = None" using I by (simp add: planning_def)
  obtain r where a: "artifact r = \<lparr>art_id = ?id, art_name = write_path w, art_version = 1,
      art_hash = Some (write_fingerprint w), art_tokens = None, art_depends_on = []\<rparr>"
    and run: "plan_write mint plan w g = (Inr ?plan, put_record ?id r g)"
    using plan_write_minted [OF none, of mint plan] by blast
  have r: "art_name (artifact r) = write_path w" "art_hash (artifact r) = Some (write_fingerprint w)" by (simp_all add: a)
  let ?g = "put_record ?id r g"
  have keep: "named path ?g = Some x" if "named path g = Some x" for path x
    using that by (simp add: named_put [OF fresh])
  have free: "dict_get (rp_batch plan) ?id = None"
  proof (rule ccontr)
    assume "dict_get (rp_batch plan) ?id \<noteq> None"
    then obtain v :: WorkspaceRestoreWrite and b where "named (write_path v) g = Some (?id, b)" using planning_key [OF I] by metis
    then show False using named_Some [of "write_path v" g ?id b] fresh by (simp add: get_artifact_def)
  qed
  have "reg_ok False g" using I by (simp add: planning_def)
  from coh.keeps_plan_write [where mint = mint and w = w, OF this fresh, of plan] have ok: "reg_ok False ?g" by (simp add: wp_state run)
  have "planned ?plan ?g w" using none r free by (simp add: planned_def named_put [OF fresh])
  moreover have "planned ?plan ?g v" if "planned plan g v" for v
  proof -
    from that obtain art a where "named (write_path v) g = Some (art, a)"
      "dict_get (rp_batch plan) art = (if art_hash a = Some (write_fingerprint v) then None else Some (plan_entry v a))"
      unfolding planned_def by blast
    then show ?thesis unfolding planned_def by (intro exI [of _ art] exI [of _ a]) (simp add: keep)
  qed
  moreover have "mint (write_path v) \<noteq> ?id" if "v \<in> set ws" for v using I that by (auto simp: planning_def image_iff)
  moreover have "\<exists>v \<in> set (ps @ [w]). \<exists>a. named (write_path v) ?g = Some (art, a)" if "dict_get (rp_batch plan) art \<noteq> None" for art
    using planning_key [OF I that] keep by (metis Un_iff set_append)
  ultimately have "planning mint (ps @ [w]) ws ?plan ?g"
    using I ok unfolding planning_def by (simp add: put_record_def)
  with run show ?thesis by blast
qed

lemma planning_loop:
  assumes "planning mint ps ws plan g" and "distinct (map write_path (ps @ ws))"
  shows "\<exists>plan' g'. for_loop ws (plan_write mint) plan g = (Inr plan', g') \<and> planning mint (ps @ ws) [] plan' g'"
  using assms
proof (induction ws arbitrary: ps plan g)
  case (Cons w ws)
  have new: "\<forall>v \<in> set ps. write_path v \<noteq> write_path w" using Cons.prems(2) by (force simp: image_iff)
  have "\<exists>plan1 g1. plan_write mint plan w g = (Inr plan1, g1) \<and> planning mint (ps @ [w]) ws plan1 g1"
  proof (cases "named (write_path w) g")
    case None
    then show ?thesis by (rule planning_minted [OF Cons.prems(1)])
  next
    case (Some x)
    then have "named (write_path w) g = Some (fst x, snd x)" by simp
    from planning_found [OF Cons.prems(1) new this] show ?thesis by blast
  qed
  then obtain plan1 g1 where "plan_write mint plan w g = (Inr plan1, g1)" "planning mint (ps @ [w]) ws plan1 g1" by blast
  with Cons.IH [of "ps @ [w]" plan1 g1] Cons.prems(2) show ?case by (simp add: andthen_def)
qed (simp add: ret_def)

lemma planned_won:
  assumes "planned plan g w" and won: "all_won g ag (rp_batch plan) h"
  shows "workspace_member_registered (write_path w) (write_fingerprint w) h"
proof -
  from assms(1) obtain art a where a: "named (write_path w) g = Some (art, a)"
    "dict_get (rp_batch plan) art = (if art_hash a = Some (write_fingerprint w) then None else Some (plan_entry w a))"
    unfolding planned_def by blast
  have keys: "dict_keys (records h) = dict_keys (records g)" using won by (auto simp: all_won_def)
  have names: "map_option art_name (get_artifact x h) = map_option art_name (get_artifact x g)" for x
    using all_won_lookup [OF won, of x]
    by (cases "dict_get (records g) x")
      (auto simp: get_artifact_def member_record_def won_record_def apply_win_def Let_def bumped_artifact_def split: option.splits)
  obtain r where r: "dict_get (records g) art = Some r" "artifact r = a"
    using named_Some [OF a(1)] by (auto simp: get_artifact_def)
  have "art_hash (the (get_artifact art h)) = Some (write_fingerprint w)"
    using all_won_lookup [OF won, of art] a(2) r
    by (auto simp: get_artifact_def member_record_def won_record_def apply_win_def Let_def bumped_artifact_def plan_entry_def
        split: if_splits option.splits)
  with named_update [OF keys names a(1)] show ?thesis by (auto simp: registered_named)
qed

lemma registration_effect:
  assumes ok: "reg_ok False g" and new: "distinct (map (\<lambda>w. mint (write_path w)) writes)"
    "\<forall>w \<in> set writes. dict_get (records g) (mint (write_path w)) = None"
  shows "wp (register_workspace_restore mint cid controller writes tick abort)
    (\<lambda>res h. wr_status res \<noteq> REGISTRATION_REFUSED \<longrightarrow>
       (\<forall>w \<in> set writes. workspace_member_registered (write_path w) (write_fingerprint w) h)) (\<lambda>_ _. True) g"
    (is "wp _ ?Q _ g")
proof (cases "check_restore_writes writes [] = Inr ()")
  case True
  let ?plan = "\<lparr>rp_skipped = [], rp_batch = [], rp_path = [], rp_pre = []\<rparr> :: registration_plan"
  have start: "planning mint [] writes ?plan g" using ok new by (simp add: planning_def)
  obtain plan h where run: "for_loop writes (plan_write mint) ?plan g = (Inr plan, h)" and I: "planning mint writes [] plan h"
    using planning_loop [OF start] check_restore_writes_distinct [OF True] by auto
  have ok': "reg_ok False h" and wf: "dict_wf (rp_batch plan)" and all: "\<forall>w \<in> set writes. planned plan h w"
    using I by (simp_all add: planning_def)
  have empty: "\<forall>w \<in> set writes. workspace_member_registered (write_path w) (write_fingerprint w) h" if "rp_batch plan = []"
    using all that by (auto simp: planned_def registered_named split: if_splits)
  have same: "wp (for_loop vs (register_versions plan) acc) (\<lambda>_ t. t = t0) (\<lambda>_ _. True) t0" for vs acc t0
    by (rule wp_for_loop [where I = "\<lambda>_ _ t. t = t0"])
      (auto simp: register_versions_def wp_simps split: option.splits sum.splits)
  have commit: "wp (commit_all controller (rp_batch plan) tick abort) (\<lambda>out. wp (case out of
         MultiHeld conflicts \<Rightarrow> andthen (for_loop conflicts (refused_path plan) []) (\<lambda>refused.
           ret \<lparr>wr_checkpoint = cid, wr_status = REGISTRATION_REFUSED, wr_versions = [], wr_skipped = rp_skipped plan,
              wr_signals = [], wr_refused = refused\<rparr>)
       | MultiCommitted res signals \<Rightarrow>
           andthen (for_loop (mcr_versions res) (register_versions plan) []) (\<lambda>versions.
           ret \<lparr>wr_checkpoint = cid, wr_status = REGISTRATION_COMMITTED, wr_versions = versions, wr_skipped = rp_skipped plan,
              wr_signals = signals, wr_refused = []\<rparr>)) ?Q (\<lambda>_ _. True)) (\<lambda>_ _. True) h"
  proof (rule wp_commit_all [OF ok' wf], goal_cases)
    case (1 x g')
    have "wp (for_loop cs (refused_path plan) []) (\<lambda>refused. wp (ret \<lparr>wr_checkpoint = cid, wr_status = REGISTRATION_REFUSED,
        wr_versions = [], wr_skipped = rp_skipped plan, wr_signals = [], wr_refused = refused\<rparr>) ?Q (\<lambda>_ _. True)) (\<lambda>_ _. True) g'" for cs
      by (rule wp_for_loop [where I = "\<lambda>_ _ _. True"]) (auto simp: wp_def ret_def split: prod.splits sum.splits)
    with 1 show ?case by (cases x) (auto simp: wp_simps split: multi_outcome.split)
  next
    case (2 sigs g')
    have "\<forall>w \<in> set writes. workspace_member_registered (write_path w) (write_fingerprint w) g'"
      using all planned_won [OF _ 2(2)] by blast
    then show ?case by (auto simp: wp_simps intro!: wp_mono [OF same])
  qed
  then show ?thesis using True run empty
    by (auto simp: register_workspace_restore_def wp_simps Let_def wp_def [of "for_loop writes (plan_write mint) ?plan"])
next
  case False
  then show ?thesis by (cases "check_restore_writes writes []") (auto simp: register_workspace_restore_def wp_simps Let_def)
qed

text \<open>A stored checkpoint stays.\<close>

definition cp_known :: "string \<Rightarrow> registry \<Rightarrow> bool" where
  "cp_known cid g \<longleftrightarrow> maps_wf g \<and> dict_get (checkpoints g) cid \<noteq> None"

lemma cp_known_put: "cp_known cid g \<Longrightarrow> dict_wf (state_by_agent r) \<Longrightarrow> cp_known cid (put_record art r g)"
  by (simp add: cp_known_def maps_wf_def)

lemma cp_known_wf: "cp_known cid g \<Longrightarrow> dict_get (records g) art = Some r \<Longrightarrow> dict_wf (state_by_agent r)"
  by (simp add: cp_known_def maps_wf_def)

interpretation known: service_frame "cp_known cid" "\<lambda>_ _. True" "\<lambda>_. True" "\<lambda>_. True"
  for cid
proof (unfold_locales, goal_cases)
  case (3 g art r st ag trig tick)
  then show ?case by (intro cp_known_put) (auto dest: cp_known_wf)
next
  case (7 g art r ag expected chash toks c)
  then show ?case by (intro cp_known_put won_record_wf) (auto dest: cp_known_wf)
next
  case (10 g a c)
  then show ?case by (simp add: reg_register_artifact_def modify_def Let_def cp_known_put new_record_wf)
next
  case (13 g h)
  from 13(2) show ?case using 13(1) by (cases rule: manifest_update.cases) (auto simp: cp_known_def maps_wf_def)
qed (auto simp: cp_known_def maps_wf_def note_conflict_def)

lemma plan_registered:
  "\<forall>w \<in> set writes. workspace_member_registered (write_path w) (write_fingerprint w) g \<Longrightarrow>
   for_loop writes (plan_write mint) plan g = (Inr (plan\<lparr>rp_skipped := rp_skipped plan @ map write_path writes\<rparr>), g)"
proof (induction writes arbitrary: plan)
  case (Cons w ws)
  then obtain art a where "named (write_path w) g = Some (art, a)" "art_hash a = Some (write_fingerprint w)"
    by (auto simp: registered_named)
  with Cons show ?case by (simp add: andthen_def plan_write_found)
qed (simp add: ret_def)

text \<open>
  C34: A restore run is registered exactly once. Take any reachable state and a registration that
  returns and is not refused (committed, or nothing to commit), with new identifiers for the paths
  it mints. Then every written member is registered at its fingerprint, and running the same
  registration again, by any controller at any time, finds nothing to do: it answers \<open>empty\<close> with
  every path skipped and changes nothing, so no version is bumped twice.
\<close>

theorem restore_registered_exactly_once:
  assumes "reachable coord_init (coord_step sha u5 any_request) s"
    and "distinct (map (\<lambda>w. mint (write_path w)) writes)"
    and "\<forall>w \<in> set writes. dict_get (records (svc_registry s)) (mint (write_path w)) = None"
    and "register_workspace_restore mint cid controller writes tick abort (svc_registry s) = (Inr res, g')"
    and "wr_status res \<noteq> REGISTRATION_REFUSED"
  shows "(\<forall>w \<in> set writes. workspace_member_registered (write_path w) (write_fingerprint w) g') \<and>
    register_workspace_restore mint2 cid controller2 writes tick2 abort2 g' =
      (Inr \<lparr>wr_checkpoint = cid, wr_status = REGISTRATION_EMPTY, wr_versions = [], wr_skipped = map write_path writes,
         wr_signals = [], wr_refused = []\<rparr>, g')"
proof -
  have ok: "reg_ok False (svc_registry s)" using system.reachable_inv [OF assms(1)] by (simp add: on_reg_def)
  have all: "\<forall>w \<in> set writes. workspace_member_registered (write_path w) (write_fingerprint w) g'"
    using wp_result [OF assms(4) registration_effect [OF ok assms(2,3)]] assms(5) by simp
  have start: "get_checkpoint cid (svc_registry s) \<noteq> None" "check_restore_writes writes [] = Inr ()"
    using assms(4) by (auto simp: register_workspace_restore_def py_defs split: if_splits sum.splits)
  have "cp_known cid (svc_registry s)"
    using start(1) reachable_maps_wf [OF assms(1)] by (simp add: cp_known_def get_checkpoint_def)
  from wp_result [OF assms(4) known.keeps_register_restore [OF this assms(2,3)]]
  have found: "get_checkpoint cid g' \<noteq> None" by (simp add: cp_known_def get_checkpoint_def)
  note check = start(2)
  show ?thesis
    using all check found
    by (auto simp: register_workspace_restore_def andthen_def asks_def throw_def lift_sum_def ret_def Let_def plan_registered)
qed

text \<open>The run of the witness: one member is known at another fingerprint, the other is new.\<close>

definition demo_writes :: "WorkspaceRestoreWrite list" where
  "demo_writes = [\<lparr>write_path = ''a'', write_fingerprint = ''f''\<rparr>, \<lparr>write_path = ''z'', write_fingerprint = ''h''\<rparr>]"

definition demo_mint :: "string \<Rightarrow> uuid" where
  "demo_mint path = (if path = ''a'' then 50 else 51)"

theorem restore_registered_exactly_once_witness:
  "\<exists>res g'. register_workspace_restore demo_mint ''c'' 20 demo_writes 7 False
      (svc_registry (demo_run (demo_setup @ demo_checkpoint))) = (Inr res, g') \<and>
    wr_status res = REGISTRATION_COMMITTED \<and> wr_versions res = [(''a'', 2)] \<and> version_of g' 1 = Some 2 \<and>
    register_workspace_restore demo_mint ''c'' 21 demo_writes 8 False g' =
      (Inr \<lparr>wr_checkpoint = ''c'', wr_status = REGISTRATION_EMPTY, wr_versions = [], wr_skipped = [''a'', ''z''],
         wr_signals = [], wr_refused = []\<rparr>, g')"
proof -
  let ?g = "svc_registry (demo_run (demo_setup @ demo_checkpoint))"
  let ?run = "register_workspace_restore demo_mint ''c'' 20 demo_writes 7 False ?g"
  have out: "case fst ?run of Inl _ \<Rightarrow> False | Inr res \<Rightarrow> wr_status res = REGISTRATION_COMMITTED \<and> wr_versions res = [(''a'', 2)]"
    and v: "version_of (snd ?run) 1 = Some 2"
    and new: "distinct (map (\<lambda>w. demo_mint (write_path w)) demo_writes)"
      "\<forall>w \<in> set demo_writes. dict_get (records ?g) (demo_mint (write_path w)) = None" by code_simp+
  obtain res g' where run: "?run = (Inr res, g')" using out by (cases ?run) (auto split: sum.splits)
  have "list_all plain demo_checkpoint" by code_simp
  from restore_registered_exactly_once [OF demo_reachable [of coord_init, OF demo_init this] new run, of demo_mint 21 8 False] out run v
  show ?thesis by (simp add: demo_writes_def)
qed

end
