(* ===== verification/Strategies.thy ===== *)
theory Strategies
  imports Checkpoints
begin

text \<open>
  The synchronisation strategies, \<^verbatim>\<open>src/ccs/strategies\<close>: when a cached copy has to be
  refreshed and what entry a fetch or a read leaves. A strategy object is a value of
  \<open>SyncStrategy\<close>, its methods dispatch on it. The locale \<open>sync_strategy\<close> is the contract of the
  abstract base class that the agent runtime relies on; every strategy but the blind one meets it.
\<close>

section \<open>Cache entries\<close>

record ArtifactCacheEntry =
  ce_artifact :: uuid
  ce_state :: MESIState
  local_version :: int
  access_count :: int
  acquired_at_tick :: int
  expires_at_tick :: "int option"
  ce_transient :: "TransientState option"
  ce_transient_tick :: "int option"

section \<open>The base class\<close>

definition new_entry :: "uuid \<Rightarrow> int \<Rightarrow> MESIState \<Rightarrow> int \<Rightarrow> ArtifactCacheEntry" where
  "new_entry art v st now =
     \<lparr>ce_artifact = art, ce_state = st, local_version = v, access_count = 0, acquired_at_tick = now,
      expires_at_tick = None, ce_transient = None, ce_transient_tick = None\<rparr>"

definition touch_entry :: "ArtifactCacheEntry \<Rightarrow> ArtifactCacheEntry" where
  "touch_entry e = e\<lparr>access_count := access_count e + 1\<rparr>"

datatype SyncStrategy =
    LazyStrategy | EagerStrategy | BroadcastStrategy | BlindCacheStrategy
  | LeaseStrategy (ttl_ticks: int) | AccessCountStrategy (max_accesses: int)

definition max_cas_retries :: "SyncStrategy \<Rightarrow> int" where
  "max_cas_retries s = 3"

definition cas_backoff_ticks :: "SyncStrategy \<Rightarrow> int \<Rightarrow> int" where
  "cas_backoff_ticks s attempt = (if attempt \<le> 0 then 0 else min (2 ^ nat (attempt - 1)) 16)"

section \<open>The strategies\<close>

definition new_LeaseStrategy :: "int \<Rightarrow> py_error + SyncStrategy" where
  "new_LeaseStrategy ttl = (if ttl < 1 then Inl ValueError else Inr (LeaseStrategy ttl))"

definition new_AccessCountStrategy :: "int \<Rightarrow> py_error + SyncStrategy" where
  "new_AccessCountStrategy n = (if n < 1 then Inl ValueError else Inr (AccessCountStrategy n))"

definition lazy_requires_refresh :: "ArtifactCacheEntry \<Rightarrow> int \<Rightarrow> bool" where
  "lazy_requires_refresh e now = (ce_state e = INVALID)"

definition eager_requires_refresh :: "ArtifactCacheEntry \<Rightarrow> int \<Rightarrow> bool" where
  "eager_requires_refresh e now = (ce_state e = INVALID)"

definition broadcast_requires_refresh :: "ArtifactCacheEntry \<Rightarrow> int \<Rightarrow> bool" where
  "broadcast_requires_refresh e now = (ce_state e = INVALID)"

definition blind_requires_refresh :: "ArtifactCacheEntry \<Rightarrow> int \<Rightarrow> bool" where
  "blind_requires_refresh e now = False"

definition lease_requires_refresh :: "ArtifactCacheEntry \<Rightarrow> int \<Rightarrow> bool" where
  "lease_requires_refresh e now =
     (if ce_state e = INVALID then True
      else (case expires_at_tick e of None \<Rightarrow> True | Some t \<Rightarrow> now \<ge> t))"

definition lease_on_read :: "int \<Rightarrow> ArtifactCacheEntry \<Rightarrow> int \<Rightarrow> ArtifactCacheEntry" where
  "lease_on_read ttl e now =
     (let t = (case expires_at_tick e of None \<Rightarrow> now + ttl | Some t \<Rightarrow> t)
      in (touch_entry e)\<lparr>expires_at_tick := Some t\<rparr>)"

definition lease_on_fetch :: "int \<Rightarrow> uuid \<Rightarrow> int \<Rightarrow> MESIState \<Rightarrow> int \<Rightarrow> ArtifactCacheEntry" where
  "lease_on_fetch ttl art v st now = (new_entry art v st now)\<lparr>expires_at_tick := Some (now + ttl)\<rparr>"

definition access_requires_refresh :: "int \<Rightarrow> ArtifactCacheEntry \<Rightarrow> int \<Rightarrow> bool" where
  "access_requires_refresh n e now = (if ce_state e = INVALID then True else access_count e \<ge> n)"

text \<open>The methods of a strategy object; those not listed for a class are inherited.\<close>

fun requires_refresh :: "SyncStrategy \<Rightarrow> ArtifactCacheEntry \<Rightarrow> int \<Rightarrow> bool" where
  "requires_refresh LazyStrategy = lazy_requires_refresh"
| "requires_refresh EagerStrategy = eager_requires_refresh"
| "requires_refresh BroadcastStrategy = broadcast_requires_refresh"
| "requires_refresh BlindCacheStrategy = blind_requires_refresh"
| "requires_refresh (LeaseStrategy ttl) = lease_requires_refresh"
| "requires_refresh (AccessCountStrategy n) = access_requires_refresh n"

fun on_read :: "SyncStrategy \<Rightarrow> ArtifactCacheEntry \<Rightarrow> int \<Rightarrow> ArtifactCacheEntry" where
  "on_read (LeaseStrategy ttl) e now = lease_on_read ttl e now"
| "on_read _ e now = touch_entry e"

fun on_fetch :: "SyncStrategy \<Rightarrow> uuid \<Rightarrow> int \<Rightarrow> MESIState \<Rightarrow> int \<Rightarrow> ArtifactCacheEntry" where
  "on_fetch (LeaseStrategy ttl) art v st now = lease_on_fetch ttl art v st now"
| "on_fetch _ art v st now = new_entry art v st now"

fun invalidates_peers_on_commit :: "SyncStrategy \<Rightarrow> bool" where
  "invalidates_peers_on_commit EagerStrategy = False"
| "invalidates_peers_on_commit BroadcastStrategy = False"
| "invalidates_peers_on_commit _ = True"

fun broadcasts_content_on_commit :: "SyncStrategy \<Rightarrow> bool" where
  "broadcasts_content_on_commit EagerStrategy = True"
| "broadcasts_content_on_commit BroadcastStrategy = True"
| "broadcasts_content_on_commit _ = False"

fun broadcasts_every_tick :: "SyncStrategy \<Rightarrow> bool" where
  "broadcasts_every_tick BroadcastStrategy = True"
| "broadcasts_every_tick _ = False"

fun staleness_bound :: "SyncStrategy \<Rightarrow> int option" where
  "staleness_bound EagerStrategy = Some 0"
| "staleness_bound BroadcastStrategy = Some 0"
| "staleness_bound (LeaseStrategy ttl) = Some ttl"
| "staleness_bound (AccessCountStrategy n) = Some n"
| "staleness_bound _ = None"

section \<open>Selection by name\<close>

text \<open>\<open>str.strip\<close> and \<open>str.lower\<close> on the characters of the model.\<close>

definition py_strip :: "string \<Rightarrow> string" where
  "py_strip s = rev (dropWhile py_space (rev (dropWhile py_space s)))"

definition py_lower_char :: "char \<Rightarrow> char" where
  "py_lower_char c = (let n = (of_char c :: nat) in
     if (65 \<le> n \<and> n \<le> 90) \<or> (192 \<le> n \<and> n \<le> 222 \<and> n \<noteq> 215) then char_of (n + 32) else c)"

definition py_lower :: "string \<Rightarrow> string" where
  "py_lower s = map py_lower_char s"

definition select_strategy_name_for_role :: "string \<Rightarrow> (string, string) dict option \<Rightarrow> string \<Rightarrow> string" where
  "select_strategy_name_for_role role role_overrides default_name =
     (case role_overrides of None \<Rightarrow> default_name
      | Some m \<Rightarrow> (case dict_get m role of None \<Rightarrow> default_name | Some name \<Rightarrow> name))"

definition build_strategy :: "string \<Rightarrow> int \<Rightarrow> int \<Rightarrow> py_error + SyncStrategy" where
  "build_strategy strategy_name lease_ttl_ticks access_count_max_accesses =
     (let normalized = py_lower (py_strip strategy_name)
      in if normalized = ''blind'' then Inr BlindCacheStrategy
         else if normalized = ''broadcast'' then Inr BroadcastStrategy
         else if normalized = ''eager'' then Inr EagerStrategy
         else if normalized = ''lazy'' then Inr LazyStrategy
         else if normalized = ''lease'' then new_LeaseStrategy lease_ttl_ticks
         else if normalized \<in> {''access_count'', ''access-count'', ''accesscount''}
         then new_AccessCountStrategy access_count_max_accesses
         else Inl ValueError)"

section \<open>The contract\<close>

locale sync_strategy =
  fixes refresh :: "ArtifactCacheEntry \<Rightarrow> int \<Rightarrow> bool"
    and read_entry :: "ArtifactCacheEntry \<Rightarrow> int \<Rightarrow> ArtifactCacheEntry"
    and fetched :: "uuid \<Rightarrow> int \<Rightarrow> MESIState \<Rightarrow> int \<Rightarrow> ArtifactCacheEntry"
    and fits :: "ArtifactCacheEntry \<Rightarrow> bool"
    and usable :: "ArtifactCacheEntry \<Rightarrow> int \<Rightarrow> bool"
  assumes invalid_refreshes: "ce_state e = INVALID \<Longrightarrow> refresh e now"
    and read_same: "ce_state (read_entry e now) = ce_state e \<and> local_version (read_entry e now) = local_version e"
    and fetched_entry: "ce_state (fetched art v st now) = st \<and> local_version (fetched art v st now) = v"
    and fetched_fits: "fits (fetched art v st now)"
    and read_fits: "fits e \<Longrightarrow> \<not> refresh e now \<Longrightarrow> fits (read_entry e now)"
    and served_usable: "fits e \<Longrightarrow> \<not> refresh e now \<Longrightarrow> usable e now"
begin

lemma served_valid: "\<not> refresh e now \<Longrightarrow> ce_state e \<noteq> INVALID"
  using invalid_refreshes by blast

end

text \<open>
  What an entry made by a strategy looks like and when the bound of the strategy lets it be used:
  under a lease for \<open>ttl\<close> ticks from its fetch, under an access count for that many reads.
\<close>

fun entry_fits :: "SyncStrategy \<Rightarrow> ArtifactCacheEntry \<Rightarrow> bool" where
  "entry_fits (LeaseStrategy ttl) e = (expires_at_tick e = Some (acquired_at_tick e + ttl) \<or> ce_state e = INVALID)"
| "entry_fits (AccessCountStrategy n) e = (0 \<le> access_count e)"
| "entry_fits _ e = True"

fun entry_usable :: "SyncStrategy \<Rightarrow> ArtifactCacheEntry \<Rightarrow> int \<Rightarrow> bool" where
  "entry_usable (LeaseStrategy ttl) e now = (now < acquired_at_tick e + ttl)"
| "entry_usable (AccessCountStrategy n) e now = (access_count e < n)"
| "entry_usable _ e now = True"

interpretation lazy: sync_strategy lazy_requires_refresh "on_read LazyStrategy" "on_fetch LazyStrategy" "\<lambda>_. True" "\<lambda>_ _. True"
  by unfold_locales (simp_all add: lazy_requires_refresh_def touch_entry_def new_entry_def)

interpretation eager: sync_strategy eager_requires_refresh "on_read EagerStrategy" "on_fetch EagerStrategy" "\<lambda>_. True" "\<lambda>_ _. True"
  by unfold_locales (simp_all add: eager_requires_refresh_def touch_entry_def new_entry_def)

interpretation broadcast: sync_strategy broadcast_requires_refresh "on_read BroadcastStrategy" "on_fetch BroadcastStrategy"
    "\<lambda>_. True" "\<lambda>_ _. True"
  by unfold_locales (simp_all add: broadcast_requires_refresh_def touch_entry_def new_entry_def)

interpretation lease: sync_strategy lease_requires_refresh "lease_on_read ttl" "lease_on_fetch ttl"
    "entry_fits (LeaseStrategy ttl)" "entry_usable (LeaseStrategy ttl)"
  for ttl
  by unfold_locales
    (auto simp: lease_requires_refresh_def lease_on_read_def lease_on_fetch_def touch_entry_def new_entry_def Let_def
      split: option.splits if_splits)

interpretation access: sync_strategy "access_requires_refresh n" "on_read (AccessCountStrategy n)" "on_fetch (AccessCountStrategy n)"
    "entry_fits (AccessCountStrategy n)" "entry_usable (AccessCountStrategy n)"
  for n
  by unfold_locales (auto simp: access_requires_refresh_def touch_entry_def new_entry_def split: if_splits)

text \<open>Every strategy object but the blind one meets the contract; the blind one breaks its first law.\<close>

lemma strategy_contract:
  assumes "s \<noteq> BlindCacheStrategy"
  shows "sync_strategy (requires_refresh s) (on_read s) (on_fetch s) (entry_fits s) (entry_usable s)"
proof (cases s)
  case (LeaseStrategy ttl)
  moreover have "on_read (LeaseStrategy ttl) = lease_on_read ttl" "on_fetch (LeaseStrategy ttl) = lease_on_fetch ttl"
    by (simp_all add: fun_eq_iff)
  ultimately show ?thesis by (simp add: lease.sync_strategy_axioms)
next
  case (AccessCountStrategy n)
  then show ?thesis by (simp add: access.sync_strategy_axioms)
next
  case LazyStrategy
  then show ?thesis using lazy.sync_strategy_axioms by (simp add: sync_strategy_def)
next
  case EagerStrategy
  then show ?thesis using eager.sync_strategy_axioms by (simp add: sync_strategy_def)
next
  case BroadcastStrategy
  then show ?thesis using broadcast.sync_strategy_axioms by (simp add: sync_strategy_def)
qed (use assms in simp)

lemma blind_ignores_invalid: "\<not> requires_refresh BlindCacheStrategy e now"
  by (simp add: blind_requires_refresh_def)

lemma backoff_bounds: "0 \<le> cas_backoff_ticks s attempt \<and> cas_backoff_ticks s attempt \<le> 16"
  by (simp add: cas_backoff_ticks_def)

end
