(* ===== verification/Agent_Runtime.thy ===== *)
theory Agent_Runtime
  imports Strategies
begin

text \<open>
  The protocol participant of one agent: its cache, \<^verbatim>\<open>src/ccs/agent/cache.py\<close>, and its read,
  write and delivery flows, \<^verbatim>\<open>src/ccs/agent/runtime.py\<close>. A method runs on a \<open>node\<close>: the
  coordinator's registry, the runtime object, the audit sequence cell that the runtimes of an adapter
  share, and the entries the audit callback has taken. A runtime built without a shared cell counts
  in a cell of its own, \<open>rt_audit_seq\<close>. The
  \<open>make_content\<close> callback of \<open>write_cas\<close> computes a result from the cache entry or raises.
\<close>

section \<open>The cache\<close>

type_synonym ArtifactCache = "(uuid, ArtifactCacheEntry) dict"

definition cache_get :: "uuid \<Rightarrow> ArtifactCache \<Rightarrow> ArtifactCacheEntry option" where
  "cache_get art c = dict_get c art"

definition cache_put :: "uuid \<Rightarrow> ArtifactCacheEntry \<Rightarrow> ArtifactCache \<Rightarrow> ArtifactCache" where
  "cache_put art e c = dict_set art e c"

definition invalid_entry :: "int option \<Rightarrow> ArtifactCacheEntry \<Rightarrow> ArtifactCacheEntry" where
  "invalid_entry invalidated_version e =
     (let next_version = (case invalidated_version of None \<Rightarrow> local_version e | Some v \<Rightarrow> min (local_version e) v)
      in e\<lparr>ce_state := INVALID, local_version := max next_version 0\<rparr>)"

definition cache_invalidate :: "uuid \<Rightarrow> int option \<Rightarrow> int \<Rightarrow> ArtifactCache \<Rightarrow> ArtifactCache" where
  "cache_invalidate art invalidated_version tick c =
     (case dict_get c art of
        None \<Rightarrow> dict_set art \<lparr>ce_artifact = art, ce_state = INVALID,
            local_version = max (case invalidated_version of None \<Rightarrow> 0 | Some v \<Rightarrow> v) 0, access_count = 0,
            acquired_at_tick = tick, expires_at_tick = None, ce_transient = None, ce_transient_tick = None\<rparr> c
      | Some e \<Rightarrow> dict_set art (invalid_entry invalidated_version e) c)"

definition cache_invalidate_all :: "int option \<Rightarrow> int \<Rightarrow> ArtifactCache \<Rightarrow> ArtifactCache" where
  "cache_invalidate_all invalidated_version tick c =
     fold (\<lambda>(art, e) c. dict_set art (invalid_entry invalidated_version e) c) c c"

definition has_valid :: "uuid \<Rightarrow> ArtifactCache \<Rightarrow> bool" where
  "has_valid art c = (case dict_get c art of None \<Rightarrow> False | Some e \<Rightarrow> ce_state e \<noteq> INVALID)"

section \<open>The runtime object\<close>

definition CCS_CONTENT_AUDIT_LOG_SCHEMA_VERSION :: string where
  "CCS_CONTENT_AUDIT_LOG_SCHEMA_VERSION = ''ccs.content_audit.v1''"

record content_view =
  cv_tick :: int
  cv_agent :: uuid
  cv_agent_name :: "string option"
  cv_artifact :: uuid
  cv_version :: "int option"
  cv_hash :: "string option"
  cv_source :: string
  cv_outcome :: string
  cv_sequence :: int
  cv_instance :: "string option"
  cv_schema :: string

record AgentRuntime =
  rt_agent_id :: uuid
  rt_strategy :: SyncStrategy
  rt_cache :: ArtifactCache
  content_by_artifact :: "(uuid, body) dict"
  content_audit_log :: "(content_view \<Rightarrow> bool) option"
  rt_audit_seq :: "int option"
  rt_agent_name :: "string option"
  rt_instance_id :: "string option"

definition new_AgentRuntime ::
  "uuid \<Rightarrow> SyncStrategy \<Rightarrow> (content_view \<Rightarrow> bool) option \<Rightarrow> bool \<Rightarrow> string option \<Rightarrow> string option \<Rightarrow> AgentRuntime" where
  "new_AgentRuntime ag strategy audit shared name inst =
     \<lparr>rt_agent_id = ag, rt_strategy = strategy, rt_cache = [], content_by_artifact = [],
      content_audit_log = audit, rt_audit_seq = (if shared then None else Some 0), rt_agent_name = name, rt_instance_id = inst\<rparr>"

record node =
  node_registry :: registry
  node_runtime :: AgentRuntime
  audit_seq :: int
  audit_taken :: "content_view list"

type_synonym 'a nop = "(node, py_error, 'a) py"

definition on_coordinator :: "'a rop \<Rightarrow> 'a nop" where
  "on_coordinator m = on_field node_registry (\<lambda>g n. n\<lparr>node_registry := g\<rparr>) m"

definition asks_runtime :: "(AgentRuntime \<Rightarrow> 'a) \<Rightarrow> 'a nop" where
  "asks_runtime f = asks (\<lambda>n. f (node_runtime n))"

definition set_cache :: "(ArtifactCache \<Rightarrow> ArtifactCache) \<Rightarrow> unit nop" where
  "set_cache f = modify (\<lambda>n. n\<lparr>node_runtime := (node_runtime n)\<lparr>rt_cache := f (rt_cache (node_runtime n))\<rparr>\<rparr>)"

section \<open>Content views\<close>

text \<open>The callback raises where its predicate is \<open>False\<close>; the sequence number is then given back.\<close>

definition audit_count :: "node \<Rightarrow> int" where
  "audit_count n = (case rt_audit_seq (node_runtime n) of None \<Rightarrow> audit_seq n | Some k \<Rightarrow> k)"

definition set_audit_count :: "int \<Rightarrow> node \<Rightarrow> node" where
  "set_audit_count k n = (case rt_audit_seq (node_runtime n) of
       None \<Rightarrow> n\<lparr>audit_seq := k\<rparr>
     | Some _ \<Rightarrow> n\<lparr>node_runtime := (node_runtime n)\<lparr>rt_audit_seq := Some k\<rparr>\<rparr>)"

definition emit_audit :: "content_view \<Rightarrow> unit nop" where
  "emit_audit entry = (\<lambda>n. case content_audit_log (node_runtime n) of
       None \<Rightarrow> (Inr (), n)
     | Some sink \<Rightarrow>
         (let n1 = set_audit_count (audit_count n + 1) n; e = entry\<lparr>cv_sequence := audit_count n1\<rparr>
          in if sink e then (Inr (), n1\<lparr>audit_taken := audit_taken n1 @ [e]\<rparr>)
             else (Inl CallbackError, set_audit_count (audit_count n1 - 1) n1)))"

definition record_content_view ::
  "(string \<Rightarrow> string) \<Rightarrow> uuid \<Rightarrow> int option \<Rightarrow> body option \<Rightarrow> string \<Rightarrow> int \<Rightarrow> string option nop" where
  "record_content_view sha256_hex art version content source now =
     andthen (case content of
         Some b \<Rightarrow> (if source \<noteq> ''cache_hit''
            then modify (\<lambda>n. n\<lparr>node_runtime := (node_runtime n)\<lparr>content_by_artifact :=
                   dict_set art b (content_by_artifact (node_runtime n))\<rparr>\<rparr>)
            else ret ())
       | None \<Rightarrow> ret ()) (\<lambda>_.
     andthen (case content of
         None \<Rightarrow> ret (''error'', None, None)
       | Some b \<Rightarrow>
           (case version of
              None \<Rightarrow> ret (''empty'', None, None)
            | Some v \<Rightarrow>
                (if v = 0 then ret (''empty'', None, None)
                 else andthen (lift_sum (compute_content_hash sha256_hex b)) (\<lambda>h.
                      ret (''content'', Some v, Some h))))) (\<lambda>(outcome, record_version, content_hash).
     andthen (asks_runtime id) (\<lambda>rt.
     andthen (emit_audit
       \<lparr>cv_tick = now, cv_agent = rt_agent_id rt, cv_agent_name = rt_agent_name rt, cv_artifact = art,
        cv_version = record_version, cv_hash = content_hash, cv_source = source, cv_outcome = outcome,
        cv_sequence = 0, cv_instance = rt_instance_id rt, cv_schema = CCS_CONTENT_AUDIT_LOG_SCHEMA_VERSION\<rparr>) (\<lambda>_.
     ret content_hash))))"

section \<open>Reading\<close>

definition AgentRuntime_fetch :: "(string \<Rightarrow> string) \<Rightarrow> uuid \<Rightarrow> int \<Rightarrow> FetchResponse nop" where
  "AgentRuntime_fetch sha256_hex art now =
     andthen (asks_runtime id) (\<lambda>rt.
     andthen (on_coordinator (fetch art (rt_agent_id rt) now)) (\<lambda>response.
     andthen (set_cache (cache_put art
        (on_fetch (rt_strategy rt) art (resp_version response) (state_grant response) now))) (\<lambda>_.
     andthen (record_content_view sha256_hex art (Some (resp_version response)) (Some (resp_content response))
        ''fetch'' now) (\<lambda>_.
     ret response))))"

definition AgentRuntime_read :: "(string \<Rightarrow> string) \<Rightarrow> uuid \<Rightarrow> int \<Rightarrow> FetchResponse nop" where
  "AgentRuntime_read sha256_hex art now =
     andthen (asks_runtime id) (\<lambda>rt.
       case cache_get art (rt_cache rt) of
         None \<Rightarrow> AgentRuntime_fetch sha256_hex art now
       | Some entry \<Rightarrow>
           (if requires_refresh (rt_strategy rt) entry now then AgentRuntime_fetch sha256_hex art now
            else
              (let touched = on_read (rt_strategy rt) entry now;
                   cached_content = get_default (content_by_artifact rt) art (Text '''')
               in andthen (set_cache (cache_put art touched)) (\<lambda>_.
                  andthen (record_content_view sha256_hex art (Some (local_version touched)) (Some cached_content)
                     ''cache_hit'' now) (\<lambda>_.
                  ret (FetchResponse art (local_version touched) cached_content (ce_state touched)))))))"

text \<open>The refresh at the start of both write flows.\<close>

definition refresh_if_needed :: "(string \<Rightarrow> string) \<Rightarrow> uuid \<Rightarrow> int \<Rightarrow> unit nop" where
  "refresh_if_needed sha256_hex art now =
     andthen (asks_runtime id) (\<lambda>rt.
       if (case cache_get art (rt_cache rt) of None \<Rightarrow> True | Some entry \<Rightarrow> requires_refresh (rt_strategy rt) entry now)
       then andthen (AgentRuntime_fetch sha256_hex art now) (\<lambda>_. ret ())
       else ret ())"

section \<open>The pessimistic write\<close>

definition AgentRuntime_write ::
  "(string \<Rightarrow> string) \<Rightarrow> uuid \<Rightarrow> string \<Rightarrow> int \<Rightarrow> string option \<Rightarrow> int option
   \<Rightarrow> (Artifact \<times> InvalidationSignal list) nop" where
  "AgentRuntime_write sha256_hex art content now chash toks =
     (if (case chash of None \<Rightarrow> False | Some h \<Rightarrow> h \<noteq> sha256_hex content) then throw ValueError
      else
     andthen (refresh_if_needed sha256_hex art now) (\<lambda>_.
     andthen (asks_runtime id) (\<lambda>rt.
     andthen (on_coordinator (write_op (rt_agent_id rt) art now False)) (\<lambda>write_signals.
     andthen (on_coordinator (commit sha256_hex (rt_agent_id rt) art content now chash toks False))
       (\<lambda>(updated, commit_signals).
     andthen (set_cache (cache_put art (on_fetch (rt_strategy rt) art (art_version updated) MODIFIED now))) (\<lambda>_.
     andthen (record_content_view sha256_hex art (Some (art_version updated)) (Some (Text content)) ''write'' now) (\<lambda>_.
     ret (updated, write_signals @ commit_signals))))))))"

section \<open>The optimistic write\<close>

definition resolve_content_hash :: "(string \<Rightarrow> string) \<Rightarrow> string \<Rightarrow> string option \<Rightarrow> py_error + string" where
  "resolve_content_hash sha256_hex content provided =
     (let computed = sha256_hex content
      in if (case provided of None \<Rightarrow> False | Some h \<Rightarrow> h \<noteq> computed) then Inl ValueError else Inr computed)"

type_synonym MakeContent = "ArtifactCacheEntry \<Rightarrow> py_error + (string \<times> string option)"

definition current_entry :: "(string \<Rightarrow> string) \<Rightarrow> uuid \<Rightarrow> int \<Rightarrow> ArtifactCacheEntry nop" where
  "current_entry sha256_hex art now =
     andthen (asks_runtime (\<lambda>rt. cache_get art (rt_cache rt))) (\<lambda>found.
       case found of
         Some entry \<Rightarrow> ret entry
       | None \<Rightarrow>
           andthen (AgentRuntime_fetch sha256_hex art now) (\<lambda>_.
           andthen (asks_runtime (\<lambda>rt. cache_get art (rt_cache rt))) (\<lambda>again.
             case again of None \<Rightarrow> throw AssertionError | Some entry \<Rightarrow> ret entry)))"

text \<open>
  The attempts still allowed; a conflict re-reads and goes on. The backoff value of the strategy is
  computed and dropped by the source, since there is no clock to wait on.
\<close>

primrec cas_attempts ::
  "nat \<Rightarrow> (string \<Rightarrow> string) \<Rightarrow> uuid \<Rightarrow> MakeContent \<Rightarrow> int \<Rightarrow> int \<Rightarrow> int
   \<Rightarrow> (Artifact \<times> InvalidationSignal list) nop" where
  "cas_attempts 0 sha256_hex art make_content now max_attempts last_current_version =
     throw (CasRetriesExhausted art max_attempts last_current_version)"
| "cas_attempts (Suc k) sha256_hex art make_content now max_attempts last_current_version =
     andthen (current_entry sha256_hex art now) (\<lambda>entry.
     andthen (lift_sum (make_content entry)) (\<lambda>(content, provided_hash).
     andthen (lift_sum (resolve_content_hash sha256_hex content provided_hash)) (\<lambda>content_hash.
     andthen (asks_runtime id) (\<lambda>rt.
     andthen (on_coordinator (commit_cas (rt_agent_id rt) art (local_version entry) content_hash now None
        (Some (Text content)) False)) (\<lambda>result.
       case result of
         Conflict d \<Rightarrow>
           andthen (AgentRuntime_fetch sha256_hex art now) (\<lambda>_.
           cas_attempts k sha256_hex art make_content now max_attempts (detail_version d))
       | Committed updated signals \<Rightarrow>
           andthen (set_cache (cache_put art (on_fetch (rt_strategy rt) art (art_version updated) SHARED now))) (\<lambda>_.
           andthen (record_content_view sha256_hex art (Some (art_version updated)) (Some (Text content))
              ''write_cas'' now) (\<lambda>_.
           ret (updated, signals))))))))"

definition AgentRuntime_write_cas ::
  "(string \<Rightarrow> string) \<Rightarrow> uuid \<Rightarrow> MakeContent \<Rightarrow> int \<Rightarrow> (Artifact \<times> InvalidationSignal list) nop" where
  "AgentRuntime_write_cas sha256_hex art make_content now =
     andthen (refresh_if_needed sha256_hex art now) (\<lambda>_.
     andthen (asks_runtime (\<lambda>rt. max_cas_retries (rt_strategy rt) + 1)) (\<lambda>max_attempts.
     cas_attempts (nat max_attempts) sha256_hex art make_content now max_attempts (- 1)))"

section \<open>Deliveries\<close>

definition invalidate_all_cache :: "int option \<Rightarrow> int \<Rightarrow> unit nop" where
  "invalidate_all_cache invalidated_version tick = set_cache (cache_invalidate_all invalidated_version tick)"

definition handle_invalidation :: "InvalidationSignal \<Rightarrow> unit nop" where
  "handle_invalidation sig =
     andthen (asks_runtime id) (\<lambda>rt.
     andthen (on_coordinator (invalidate (rt_agent_id rt) (sig_artifact_id sig) (sig_new_version sig)
        (sig_issuer sig) (sig_issued_at sig) False)) (\<lambda>answer.
     andthen (asks (\<lambda>n. has_artifact (sig_artifact_id sig) (node_registry n))) (\<lambda>present.
       if answer = None \<and> present then ret ()
       else set_cache (cache_invalidate (sig_artifact_id sig) (Some (max (sig_new_version sig - 1) 0)) (sig_issued_at sig)))))"

definition clear_both :: "uuid \<Rightarrow> uuid \<Rightarrow> uuid option \<Rightarrow> unit rop" where
  "clear_both art ag writer =
     andthen (clear_agent_transient art ag) (\<lambda>_.
       case writer of None \<Rightarrow> ret () | Some w \<Rightarrow> clear_agent_transient art w)"

definition settle_update :: "uuid \<Rightarrow> uuid \<Rightarrow> uuid option \<Rightarrow> int \<Rightarrow> unit rop" where
  "settle_update art ag writer now =
     andthen (set_agent_state art ag SHARED ''update'' now None) (\<lambda>_.
     andthen (clear_agent_transient art ag) (\<lambda>_.
       case writer of
         None \<Rightarrow> ret ()
       | Some w \<Rightarrow>
           andthen (set_agent_state art w SHARED ''update'' now None) (\<lambda>_.
           clear_agent_transient art w)))"

definition handle_update ::
  "(string \<Rightarrow> string) \<Rightarrow> uuid \<Rightarrow> int \<Rightarrow> body \<Rightarrow> int \<Rightarrow> uuid option \<Rightarrow> unit nop" where
  "handle_update sha256_hex art version content now writer =
     andthen (asks_runtime id) (\<lambda>rt.
     andthen (asks (\<lambda>n. get_artifact art (node_registry n))) (\<lambda>found.
       case found of
         None \<Rightarrow> ret ()
       | Some a \<Rightarrow>
     andthen (asks (\<lambda>n. get_agent_state art (rt_agent_id rt) (node_registry n))) (\<lambda>state.
       if version < art_version a \<or> state \<in> {Some MODIFIED, Some EXCLUSIVE}
       then on_coordinator (clear_both art (rt_agent_id rt) writer)
       else
     andthen (set_cache (cache_put art (on_fetch (rt_strategy rt) art version SHARED now))) (\<lambda>_.
     andthen (record_content_view sha256_hex art (Some version) (Some content) ''broadcast'' now) (\<lambda>_.
     on_coordinator (settle_update art (rt_agent_id rt) writer now))))))"

end
