(* ===== verification/Event_Bus.thy ===== *)
theory Event_Bus
  imports Agent_Runtime
begin

text \<open>
  The synchronous event bus, \<^verbatim>\<open>src/ccs/bus/event_bus.py\<close>, and the simulated transport,
  \<^verbatim>\<open>src/ccs/transport/network_sim.py\<close>. A handler is a value; what calling it does is the
  argument \<open>call\<close> of the publishing methods. A random draw of the transport is an argument.
\<close>

section \<open>The bus\<close>

record ArtifactUpdateEvent =
  ev_artifact :: uuid
  ev_version :: int
  ev_content :: body
  ev_issued_at :: int
  ev_issuer :: uuid

record ('i, 'u) InMemoryEventBus =
  invalidation_handlers :: "(uuid, 'i) dict"
  update_handlers :: "(uuid, 'u) dict"

definition new_InMemoryEventBus :: "('i, 'u) InMemoryEventBus" where
  "new_InMemoryEventBus = \<lparr>invalidation_handlers = [], update_handlers = []\<rparr>"

definition subscribe :: "uuid \<Rightarrow> 'i \<Rightarrow> 'u option \<Rightarrow> ('i, 'u) InMemoryEventBus \<Rightarrow> ('i, 'u) InMemoryEventBus" where
  "subscribe ag on_invalidation on_update bus =
     (let bus1 = bus\<lparr>invalidation_handlers := dict_set ag on_invalidation (invalidation_handlers bus)\<rparr>
      in case on_update of None \<Rightarrow> bus1
         | Some h \<Rightarrow> bus1\<lparr>update_handlers := dict_set ag h (update_handlers bus1)\<rparr>)"

definition unsubscribe :: "uuid \<Rightarrow> ('i, 'u) InMemoryEventBus \<Rightarrow> ('i, 'u) InMemoryEventBus" where
  "unsubscribe ag bus = bus\<lparr>invalidation_handlers := dict_pop ag (invalidation_handlers bus),
     update_handlers := dict_pop ag (update_handlers bus)\<rparr>"

text \<open>Both publishing methods are this loop over their own handlers.\<close>

definition publish_to :: "('h \<Rightarrow> 'm \<Rightarrow> ('s, 'e, unit) py) \<Rightarrow> (uuid, 'h) dict \<Rightarrow> 'm \<Rightarrow> int \<Rightarrow> uuid \<Rightarrow> ('s, 'e, int) py" where
  "publish_to call handlers message delivered_count recipient =
     (case dict_get handlers recipient of
        None \<Rightarrow> ret delivered_count
      | Some h \<Rightarrow> andthen (call h message) (\<lambda>_. ret (delivered_count + 1)))"

definition publish_invalidation ::
  "('i \<Rightarrow> InvalidationSignal \<Rightarrow> ('s, 'e, unit) py) \<Rightarrow> ('i, 'u) InMemoryEventBus \<Rightarrow> InvalidationSignal \<Rightarrow> uuid list
   \<Rightarrow> ('s, 'e, int) py" where
  "publish_invalidation call bus sig recipients =
     for_loop recipients (publish_to call (invalidation_handlers bus) sig) 0"

definition publish_update ::
  "('u \<Rightarrow> ArtifactUpdateEvent \<Rightarrow> ('s, 'e, unit) py) \<Rightarrow> ('i, 'u) InMemoryEventBus \<Rightarrow> ArtifactUpdateEvent \<Rightarrow> uuid list
   \<Rightarrow> ('s, 'e, int) py" where
  "publish_update call bus event recipients =
     for_loop recipients (publish_to call (update_handlers bus) event) 0"

text \<open>The text of an identifier has a fixed width, so its order is that of the number.\<close>

definition subscribers :: "('i, 'u) InMemoryEventBus \<Rightarrow> uuid list" where
  "subscribers bus = sort (dict_keys (invalidation_handlers bus))"

section \<open>The simulated transport\<close>

record 'p NetworkMessage =
  msg_payload :: 'p
  msg_source :: "uuid option"
  msg_destination :: uuid
  msg_type :: string
  sent_tick :: int
  delivery_tick :: int
  msg_delivered :: bool

record 'p NetworkSimulator =
  net_queue :: "'p NetworkMessage list"
  net_latency :: int
  net_loss_rate :: rat
  total_sent :: int

definition new_NetworkSimulator :: "int \<Rightarrow> rat \<Rightarrow> py_error + 'p NetworkSimulator" where
  "new_NetworkSimulator latency loss =
     (if latency < 0 then Inl ValueError
      else if \<not> (0 \<le> loss \<and> loss < 1) then Inl ValueError
      else Inr \<lparr>net_queue = [], net_latency = latency, net_loss_rate = loss, total_sent = 0\<rparr>)"

definition net_send ::
  "rat \<Rightarrow> 'p \<Rightarrow> uuid option \<Rightarrow> uuid \<Rightarrow> int \<Rightarrow> string \<Rightarrow> 'p NetworkSimulator
   \<Rightarrow> 'p NetworkMessage option \<times> 'p NetworkSimulator" where
  "net_send draw payload source destination now kind net =
     (let net1 = net\<lparr>total_sent := total_sent net + 1\<rparr>
      in if net_loss_rate net > 0 \<and> draw < net_loss_rate net then (None, net1)
         else let m = \<lparr>msg_payload = payload, msg_source = source, msg_destination = destination, msg_type = kind,
                       sent_tick = now, delivery_tick = now + net_latency net, msg_delivered = False\<rparr>
              in (Some m, net1\<lparr>net_queue := net_queue net1 @ [m]\<rparr>))"

fun deliver_loop ::
  "int \<Rightarrow> 'p NetworkMessage list \<Rightarrow> 'p NetworkMessage list \<Rightarrow> 'p NetworkMessage list
   \<Rightarrow> 'p NetworkMessage list \<times> 'p NetworkMessage list" where
  "deliver_loop now [] due remaining = (due, remaining)"
| "deliver_loop now (m # queue) due remaining =
     (if delivery_tick m \<le> now then deliver_loop now queue (due @ [m\<lparr>msg_delivered := True\<rparr>]) remaining
      else deliver_loop now queue due (remaining @ [m]))"

definition deliver_due :: "int \<Rightarrow> 'p NetworkSimulator \<Rightarrow> 'p NetworkMessage list \<times> 'p NetworkSimulator" where
  "deliver_due now net =
     (case deliver_loop now (net_queue net) [] [] of (due, remaining) \<Rightarrow> (due, net\<lparr>net_queue := remaining\<rparr>))"

definition pending_count :: "'p NetworkSimulator \<Rightarrow> nat" where
  "pending_count net = length (net_queue net)"

end
