(* ===== verification/Adapter_Core.thy ===== *)
theory Adapter_Core
  imports Event_Bus
begin

text \<open>
  The cluster that wires coordinator, agents and bus, \<open>CoherenceAdapterCore\<close> of
  \<^verbatim>\<open>src/ccs/adapters/base.py\<close>. A binding is the runtime registered under a name; the handlers
  that an agent subscribes are bound methods of its runtime, so the bus holds the agent's name and
  a delivery runs the method on the runtime of that name. One call of a method is one step. The
  digest, the name-based identifiers and minted identifiers are arguments; log output is left out.
  \<open>core_audit_seq\<close> is the audit cell the adapter was given, \<open>None\<close> where each runtime has its own.
\<close>

section \<open>The cluster\<close>

type_synonym core_bus = "(string, string) InMemoryEventBus"

record AdapterCore =
  core_registry :: registry
  core_strategy :: SyncStrategy
  core_crash_recovery :: CrashRecoveryConfig
  event_bus :: core_bus
  agents_by_name :: "(string, AgentRuntime) dict"
  core_audit_log :: "(content_view \<Rightarrow> bool) option"
  core_audit_seq :: "int option"
  core_audit_taken :: "content_view list"
  core_instance_id :: "string option"
  last_sweep_tick :: "int option"
  first_reclamation_emitted :: bool

type_synonym 'a cop = "(AdapterCore, py_error, 'a) py"

text \<open>\<open>getattr(strategy, "ttl_ticks", None)\<close>.\<close>

fun strategy_ttl :: "SyncStrategy \<Rightarrow> ttl_attr" where
  "strategy_ttl (LeaseStrategy ttl) = TtlInt ttl"
| "strategy_ttl _ = TtlMissing"

definition new_CoherenceAdapterCore ::
  "string \<Rightarrow> int \<Rightarrow> int \<Rightarrow> core_bus option \<Rightarrow> (log_entry \<Rightarrow> bool) option \<Rightarrow> string option
   \<Rightarrow> (content_view \<Rightarrow> bool) option \<Rightarrow> int option \<Rightarrow> bool \<Rightarrow> CrashRecoveryConfig option \<Rightarrow> string \<Rightarrow> string \<Rightarrow> rat
   \<Rightarrow> py_error + AdapterCore" where
  "new_CoherenceAdapterCore strategy_name lease_ttl max_acc bus sink inst audit audit_start retain crash minted epoch now =
     (let config = (case crash of None \<Rightarrow> \<lparr>cr_enabled = True, heartbeat_timeout_ticks = 120, max_hold_ticks = 900\<rparr>
                    | Some c \<Rightarrow> c)
      in case new_ArtifactRegistry sink (Some []) inst retain None minted epoch now of
           Inl e \<Rightarrow> Inl e
         | Inr g \<Rightarrow>
      (case build_strategy strategy_name lease_ttl max_acc of
         Inl e \<Rightarrow> Inl e
       | Inr strategy \<Rightarrow>
      (case validate_crash_recovery_config config (strategy_ttl strategy) of
         Inl e \<Rightarrow> Inl e
       | Inr _ \<Rightarrow>
           Inr \<lparr>core_registry = g, core_strategy = strategy, core_crash_recovery = config,
                event_bus = (case bus of None \<Rightarrow> new_InMemoryEventBus | Some b \<Rightarrow> b), agents_by_name = [],
                core_audit_log = audit, core_audit_seq = audit_start, core_audit_taken = [],
                core_instance_id = inst, last_sweep_tick = None, first_reclamation_emitted = False\<rparr>)))"

definition on_core_registry :: "'a rop \<Rightarrow> 'a cop" where
  "on_core_registry m = on_field core_registry (\<lambda>g c. c\<lparr>core_registry := g\<rparr>) m"

section \<open>Running a runtime of the cluster\<close>

definition binding :: "string \<Rightarrow> AgentRuntime cop" where
  "binding name = (\<lambda>c. case dict_get (agents_by_name c) name of None \<Rightarrow> (Inl KeyError, c) | Some rt \<Rightarrow> (Inr rt, c))"

definition node_of :: "AgentRuntime \<Rightarrow> AdapterCore \<Rightarrow> node" where
  "node_of rt c = \<lparr>node_registry = core_registry c, node_runtime = rt,
     audit_seq = (case core_audit_seq c of None \<Rightarrow> 0 | Some k \<Rightarrow> k),
     audit_taken = core_audit_taken c\<rparr>"

definition put_node :: "string \<Rightarrow> node \<Rightarrow> AdapterCore \<Rightarrow> AdapterCore" where
  "put_node name n c = c\<lparr>core_registry := node_registry n,
     agents_by_name := dict_set name (node_runtime n) (agents_by_name c),
     core_audit_seq := map_option (\<lambda>_. audit_seq n) (core_audit_seq c), core_audit_taken := audit_taken n\<rparr>"

definition on_runtime :: "string \<Rightarrow> 'a nop \<Rightarrow> 'a cop" where
  "on_runtime name m = andthen (binding name) (\<lambda>rt.
     \<lambda>c. case m (node_of rt c) of (r, n) \<Rightarrow> (r, put_node name n c))"

section \<open>Registration\<close>

definition core_register_agent :: "(string \<Rightarrow> uuid) \<Rightarrow> string \<Rightarrow> int \<Rightarrow> uuid cop" where
  "core_register_agent uuid5_url name now =
     andthen (asks (\<lambda>c. dict_get (agents_by_name c) name)) (\<lambda>existing.
       case existing of
         Some rt \<Rightarrow> ret (rt_agent_id rt)
       | None \<Rightarrow>
           (let ag = uuid5_url (''ccs-agent:'' @ name)
            in andthen (modify (\<lambda>c.
                 let g = core_registry c
                 in c\<lparr>core_registry := g\<lparr>agent_names := map_option (dict_set ag name) (agent_names g)\<rparr>,
                      event_bus := subscribe ag name (Some name) (event_bus c),
                      agents_by_name := dict_set name
                        (new_AgentRuntime ag (core_strategy c) (core_audit_log c) (core_audit_seq c \<noteq> None)
                          (Some name) (core_instance_id c))
                        (agents_by_name c)\<rparr>)) (\<lambda>_.
               andthen (asks (\<lambda>c. cr_enabled (core_crash_recovery c))) (\<lambda>enabled.
               andthen (if enabled then on_core_registry (record_heartbeat ag now) else ret ()) (\<lambda>_.
               ret ag)))))"

definition core_register_artifact :: "uuid \<Rightarrow> string \<Rightarrow> string \<Rightarrow> int option \<Rightarrow> Artifact cop" where
  "core_register_artifact minted name content toks =
     on_core_registry (register_artifact minted name (Text content) None toks None [])"

definition agent_names_snapshot :: "AdapterCore \<Rightarrow> (uuid, string) dict" where
  "agent_names_snapshot c = (case agent_names (core_registry c) of None \<Rightarrow> [] | Some names \<Rightarrow> names)"

definition artifact_names_snapshot :: "AdapterCore \<Rightarrow> (uuid, string) dict" where
  "artifact_names_snapshot c =
     fold (\<lambda>art names. case get_artifact art (core_registry c) of None \<Rightarrow> names | Some a \<Rightarrow> dict_set art (art_name a) names)
       (artifact_ids (core_registry c)) []"

section \<open>The sweep\<close>

definition maybe_sweep :: "int \<Rightarrow> unit cop" where
  "maybe_sweep now =
     andthen (asks (\<lambda>c. (core_crash_recovery c, last_sweep_tick c))) (\<lambda>(config, last).
       if \<not> cr_enabled config then ret ()
       else if (case last of None \<Rightarrow> False | Some t \<Rightarrow> now - t < heartbeat_timeout_ticks config div 2) then ret ()
       else
     andthen (modify (\<lambda>c. c\<lparr>last_sweep_tick := Some (case last of None \<Rightarrow> now | Some t \<Rightarrow> max t now)\<rparr>)) (\<lambda>_.
     andthen (except (andthen (on_core_registry (enforce_stable_grant_timeouts now (heartbeat_timeout_ticks config)
                (max_hold_ticks config))) (\<lambda>reclaimed. ret (reclaimed \<noteq> [])))
             (\<lambda>e. ret False)) (\<lambda>some_reclaimed.
     modify (\<lambda>c. c\<lparr>first_reclamation_emitted := first_reclamation_emitted c \<or> some_reclaimed\<rparr>))))"

definition touch_agent :: "uuid \<Rightarrow> int \<Rightarrow> unit cop" where
  "touch_agent ag now =
     andthen (asks (\<lambda>c. cr_enabled (core_crash_recovery c))) (\<lambda>enabled.
     andthen (if enabled then on_core_registry (record_heartbeat ag now) else ret ()) (\<lambda>_.
     maybe_sweep now))"

section \<open>Reads and writes\<close>

definition core_read :: "(string \<Rightarrow> string) \<Rightarrow> string \<Rightarrow> uuid \<Rightarrow> int \<Rightarrow> FetchResponse cop" where
  "core_read sha256_hex name art now =
     andthen (binding name) (\<lambda>rt.
     andthen (touch_agent (rt_agent_id rt) now) (\<lambda>_.
     on_runtime name (AgentRuntime_read sha256_hex art now)))"

definition peers_of :: "uuid \<Rightarrow> AdapterCore \<Rightarrow> uuid list" where
  "peers_of writer c = filter (\<lambda>ag. ag \<noteq> writer) (map (\<lambda>(name, rt). rt_agent_id rt) (agents_by_name c))"

text \<open>The two event handlers an agent subscribes.\<close>

definition call_invalidation :: "string \<Rightarrow> InvalidationSignal \<Rightarrow> unit cop" where
  "call_invalidation name sig = on_runtime name (handle_invalidation sig)"

definition call_update :: "(string \<Rightarrow> string) \<Rightarrow> string \<Rightarrow> ArtifactUpdateEvent \<Rightarrow> unit cop" where
  "call_update sha256_hex name ev =
     on_runtime name (handle_update sha256_hex (ev_artifact ev) (ev_version ev) (ev_content ev) (ev_issued_at ev)
       (Some (ev_issuer ev)))"

definition dispatch_signals :: "InvalidationSignal list \<Rightarrow> uuid list \<Rightarrow> unit cop" where
  "dispatch_signals signals peers =
     andthen (asks event_bus) (\<lambda>bus.
     for_loop signals (\<lambda>_ sig. andthen (publish_invalidation call_invalidation bus sig peers) (\<lambda>_. ret ())) ())"

definition dispatch_update :: "(string \<Rightarrow> string) \<Rightarrow> ArtifactUpdateEvent \<Rightarrow> uuid list \<Rightarrow> unit cop" where
  "dispatch_update sha256_hex ev peers =
     andthen (asks (\<lambda>c. (event_bus c, broadcasts_content_on_commit (core_strategy c)))) (\<lambda>(bus, broadcasts).
       if broadcasts then andthen (publish_update (call_update sha256_hex) bus ev peers) (\<lambda>_. ret ()) else ret ())"

definition core_write :: "(string \<Rightarrow> string) \<Rightarrow> string \<Rightarrow> uuid \<Rightarrow> string \<Rightarrow> int \<Rightarrow> Artifact cop" where
  "core_write sha256_hex name art content now =
     andthen (binding name) (\<lambda>writer.
     andthen (touch_agent (rt_agent_id writer) now) (\<lambda>_.
     andthen (on_runtime name (AgentRuntime_write sha256_hex art content now None None)) (\<lambda>(updated, signals).
     andthen (asks (peers_of (rt_agent_id writer))) (\<lambda>peers.
     andthen (dispatch_signals signals peers) (\<lambda>_.
     andthen (dispatch_update sha256_hex \<lparr>ev_artifact = art, ev_version = art_version updated, ev_content = Text content,
        ev_issued_at = now, ev_issuer = rt_agent_id writer\<rparr> peers) (\<lambda>_.
     ret updated))))))"

definition core_content :: "string \<Rightarrow> uuid \<Rightarrow> body option cop" where
  "core_content name art = andthen (binding name) (\<lambda>rt. ret (dict_get (content_by_artifact rt) art))"

definition core_write_cas :: "(string \<Rightarrow> string) \<Rightarrow> string \<Rightarrow> uuid \<Rightarrow> MakeContent \<Rightarrow> int \<Rightarrow> Artifact cop" where
  "core_write_cas sha256_hex name art make_content now =
     andthen (binding name) (\<lambda>writer.
     andthen (touch_agent (rt_agent_id writer) now) (\<lambda>_.
     andthen (on_runtime name (AgentRuntime_write_cas sha256_hex art make_content now)) (\<lambda>(updated, signals).
     andthen (asks (peers_of (rt_agent_id writer))) (\<lambda>peers.
     andthen (dispatch_signals signals peers) (\<lambda>_.
     andthen (core_content name art) (\<lambda>content.
     andthen (dispatch_update sha256_hex \<lparr>ev_artifact = art, ev_version = art_version updated,
        ev_content = (case content of None \<Rightarrow> Text '''' | Some b \<Rightarrow> b), ev_issued_at = now,
        ev_issuer = rt_agent_id writer\<rparr> peers) (\<lambda>_.
     ret updated)))))))"

section \<open>Heartbeats and recovery\<close>

definition core_heartbeat :: "string \<Rightarrow> int \<Rightarrow> unit cop" where
  "core_heartbeat name now =
     andthen (asks (\<lambda>c. cr_enabled (core_crash_recovery c))) (\<lambda>enabled.
       if \<not> enabled then ret ()
       else andthen (binding name) (\<lambda>rt. on_core_registry (record_heartbeat (rt_agent_id rt) now)))"

definition core_recover :: "string \<Rightarrow> int \<Rightarrow> unit cop" where
  "core_recover name now =
     andthen (binding name) (\<lambda>rt.
     andthen (on_runtime name (invalidate_all_cache None 0)) (\<lambda>_.
     andthen (asks (\<lambda>c. cr_enabled (core_crash_recovery c))) (\<lambda>enabled.
       if enabled then on_core_registry (record_heartbeat (rt_agent_id rt) now) else ret ())))"

end
