(* ===== verification/Runtime_Coherence.thy ===== *)
theory Runtime_Coherence
  imports Checkpoint_Safety Adapter_Core
begin

text \<open>
  One agent's runtime against the coordinator: the flows of the runtime keep its cache coherent with
  the directory, a valid entry being a copy that the coordinator knows and that is current, and
  what they do to the copies of the other agents.
\<close>

declare map_of_eq_Some_iff [simp del] Some_eq_map_of_iff [simp del]

section \<open>Copies\<close>

text \<open>The coordinator knows that \<open>ag\<close> has a valid copy of \<open>art\<close>, and the artifact is at version \<open>v\<close> with body \<open>b\<close>.\<close>

definition holds_copy :: "registry \<Rightarrow> uuid \<Rightarrow> uuid \<Rightarrow> int \<Rightarrow> body \<Rightarrow> bool" where
  "holds_copy g ag art v b \<longleftrightarrow> (\<exists>r. dict_get (records g) art = Some r \<and> grant_of r ag \<noteq> INVALID \<and>
     art_version (artifact r) = v \<and> rec_content r = b)"

definition coherent :: "registry \<Rightarrow> AgentRuntime \<Rightarrow> bool" where
  "coherent g rt \<longleftrightarrow> (\<forall>art e. dict_get (rt_cache rt) art = Some e \<longrightarrow> ce_state e \<noteq> INVALID \<longrightarrow>
     (\<exists>b. dict_get (content_by_artifact rt) art = Some b \<and> holds_copy g (rt_agent_id rt) art (local_version e) b))"

definition copies_kept :: "registry \<Rightarrow> registry \<Rightarrow> bool" where
  "copies_kept g h \<longleftrightarrow> (\<forall>ag art v b. holds_copy g ag art v b \<longrightarrow> holds_copy h ag art v b)"

definition texts :: "registry \<Rightarrow> bool" where
  "texts g \<longleftrightarrow> (\<forall>art r. dict_get (records g) art = Some r \<longrightarrow> (\<exists>s. rec_content r = Text s))"

lemma copies_kept_refl [simp]: "copies_kept g g"
  by (simp add: copies_kept_def)

lemma copies_kept_trans: "copies_kept g h \<Longrightarrow> copies_kept h k \<Longrightarrow> copies_kept g k"
  by (simp add: copies_kept_def)

lemma holds_copy_records: "records h = records g \<Longrightarrow> holds_copy h ag art v b = holds_copy g ag art v b"
  by (simp add: holds_copy_def)

lemma coherentD:
  assumes "coherent g rt" and "dict_get (rt_cache rt) art = Some e" and "ce_state e \<noteq> INVALID"
  obtains b where "dict_get (content_by_artifact rt) art = Some b" "holds_copy g (rt_agent_id rt) art (local_version e) b"
  using assms unfolding coherent_def by blast

lemma coherentI:
  "(\<And>art e. dict_get (rt_cache rt) art = Some e \<Longrightarrow> ce_state e \<noteq> INVALID \<Longrightarrow>
     \<exists>b. dict_get (content_by_artifact rt) art = Some b \<and> holds_copy g (rt_agent_id rt) art (local_version e) b) \<Longrightarrow> coherent g rt"
  unfolding coherent_def by blast

lemma coherent_mono: "coherent g rt \<Longrightarrow> copies_kept g h \<Longrightarrow> coherent h rt"
  unfolding coherent_def copies_kept_def by metis

text \<open>Off one artifact nothing changes.\<close>

lemma focus_holds_copy: "focus g art r h \<Longrightarrow> a \<noteq> art \<Longrightarrow> holds_copy h ag a v b = holds_copy g ag a v b"
  by (simp add: focus_def holds_copy_def)

lemma focus_texts: "focus g art r h \<Longrightarrow> texts g \<Longrightarrow> rec_content r = Text s \<Longrightarrow> texts h"
  unfolding texts_def focus_def by (metis option.inject)

lemma textsD: "texts g \<Longrightarrow> dict_get (records g) art = Some r \<Longrightarrow> \<exists>s. rec_content r = Text s"
  by (simp add: texts_def)

section \<open>A sound node\<close>

definition audit_ok :: "AgentRuntime \<Rightarrow> bool" where
  "audit_ok rt \<longleftrightarrow> (case content_audit_log rt of None \<Rightarrow> True | Some sink \<Rightarrow> \<forall>e. sink e)"

definition sound_runtime :: "AgentRuntime \<Rightarrow> bool" where
  "sound_runtime rt \<longleftrightarrow> rt_strategy rt \<noteq> BlindCacheStrategy \<and> audit_ok rt"

definition sound_node :: "node \<Rightarrow> bool" where
  "sound_node n \<longleftrightarrow> reg_ok True (node_registry n) \<and> texts (node_registry n) \<and> sound_runtime (node_runtime n) \<and>
     coherent (node_registry n) (node_runtime n)"

definition same_agent :: "AgentRuntime \<Rightarrow> AgentRuntime \<Rightarrow> bool" where
  "same_agent rt rt' \<longleftrightarrow> rt_agent_id rt' = rt_agent_id rt \<and> rt_strategy rt' = rt_strategy rt \<and>
     content_audit_log rt' = content_audit_log rt"

lemma same_agent_refl [simp]: "same_agent rt rt"
  by (simp add: same_agent_def)

lemma same_agent_trans: "same_agent a b \<Longrightarrow> same_agent b c \<Longrightarrow> same_agent a c"
  by (simp add: same_agent_def)

lemma same_agent_sound: "same_agent rt rt' \<Longrightarrow> sound_runtime rt' = sound_runtime rt"
  by (simp add: same_agent_def sound_runtime_def audit_ok_def)

lemma wp_on_coordinator [wp_simps]:
  "wp (on_coordinator m) Q E n =
     wp m (\<lambda>a g. Q a (n\<lparr>node_registry := g\<rparr>)) (\<lambda>e g. E e (n\<lparr>node_registry := g\<rparr>)) (node_registry n)"
  by (simp add: wp_def on_coordinator_def on_field_def split: prod.splits sum.splits)

lemma wp_asks_runtime [wp_simps]: "wp (asks_runtime f) Q E n = Q (f (node_runtime n)) n"
  by (simp add: asks_runtime_def wp_simps)

lemma wp_set_cache [wp_simps]:
  "wp (set_cache f) Q E n = Q () (n\<lparr>node_runtime := (node_runtime n)\<lparr>rt_cache := f (rt_cache (node_runtime n))\<rparr>\<rparr>)"
  by (simp add: set_cache_def wp_simps)

lemma wp_emit_audit:
  assumes "audit_ok (node_runtime n)"
    and "\<And>x y z. Q () (n\<lparr>node_runtime := (node_runtime n)\<lparr>rt_audit_seq := z\<rparr>, audit_seq := x, audit_taken := y\<rparr>)"
  shows "wp (emit_audit entry) Q E n"
proof (cases "content_audit_log (node_runtime n)")
  case None
  then show ?thesis
    using assms(2) [where x = "audit_seq n" and y = "audit_taken n" and z = "rt_audit_seq (node_runtime n)"]
    by (simp add: emit_audit_def wp_def)
next
  case (Some sink)
  let ?t = "audit_taken n @ [entry\<lparr>cv_sequence := audit_count n + 1\<rparr>]"
  show ?thesis
  proof (cases "rt_audit_seq (node_runtime n)")
    case None
    then have same: "(node_runtime n)\<lparr>rt_audit_seq := None\<rparr> = node_runtime n" by (cases "node_runtime n") simp
    have "Q () (n\<lparr>node_runtime := node_runtime n, audit_seq := audit_count n + 1, audit_taken := ?t\<rparr>)"
      using assms(2) [where x = "audit_count n + 1" and y = ?t and z = None] unfolding same .
    with None show ?thesis
      using Some assms(1)
      by (simp add: emit_audit_def wp_def audit_ok_def Let_def audit_count_def set_audit_count_def)
  next
    case (Some k)
    then show ?thesis
      using \<open>content_audit_log (node_runtime n) = Some sink\<close> assms(1)
        assms(2) [where x = "audit_seq n" and y = ?t and z = "Some (audit_count n + 1)"]
      by (simp add: emit_audit_def wp_def audit_ok_def Let_def audit_count_def set_audit_count_def)
  qed
qed

text \<open>A delivered text is stored (unless it came from the cache) and the audit callback takes its view.\<close>

lemma wp_record_content_view:
  assumes "audit_ok (node_runtime n)" and "b = Text s"
    and "\<And>h x y z. Q h (n\<lparr>node_runtime := (node_runtime n)\<lparr>content_by_artifact :=
       (if source = ''cache_hit'' then content_by_artifact (node_runtime n)
        else dict_set art b (content_by_artifact (node_runtime n))), rt_audit_seq := z\<rparr>, audit_seq := x, audit_taken := y\<rparr>)"
  shows "wp (record_content_view sha art (Some v) (Some b) source now) Q E n"
  using assms
  by (auto simp: record_content_view_def wp_simps compute_content_hash_def audit_ok_def intro!: wp_emit_audit split: if_splits)

section \<open>Publishing a new version\<close>

definition knows_agent :: "uuid \<Rightarrow> registry \<Rightarrow> ArtifactRecord \<Rightarrow> bool" where
  "knows_agent p g r \<longleftrightarrow> dict_get (state_by_agent r) p \<noteq> None"

lemma knows_agent_invalidate: "knows_agent p g r \<Longrightarrow> knows_agent p g (invalidate_peers ps r)"
proof (induction ps r rule: invalidate_peers.induct)
  case (2 peer st ps r)
  show ?case unfolding invalidate_peers.simps
    by (rule "2.IH") (use "2.prems" in \<open>auto simp: knows_agent_def Let_def\<close>)
qed simp

interpretation known_agent: record_contract art "knows_agent p" "\<lambda>_ _. True" "\<lambda>_. True" for art p
proof (unfold_locales, goal_cases)
  case (6 g r ag expected chash toks c)
  have "knows_agent p g r'" if "state_by_agent r' = state_by_agent r" for r'
    using 6(1) that by (simp add: knows_agent_def)
  then have "knows_agent p g (invalidate_peers ps r')" if "state_by_agent r' = state_by_agent r" for ps r'
    using that by (intro knows_agent_invalidate)
  then show ?case
    by (auto simp: won_record_def apply_win_def Let_def knows_agent_def capture_version_frame split: option.splits)
qed (auto simp: knows_agent_def)

text \<open>
  \<open>published g ag art v b h\<close>: between \<open>g\<close> and \<open>h\<close> the agent stored version \<open>v\<close> with body \<open>b\<close>, keeps a
  valid copy, and every other agent's copy is revoked, with its entry left at INVALID.
\<close>

definition had_copy :: "registry \<Rightarrow> uuid \<Rightarrow> uuid \<Rightarrow> bool" where
  "had_copy g ag art \<longleftrightarrow> (\<exists>v b. holds_copy g ag art v b)"

definition published :: "registry \<Rightarrow> uuid \<Rightarrow> uuid \<Rightarrow> int \<Rightarrow> body \<Rightarrow> registry \<Rightarrow> bool" where
  "published g ag art v b h \<longleftrightarrow> (\<forall>a. a \<noteq> art \<longrightarrow> dict_get (records h) a = dict_get (records g) a) \<and>
     (\<exists>r. dict_get (records h) art = Some r \<and> art_version (artifact r) = v \<and> rec_content r = b \<and> grant_of r ag \<noteq> INVALID \<and>
        (\<forall>q. q \<noteq> ag \<longrightarrow> grant_of r q = INVALID \<and> (had_copy g q art \<longrightarrow> dict_get (state_by_agent r) q = Some INVALID)))"

definition announced :: "registry \<Rightarrow> uuid \<Rightarrow> uuid \<Rightarrow> InvalidationSignal list \<Rightarrow> bool" where
  "announced g ag art sigs \<longleftrightarrow> (\<forall>sig \<in> set sigs. sig_artifact_id sig = art \<and> sig_issuer sig = ag) \<and>
     (sigs = [] \<longrightarrow> (\<forall>q. q \<noteq> ag \<longrightarrow> \<not> had_copy g q art))"

lemma had_copy_iff: "had_copy g ag art \<longleftrightarrow> (\<exists>r. dict_get (records g) art = Some r \<and> grant_of r ag \<noteq> INVALID)"
  by (auto simp: had_copy_def holds_copy_def)

lemma had_copy_known: "reg_ok F g \<Longrightarrow> had_copy g ag art \<Longrightarrow> record_has art (knows_agent ag) g"
  by (auto simp: had_copy_iff record_has_def knows_agent_def maps_wf_def get_default_def reg_ok_def rec_ok_def rec_inv_def
      split: option.splits)

lemma known_INVALID:
  "record_has art (knows_agent q) h \<Longrightarrow> dict_get (records h) art = Some r \<Longrightarrow> grant_of r q = INVALID \<Longrightarrow>
   dict_get (state_by_agent r) q = Some INVALID"
  by (auto simp: record_has_def knows_agent_def get_default_def)

lemma publishedI:
  assumes "\<And>a. a \<noteq> art \<Longrightarrow> dict_get (records h) a = dict_get (records g) a"
    and "dict_get (records h) art = Some r" and "art_version (artifact r) = v" and "rec_content r = b"
    and "grant_of r ag \<noteq> INVALID" and "\<And>q. q \<noteq> ag \<Longrightarrow> grant_of r q = INVALID"
    and "\<And>q. had_copy g q art \<Longrightarrow> record_has art (knows_agent q) h"
  shows "published g ag art v b h"
  using assms known_INVALID [OF assms(7) assms(2) assms(6)] unfolding published_def by blast

lemma no_peer_signals:
  assumes "dict_wf (state_by_agent r)" and "filter (peer_filter ag) (state_by_agent r) = []"
    and "dict_get (records g) art = Some r" and "q \<noteq> ag"
  shows "\<not> had_copy g q art"
proof
  assume "had_copy g q art"
  then have "grant_of r q \<noteq> INVALID" using assms(3) by (simp add: had_copy_iff)
  then obtain st where "dict_get (state_by_agent r) q = Some st" "st \<noteq> INVALID"
    by (auto simp: get_default_def split: option.splits)
  then have "(q, st) \<in> set (filter (peer_filter ag) (state_by_agent r))"
    using assms(4) by (auto dest: dict_get_in_set)
  with assms(2) show False by simp
qed

text \<open>The two coordinator calls of the pessimistic write.\<close>

definition peers_known :: "registry \<Rightarrow> uuid \<Rightarrow> registry \<Rightarrow> bool" where
  "peers_known g art h \<longleftrightarrow> reg_ok True h \<and> (\<forall>q. had_copy g q art \<longrightarrow> record_has art (knows_agent q) h)"

lemma peers_known_start: "reg_ok True g \<Longrightarrow> peers_known g art g"
  using had_copy_known by (simp add: peers_known_def)

lemma keeps_peers_known:
  "keeps (reg_ok True) m \<Longrightarrow> (\<And>q. keeps (record_has art (knows_agent q)) m) \<Longrightarrow> keeps (peers_known g art) m"
  unfolding keeps_def peers_known_def by blast

lemma wp_commit_published:
  assumes known: "peers_known g art h" and r: "dict_get (records h) art = Some r" and hold: "grant_of r ag \<in> M_OR_E_STATES"
    and others: "\<And>a. a \<noteq> art \<Longrightarrow> dict_get (records h) a = dict_get (records g) a"
    and post: "\<And>h'. reg_ok True h' \<Longrightarrow> published g ag art (art_version (artifact r) + 1) (Text text) h' \<Longrightarrow>
      Q (committed_artifact chash toks (artifact r), []) h'"
  shows "wp (commit sha ag art text t chash toks False) Q E h"
proof -
  let ?upd = "committed_artifact chash toks (artifact r)"
  let ?done = "\<lambda>x h'. x = (?upd, []) \<and> (\<exists>r2. focus h art r2 h' \<and> artifact r2 = ?upd \<and> rec_content r2 = Text text \<and>
     grant_of r2 ag \<noteq> INVALID \<and> (\<forall>p. p \<noteq> ag \<longrightarrow> grant_of r2 p = INVALID))"
  have ok: "reg_ok True h" using known by (simp add: peers_known_def)
  have "wp (commit sha ag art text t chash toks False) ?done (\<lambda>_ _. False) h"
    by (rule wp_commit [OF ok r hold]) (auto simp: get_default_def)
  moreover have "keeps (peers_known g art) (commit sha ag art text t chash toks False)"
    by (intro keeps_peers_known coh.op_commit known_agent.frame_commit TrueI)
  ultimately have "wp (commit sha ag art text t chash toks False) (\<lambda>x h'. ?done x h' \<and> peers_known g art h')
      (\<lambda>_ h'. False \<and> peers_known g art h') h"
    using known by (rule wp_keeping)
  then show ?thesis
  proof (rule wp_mono)
    fix x :: "Artifact \<times> InvalidationSignal list" and h'
    assume x: "?done x h' \<and> peers_known g art h'"
    then obtain r2 where r2: "focus h art r2 h'" "artifact r2 = ?upd" "rec_content r2 = Text text" "grant_of r2 ag \<noteq> INVALID"
      "\<forall>p. p \<noteq> ag \<longrightarrow> grant_of r2 p = INVALID" by blast
    have "published g ag art (art_version (artifact r) + 1) (Text text) h'"
      by (rule publishedI [where r = r2])
        (use r2 x others in \<open>auto simp: focus_def peers_known_def committed_artifact_def\<close>)
    with x post show "Q x h'" by (auto simp: peers_known_def)
  qed simp
qed

lemma wp_write_commit:
  assumes ok: "reg_ok True g" and r: "dict_get (records g) art = Some r"
    and post: "\<And>h upd sigs. reg_ok True h \<Longrightarrow> published g ag art (art_version upd) (Text text) h \<Longrightarrow>
      announced g ag art sigs \<Longrightarrow> Q (upd, sigs) h"
  shows "wp (write_op ag art t False)
     (\<lambda>ws. wp (commit sha ag art text t chash toks False) (\<lambda>(upd, cs). Q (upd, ws @ cs)) E) E g"
proof -
  have wf: "dict_wf (state_by_agent r)" using reg_ok_lookup [OF ok r] by (simp add: rec_ok_def rec_inv_def)
  let ?sigs = "map (\<lambda>_. signal art (art_version (artifact r)) t ag) (filter (peer_filter ag) (state_by_agent r))"
  have told: "announced g ag art ?sigs"
    using no_peer_signals [OF wf _ r] by (auto simp: announced_def signal_def)
  let ?taken = "\<lambda>ws h. ws = ?sigs \<and> (\<exists>r1. focus g art r1 h \<and> same_data r r1 \<and> dict_get (state_by_agent r1) ag = Some EXCLUSIVE)"
  have "wp (write_op ag art t False) ?taken (\<lambda>_ _. False) g" by (rule wp_write_op [OF ok r]) blast
  moreover have "keeps (peers_known g art) (write_op ag art t False)"
    by (intro keeps_peers_known coh.op_write known_agent.frame_write TrueI)
  ultimately have "wp (write_op ag art t False) (\<lambda>ws h. ?taken ws h \<and> peers_known g art h)
      (\<lambda>_ h. False \<and> peers_known g art h) g"
    using peers_known_start [OF ok] by (rule wp_keeping)
  then show ?thesis
  proof (rule wp_mono)
    fix ws h
    assume "?taken ws h \<and> peers_known g art h"
    then obtain r1 where r1: "focus g art r1 h" "same_data r r1" "dict_get (state_by_agent r1) ag = Some EXCLUSIVE"
      and ws: "ws = ?sigs" and known: "peers_known g art h" by blast
    show "wp (commit sha ag art text t chash toks False) (\<lambda>(upd, cs). Q (upd, ws @ cs)) E h"
      by (rule wp_commit_published [OF known, where r = r1])
        (use r1 told ws post in \<open>auto simp: focus_def get_default_def committed_artifact_def\<close>)
  qed simp
qed

text \<open>The same for one compare-and-swap.\<close>

lemma wp_cas_published:
  assumes ok: "reg_ok True g" and bad: "\<And>e. E e g"
    and conf: "\<And>d why. Q (Conflict d) (note_conflict art ag why g)"
    and win: "\<And>upd sigs h. reg_ok True h \<Longrightarrow> published g ag art (art_version upd) (Text text) h \<Longrightarrow>
      announced g ag art sigs \<Longrightarrow> Q (Committed upd sigs) h"
  shows "wp (commit_cas ag art expected chash t toks (Some (Text text)) False) Q E g"
proof -
  let ?m = "commit_cas ag art expected chash t toks (Some (Text text)) False"
  let ?P = "\<lambda>x h. case x of Conflict d \<Rightarrow> \<exists>why. h = note_conflict art ag why g
     | Committed upd sigs \<Rightarrow> announced g ag art sigs \<and> (\<forall>a. a \<noteq> art \<longrightarrow> dict_get (records h) a = dict_get (records g) a) \<and>
         (\<exists>r. dict_get (records h) art = Some r \<and> art_version (artifact r) = art_version upd \<and> rec_content r = Text text \<and>
           (\<forall>q. grant_of r q = (if q = ag then SHARED else INVALID)))"
  have "wp ?m ?P (\<lambda>_ h. h = g) g"
  proof (rule wp_commit_cas [OF ok], goal_cases)
    case (3 r s d)
    have wf: "dict_wf (state_by_agent r)" using reg_ok_lookup [OF ok 3(1)] by (simp add: rec_ok_def rec_inv_def)
    have "announced g ag art (map (\<lambda>_. signal art (art_version (artifact r) + 1) t ag) (valid_peers ag r))"
      using no_peer_signals [OF wf _ 3(1)] by (auto simp: announced_def signal_def valid_peers_def)
    then show ?case by (simp add: grant_of_won_record)
  qed (use ok in \<open>auto simp: reg_ok_def\<close>)
  moreover have "keeps (peers_known g art) ?m"
    by (intro keeps_peers_known coh.op_commit_cas known_agent.frame_commit_cas TrueI)
  ultimately have "wp ?m (\<lambda>x h. ?P x h \<and> peers_known g art h) (\<lambda>_ h. h = g \<and> peers_known g art h) g"
    using peers_known_start [OF ok] by (rule wp_keeping)
  then show ?thesis
  proof (rule wp_mono)
    fix x h
    assume x: "?P x h \<and> peers_known g art h"
    show "Q x h"
    proof (cases x)
      case (Committed upd sigs)
      with x obtain r where r: "dict_get (records h) art = Some r" "art_version (artifact r) = art_version upd"
        "rec_content r = Text text" "\<forall>q. grant_of r q = (if q = ag then SHARED else INVALID)" by auto
      have "published g ag art (art_version upd) (Text text) h"
        by (rule publishedI [where r = r]) (use r x Committed in \<open>auto simp: peers_known_def\<close>)
      with x Committed show ?thesis by (auto simp: peers_known_def intro: win)
    qed (use x conf in auto)
  qed (use bad in auto)
qed

text \<open>Reads in between do not matter.\<close>

definition read_only :: "uuid \<Rightarrow> registry \<Rightarrow> registry \<Rightarrow> bool" where
  "read_only art g h \<longleftrightarrow> (\<forall>a. a \<noteq> art \<longrightarrow> dict_get (records h) a = dict_get (records g) a) \<and>
     (dict_get (records h) art = None) = (dict_get (records g) art = None) \<and> copies_kept g h"

lemma read_only_refl [simp]: "read_only art g g"
  by (simp add: read_only_def)

lemma read_only_trans: "read_only art g h \<Longrightarrow> read_only art h k \<Longrightarrow> read_only art g k"
  unfolding read_only_def by (metis copies_kept_trans)

lemma read_only_copies: "read_only art g h \<Longrightarrow> had_copy g q a \<Longrightarrow> had_copy h q a"
  unfolding read_only_def copies_kept_def had_copy_def by blast

lemma read_only_published: "read_only art g h \<Longrightarrow> published h ag art v b k \<Longrightarrow> published g ag art v b k"
  using read_only_copies [of art g h] unfolding published_def read_only_def by metis

lemma read_only_announced: "read_only art g h \<Longrightarrow> announced h ag art sigs \<Longrightarrow> announced g ag art sigs"
  using read_only_copies [of art g h] unfolding announced_def by metis

section \<open>Reading through the cache\<close>

lemma entry_of_fetch:
  assumes "s \<noteq> BlindCacheStrategy"
  shows "ce_state (on_fetch s art v st now) = st" "local_version (on_fetch s art v st now) = v"
    "ce_state (on_read s e now) = ce_state e" "local_version (on_read s e now) = local_version e"
    "\<not> requires_refresh s e now \<Longrightarrow> ce_state e \<noteq> INVALID"
  using sync_strategy.fetched_entry [OF strategy_contract [OF assms]] sync_strategy.read_same [OF strategy_contract [OF assms]]
    sync_strategy.served_valid [OF strategy_contract [OF assms]] by auto

lemma coherent_put:
  assumes "coherent g rt" and "rt_agent_id rt' = rt_agent_id rt" and "rt_cache rt' = dict_set art e (rt_cache rt)"
    and "content_by_artifact rt' = dict_set art b (content_by_artifact rt)"
    and "\<And>a v c. a \<noteq> art \<Longrightarrow> holds_copy g (rt_agent_id rt) a v c \<Longrightarrow> holds_copy h (rt_agent_id rt) a v c"
    and "ce_state e \<noteq> INVALID \<Longrightarrow> holds_copy h (rt_agent_id rt) art (local_version e) b"
  shows "coherent h rt'"
  using assms unfolding coherent_def by (auto split: if_splits) metis

lemma sound_nodeD:
  assumes "sound_node n"
  shows "reg_ok True (node_registry n)" "texts (node_registry n)" "rt_strategy (node_runtime n) \<noteq> BlindCacheStrategy"
    "audit_ok (node_runtime n)" "coherent (node_registry n) (node_runtime n)"
  using assms by (simp_all add: sound_node_def sound_runtime_def)

lemma audit_ok_cong: "content_audit_log rt' = content_audit_log rt \<Longrightarrow> audit_ok rt' = audit_ok rt"
  by (simp add: audit_ok_def)

text \<open>A cache entry and a body are stored together, the audit cells may have moved.\<close>

definition stores :: "uuid \<Rightarrow> ArtifactCacheEntry \<Rightarrow> body \<Rightarrow> AgentRuntime \<Rightarrow> AgentRuntime \<Rightarrow> bool" where
  "stores art e b rt rt' \<longleftrightarrow> same_agent rt rt' \<and> rt_cache rt' = dict_set art e (rt_cache rt) \<and>
     content_by_artifact rt' = dict_set art b (content_by_artifact rt)"

lemma wp_store_view:
  assumes "audit_ok (node_runtime n)" and "source \<noteq> ''cache_hit''"
    and "\<And>n'. stores art e (Text s) (node_runtime n) (node_runtime n') \<Longrightarrow> node_registry n' = node_registry n \<Longrightarrow> Q x n'"
  shows "wp (set_cache (cache_put art e)) (\<lambda>_. wp (record_content_view sha art (Some v) (Some (Text s)) source now)
     (\<lambda>_. wp (ret x) Q E) E) E n"
  unfolding wp_set_cache
proof (rule wp_record_content_view [OF _ refl])
  show "audit_ok (node_runtime (n\<lparr>node_runtime := (node_runtime n)\<lparr>rt_cache := cache_put art e (rt_cache (node_runtime n))\<rparr>\<rparr>))"
    using assms(1) by (simp add: audit_ok_def)
qed (auto simp: wp_ret stores_def same_agent_def cache_put_def assms(2) intro!: assms(3))

lemma stores_coherent:
  assumes "coherent g rt" and "stores art e b rt rt'"
    and "\<And>a v c. a \<noteq> art \<Longrightarrow> holds_copy g (rt_agent_id rt) a v c \<Longrightarrow> holds_copy h (rt_agent_id rt) a v c"
    and "ce_state e \<noteq> INVALID \<Longrightarrow> holds_copy h (rt_agent_id rt) art (local_version e) b"
  shows "coherent h rt'"
  by (rule coherent_put [OF assms(1)]) (use assms(2-4) in \<open>simp_all add: stores_def same_agent_def\<close>)

lemma stores_sound:
  assumes sn: "sound_node n" and st: "stores art e b (node_runtime n) (node_runtime n')" and h: "node_registry n' = h"
    and "reg_ok True h" and "texts h"
    and "\<And>a v c. a \<noteq> art \<Longrightarrow> holds_copy (node_registry n) (rt_agent_id (node_runtime n)) a v c \<Longrightarrow>
      holds_copy h (rt_agent_id (node_runtime n)) a v c"
    and "ce_state e \<noteq> INVALID \<Longrightarrow> holds_copy h (rt_agent_id (node_runtime n)) art (local_version e) b"
  shows "sound_node n'"
proof -
  have "coherent h (node_runtime n')" by (rule stores_coherent [OF sound_nodeD(5) [OF sn] st assms(6,7)])
  moreover have "sound_runtime (node_runtime n')"
    using st sn same_agent_sound [of "node_runtime n" "node_runtime n'"] by (simp add: stores_def sound_node_def)
  ultimately show ?thesis using assms(3-5) by (simp add: sound_node_def)
qed

lemma fetch_copies:
  assumes f: "focus g art r' h" and data: "same_data r r'" and r: "dict_get (records g) art = Some r"
    and view: "\<And>p. dict_get (state_by_agent r') p =
         (if p = ag then Some (fetch_grant ag (state_by_agent r))
          else if grant_of r p \<in> M_OR_E_STATES then Some SHARED else dict_get (state_by_agent r) p)"
  shows "read_only art g h" "holds_copy h ag art (art_version (artifact r)) (rec_content r)"
proof -
  have valid: "grant_of r' p \<noteq> INVALID" if "grant_of r p \<noteq> INVALID" for p
    using view [of p] that by (auto simp: get_default_def fetch_grant_def)
  have h: "dict_get (records h) art = Some r'" "\<forall>a. a \<noteq> art \<longrightarrow> dict_get (records h) a = dict_get (records g) a"
    using f by (simp_all add: focus_def)
  have "holds_copy h p a v b" if "holds_copy g p a v b" for p a v b
    using that h r data valid [of p] by (cases "a = art") (auto simp: holds_copy_def same_data_def)
  then show "read_only art g h" using h r by (simp add: read_only_def copies_kept_def)
  show "holds_copy h ag art (art_version (artifact r)) (rec_content r)"
    using f data view [of ag] by (auto simp: holds_copy_def focus_def same_data_def get_default_def fetch_grant_def)
qed

lemma wp_runtime_fetch:
  assumes sn: "sound_node n" and r: "dict_get (records (node_registry n)) art = Some r"
    and post: "\<And>n' grant. sound_node n' \<Longrightarrow> same_agent (node_runtime n) (node_runtime n') \<Longrightarrow>
      read_only art (node_registry n) (node_registry n') \<Longrightarrow> dict_get (rt_cache (node_runtime n')) art \<noteq> None \<Longrightarrow>
      Q (FetchResponse art (art_version (artifact r)) (rec_content r) grant) n'"
  shows "wp (AgentRuntime_fetch sha art now) Q E n"
proof -
  note D = sound_nodeD [OF sn]
  obtain s where s: "rec_content r = Text s" using textsD [OF D(2) r] by blast
  let ?rt = "node_runtime n" and ?g = "node_registry n"
  let ?resp = "FetchResponse art (art_version (artifact r)) (rec_content r) (fetch_grant (rt_agent_id ?rt) (state_by_agent r))"
  let ?P = "\<lambda>x h. x = ?resp \<and> texts h \<and> read_only art ?g h \<and>
     holds_copy h (rt_agent_id ?rt) art (art_version (artifact r)) (rec_content r)"
  have "wp (fetch art (rt_agent_id ?rt) now) ?P (\<lambda>_ _. False) ?g"
    by (rule wp_fetch [OF D(1) r])
      (use fetch_copies [OF _ _ r] focus_texts [OF _ D(2)] s in \<open>auto simp: same_data_def\<close>)
  from wp_keeping [OF this coh.op_fetch [OF TrueI] D(1)]
  have "wp (fetch art (rt_agent_id ?rt) now)
    (\<lambda>response h. wp (set_cache (cache_put art (on_fetch (rt_strategy ?rt) art (resp_version response) (state_grant response) now)))
       (\<lambda>_. wp (record_content_view sha art (Some (resp_version response)) (Some (resp_content response)) ''fetch'' now)
          (\<lambda>_. wp (ret response) Q E) E) E (n\<lparr>node_registry := h\<rparr>)) (\<lambda>e h. E e (n\<lparr>node_registry := h\<rparr>)) ?g"
  proof (rule wp_mono)
    fix x h
    assume "?P x h \<and> reg_ok True h"
    then have x: "x = ?resp" and h: "reg_ok True h" "texts h" "read_only art ?g h"
      "holds_copy h (rt_agent_id ?rt) art (art_version (artifact r)) (rec_content r)" by simp_all
    let ?e = "on_fetch (rt_strategy ?rt) art (resp_version ?resp) (state_grant ?resp) now"
    have sound: "sound_node n'" if "stores art ?e (Text s) ?rt (node_runtime n')" "node_registry n' = h" for n'
      by (rule stores_sound [OF sn that h(1,2)])
        (use h(3,4) s in \<open>simp_all add: entry_of_fetch [OF D(3)] read_only_def copies_kept_def\<close>)
    have "wp (set_cache (cache_put art ?e)) (\<lambda>_. wp (record_content_view sha art (Some (resp_version ?resp)) (Some (Text s)) ''fetch'' now)
          (\<lambda>_. wp (ret ?resp) Q E) E) E (n\<lparr>node_registry := h\<rparr>)"
      by (rule wp_store_view) (use D(4) sound h(3) post in \<open>auto simp: stores_def\<close>)
    then show "wp (set_cache (cache_put art (on_fetch (rt_strategy ?rt) art (resp_version x) (state_grant x) now)))
       (\<lambda>_. wp (record_content_view sha art (Some (resp_version x)) (Some (resp_content x)) ''fetch'' now)
          (\<lambda>_. wp (ret x) Q E) E) E (n\<lparr>node_registry := h\<rparr>)" by (simp add: x s)
  qed simp
  then show ?thesis by (simp add: AgentRuntime_fetch_def wp_simps)
qed

lemma wp_fetch_missing:
  "dict_get (records (node_registry n)) art = None \<Longrightarrow> E (ArtifactNotFound art) n \<Longrightarrow> wp (AgentRuntime_fetch sha art now) Q E n"
  by (simp add: AgentRuntime_fetch_def fetch_def wp_simps get_artifact_def)

lemma valid_entry_copy:
  assumes "sound_node n" and "dict_get (rt_cache (node_runtime n)) art = Some e"
    and "\<not> requires_refresh (rt_strategy (node_runtime n)) e now"
  obtains r where "dict_get (records (node_registry n)) art = Some r"
    "dict_get (content_by_artifact (node_runtime n)) art = Some (rec_content r)" "local_version e = art_version (artifact r)"
    "grant_of r (rt_agent_id (node_runtime n)) \<noteq> INVALID"
proof -
  note D = sound_nodeD [OF assms(1)]
  have "ce_state e \<noteq> INVALID" by (rule entry_of_fetch(5) [OF D(3) assms(3)])
  from coherentD [OF D(5) assms(2) this] obtain b where b: "dict_get (content_by_artifact (node_runtime n)) art = Some b"
    "holds_copy (node_registry n) (rt_agent_id (node_runtime n)) art (local_version e) b" .
  from b(2) obtain r where "dict_get (records (node_registry n)) art = Some r" "rec_content r = b"
    "grant_of r (rt_agent_id (node_runtime n)) \<noteq> INVALID" "art_version (artifact r) = local_version e"
    unfolding holds_copy_def by blast
  with b(1) show ?thesis by (intro that) simp_all
qed

lemma missing_needs_fetch:
  assumes "sound_node n" and "dict_get (records (node_registry n)) art = None"
  shows "case cache_get art (rt_cache (node_runtime n)) of None \<Rightarrow> True
     | Some e \<Rightarrow> requires_refresh (rt_strategy (node_runtime n)) e now"
proof (cases "dict_get (rt_cache (node_runtime n)) art")
  case (Some e)
  have "requires_refresh (rt_strategy (node_runtime n)) e now"
    using valid_entry_copy [OF assms(1) Some] assms(2) by (metis option.distinct(1))
  with Some show ?thesis by (simp add: cache_get_def)
qed (simp add: cache_get_def)

lemma wp_read_missing:
  assumes "sound_node n" and "dict_get (records (node_registry n)) art = None" and "E (ArtifactNotFound art) n"
  shows "wp (AgentRuntime_read sha art now) Q E n"
  using missing_needs_fetch [OF assms(1,2), of now] wp_fetch_missing [OF assms(2), of E sha now Q] assms(3)
  by (auto simp: AgentRuntime_read_def wp_simps split: option.splits)

lemma wp_runtime_read:
  assumes sn: "sound_node n" and r: "dict_get (records (node_registry n)) art = Some r"
    and post: "\<And>n' grant. sound_node n' \<Longrightarrow> same_agent (node_runtime n) (node_runtime n') \<Longrightarrow>
      read_only art (node_registry n) (node_registry n') \<Longrightarrow>
      Q (FetchResponse art (art_version (artifact r)) (rec_content r) grant) n'"
  shows "wp (AgentRuntime_read sha art now) Q E n"
proof -
  note D = sound_nodeD [OF sn]
  let ?rt = "node_runtime n"
  have fetch: "wp (AgentRuntime_fetch sha art now) Q E n" by (rule wp_runtime_fetch [OF sn r]) (rule post)
  show ?thesis
  proof (cases "case cache_get art (rt_cache ?rt) of None \<Rightarrow> True | Some e \<Rightarrow> requires_refresh (rt_strategy ?rt) e now")
    case True
    with fetch show ?thesis by (auto simp: AgentRuntime_read_def wp_simps split: option.splits)
  next
    case False
    then obtain e where e: "dict_get (rt_cache ?rt) art = Some e" "\<not> requires_refresh (rt_strategy ?rt) e now"
      by (auto simp: cache_get_def split: option.splits)
    obtain r' where r': "dict_get (records (node_registry n)) art = Some r'"
      "dict_get (content_by_artifact ?rt) art = Some (rec_content r')" "local_version e = art_version (artifact r')"
      "grant_of r' (rt_agent_id ?rt) \<noteq> INVALID"
      by (rule valid_entry_copy [OF sn e])
    obtain s where s: "rec_content r = Text s" using textsD [OF D(2) r] by blast
    let ?t = "on_read (rt_strategy ?rt) e now"
    let ?n = "n\<lparr>node_runtime := ?rt\<lparr>rt_cache := dict_set art ?t (rt_cache ?rt)\<rparr>\<rparr>"
    have "Q (FetchResponse art (local_version ?t) (rec_content r) (ce_state ?t)) n'"
      if n': "node_registry n' = node_registry n" "same_agent ?rt (node_runtime n')"
        "rt_cache (node_runtime n') = dict_set art ?t (rt_cache ?rt)" "content_by_artifact (node_runtime n') = content_by_artifact ?rt" for n'
    proof -
      have "holds_copy (node_registry n) (rt_agent_id ?rt) art (local_version ?t) (rec_content r')"
        using r' by (auto simp: holds_copy_def entry_of_fetch [OF D(3)])
      then have "coherent (node_registry n') (node_runtime n')"
        using D(5) n' r'(2) by (auto simp: coherent_def same_agent_def)
      then have "sound_node n'" using sn n'(1) same_agent_sound [OF n'(2)] by (simp add: sound_node_def)
      from post [OF this n'(2)] show ?thesis using n'(1) r r' by (simp add: entry_of_fetch [OF D(3)])
    qed
    then have "wp (record_content_view sha art (Some (local_version ?t)) (Some (Text s)) ''cache_hit'' now)
      (\<lambda>_. wp (ret (FetchResponse art (local_version ?t) (Text s) (ce_state ?t))) Q E) E ?n"
      by (intro wp_record_content_view [OF _ refl])
        (use D(4) s in \<open>auto simp: wp_ret audit_ok_def same_agent_def\<close>)
    with e r r' s show ?thesis
      by (simp add: AgentRuntime_read_def wp_simps cache_get_def cache_put_def get_default_def Let_def wp_ret [abs_def])
  qed
qed

section \<open>Writing through the cache\<close>

lemma wp_refresh_missing:
  assumes "sound_node n" and "dict_get (records (node_registry n)) art = None" and "E (ArtifactNotFound art) n"
  shows "wp (refresh_if_needed sha art now) Q E n"
  using missing_needs_fetch [OF assms(1,2), of now] wp_fetch_missing [OF assms(2), of E] assms(3)
  by (auto simp: refresh_if_needed_def wp_simps split: option.splits)

lemma wp_refresh:
  assumes sn: "sound_node n" and r: "dict_get (records (node_registry n)) art = Some r"
    and post: "\<And>n'. sound_node n' \<Longrightarrow> same_agent (node_runtime n) (node_runtime n') \<Longrightarrow>
      read_only art (node_registry n) (node_registry n') \<Longrightarrow> Q () n'"
  shows "wp (refresh_if_needed sha art now) Q E n"
proof -
  have "wp (AgentRuntime_fetch sha art now) (\<lambda>_. Q ()) E n" by (rule wp_runtime_fetch [OF sn r]) (rule post)
  moreover have "Q () n" by (rule post [OF sn]) simp_all
  ultimately show ?thesis by (simp add: refresh_if_needed_def wp_simps wp_ret [abs_def])
qed

lemma published_other: "published g ag art v b h \<Longrightarrow> a \<noteq> art \<Longrightarrow> holds_copy h q a w c = holds_copy g q a w c"
  by (simp add: published_def holds_copy_def)

lemma published_own: "published g ag art v b h \<Longrightarrow> holds_copy h ag art v b"
  by (auto simp: published_def holds_copy_def)

lemma published_texts: "published g ag art v (Text s) h \<Longrightarrow> texts g \<Longrightarrow> texts h"
  unfolding published_def texts_def by (metis option.inject)

text \<open>The tail of both write flows: the new version goes into the cache.\<close>

definition wrote :: "node \<Rightarrow> uuid \<Rightarrow> Artifact \<Rightarrow> string \<Rightarrow> InvalidationSignal list \<Rightarrow> node \<Rightarrow> bool" where
  "wrote n art upd content sigs n' \<longleftrightarrow> sound_node n' \<and> same_agent (node_runtime n) (node_runtime n') \<and>
     published (node_registry n) (rt_agent_id (node_runtime n)) art (art_version upd) (Text content) (node_registry n') \<and>
     announced (node_registry n) (rt_agent_id (node_runtime n)) art sigs \<and>
     dict_get (content_by_artifact (node_runtime n')) art = Some (Text content)"

lemma wp_write_tail:
  assumes sn: "sound_node n" and h: "reg_ok True h" "published (node_registry n) (rt_agent_id (node_runtime n)) art v (Text content) h"
    and src: "source \<noteq> ''cache_hit''"
    and post: "\<And>n'. sound_node n' \<Longrightarrow> same_agent (node_runtime n) (node_runtime n') \<Longrightarrow> node_registry n' = h \<Longrightarrow>
      dict_get (content_by_artifact (node_runtime n')) art = Some (Text content) \<Longrightarrow> Q x n'"
  shows "wp (set_cache (cache_put art (on_fetch (rt_strategy (node_runtime n)) art v st now)))
    (\<lambda>_. wp (record_content_view sha art (Some v) (Some (Text content)) source now) (\<lambda>_. wp (ret x) Q E) E) E (n\<lparr>node_registry := h\<rparr>)"
proof (rule wp_store_view [OF _ src])
  note D = sound_nodeD [OF sn]
  show "audit_ok (node_runtime (n\<lparr>node_registry := h\<rparr>))" using D(4) by simp
  fix n' :: node
  assume n': "stores art (on_fetch (rt_strategy (node_runtime n)) art v st now) (Text content)
      (node_runtime (n\<lparr>node_registry := h\<rparr>)) (node_runtime n')" "node_registry n' = node_registry (n\<lparr>node_registry := h\<rparr>)"
  have st: "stores art (on_fetch (rt_strategy (node_runtime n)) art v st now) (Text content) (node_runtime n) (node_runtime n')"
    "node_registry n' = h" using n' by simp_all
  have "sound_node n'"
    by (rule stores_sound [OF sn st h(1) published_texts [OF h(2) D(2)]])
      (simp_all add: entry_of_fetch(1,2) [OF D(3)] published_other [OF h(2)] published_own [OF h(2)])
  then show "Q x n'" by (rule post) (use n' in \<open>simp_all add: stores_def\<close>)
qed

lemma wp_write_missing:
  assumes "sound_node n" and "dict_get (records (node_registry n)) art = None" and "E (ArtifactNotFound art) n"
  shows "wp (AgentRuntime_write sha art content now None toks) Q E n"
  using assms by (simp add: AgentRuntime_write_def wp_andthen wp_refresh_missing)

lemma wroteI:
  assumes "sound_node n'" and "same_agent (node_runtime n) (node_runtime m)" and "same_agent (node_runtime m) (node_runtime n')"
    and "read_only art (node_registry n) (node_registry m)"
    and "published (node_registry m) (rt_agent_id (node_runtime m)) art (art_version upd) (Text content) (node_registry n')"
    and "announced (node_registry m) (rt_agent_id (node_runtime m)) art sigs"
    and "dict_get (content_by_artifact (node_runtime n')) art = Some (Text content)"
  shows "wrote n art upd content sigs n'"
  using assms same_agent_trans [OF assms(2,3)] read_only_published [OF assms(4,5)] read_only_announced [OF assms(4,6)]
  by (simp add: wrote_def same_agent_def)

lemma wp_runtime_write:
  assumes sn: "sound_node n" and r: "dict_get (records (node_registry n)) art = Some r"
    and post: "\<And>n' upd sigs. wrote n art upd content sigs n' \<Longrightarrow> Q (upd, sigs) n'"
  shows "wp (AgentRuntime_write sha art content now None toks) Q E n"
  unfolding AgentRuntime_write_def option.case if_False wp_andthen
proof (rule wp_refresh [OF sn r], goal_cases)
  case (1 m)
  let ?rt = "node_runtime m" and ?g = "node_registry m"
  let ?tail = "\<lambda>(upd, sigs) h. wp (set_cache (cache_put art (on_fetch (rt_strategy ?rt) art (art_version upd) MODIFIED now)))
     (\<lambda>_. wp (record_content_view sha art (Some (art_version upd)) (Some (Text content)) ''write'' now)
       (\<lambda>_. wp (ret (upd, sigs)) Q E) E) E (m\<lparr>node_registry := h\<rparr>)"
  obtain r' where r': "dict_get (records ?g) art = Some r'" using 1(3) r by (auto simp: read_only_def)
  have "wp (write_op (rt_agent_id ?rt) art now False) (\<lambda>ws. wp (commit sha (rt_agent_id ?rt) art content now None toks False)
      (\<lambda>(upd, cs). ?tail (upd, ws @ cs)) (\<lambda>e h. E e (m\<lparr>node_registry := h\<rparr>))) (\<lambda>e h. E e (m\<lparr>node_registry := h\<rparr>)) ?g"
  proof (rule wp_write_commit [OF sound_nodeD(1) [OF 1(1)] r'], unfold case_prod_conv, goal_cases)
    case (1 h upd sigs)
    show ?case
      by (rule wp_write_tail [OF \<open>sound_node m\<close> 1(1,2)])
        (use 1 \<open>same_agent (node_runtime n) ?rt\<close> \<open>read_only art (node_registry n) ?g\<close> in \<open>auto intro!: post wroteI [where m = m]\<close>)
  qed
  then show ?case by (simp add: wp_simps case_prod_unfold wp_andthen [abs_def])
qed

section \<open>Optimistic writes through the cache\<close>

lemma records_note [simp]: "records (note_conflict art ag why g) = records g"
  by (simp add: note_conflict_def)

lemma same_records:
  assumes "records h = records g"
  shows "coherent h rt = coherent g rt" "texts h = texts g" "read_only art k h = read_only art k g" "copies_kept h k = copies_kept g k"
  using assms by (simp_all add: coherent_def texts_def read_only_def copies_kept_def holds_copy_def)

text \<open>A node that has only read since \<open>n\<close>.\<close>

definition has_read :: "node \<Rightarrow> uuid \<Rightarrow> node \<Rightarrow> bool" where
  "has_read n art m \<longleftrightarrow> sound_node m \<and> same_agent (node_runtime n) (node_runtime m) \<and>
     read_only art (node_registry n) (node_registry m) \<and> dict_get (records (node_registry m)) art \<noteq> None"

lemma has_read_start: "sound_node n \<Longrightarrow> dict_get (records (node_registry n)) art = Some r \<Longrightarrow> has_read n art n"
  by (simp add: has_read_def)

lemma has_read_note: "has_read n art m \<Longrightarrow> has_read n art (m\<lparr>node_registry := note_conflict a ag why (node_registry m)\<rparr>)"
  by (simp add: has_read_def sound_node_def same_records [OF records_note])

lemma has_read_fetch:
  assumes m: "has_read n art m" and post: "\<And>x m'. has_read n art m' \<Longrightarrow> dict_get (rt_cache (node_runtime m')) art \<noteq> None \<Longrightarrow> Q x m'"
  shows "wp (AgentRuntime_fetch sha art now) Q E m"
proof -
  obtain r where r: "dict_get (records (node_registry m)) art = Some r" and sn: "sound_node m"
    using m by (auto simp: has_read_def)
  show ?thesis
  proof (rule wp_runtime_fetch [OF sn r], rule post)
    fix m'
    assume "sound_node m'" "same_agent (node_runtime m) (node_runtime m')" "read_only art (node_registry m) (node_registry m')"
    then show "has_read n art m'"
      using m same_agent_trans read_only_trans unfolding has_read_def by (metis read_only_def)
  qed
qed

lemma wp_current_entry:
  assumes m: "has_read n art m" and post: "\<And>e m'. has_read n art m' \<Longrightarrow> Q e m'"
  shows "wp (current_entry sha art now) Q E m"
proof -
  have "wp (AgentRuntime_fetch sha art now) (\<lambda>_ m'. case dict_get (rt_cache (node_runtime m')) art of
      None \<Rightarrow> E AssertionError m' | Some e \<Rightarrow> Q e m') E m"
    by (rule has_read_fetch [OF m]) (auto intro: post)
  then show ?thesis
    using post [OF m]
    by (auto simp: current_entry_def wp_simps cache_get_def wp_andthen [abs_def] split: option.split elim!: wp_mono)
qed

lemma wp_cas_round:
  assumes m: "has_read n art m" and rt: "rt = node_runtime m"
    and post: "\<And>n' upd sigs. wrote n art upd content sigs n' \<Longrightarrow> Q (upd, sigs) n'"
    and fail: "\<And>e. E e m"
    and again: "\<And>d m'. has_read n art m' \<Longrightarrow> wp (retry d) Q E m'"
  shows "wp (commit_cas (rt_agent_id rt) art (local_version e) ch now None (Some (Text content)) False)
     (\<lambda>result h. wp (case result of
        Conflict d \<Rightarrow> retry d
      | Committed updated signals \<Rightarrow>
          andthen (set_cache (cache_put art (on_fetch (rt_strategy rt) art (art_version updated) SHARED now))) (\<lambda>_.
          andthen (record_content_view sha art (Some (art_version updated)) (Some (Text content)) ''write_cas'' now) (\<lambda>_.
          ret (updated, signals)))) Q E (m\<lparr>node_registry := h\<rparr>))
     (\<lambda>e h. E e (m\<lparr>node_registry := h\<rparr>)) (node_registry m)"
proof (rule wp_cas_published, unfold cas_outcome.case wp_andthen, goal_cases)
  case 1
  show ?case using m by (simp add: has_read_def sound_node_def)
next
  case (2 e)
  show ?case using fail by simp
next
  case (3 d why)
  show ?case by (rule again [OF has_read_note [OF m]])
next
  case (4 upd sigs h)
  have sn: "sound_node m" using m by (simp add: has_read_def)
  show ?case
    unfolding rt
    by (rule wp_write_tail [OF sn 4(1)])
      (use m rt 4 in \<open>auto simp: has_read_def intro!: post wroteI [where m = m]\<close>)
qed

lemma wp_cas_attempts:
  assumes "has_read n art m"
    and post: "\<And>n' upd content sigs. wrote n art upd content sigs n' \<Longrightarrow> Q (upd, sigs) n'"
    and fail: "\<And>e n'. has_read n art n' \<Longrightarrow> E e n'"
  shows "wp (cas_attempts k sha art mk now ma seen) Q E m"
  using assms(1)
proof (induction k arbitrary: m seen)
  case 0
  then show ?case by (simp add: wp_simps fail)
next
  case (Suc k)
  have retry: "wp (andthen (AgentRuntime_fetch sha art now) (\<lambda>_. cas_attempts k sha art mk now ma v)) Q E m'"
    if "has_read n art m'" for m' v
    unfolding wp_andthen by (rule has_read_fetch [OF that]) (rule Suc.IH)
  show ?case
    unfolding cas_attempts.simps wp_andthen
  proof (rule wp_current_entry [OF Suc.prems], goal_cases)
    case (1 e m)
    show ?case
    proof (cases "mk e")
      case (Inr p)
      obtain content provided where p: "p = (content, provided)" by (cases p)
      show ?thesis
      proof (cases "resolve_content_hash sha content provided")
        case hash: (Inr ch)
        show ?thesis
          unfolding Inr p wp_lift_sum sum.case prod.case wp_andthen hash wp_asks_runtime id_apply wp_on_coordinator
          by (rule wp_cas_round [OF 1 refl post fail [OF 1] retry])
      qed (use 1 in \<open>simp add: wp_simps fail Inr p\<close>)
    qed (use 1 in \<open>simp add: wp_simps fail\<close>)
  qed
qed

lemma wp_runtime_write_cas:
  assumes sn: "sound_node n" and r: "dict_get (records (node_registry n)) art = Some r"
    and post: "\<And>n' upd content sigs. wrote n art upd content sigs n' \<Longrightarrow> Q (upd, sigs) n'"
    and fail: "\<And>e n'. has_read n art n' \<Longrightarrow> E e n'"
  shows "wp (AgentRuntime_write_cas sha art mk now) Q E n"
  unfolding AgentRuntime_write_cas_def wp_andthen
proof (rule wp_refresh [OF sn r], unfold wp_asks_runtime, rule wp_cas_attempts)
  fix m
  assume "sound_node m" "same_agent (node_runtime n) (node_runtime m)" "read_only art (node_registry n) (node_registry m)"
  then show "has_read n art m" using r by (simp add: has_read_def read_only_def)
qed (use post fail in auto)

lemma wp_write_cas_missing:
  assumes "sound_node n" and "dict_get (records (node_registry n)) art = None" and "E (ArtifactNotFound art) n"
  shows "wp (AgentRuntime_write_cas sha art mk now) Q E n"
  using assms by (simp add: AgentRuntime_write_cas_def wp_andthen wp_refresh_missing)

end
