(* ===== verification/Deliveries.thy ===== *)
theory Deliveries
  imports Runtime_Coherence
begin

text \<open>
  What the two event handlers of a runtime do: an invalidation is applied, and then drops the
  cached copy, or is declined because the runtime holds a newer one; an update makes the recipient
  and the writer readers of the version it carries.
\<close>

section \<open>Deliveries\<close>

definition revoked :: "registry \<Rightarrow> uuid \<Rightarrow> uuid \<Rightarrow> registry \<Rightarrow> bool" where
  "revoked g ag art h \<longleftrightarrow> (\<forall>a. a \<noteq> art \<longrightarrow> dict_get (records h) a = dict_get (records g) a) \<and>
     (case dict_get (records g) art of None \<Rightarrow> dict_get (records h) art = None
      | Some r \<Rightarrow> \<exists>r'. dict_get (records h) art = Some r' \<and> same_data r r' \<and>
          (\<forall>q. dict_get (state_by_agent r') q = (if q = ag then Some INVALID else dict_get (state_by_agent r) q)))"

lemma revoked_missing: "dict_get (records g) art = None \<Longrightarrow> revoked g ag art g"
  by (simp add: revoked_def)

lemma focus_revoked:
  assumes "focus g art r' h" and "dict_get (records g) art = Some r"
    and "settled (apply_agent_state ag INVALID trig tick r) r'"
  shows "revoked g ag art h"
  using assms(1,2) settled_fields [OF assms(3)] by (auto simp: revoked_def focus_def same_data_def)

lemma revoked_texts:
  assumes "revoked g ag art h" and "texts g"
  shows "texts h"
proof -
  have "\<exists>s. rec_content r = Text s" if "dict_get (records h) a = Some r" for a r
    using assms that by (cases "a = art") (auto simp: revoked_def texts_def same_data_def split: option.splits)
  then show ?thesis by (simp add: texts_def)
qed

lemma wp_invalidate:
  assumes ok: "reg_ok True g"
    and applied: "\<And>x h. reg_ok True h \<Longrightarrow> revoked g ag art h \<Longrightarrow>
      (x = None \<longrightarrow> dict_get (records g) art = None) \<Longrightarrow> Q x h"
    and declined: "get_agent_state art ag g \<noteq> Some INVALID \<Longrightarrow> dict_get (records g) art \<noteq> None \<Longrightarrow> Q None g"
  shows "wp (invalidate ag art v issuer tick False) Q E g"
proof (cases "dict_get (records g) art")
  case None
  then show ?thesis
    using applied [OF ok revoked_missing [OF None]]
    by (simp add: invalidate_def invalidate_impl_def wp_simps has_artifact_def)
next
  case (Some r)
  have at: "focus g art r g" using ok Some by (simp add: focus_def reg_ok_def)
  let ?m = "andthen (set_agent_state art ag INVALID ''invalidate'' tick None) (\<lambda>_. clear_agent_transient art ag)"
  have "wp ?m (\<lambda>_ h. revoked g ag art h) (\<lambda>_ _. False) g"
    unfolding wp_andthen
    by (rule focus_set_agent_state [OF at], erule focus_clear_agent_transient) (rule focus_revoked [OF _ Some])
  moreover have "keeps (reg_ok True) ?m" by (intro keeps_intros keeps_prims)
  ultimately have "wp ?m (\<lambda>_ h. revoked g ag art h \<and> reg_ok True h) (\<lambda>_ h. False \<and> reg_ok True h) g"
    using ok by (rule wp_keeping)
  then have "wp (set_agent_state art ag INVALID ''invalidate'' tick None)
    (\<lambda>_. wp (clear_agent_transient art ag) (\<lambda>_. Q (Some x)) E) E g" for x
    unfolding wp_andthen by (elim wp_mono) (auto intro: applied)
  then show ?thesis
    using Some declined
    by (auto simp: invalidate_def invalidate_impl_def wp_simps wp_andthen [abs_def] wp_ret [abs_def]
        has_artifact_def revoke_is_superseded_def split: if_splits)
qed

text \<open>The cache after a delivered invalidation.\<close>

definition dropped :: "uuid \<Rightarrow> AgentRuntime \<Rightarrow> AgentRuntime \<Rightarrow> bool" where
  "dropped art rt rt' \<longleftrightarrow> same_agent rt rt' \<and> content_by_artifact rt' = content_by_artifact rt \<and>
     (\<forall>a. a \<noteq> art \<longrightarrow> dict_get (rt_cache rt') a = dict_get (rt_cache rt) a) \<and>
     (\<exists>e. dict_get (rt_cache rt') art = Some e \<and> ce_state e = INVALID)"

lemma cache_invalidate_drops: "dropped art rt (rt\<lparr>rt_cache := cache_invalidate art v t (rt_cache rt)\<rparr>)"
  by (auto simp: dropped_def same_agent_def cache_invalidate_def invalid_entry_def Let_def split: option.split)

lemma wp_handle_invalidation:
  assumes ok: "reg_ok True (node_registry n)" and art: "sig_artifact_id sig = art"
    and applied: "\<And>n'. reg_ok True (node_registry n') \<Longrightarrow> dropped art (node_runtime n) (node_runtime n') \<Longrightarrow>
      revoked (node_registry n) (rt_agent_id (node_runtime n)) art (node_registry n') \<Longrightarrow> Q () n'"
    and declined: "get_agent_state art (rt_agent_id (node_runtime n)) (node_registry n) \<noteq> Some INVALID \<Longrightarrow> Q () n"
  shows "wp (handle_invalidation sig) Q E n"
proof -
  have gone: "\<not> has_artifact art h" if "revoked (node_registry n) ag art h" "dict_get (records (node_registry n)) art = None" for ag h
    using that by (simp add: revoked_def has_artifact_def)
  show ?thesis
    unfolding handle_invalidation_def wp_andthen wp_asks_runtime id_apply wp_on_coordinator wp_asks art
    by (rule wp_invalidate [OF ok])
      (use gone declined in \<open>auto simp: wp_simps has_artifact_def intro!: applied cache_invalidate_drops\<close>)
qed

text \<open>
  An update makes its recipient and the writer readers. In between, the recipient is a reader
  beside a writer in MODIFIED; afterwards there is no write holder left.
\<close>

definition fence_le :: "ArtifactRecord \<Rightarrow> bool" where
  "fence_le r \<longleftrightarrow> (\<forall>a n. dict_get (read_generation_by_agent r) a = Some n \<longrightarrow> n \<le> owner_generation r)"

lemma fence_le_apply: "fence_le r \<Longrightarrow> fence_le (apply_agent_state ag st trig tick r)"
  by (auto simp: fence_le_def apply_agent_state_fields simp del: M_OR_E_iff split: if_splits intro: le_SucI)

lemma settle_rec_ok:
  assumes ok: "rec_ok F art r" and free: "\<And>q. q \<noteq> w \<Longrightarrow> grant_of r q \<notin> M_OR_E_STATES"
  shows "rec_ok F art (apply_agent_state w SHARED t2 tick (apply_agent_state ag SHARED t1 tick r))"
proof -
  let ?r1 = "apply_agent_state ag SHARED t1 tick r"
  let ?r2 = "apply_agent_state w SHARED t2 tick ?r1"
  have inv: "rec_inv r" using ok by (simp add: rec_ok_def)
  have none: "grant_of ?r2 q \<notin> M_OR_E_STATES" for q using free [of q] by (cases "q = w") simp_all
  have "fence_le r" using rec_invD(4) [OF inv] by (simp add: fence_ok_def fence_le_def)
  then have "fence_le ?r2" by (intro fence_le_apply)
  then have "fence_ok ?r2" using none by (simp add: fence_ok_def fence_le_def)
  moreover have "swmr ?r2" using none by (simp add: swmr_def)
  moreover have "grants_ok ?r2" "observed_ok ?r2"
    using rec_invD [OF inv] by (intro apply_agent_state_grants apply_agent_state_observed_ok; simp)+
  moreover have "dict_wf (state_by_agent ?r2)" using rec_invD(1) [OF inv] by simp
  ultimately have "rec_inv ?r2" by (intro rec_invI)
  then show ?thesis using ok by (auto simp: rec_ok_def fresh_apply_agent_state)
qed

abbreviation records_wf :: "registry \<Rightarrow> bool" where
  "records_wf g \<equiv> dict_wf (records g)"

lemma keeps_records_wf: "keeps records_wf (set_agent_state art ag st trig tick ch)"
proof (rule keepsI)
  fix g
  assume "records_wf g"
  then show "wp (set_agent_state art ag st trig tick ch) (\<lambda>_. records_wf) (\<lambda>_. records_wf) g"
    by (cases "dict_get (records g) art")
      (auto simp: set_agent_state_def wp_simps, auto simp: wp_simps intro!: wp_emit_state_log)
qed

lemma keeps_records_wf_transient: "keeps records_wf (clear_agent_transient art ag)"
  by (rule keepsI) (simp add: clear_agent_transient_def wp_simps split: option.split)

lemma reg_ok_focus:
  assumes "reg_ok F g" and "focus g art r h" and "rec_ok F art r" and "records_wf h"
  shows "reg_ok F h"
proof -
  have "rec_ok F a r'" if "dict_get (records h) a = Some r'" for a r'
    using assms that by (cases "a = art") (auto simp: reg_ok_def focus_def)
  then show ?thesis using assms(2,4) by (simp add: reg_ok_def focus_def)
qed

lemma settled_apply: "settled r r' \<Longrightarrow> settled (apply_agent_state ag st trig tick r) (apply_agent_state ag st trig tick r')"
proof -
  assume "settled r r'"
  then obtain x y where r': "r' = r\<lparr>transient_by_agent := x, transient_tick_by_agent := y\<rparr>" by (auto simp: settled_def)
  have "apply_agent_state ag st trig tick r' =
      (apply_agent_state ag st trig tick r)\<lparr>transient_by_agent := x, transient_tick_by_agent := y\<rparr>"
    by (simp add: r' apply_agent_state_def Let_def)
  then show ?thesis by simp
qed

lemma wp_settle_update:
  assumes ok: "reg_ok True g" and r: "dict_get (records g) art = Some r"
    and free: "\<And>q. q \<noteq> w \<Longrightarrow> grant_of r q \<notin> M_OR_E_STATES"
    and post: "\<And>h r'. reg_ok True h \<Longrightarrow> focus g art r' h \<Longrightarrow> same_data r r' \<Longrightarrow>
      (\<And>q. dict_get (state_by_agent r') q = (if q = ag \<or> q = w then Some SHARED else dict_get (state_by_agent r) q)) \<Longrightarrow> Q () h"
  shows "wp (settle_update art ag (Some w) now) Q E g"
proof -
  have at: "focus g art r g" using ok r by (simp add: focus_def reg_ok_def)
  have rok: "rec_ok True art r" by (rule reg_ok_lookup [OF ok r])
  let ?done = "\<lambda>h. \<exists>r'. focus g art r' h \<and> rec_ok True art r' \<and> same_data r r' \<and>
    (\<forall>q. dict_get (state_by_agent r') q = (if q = ag \<or> q = w then Some SHARED else dict_get (state_by_agent r) q))"
  have "wp (settle_update art ag (Some w) now) (\<lambda>_. ?done) (\<lambda>_ _. False) g"
    unfolding settle_update_def option.case wp_andthen
  proof (rule focus_set_agent_state [OF at], erule focus_clear_agent_transient, erule focus_set_agent_state,
      erule focus_clear_agent_transient)
    fix h r1 h' r2
    assume r1: "settled (apply_agent_state ag SHARED ''update'' now r) r1" and h: "focus g art r2 h'"
      and r2: "settled (apply_agent_state w SHARED ''update'' now r1) r2"
    have "rec_ok True art r2"
      using settle_rec_ok [OF rok free] settled_fields(6) [OF r2] settled_fields(6) [OF settled_apply [OF r1]] by simp
    then show "?done h'"
      using h settled_fields [OF r1] settled_fields [OF r2] by (intro exI [of _ r2]) (auto simp: same_data_def)
  qed
  moreover have "keeps records_wf (settle_update art ag (Some w) now)"
    unfolding settle_update_def option.case by (intro keeps_intros keeps_records_wf keeps_records_wf_transient)
  moreover have "records_wf g" using ok by (simp add: reg_ok_def)
  ultimately have "wp (settle_update art ag (Some w) now) (\<lambda>_ h. ?done h \<and> records_wf h) (\<lambda>_ h. False \<and> records_wf h) g"
    by (rule wp_keeping)
  then show ?thesis
    by (rule wp_mono) (use reg_ok_focus [OF ok] in \<open>auto intro!: post\<close>)
qed

definition refreshed :: "registry \<Rightarrow> uuid \<Rightarrow> uuid \<Rightarrow> uuid \<Rightarrow> registry \<Rightarrow> bool" where
  "refreshed g ag w art h \<longleftrightarrow> (\<forall>a. a \<noteq> art \<longrightarrow> dict_get (records h) a = dict_get (records g) a) \<and>
     (\<exists>r r'. dict_get (records g) art = Some r \<and> dict_get (records h) art = Some r' \<and> same_data r r' \<and>
        (\<forall>q. dict_get (state_by_agent r') q = (if q = ag \<or> q = w then Some SHARED else dict_get (state_by_agent r) q)))"

lemma wp_handle_update:
  assumes ok: "reg_ok True (node_registry n)" and sound: "sound_runtime (node_runtime n)"
    and r: "dict_get (records (node_registry n)) art = Some r" "art_version (artifact r) = v"
    and free: "\<And>q. q \<noteq> w \<Longrightarrow> grant_of r q \<notin> M_OR_E_STATES" and peer: "rt_agent_id (node_runtime n) \<noteq> w"
    and post: "\<And>n' e. reg_ok True (node_registry n') \<Longrightarrow> stores art e (Text s) (node_runtime n) (node_runtime n') \<Longrightarrow>
      local_version e = v \<Longrightarrow> refreshed (node_registry n) (rt_agent_id (node_runtime n)) w art (node_registry n') \<Longrightarrow> Q () n'"
  shows "wp (handle_update sha art v (Text s) now (Some w)) Q E n"
proof -
  let ?rt = "node_runtime n" and ?g = "node_registry n"
  let ?e = "on_fetch (rt_strategy ?rt) art v SHARED now"
  have strat: "rt_strategy ?rt \<noteq> BlindCacheStrategy" and audit: "audit_ok ?rt" using sound by (simp_all add: sound_runtime_def)
  have reader: "get_agent_state art (rt_agent_id ?rt) ?g \<notin> {Some MODIFIED, Some EXCLUSIVE}"
    using write_holder_grant [of art "rt_agent_id ?rt" ?g] r(1) free [OF peer] by auto
  have settle: "wp (settle_update art (rt_agent_id ?rt) (Some w) now) (\<lambda>_ h. Q () (n'\<lparr>node_registry := h\<rparr>)) E' ?g"
    if "stores art ?e (Text s) ?rt (node_runtime n')" for n' and E' :: "py_error \<Rightarrow> registry \<Rightarrow> bool"
    by (rule wp_settle_update [OF ok r(1) free])
      (use that r(1) in \<open>auto simp: refreshed_def focus_def entry_of_fetch(2) [OF strat] intro!: post\<close>)
  have "wp (set_cache (cache_put art ?e)) (\<lambda>_. wp (record_content_view sha art (Some v) (Some (Text s)) ''broadcast'' now)
     (\<lambda>_. wp (ret ()) (\<lambda>_. wp (on_coordinator (settle_update art (rt_agent_id ?rt) (Some w) now)) Q E) E) E) E n"
    by (rule wp_store_view [OF audit]) (simp_all add: wp_on_coordinator settle)
  then show ?thesis
    using reader r by (simp add: handle_update_def wp_simps get_artifact_def wp_ret [abs_def] wp_andthen [abs_def])
qed

end
