(* ===== verification/Cluster_Coherence.thy ===== *)
theory Cluster_Coherence
  imports Deliveries
begin

text \<open>
  The caches of a cluster of agents are coherent with the coordinator: in every state that the
  adapter's calls reach, a valid cache entry is a copy the coordinator knows, at the current version.
  The proof follows a write through its commit, which revokes the copies of the peers in the
  directory, and the deliveries, which bring the caches of the peers into line.
\<close>

section \<open>Steps of a cluster\<close>

text \<open>One call of a method of the adapter; an artifact gets an identifier that no artifact has.\<close>

inductive cluster_step :: "(string \<Rightarrow> string) \<Rightarrow> (string \<Rightarrow> uuid) \<Rightarrow> AdapterCore \<Rightarrow> AdapterCore \<Rightarrow> bool"
  for sha :: "string \<Rightarrow> string" and u5 :: "string \<Rightarrow> uuid" where
  add_agent: "cluster_step sha u5 c (snd (core_register_agent u5 name now c))"
| add_artifact: "dict_get (records (core_registry c)) minted = None \<Longrightarrow>
    cluster_step sha u5 c (snd (core_register_artifact minted name content toks c))"
| do_read: "cluster_step sha u5 c (snd (core_read sha name art now c))"
| do_write: "cluster_step sha u5 c (snd (core_write sha name art content now c))"
| do_write_cas: "cluster_step sha u5 c (snd (core_write_cas sha name art make_content now c))"
| do_heartbeat: "cluster_step sha u5 c (snd (core_heartbeat name now c))"
| do_recover: "cluster_step sha u5 c (snd (core_recover name now c))"

definition cluster_init :: "AdapterCore \<Rightarrow> bool" where
  "cluster_init c \<longleftrightarrow> (\<exists>strategy ttl acc sink inst audit start retain config minted epoch now.
     new_CoherenceAdapterCore strategy ttl acc None sink inst audit start retain (Some config) minted epoch now = Inr c) \<and>
     \<not> cr_enabled (core_crash_recovery c) \<and> core_strategy c \<noteq> BlindCacheStrategy \<and> log_ok (core_registry c) \<and>
     (case core_audit_log c of None \<Rightarrow> True | Some sink \<Rightarrow> \<forall>e. sink e)"

section \<open>The invariant\<close>

text \<open>The identifiers of the agents, and the whole binding for the identifier \<open>w\<close>.\<close>

definition roster :: "uuid \<Rightarrow> AdapterCore \<Rightarrow> (uuid \<times> (string \<times> AgentRuntime) option) list" where
  "roster w c = map (\<lambda>(name, rt). (rt_agent_id rt, if rt_agent_id rt = w then Some (name, rt) else None)) (agents_by_name c)"

definition agent_key :: "(string \<Rightarrow> uuid) \<Rightarrow> string \<Rightarrow> uuid" where
  "agent_key u5 name = u5 (''ccs-agent:'' @ name)"

definition bound_ok :: "(string \<Rightarrow> uuid) \<Rightarrow> AdapterCore \<Rightarrow> string \<Rightarrow> AgentRuntime \<Rightarrow> bool" where
  "bound_ok u5 c name rt \<longleftrightarrow> rt_agent_id rt = agent_key u5 name \<and> sound_runtime rt \<and>
     dict_get (invalidation_handlers (event_bus c)) (rt_agent_id rt) = Some name \<and>
     dict_get (update_handlers (event_bus c)) (rt_agent_id rt) = Some name"

definition wired :: "(string \<Rightarrow> uuid) \<Rightarrow> AdapterCore \<Rightarrow> bool" where
  "wired u5 c \<longleftrightarrow> reg_ok True (core_registry c) \<and> texts (core_registry c) \<and> \<not> cr_enabled (core_crash_recovery c) \<and>
     core_strategy c \<noteq> BlindCacheStrategy \<and> (case core_audit_log c of None \<Rightarrow> True | Some sink \<Rightarrow> \<forall>e. sink e) \<and>
     dict_wf (agents_by_name c) \<and> (\<forall>name rt. dict_get (agents_by_name c) name = Some rt \<longrightarrow> bound_ok u5 c name rt)"

definition cluster_ok :: "(string \<Rightarrow> uuid) \<Rightarrow> AdapterCore \<Rightarrow> bool" where
  "cluster_ok u5 c \<longleftrightarrow> wired u5 c \<and> (\<forall>name rt. dict_get (agents_by_name c) name = Some rt \<longrightarrow> coherent (core_registry c) rt)"

lemma wiredD:
  assumes "wired u5 c"
  shows "reg_ok True (core_registry c)" "texts (core_registry c)" "\<not> cr_enabled (core_crash_recovery c)"
    "dict_get (agents_by_name c) name = Some rt \<Longrightarrow> bound_ok u5 c name rt"
  using assms by (simp_all add: wired_def)

lemma cluster_node:
  "cluster_ok u5 c \<Longrightarrow> dict_get (agents_by_name c) name = Some rt \<Longrightarrow> sound_node (node_of rt c)"
  by (simp add: cluster_ok_def wired_def bound_ok_def sound_node_def node_of_def)

lemma node_of_fields [simp]: "node_registry (node_of rt c) = core_registry c" "node_runtime (node_of rt c) = rt"
  by (simp_all add: node_of_def)

lemma put_node_fields [simp]:
  "core_registry (put_node name n c) = node_registry n" "event_bus (put_node name n c) = event_bus c"
  "agents_by_name (put_node name n c) = dict_set name (node_runtime n) (agents_by_name c)"
  "core_crash_recovery (put_node name n c) = core_crash_recovery c" "core_strategy (put_node name n c) = core_strategy c"
  "core_audit_log (put_node name n c) = core_audit_log c"
  by (simp_all add: put_node_def)

lemma wp_binding [wp_simps]:
  "wp (binding name) Q E c = (case dict_get (agents_by_name c) name of None \<Rightarrow> E KeyError c | Some rt \<Rightarrow> Q rt c)"
  by (simp add: wp_def binding_def split: option.split)

lemma wp_on_runtime [wp_simps]:
  "wp (on_runtime name m) Q E c = (case dict_get (agents_by_name c) name of
     None \<Rightarrow> E KeyError c
   | Some rt \<Rightarrow> wp m (\<lambda>a n. Q a (put_node name n c)) (\<lambda>e n. E e (put_node name n c)) (node_of rt c))"
  by (simp add: on_runtime_def wp_andthen wp_binding split: option.split)
    (simp add: wp_def split: prod.splits sum.splits)

lemma wp_on_core_registry [wp_simps]:
  "wp (on_core_registry m) Q E c =
     wp m (\<lambda>a g. Q a (c\<lparr>core_registry := g\<rparr>)) (\<lambda>e g. E e (c\<lparr>core_registry := g\<rparr>)) (core_registry c)"
  by (simp add: wp_def on_core_registry_def on_field_def split: prod.splits sum.splits)

lemma wp_touch_agent: "\<not> cr_enabled (core_crash_recovery c) \<Longrightarrow> wp (touch_agent ag now) Q E c = Q () c"
  by (simp add: touch_agent_def maybe_sweep_def wp_simps)

text \<open>Names and identifiers do not change under a step of one runtime.\<close>

lemma wired_put:
  assumes "wired u5 c" and "dict_get (agents_by_name c) name = Some rt" and "same_agent rt (node_runtime n)"
    and "reg_ok True (node_registry n)" and "texts (node_registry n)"
  shows "wired u5 (put_node name n c)"
proof -
  have "bound_ok u5 (put_node name n c) name' rt'"
    if "dict_get (agents_by_name (put_node name n c)) name' = Some rt'" for name' rt'
  proof (cases "name' = name")
    case True
    then show ?thesis
      using that wiredD(4) [OF assms(1,2)] assms(3) same_agent_sound [OF assms(3)] by (auto simp: bound_ok_def same_agent_def)
  next
    case False
    then show ?thesis using that wiredD(4) [OF assms(1), of name' rt'] by (auto simp: bound_ok_def)
  qed
  then show ?thesis using assms by (simp add: wired_def)
qed

lemma cluster_ok_read:
  assumes ok: "cluster_ok u5 c" and rt: "dict_get (agents_by_name c) name = Some rt"
    and n: "sound_node n" "same_agent rt (node_runtime n)" and kept: "copies_kept (core_registry c) (node_registry n)"
  shows "cluster_ok u5 (put_node name n c)"
proof -
  have "wired u5 (put_node name n c)"
    by (rule wired_put [OF _ rt n(2)]) (use ok n(1) in \<open>simp_all add: cluster_ok_def sound_node_def\<close>)
  moreover have "coherent (node_registry n) rt'" if "dict_get (agents_by_name (put_node name n c)) name' = Some rt'" for name' rt'
    using that ok n(1) coherent_mono [OF _ kept] by (auto simp: cluster_ok_def sound_node_def split: if_splits)
  ultimately show ?thesis by (simp add: cluster_ok_def)
qed

section \<open>Between a commit and the last delivery\<close>

definition coherent_at :: "registry \<Rightarrow> AgentRuntime \<Rightarrow> uuid \<Rightarrow> bool" where
  "coherent_at g rt art \<longleftrightarrow> (\<forall>e. dict_get (rt_cache rt) art = Some e \<longrightarrow> ce_state e \<noteq> INVALID \<longrightarrow>
     (\<exists>b. dict_get (content_by_artifact rt) art = Some b \<and> holds_copy g (rt_agent_id rt) art (local_version e) b))"

lemma coherent_at: "coherent g rt \<longleftrightarrow> (\<forall>art. coherent_at g rt art)"
  by (auto simp: coherent_def coherent_at_def)

lemma coherent_at_mono:
  "coherent_at g rt art \<Longrightarrow> (\<And>v b. holds_copy g (rt_agent_id rt) art v b \<Longrightarrow> holds_copy h (rt_agent_id rt) art v b) \<Longrightarrow> coherent_at h rt art"
  unfolding coherent_at_def by blast

lemma coherent_at_no_copy: "coherent_at g rt art \<Longrightarrow> \<not> had_copy g (rt_agent_id rt) art \<Longrightarrow> coherent_at h rt art"
  unfolding coherent_at_def had_copy_def by blast

text \<open>
  The writer \<open>w\<close> has stored version \<open>v\<close> with body \<open>b\<close>. Every cache is coherent but for the entries
  for \<open>art\<close> of the agents in \<open>todo\<close>, whose copies the coordinator has revoked.
\<close>

definition settling :: "(string \<Rightarrow> uuid) \<Rightarrow> uuid \<Rightarrow> uuid \<Rightarrow> int \<Rightarrow> body \<Rightarrow> uuid set \<Rightarrow> AdapterCore \<Rightarrow> bool" where
  "settling u5 w art v b todo c \<longleftrightarrow> wired u5 c \<and> (\<exists>r. dict_get (records (core_registry c)) art = Some r \<and>
     art_version (artifact r) = v \<and> rec_content r = b \<and> (\<forall>q. q \<noteq> w \<longrightarrow> grant_of r q \<notin> M_OR_E_STATES) \<and>
     (\<forall>name rt. dict_get (agents_by_name c) name = Some rt \<longrightarrow>
        (\<forall>a. a \<noteq> art \<longrightarrow> coherent_at (core_registry c) rt a) \<and>
        (coherent_at (core_registry c) rt art \<or>
         rt_agent_id rt \<in> todo \<and> dict_get (state_by_agent r) (rt_agent_id rt) = Some INVALID)))"

lemma settlingE:
  assumes "settling u5 w art v b todo c"
  obtains r where "wired u5 c" "dict_get (records (core_registry c)) art = Some r" "art_version (artifact r) = v" "rec_content r = b"
    "\<And>q. q \<noteq> w \<Longrightarrow> grant_of r q \<notin> M_OR_E_STATES"
    "\<And>name rt a. dict_get (agents_by_name c) name = Some rt \<Longrightarrow> a \<noteq> art \<Longrightarrow> coherent_at (core_registry c) rt a"
    "\<And>name rt. dict_get (agents_by_name c) name = Some rt \<Longrightarrow> coherent_at (core_registry c) rt art \<or>
       rt_agent_id rt \<in> todo \<and> dict_get (state_by_agent r) (rt_agent_id rt) = Some INVALID"
  using assms unfolding settling_def by blast

lemma settlingI:
  assumes "wired u5 c" and "dict_get (records (core_registry c)) art = Some r" and "art_version (artifact r) = v" and "rec_content r = b"
    and "\<And>q. q \<noteq> w \<Longrightarrow> grant_of r q \<notin> M_OR_E_STATES"
    and "\<And>name rt a. dict_get (agents_by_name c) name = Some rt \<Longrightarrow> a \<noteq> art \<Longrightarrow> coherent_at (core_registry c) rt a"
    and "\<And>name rt. dict_get (agents_by_name c) name = Some rt \<Longrightarrow> coherent_at (core_registry c) rt art \<or>
       rt_agent_id rt \<in> todo \<and> dict_get (state_by_agent r) (rt_agent_id rt) = Some INVALID"
  shows "settling u5 w art v b todo c"
  using assms unfolding settling_def by blast

lemma settling_mono: "settling u5 w art v b todo c \<Longrightarrow> todo \<subseteq> todo' \<Longrightarrow> settling u5 w art v b todo' c"
  unfolding settling_def by blast

lemma settling_done: "settling u5 w art v b {} c \<Longrightarrow> cluster_ok u5 c"
  unfolding settling_def cluster_ok_def coherent_at by (metis empty_iff)

lemma same_key:
  assumes "wired u5 c" and "inj (agent_key u5)" and "dict_get (agents_by_name c) name = Some rt"
    and "dict_get (agents_by_name c) name' = Some rt'" and "rt_agent_id rt' = rt_agent_id rt"
  shows "name' = name"
  using assms wiredD(4) [OF assms(1,3)] wiredD(4) [OF assms(1,4)] by (simp add: bound_ok_def inj_eq)

text \<open>The state right after a write.\<close>

lemma wrote_settling:
  assumes ok: "cluster_ok u5 c" and inj: "inj (agent_key u5)" and rt: "dict_get (agents_by_name c) name = Some rt"
    and w: "wrote (node_of rt c) art upd content sigs n"
    and todo: "\<And>name' rt'. sigs \<noteq> [] \<Longrightarrow> dict_get (agents_by_name c) name' = Some rt' \<Longrightarrow> name' \<noteq> name \<Longrightarrow> rt_agent_id rt' \<in> todo"
  shows "settling u5 (rt_agent_id rt) art (art_version upd) (Text content) todo (put_node name n c)"
proof -
  let ?g = "core_registry c" and ?h = "node_registry n"
  have sn: "sound_node n" and same: "same_agent rt (node_runtime n)" and told: "announced ?g (rt_agent_id rt) art sigs"
    and pub: "published ?g (rt_agent_id rt) art (art_version upd) (Text content) ?h"
    using w by (simp_all add: wrote_def)
  have wired: "wired u5 c" using ok by (simp add: cluster_ok_def)
  have own: "coherent_at ?h (node_runtime n) a" for a using sn by (simp add: sound_node_def coherent_at)
  have before: "coherent_at ?g rt' a" if "dict_get (agents_by_name c) name' = Some rt'" for name' rt' a
    using ok that by (simp add: cluster_ok_def coherent_at)
  obtain r where r: "dict_get (records ?h) art = Some r" "art_version (artifact r) = art_version upd" "rec_content r = Text content"
    and peers: "\<And>q. q \<noteq> rt_agent_id rt \<Longrightarrow> grant_of r q = INVALID \<and> (had_copy ?g q art \<longrightarrow> dict_get (state_by_agent r) q = Some INVALID)"
    using pub unfolding published_def by blast
  show ?thesis
  proof (rule settlingI [where r = r], goal_cases)
    case 1
    show ?case by (rule wired_put [OF wired rt same]) (use sn in \<open>simp_all add: sound_node_def\<close>)
  next
    case (6 name' rt' a)
    then show ?case
      using own before [of name' rt' a] published_other [OF pub] by (auto split: if_splits intro: coherent_at_mono)
  next
    case (7 name' rt')
    show ?case
    proof (cases "name' = name")
      case True
      with 7 own show ?thesis by simp
    next
      case False
      with 7 have rt': "dict_get (agents_by_name c) name' = Some rt'" by simp
      then have q: "rt_agent_id rt' \<noteq> rt_agent_id rt" using same_key [OF wired inj rt] False by blast
      show ?thesis
      proof (cases "had_copy ?g (rt_agent_id rt') art")
        case True
        then have "sigs \<noteq> []" using told q by (auto simp: announced_def)
        from todo [OF this rt' False] peers [OF q] True show ?thesis by blast
      next
        case False
        then show ?thesis using coherent_at_no_copy [OF before [OF rt']] by blast
      qed
    qed
  qed (use r peers in auto)
qed

section \<open>Dispatch\<close>

lemma dict_set_same: "dict_get d k = Some v \<Longrightarrow> dict_set k v d = d"
  by (induction d) auto

lemma put_node_same: "dict_get (agents_by_name c) name = Some rt \<Longrightarrow> put_node name (node_of rt c) c = c"
  by (cases c) (simp add: put_node_def node_of_def dict_set_same option.map_id0 split: option.split)

lemma map_dict_set: "dict_get d k = Some v \<Longrightarrow> f (k, v') = f (k, v) \<Longrightarrow> map f (dict_set k v' d) = map f d"
  by (induction d) auto

lemma roster_put:
  "dict_get (agents_by_name c) name = Some rt \<Longrightarrow> rt_agent_id (node_runtime n) = rt_agent_id rt \<Longrightarrow>
   rt_agent_id rt \<noteq> w \<Longrightarrow> roster w (put_node name n c) = roster w c"
  unfolding roster_def put_node_fields by (rule map_dict_set [where v = rt]) simp_all

lemma settling_revoked:
  assumes st: "settling u5 w art v b todo c" and inj: "inj (agent_key u5)" and rt: "dict_get (agents_by_name c) name = Some rt"
    and peer: "rt_agent_id rt \<noteq> w" and ok: "reg_ok True (node_registry n)" and drop: "dropped art rt (node_runtime n)"
    and rev: "revoked (core_registry c) (rt_agent_id rt) art (node_registry n)"
  shows "settling u5 w art v b (todo - {rt_agent_id rt}) (put_node name n c)"
proof -
  let ?g = "core_registry c" and ?h = "node_registry n"
  from st show ?thesis
  proof (rule settlingE)
    fix r
    assume wired: "wired u5 c" and r: "dict_get (records ?g) art = Some r" "art_version (artifact r) = v" "rec_content r = b"
      and free: "\<And>q. q \<noteq> w \<Longrightarrow> grant_of r q \<notin> M_OR_E_STATES"
      and others: "\<And>name rt a. dict_get (agents_by_name c) name = Some rt \<Longrightarrow> a \<noteq> art \<Longrightarrow> coherent_at ?g rt a"
      and entry: "\<And>name rt. dict_get (agents_by_name c) name = Some rt \<Longrightarrow> coherent_at ?g rt art \<or>
         rt_agent_id rt \<in> todo \<and> dict_get (state_by_agent r) (rt_agent_id rt) = Some INVALID"
    obtain r' where r': "dict_get (records ?h) art = Some r'" "same_data r r'"
      and view: "\<And>q. dict_get (state_by_agent r') q = (if q = rt_agent_id rt then Some INVALID else dict_get (state_by_agent r) q)"
      and rest: "\<And>a. a \<noteq> art \<Longrightarrow> dict_get (records ?h) a = dict_get (records ?g) a"
      using rev r(1) by (auto simp: revoked_def)
    have copies: "holds_copy ?h q a u d" if "holds_copy ?g q a u d" "a \<noteq> art \<or> q \<noteq> rt_agent_id rt" for q a u d
      using that r r' view [of q] rest [of a] by (cases "a = art") (auto simp: holds_copy_def same_data_def get_default_def)
    have same: "same_agent rt (node_runtime n)" using drop by (simp add: dropped_def)
    show ?thesis
    proof (rule settlingI [where r = r'], goal_cases)
      case 1
      show ?case
        by (rule wired_put [OF wired rt same ok revoked_texts [OF rev]]) (use wired in \<open>simp add: wired_def\<close>)
    next
      case (5 q)
      then show ?case using free [of q] view [of q] by (auto simp: get_default_def)
    next
      case (6 name' rt' a)
      have "coherent_at ?g (node_runtime n) a" using others [OF rt 6(2)] drop 6(2) by (simp add: coherent_at_def dropped_def same_agent_def)
      with 6 others [of name' rt' a] copies show ?case by (auto split: if_splits intro: coherent_at_mono)
    next
      case (7 name' rt')
      show ?case
      proof (cases "name' = name")
        case True
        with 7 drop show ?thesis by (auto simp: coherent_at_def dropped_def)
      next
        case False
        with 7 have rt': "dict_get (agents_by_name c) name' = Some rt'" by simp
        then have "rt_agent_id rt' \<noteq> rt_agent_id rt" using same_key [OF wired inj rt] False by blast
        with entry [OF rt'] view [of "rt_agent_id rt'"] copies show ?thesis by (auto intro: coherent_at_mono)
      qed
    qed (use r r' in \<open>simp_all add: same_data_def\<close>)
  qed
qed

lemma wp_call_invalidation:
  assumes st: "settling u5 w art v b todo c" and inj: "inj (agent_key u5)" and rt: "dict_get (agents_by_name c) name = Some rt"
    and peer: "rt_agent_id rt \<noteq> w" and art: "sig_artifact_id sig = art"
    and post: "\<And>c'. settling u5 w art v b (todo - {rt_agent_id rt}) c' \<Longrightarrow> event_bus c' = event_bus c \<Longrightarrow>
      roster w c' = roster w c \<Longrightarrow> Q () c'"
  shows "wp (call_invalidation name sig) Q E c"
  unfolding call_invalidation_def wp_on_runtime rt option.case
proof (rule wp_handle_invalidation [OF _ art])
  have wired: "wired u5 c" using st by (simp add: settling_def)
  then show "reg_ok True (node_registry (node_of rt c))" by (simp add: wired_def)
  show "Q () (put_node name n' c)"
    if n': "reg_ok True (node_registry n')" "dropped art (node_runtime (node_of rt c)) (node_runtime n')"
      "revoked (node_registry (node_of rt c)) (rt_agent_id (node_runtime (node_of rt c))) art (node_registry n')" for n'
  proof (rule post)
    show "settling u5 w art v b (todo - {rt_agent_id rt}) (put_node name n' c)"
      by (rule settling_revoked [OF st inj rt peer]) (use n' in simp_all)
  qed (use rt n'(2) in \<open>simp_all add: roster_put dropped_def same_agent_def peer\<close>)
  assume keep: "get_agent_state art (rt_agent_id (node_runtime (node_of rt c))) (node_registry (node_of rt c)) \<noteq> Some INVALID"
  have "settling u5 w art v b (todo - {rt_agent_id rt}) c"
    using st
  proof (rule settlingE)
    fix r
    assume s: "dict_get (records (core_registry c)) art = Some r" "art_version (artifact r) = v" "rec_content r = b"
      "\<And>q. q \<noteq> w \<Longrightarrow> grant_of r q \<notin> M_OR_E_STATES"
      "\<And>name rt a. dict_get (agents_by_name c) name = Some rt \<Longrightarrow> a \<noteq> art \<Longrightarrow> coherent_at (core_registry c) rt a"
      and entry: "\<And>name rt. dict_get (agents_by_name c) name = Some rt \<Longrightarrow> coherent_at (core_registry c) rt art \<or>
       rt_agent_id rt \<in> todo \<and> dict_get (state_by_agent r) (rt_agent_id rt) = Some INVALID"
    have "dict_get (state_by_agent r) (rt_agent_id rt) \<noteq> Some INVALID"
      using keep s(1) by (simp add: get_agent_state_def)
    note apart = this
    show ?thesis
    proof (rule settlingI [OF wired s(1-3)])
      fix name' rt'
      assume "dict_get (agents_by_name c) name' = Some rt'"
      from entry [OF this] apart show "coherent_at (core_registry c) rt' art \<or>
        rt_agent_id rt' \<in> todo - {rt_agent_id rt} \<and> dict_get (state_by_agent r) (rt_agent_id rt') = Some INVALID"
        by auto
    qed (use s in blast)+
  qed
  then show "Q () (put_node name (node_of rt c) c)" by (simp add: put_node_same [OF rt] post)
qed

lemma listed:
  assumes "wired u5 c" and "q \<in> fst ` set (roster w c)"
  obtains name rt where "dict_get (agents_by_name c) name = Some rt" "rt_agent_id rt = q" "bound_ok u5 c name rt"
proof -
  obtain name rt where mem: "(name, rt) \<in> set (agents_by_name c)" and q: "rt_agent_id rt = q"
    using assms(2) by (auto simp: roster_def)
  have wf: "dict_wf (agents_by_name c)" using assms(1) unfolding wired_def by blast
  have rt: "dict_get (agents_by_name c) name = Some rt" using mem unfolding dict_in_set_get [OF wf] .
  show ?thesis by (rule that [OF rt q wiredD(4) [OF assms(1) rt]])
qed

lemma wp_publish_invalidation:
  assumes st: "settling u5 w art v b todo c" and inj: "inj (agent_key u5)" and art: "sig_artifact_id sig = art"
    and ids: "set peers \<subseteq> fst ` set (roster w c)" "w \<notin> set peers"
    and post: "\<And>x c'. settling u5 w art v b (todo - set peers) c' \<Longrightarrow> event_bus c' = event_bus c \<Longrightarrow> roster w c' = roster w c \<Longrightarrow> Q x c'"
  shows "wp (publish_invalidation call_invalidation (event_bus c) sig peers) Q E c"
  unfolding publish_invalidation_def
proof (rule wp_for_loop [where I = "\<lambda>left _ c'. set left \<subseteq> set peers \<and> settling u5 w art v b (todo - (set peers - set left)) c' \<and>
    event_bus c' = event_bus c \<and> roster w c' = roster w c"])
  fix q left k c1
  assume I: "set (q # left) \<subseteq> set peers \<and> settling u5 w art v b (todo - (set peers - set (q # left))) c1 \<and>
    event_bus c1 = event_bus c \<and> roster w c1 = roster w c"
  then have st1: "settling u5 w art v b (todo - (set peers - set (q # left))) c1" by blast
  with I have wired: "wired u5 c1" and q: "q \<in> fst ` set (roster w c1)" "q \<noteq> w" using ids by (auto simp: settling_def)
  obtain name rt where rt: "dict_get (agents_by_name c1) name = Some rt" "rt_agent_id rt = q" "bound_ok u5 c1 name rt"
    by (rule listed [OF wired q(1)])
  have h: "dict_get (invalidation_handlers (event_bus c)) q = Some name" using rt(2,3) I by (auto simp: bound_ok_def)
  have "wp (call_invalidation name sig) (\<lambda>_ c'. set left \<subseteq> set peers \<and> settling u5 w art v b (todo - (set peers - set left)) c' \<and>
    event_bus c' = event_bus c \<and> roster w c' = roster w c) E c1"
  proof (rule wp_call_invalidation [OF st1 inj rt(1) _ art], goal_cases)
    case (2 c')
    have "settling u5 w art v b (todo - (set peers - set left)) c'"
      by (rule settling_mono [OF 2(1)]) (use rt(2) in auto)
    with 2 I show ?case by simp
  qed (use q rt(2) in auto)
  then show "wp (publish_to call_invalidation (invalidation_handlers (event_bus c)) sig k q)
    (\<lambda>_ c'. set left \<subseteq> set peers \<and> settling u5 w art v b (todo - (set peers - set left)) c' \<and>
    event_bus c' = event_bus c \<and> roster w c' = roster w c) E c1"
    by (simp add: publish_to_def h wp_andthen wp_ret [abs_def])
qed (use st in \<open>auto intro!: post\<close>)

text \<open>One invalidation reaches every peer, further ones change nothing that matters.\<close>

lemma wp_dispatch_signals:
  assumes st: "settling u5 w art v b (if sigs = [] then {} else set peers) c" and inj: "inj (agent_key u5)"
    and art: "\<forall>sig \<in> set sigs. sig_artifact_id sig = art"
    and ids: "set peers \<subseteq> fst ` set (roster w c)" "w \<notin> set peers"
    and post: "\<And>c'. settling u5 w art v b {} c' \<Longrightarrow> event_bus c' = event_bus c \<Longrightarrow> roster w c' = roster w c \<Longrightarrow> Q () c'"
  shows "wp (dispatch_signals sigs peers) Q E c"
  unfolding dispatch_signals_def wp_andthen wp_asks
proof (rule wp_for_loop [where I = "\<lambda>left _ c'. set left \<subseteq> set sigs \<and> settling u5 w art v b (if left = [] then {} else set peers) c' \<and>
    event_bus c' = event_bus c \<and> roster w c' = roster w c"])
  fix sig left and k :: unit and c1
  assume I: "set (sig # left) \<subseteq> set sigs \<and> settling u5 w art v b (if sig # left = [] then {} else set peers) c1 \<and>
    event_bus c1 = event_bus c \<and> roster w c1 = roster w c"
  then have st1: "settling u5 w art v b (set peers) c1" by simp
  have "wp (publish_invalidation call_invalidation (event_bus c1) sig peers) (\<lambda>_ c'. set left \<subseteq> set sigs \<and>
    settling u5 w art v b (if left = [] then {} else set peers) c' \<and> event_bus c' = event_bus c \<and> roster w c' = roster w c) E c1"
  proof (rule wp_publish_invalidation [OF st1 inj], goal_cases)
    case (4 x c')
    have "settling u5 w art v b (if left = [] then {} else set peers) c'"
      by (rule settling_mono [OF 4(1)]) auto
    with 4 I show ?case by simp
  qed (use I art ids in auto)
  then show "wp (andthen (publish_invalidation call_invalidation (event_bus c) sig peers) (\<lambda>_. ret ()))
    (\<lambda>_ c'. set left \<subseteq> set sigs \<and> settling u5 w art v b (if left = [] then {} else set peers) c' \<and>
    event_bus c' = event_bus c \<and> roster w c' = roster w c) E c1"
    using I by (simp add: wp_andthen wp_ret [abs_def])
qed (use st in \<open>auto intro!: post\<close>)

lemma texts_upd:
  assumes "texts g" and "\<And>a. a \<noteq> art \<Longrightarrow> dict_get (records h) a = dict_get (records g) a"
    and "dict_get (records h) art = Some r" and "rec_content r = Text s"
  shows "texts h"
proof -
  have "\<exists>s. rec_content r' = Text s" if "dict_get (records h) a = Some r'" for a r'
    using assms that by (cases "a = art") (auto simp: texts_def)
  then show ?thesis by (simp add: texts_def)
qed

lemma settling_refreshed:
  assumes st: "settling u5 w art v (Text s) {} c" and rt: "dict_get (agents_by_name c) name = Some rt"
    and ok: "reg_ok True (node_registry n)" and store: "stores art e (Text s) rt (node_runtime n)" and e: "local_version e = v"
    and new: "refreshed (core_registry c) (rt_agent_id rt) w art (node_registry n)"
  shows "settling u5 w art v (Text s) {} (put_node name n c)"
proof -
  let ?g = "core_registry c" and ?h = "node_registry n"
  from st show ?thesis
  proof (rule settlingE)
    fix r
    assume wired: "wired u5 c" and r: "dict_get (records ?g) art = Some r" "art_version (artifact r) = v" "rec_content r = Text s"
      and free: "\<And>q. q \<noteq> w \<Longrightarrow> grant_of r q \<notin> M_OR_E_STATES"
      and others: "\<And>name rt a. dict_get (agents_by_name c) name = Some rt \<Longrightarrow> a \<noteq> art \<Longrightarrow> coherent_at ?g rt a"
      and entry: "\<And>name rt. dict_get (agents_by_name c) name = Some rt \<Longrightarrow> coherent_at ?g rt art \<or>
         rt_agent_id rt \<in> {} \<and> dict_get (state_by_agent r) (rt_agent_id rt) = Some INVALID"
    obtain r' where r': "dict_get (records ?h) art = Some r'" "same_data r r'"
      and view: "\<And>q. dict_get (state_by_agent r') q = (if q = rt_agent_id rt \<or> q = w then Some SHARED else dict_get (state_by_agent r) q)"
      and rest: "\<And>a. a \<noteq> art \<Longrightarrow> dict_get (records ?h) a = dict_get (records ?g) a"
      using new r(1) by (auto simp: refreshed_def)
    have copies: "holds_copy ?h q a u d" if "holds_copy ?g q a u d" for q a u d
      using that r r' view [of q] rest [of a] by (cases "a = art") (auto simp: holds_copy_def same_data_def get_default_def)
    have own: "holds_copy ?h (rt_agent_id rt) art v (Text s)"
      using r r' view by (auto simp: holds_copy_def same_data_def get_default_def)
    have same: "same_agent rt (node_runtime n)" using store by (simp add: stores_def)
    have "texts ?h" by (rule texts_upd [OF wiredD(2) [OF wired] rest r'(1)]) (use r r' in \<open>simp_all add: same_data_def\<close>)
    then have "wired u5 (put_node name n c)" by (rule wired_put [OF wired rt same ok])
    then show ?thesis
    proof (rule settlingI [where r = r'], goal_cases)
      case (4 q)
      then show ?case using free [of q] view [of q] by (auto simp: get_default_def)
    next
      case (5 name' rt' a)
      have "coherent_at ?g (node_runtime n) a" using others [OF rt 5(2)] store 5(2) by (simp add: coherent_at_def stores_def same_agent_def)
      with 5 others [of name' rt' a] copies show ?case by (auto split: if_splits intro: coherent_at_mono)
    next
      case (6 name' rt')
      have "coherent_at ?h (node_runtime n) art" using own store e by (simp add: coherent_at_def stores_def same_agent_def)
      with 6 entry [of name' rt'] copies show ?case by (auto split: if_splits intro: coherent_at_mono)
    qed (use r r' in \<open>simp_all add: same_data_def\<close>)
  qed
qed

lemma wp_call_update:
  assumes st: "settling u5 w art v (Text s) {} c" and rt: "dict_get (agents_by_name c) name = Some rt"
    and peer: "rt_agent_id rt \<noteq> w"
    and ev: "ev = \<lparr>ev_artifact = art, ev_version = v, ev_content = Text s, ev_issued_at = now, ev_issuer = w\<rparr>"
    and post: "\<And>c'. settling u5 w art v (Text s) {} c' \<Longrightarrow> event_bus c' = event_bus c \<Longrightarrow> roster w c' = roster w c \<Longrightarrow> Q () c'"
  shows "wp (call_update sha name ev) Q E c"
  using st
proof (rule settlingE)
  fix r
  assume wired: "wired u5 c" and r: "dict_get (records (core_registry c)) art = Some r" "art_version (artifact r) = v"
    and free: "\<And>q. q \<noteq> w \<Longrightarrow> grant_of r q \<notin> M_OR_E_STATES"
  have "wp (handle_update sha art v (Text s) now (Some w)) (\<lambda>a n. Q a (put_node name n c)) (\<lambda>e n. E e (put_node name n c)) (node_of rt c)"
  proof (rule wp_handle_update [where r = r])
    fix n' :: node and e
    assume n': "reg_ok True (node_registry n')" "stores art e (Text s) (node_runtime (node_of rt c)) (node_runtime n')" "local_version e = v"
      "refreshed (node_registry (node_of rt c)) (rt_agent_id (node_runtime (node_of rt c))) w art (node_registry n')"
    show "Q () (put_node name n' c)"
    proof (rule post)
      show "settling u5 w art v (Text s) {} (put_node name n' c)"
        by (rule settling_refreshed [OF st rt n'(1) _ n'(3)]) (use n' in simp_all)
    qed (use rt n'(2) in \<open>simp_all add: roster_put stores_def same_agent_def peer\<close>)
  qed (use r free peer wiredD [OF wired] wiredD(4) [OF wired rt] in \<open>simp_all add: bound_ok_def\<close>)
  then show ?thesis by (simp add: call_update_def ev wp_on_runtime rt)
qed

lemma wp_dispatch_update:
  assumes st: "settling u5 w art v (Text s) {} c"
    and ids: "set peers \<subseteq> fst ` set (roster w c)" "w \<notin> set peers"
    and post: "\<And>c'. settling u5 w art v (Text s) {} c' \<Longrightarrow> Q () c'"
  shows "wp (dispatch_update sha \<lparr>ev_artifact = art, ev_version = v, ev_content = Text s, ev_issued_at = now, ev_issuer = w\<rparr> peers) Q E c"
proof -
  let ?ev = "\<lparr>ev_artifact = art, ev_version = v, ev_content = Text s, ev_issued_at = now, ev_issuer = w\<rparr>"
  let ?I = "\<lambda>left c'. set left \<subseteq> set peers \<and> settling u5 w art v (Text s) {} c' \<and> event_bus c' = event_bus c \<and> roster w c' = roster w c"
  have "wp (publish_update (call_update sha) (event_bus c) ?ev peers) (\<lambda>_. Q ()) E c"
    unfolding publish_update_def
  proof (rule wp_for_loop [where I = "\<lambda>left _. ?I left"])
    fix q left k c1
    assume I: "?I (q # left) c1"
    then have wired: "wired u5 c1" and q: "q \<in> fst ` set (roster w c1)" "q \<noteq> w" and st1: "settling u5 w art v (Text s) {} c1"
      using ids by (auto simp: settling_def)
    obtain name rt where rt: "dict_get (agents_by_name c1) name = Some rt" "rt_agent_id rt = q" "bound_ok u5 c1 name rt"
      by (rule listed [OF wired q(1)])
    have h: "dict_get (update_handlers (event_bus c)) q = Some name" using rt(2,3) I by (auto simp: bound_ok_def)
    have "wp (call_update sha name ?ev) (\<lambda>_. ?I left) E c1"
      by (rule wp_call_update [OF st1 rt(1) _ refl]) (use I q rt(2) in auto)
    then show "wp (publish_to (call_update sha) (update_handlers (event_bus c)) ?ev k q) (\<lambda>_. ?I left) E c1"
      by (simp add: publish_to_def h wp_andthen wp_ret [abs_def])
  qed (use st in \<open>auto intro!: post\<close>)
  moreover have "Q () c" by (rule post [OF st])
  ultimately show ?thesis by (simp add: dispatch_update_def wp_simps wp_ret [abs_def])
qed

section \<open>Every call keeps the caches coherent\<close>

lemma cluster_wired: "cluster_ok u5 c \<Longrightarrow> wired u5 c"
  by (simp add: cluster_ok_def)

lemma wp_core_read:
  assumes ok: "cluster_ok u5 c" and rt: "dict_get (agents_by_name c) name = Some rt"
    and r: "dict_get (records (core_registry c)) art = Some r"
    and post: "\<And>c' grant. cluster_ok u5 c' \<Longrightarrow> Q (FetchResponse art (art_version (artifact r)) (rec_content r) grant) c'"
  shows "wp (core_read sha name art now) Q E c"
proof -
  have "wp (AgentRuntime_read sha art now) (\<lambda>a n. Q a (put_node name n c)) (\<lambda>e n. E e (put_node name n c)) (node_of rt c)"
  proof (rule wp_runtime_read [OF cluster_node [OF ok rt]])
    fix n grant
    assume n: "sound_node n" "same_agent (node_runtime (node_of rt c)) (node_runtime n)"
      "read_only art (node_registry (node_of rt c)) (node_registry n)"
    show "Q (FetchResponse art (art_version (artifact r)) (rec_content r) grant) (put_node name n c)"
      by (rule post [OF cluster_ok_read [OF ok rt]]) (use n in \<open>simp_all add: read_only_def\<close>)
  qed (simp add: r)
  then show ?thesis
    by (simp add: core_read_def wp_simps rt wp_touch_agent [OF wiredD(3) [OF cluster_wired [OF ok]]])
qed

lemma keeps_core_read: "keeps (cluster_ok u5) (core_read sha name art now)"
proof (rule keepsI)
  fix c
  assume ok: "cluster_ok u5 c"
  show "wp (core_read sha name art now) (\<lambda>_. cluster_ok u5) (\<lambda>_. cluster_ok u5) c"
  proof (cases "dict_get (agents_by_name c) name")
    case (Some rt)
    show ?thesis
    proof (cases "dict_get (records (core_registry c)) art")
      case None
      have "wp (AgentRuntime_read sha art now) (\<lambda>_ n. cluster_ok u5 (put_node name n c))
          (\<lambda>_ n. cluster_ok u5 (put_node name n c)) (node_of rt c)"
        by (rule wp_read_missing [OF cluster_node [OF ok Some]]) (use None ok in \<open>simp_all add: put_node_same [OF Some]\<close>)
      then show ?thesis
        by (simp add: core_read_def wp_simps Some wp_touch_agent [OF wiredD(3) [OF cluster_wired [OF ok]]])
    qed (rule wp_core_read [OF ok Some], assumption)
  qed (use ok in \<open>simp add: core_read_def wp_simps\<close>)
qed

text \<open>What both writes do once their runtime has committed.\<close>

lemma peers_of_roster: "set (peers_of w c) \<subseteq> fst ` set (roster w' c)" "w \<notin> set (peers_of w c)"
  by (force simp: peers_of_def roster_def)+

lemma peers_of_member:
  assumes "wired u5 c" and "dict_get (agents_by_name c) name = Some rt" and "rt_agent_id rt \<noteq> w"
  shows "rt_agent_id rt \<in> set (peers_of w c)"
  using dict_get_in_set [OF assms(2)] assms(3) by (force simp: peers_of_def)

lemma roster_writer:
  assumes "wired u5 c'" and "roster w c' = roster w c" and "dict_get (agents_by_name c) name = Some rt" and "rt_agent_id rt = w"
  shows "dict_get (agents_by_name c') name = Some rt"
proof -
  have wf: "dict_wf (agents_by_name c')" using assms(1) unfolding wired_def by blast
  have "(w, Some (name, rt)) \<in> set (roster w c)" using dict_get_in_set [OF assms(3)] assms(4) by (force simp: roster_def)
  then have "(w, Some (name, rt)) \<in> set (roster w c')" by (simp add: assms(2))
  then have "(name, rt) \<in> set (agents_by_name c')" by (auto simp: roster_def split: if_splits)
  then show ?thesis unfolding dict_in_set_get [OF wf] .
qed

lemma wp_after_write:
  assumes ok: "cluster_ok u5 c" and inj: "inj (agent_key u5)" and rt: "dict_get (agents_by_name c) name = Some rt"
    and w: "wrote (node_of rt c) art upd content sigs n"
    and post: "\<And>c'. settling u5 (rt_agent_id rt) art (art_version upd) (Text content) {} c' \<Longrightarrow>
      dict_get (agents_by_name c') name = Some (node_runtime n) \<Longrightarrow>
      set (peers_of (rt_agent_id rt) (put_node name n c)) \<subseteq> fst ` set (roster (rt_agent_id rt) c') \<Longrightarrow> Q () c'"
  shows "wp (dispatch_signals sigs (peers_of (rt_agent_id rt) (put_node name n c))) Q E (put_node name n c)"
proof -
  let ?c = "put_node name n c" and ?w = "rt_agent_id rt"
  let ?peers = "peers_of ?w ?c"
  have same: "rt_agent_id (node_runtime n) = ?w" using w by (simp add: wrote_def same_agent_def)
  have st: "settling u5 ?w art (art_version upd) (Text content) (if sigs = [] then {} else set ?peers) ?c"
  proof (rule wrote_settling [OF ok inj rt w])
    fix name' rt'
    assume sigs: "sigs \<noteq> []" and rt': "dict_get (agents_by_name c) name' = Some rt'" and ne: "name' \<noteq> name"
    have "rt_agent_id rt' \<noteq> ?w" using same_key [OF cluster_wired [OF ok] inj rt rt'] ne by blast
    moreover have "(name', rt') \<in> set (agents_by_name ?c)" using rt' ne by (intro dict_get_in_set) simp
    ultimately show "rt_agent_id rt' \<in> (if sigs = [] then {} else set ?peers)" using sigs by (force simp: peers_of_def)
  qed
  show ?thesis
  proof (rule wp_dispatch_signals [OF st inj _ peers_of_roster])
    show "\<forall>sig \<in> set sigs. sig_artifact_id sig = art" using w by (simp add: wrote_def announced_def)
    fix c'
    assume c': "settling u5 ?w art (art_version upd) (Text content) {} c'" "roster ?w c' = roster ?w ?c"
    have wired: "wired u5 c'" using c'(1) by (simp add: settling_def)
    have "dict_get (agents_by_name c') name = Some (node_runtime n)"
      by (rule roster_writer [OF wired c'(2) _ same]) simp
    then show "Q () c'" by (rule post [OF c'(1)]) (use peers_of_roster(1) [of ?w ?c ?w] c'(2) in simp)
  qed
qed

lemma wp_core_write:
  assumes ok: "cluster_ok u5 c" and inj: "inj (agent_key u5)" and rt: "dict_get (agents_by_name c) name = Some rt"
    and r: "dict_get (records (core_registry c)) art = Some r"
    and post: "\<And>upd c'. settling u5 (rt_agent_id rt) art (art_version upd) (Text content) {} c' \<Longrightarrow> Q upd c'"
  shows "wp (core_write sha name art content now) Q E c"
proof -
  let ?w = "rt_agent_id rt"
  let ?ev = "\<lambda>upd. \<lparr>ev_artifact = art, ev_version = art_version upd, ev_content = Text content, ev_issued_at = now, ev_issuer = ?w\<rparr>"
  let ?rest = "\<lambda>upd sigs c1. wp (dispatch_signals sigs (peers_of ?w c1)) (\<lambda>_. wp (dispatch_update sha (?ev upd) (peers_of ?w c1))
     (\<lambda>_. Q upd) E) E c1"
  have sent: "?rest upd sigs (put_node name n c)" if w: "wrote (node_of rt c) art upd content sigs n" for upd sigs n
    by (rule wp_after_write [OF ok inj rt w], rule wp_dispatch_update) (use peers_of_roster post in auto)
  have "wp (AgentRuntime_write sha art content now None None) (\<lambda>x n. ?rest (fst x) (snd x) (put_node name n c))
      (\<lambda>e n. E e (put_node name n c)) (node_of rt c)"
    by (rule wp_runtime_write [OF cluster_node [OF ok rt]]) (use r in \<open>simp_all add: sent\<close>)
  then show ?thesis
    by (simp add: core_write_def wp_simps rt wp_touch_agent [OF wiredD(3) [OF cluster_wired [OF ok]]] case_prod_unfold
        wp_andthen [abs_def] wp_asks [abs_def] wp_ret [abs_def])
qed

lemma keeps_core_write:
  assumes inj: "inj (agent_key u5)"
  shows "keeps (cluster_ok u5) (core_write sha name art content now)"
proof (rule keepsI)
  fix c
  assume ok: "cluster_ok u5 c"
  show "wp (core_write sha name art content now) (\<lambda>_. cluster_ok u5) (\<lambda>_. cluster_ok u5) c"
  proof (cases "dict_get (agents_by_name c) name")
    case rt: (Some rt)
    show ?thesis
    proof (cases "dict_get (records (core_registry c)) art")
      case None
      have "wp (AgentRuntime_write sha art content now None None) (\<lambda>x n. R x n)
          (\<lambda>_ n. cluster_ok u5 (put_node name n c)) (node_of rt c)" for R
        by (rule wp_write_missing [OF cluster_node [OF ok rt]]) (use None ok in \<open>simp_all add: put_node_same [OF rt]\<close>)
      then show ?thesis
        by (simp add: core_write_def wp_simps rt wp_touch_agent [OF wiredD(3) [OF cluster_wired [OF ok]]])
    next
      case (Some r)
      show ?thesis by (rule wp_core_write [OF ok inj rt Some]) (rule settling_done)
    qed
  qed (use ok in \<open>simp add: core_write_def wp_simps\<close>)
qed

lemma has_read_cluster:
  assumes "cluster_ok u5 c" and "dict_get (agents_by_name c) name = Some rt" and "has_read (node_of rt c) art n"
  shows "cluster_ok u5 (put_node name n c)"
  by (rule cluster_ok_read [OF assms(1,2)]) (use assms(3) in \<open>simp_all add: has_read_def read_only_def\<close>)

lemma keeps_core_write_cas:
  assumes inj: "inj (agent_key u5)"
  shows "keeps (cluster_ok u5) (core_write_cas sha name art make_content now)"
proof (rule keepsI)
  fix c
  assume ok: "cluster_ok u5 c"
  show "wp (core_write_cas sha name art make_content now) (\<lambda>_. cluster_ok u5) (\<lambda>_. cluster_ok u5) c"
  proof (cases "dict_get (agents_by_name c) name")
    case rt: (Some rt)
    let ?event = "\<lambda>updated b. \<lparr>ev_artifact = art, ev_version = art_version updated, ev_content = b, ev_issued_at = now,
        ev_issuer = rt_agent_id rt\<rparr>"
    let ?rest = "\<lambda>updated sigs c1. wp (dispatch_signals sigs (peers_of (rt_agent_id rt) c1)) (\<lambda>_ c2.
        wp (core_content name art) (\<lambda>content. wp (dispatch_update sha (?event updated (case content of None \<Rightarrow> Text '''' | Some b \<Rightarrow> b))
          (peers_of (rt_agent_id rt) c1)) (\<lambda>_. cluster_ok u5) (\<lambda>_. cluster_ok u5)) (\<lambda>_. cluster_ok u5) c2) (\<lambda>_. cluster_ok u5) c1"
    have sent: "?rest upd sigs (put_node name n c)" if w: "wrote (node_of rt c) art upd content sigs n" for upd content sigs n
    proof (rule wp_after_write [OF ok inj rt w])
      fix c2
      assume c2: "settling u5 (rt_agent_id rt) art (art_version upd) (Text content) {} c2" "dict_get (agents_by_name c2) name = Some (node_runtime n)"
        "set (peers_of (rt_agent_id rt) (put_node name n c)) \<subseteq> fst ` set (roster (rt_agent_id rt) c2)"
      have "wp (dispatch_update sha (?event upd (Text content)) (peers_of (rt_agent_id rt) (put_node name n c)))
          (\<lambda>_. cluster_ok u5) (\<lambda>_. cluster_ok u5) c2"
        by (rule wp_dispatch_update [OF c2(1,3) peers_of_roster(2)]) (rule settling_done)
      moreover have "dict_get (content_by_artifact (node_runtime n)) art = Some (Text content)" using w by (simp add: wrote_def)
      ultimately show "wp (core_content name art) (\<lambda>content. wp (dispatch_update sha (?event upd (case content of None \<Rightarrow> Text '''' | Some b \<Rightarrow> b))
          (peers_of (rt_agent_id rt) (put_node name n c))) (\<lambda>_. cluster_ok u5) (\<lambda>_. cluster_ok u5)) (\<lambda>_. cluster_ok u5) c2"
        by (simp add: core_content_def wp_simps c2(2))
    qed
    have "wp (AgentRuntime_write_cas sha art make_content now) (\<lambda>x n. ?rest (fst x) (snd x) (put_node name n c))
        (\<lambda>_ n. cluster_ok u5 (put_node name n c)) (node_of rt c)"
    proof (cases "dict_get (records (core_registry c)) art")
      case None
      show ?thesis
        by (rule wp_write_cas_missing [OF cluster_node [OF ok rt]]) (use None ok in \<open>simp_all add: put_node_same [OF rt]\<close>)
    next
      case (Some r)
      show ?thesis
        by (rule wp_runtime_write_cas [OF cluster_node [OF ok rt]])
          (use Some in \<open>simp_all add: sent has_read_cluster [OF ok rt]\<close>)
    qed
    then show ?thesis
      by (simp add: core_write_cas_def wp_simps rt wp_touch_agent [OF wiredD(3) [OF cluster_wired [OF ok]]] case_prod_unfold
          wp_andthen [abs_def] wp_asks [abs_def] wp_ret [abs_def])
  qed (use ok in \<open>simp add: core_write_cas_def wp_simps\<close>)
qed

lemma bound_ok_registry [simp]: "bound_ok u5 (c\<lparr>core_registry := h\<rparr>) name rt = bound_ok u5 c name rt"
  by (simp add: bound_ok_def)

lemma cluster_ok_registry:
  assumes ok: "cluster_ok u5 c" and "reg_ok True h" and "texts h" and kept: "copies_kept (core_registry c) h"
  shows "cluster_ok u5 (c\<lparr>core_registry := h\<rparr>)"
  using assms(1-3) coherent_mono [OF _ kept] by (simp add: cluster_ok_def wired_def)

lemma keeps_core_register_artifact:
  assumes "dict_get (records (core_registry c)) minted = None" and ok: "cluster_ok u5 c"
  shows "cluster_ok u5 (snd (core_register_artifact minted name content toks c))"
proof -
  let ?g = "core_registry c"
  let ?m = "register_artifact minted name (Text content) None toks None []"
  have "wp ?m (\<lambda>_ h. \<exists>r. (\<forall>a. a \<noteq> minted \<longrightarrow> dict_get (records h) a = dict_get (records ?g) a) \<and>
      dict_get (records h) minted = Some r \<and> rec_content r = Text content) (\<lambda>_ _. False) ?g"
    by (auto simp: register_artifact_def reg_register_artifact_def wp_simps Let_def new_ArtifactRecord_def)
  moreover have "reg_ok True ?g" using ok by (simp add: cluster_ok_def wired_def)
  ultimately have "wp ?m (\<lambda>_ h. (\<exists>r. (\<forall>a. a \<noteq> minted \<longrightarrow> dict_get (records h) a = dict_get (records ?g) a) \<and>
      dict_get (records h) minted = Some r \<and> rec_content r = Text content) \<and> reg_ok True h) (\<lambda>_ h. False \<and> reg_ok True h) ?g"
    by (intro wp_keeping [OF _ register_reg_ok])
  then have "wp ?m (\<lambda>_ h. cluster_ok u5 (c\<lparr>core_registry := h\<rparr>)) (\<lambda>_ h. cluster_ok u5 (c\<lparr>core_registry := h\<rparr>)) ?g"
  proof (rule wp_mono)
    fix h
    assume "(\<exists>r. (\<forall>a. a \<noteq> minted \<longrightarrow> dict_get (records h) a = dict_get (records ?g) a) \<and>
      dict_get (records h) minted = Some r \<and> rec_content r = Text content) \<and> reg_ok True h"
    then obtain r where h: "\<And>a. a \<noteq> minted \<Longrightarrow> dict_get (records h) a = dict_get (records ?g) a"
      "dict_get (records h) minted = Some r" "rec_content r = Text content" "reg_ok True h" by blast
    have "holds_copy h q a v b" if "holds_copy ?g q a v b" for q a v b
      using that h(1) assms(1) by (cases "a = minted") (auto simp: holds_copy_def)
    then show "cluster_ok u5 (c\<lparr>core_registry := h\<rparr>)"
      by (intro cluster_ok_registry [OF ok h(4) texts_upd [OF _ h(1-3)]])
        (use ok in \<open>auto simp: copies_kept_def cluster_ok_def wired_def\<close>)
  qed simp
  then have "wp (core_register_artifact minted name content toks) (\<lambda>_. cluster_ok u5) (\<lambda>_. cluster_ok u5) c"
    by (simp add: core_register_artifact_def wp_on_core_registry)
  then show ?thesis by (simp add: wp_state)
qed

lemma keeps_core_register_agent:
  assumes inj: "inj (agent_key u5)"
  shows "keeps (cluster_ok u5) (core_register_agent u5 name now)"
proof (rule keepsI)
  fix c
  assume ok: "cluster_ok u5 c"
  show "wp (core_register_agent u5 name now) (\<lambda>_. cluster_ok u5) (\<lambda>_. cluster_ok u5) c"
  proof (cases "dict_get (agents_by_name c) name")
    case None
    let ?g = "core_registry c" and ?k = "agent_key u5 name"
    let ?rt = "new_AgentRuntime ?k (core_strategy c) (core_audit_log c) (core_audit_seq c \<noteq> None) (Some name) (core_instance_id c)"
    let ?c = "c\<lparr>core_registry := ?g\<lparr>agent_names := map_option (dict_set ?k name) (agent_names ?g)\<rparr>,
      event_bus := subscribe ?k name (Some name) (event_bus c), agents_by_name := dict_set name ?rt (agents_by_name c)\<rparr>"
    have wired: "wired u5 c" using ok by (rule cluster_wired)
    have bound: "bound_ok u5 ?c name' rt'" if "dict_get (agents_by_name ?c) name' = Some rt'" for name' rt'
    proof (cases "name' = name")
      case True
      with that wired show ?thesis
        by (auto simp: bound_ok_def new_AgentRuntime_def subscribe_def Let_def sound_runtime_def wired_def audit_ok_def)
    next
      case False
      with that have "bound_ok u5 c name' rt'" using wiredD(4) [OF wired] by simp
      moreover have "agent_key u5 name' \<noteq> ?k" using False inj by (simp add: inj_eq)
      ultimately show ?thesis by (auto simp: bound_ok_def subscribe_def Let_def)
    qed
    have "reg_ok True (core_registry ?c)" "texts (core_registry ?c)"
      using wiredD [OF wired] by (simp_all add: reg_ok_def log_ok_def texts_def)
    with bound wired have "wired u5 ?c" by (simp add: wired_def)
    moreover have "coherent (core_registry ?c) rt'" if "dict_get (agents_by_name ?c) name' = Some rt'" for name' rt'
      using that ok by (auto simp: cluster_ok_def coherent_def holds_copy_def new_AgentRuntime_def split: if_splits)
    ultimately have "cluster_ok u5 ?c" by (simp add: cluster_ok_def)
    then show ?thesis
      using None wiredD(3) [OF wired] by (simp add: core_register_agent_def wp_simps Let_def agent_key_def)
  qed (use ok in \<open>simp add: core_register_agent_def wp_simps\<close>)
qed

lemma keeps_core_heartbeat: "keeps (cluster_ok u5) (core_heartbeat name now)"
  by (rule keepsI) (auto simp: core_heartbeat_def wp_simps cluster_ok_def wired_def)

lemma coherent_invalid:
  "(\<And>art e. dict_get (rt_cache rt) art = Some e \<Longrightarrow> ce_state e = INVALID) \<Longrightarrow> coherent g rt"
  by (auto simp: coherent_def)

lemma invalidate_all_entries:
  "dict_get (fold (\<lambda>(art, e) c. dict_set art (invalid_entry v e) c) d c) a = Some e \<Longrightarrow>
   ce_state e = INVALID \<or> a \<notin> fst ` set d \<and> dict_get c a = Some e"
proof (induction d arbitrary: c)
  case (Cons x d)
  obtain k w where x: "x = (k, w)" by (cases x)
  have "ce_state (invalid_entry v w) = INVALID" by (simp add: invalid_entry_def Let_def)
  with Cons.IH [of "dict_set k (invalid_entry v w) c"] Cons.prems x show ?case by (auto split: if_splits)
qed simp

lemma keeps_core_recover: "keeps (cluster_ok u5) (core_recover name now)"
proof (rule keepsI)
  fix c
  assume ok: "cluster_ok u5 c"
  show "wp (core_recover name now) (\<lambda>_. cluster_ok u5) (\<lambda>_. cluster_ok u5) c"
  proof (cases "dict_get (agents_by_name c) name")
    case rt: (Some rt)
    let ?rt = "rt\<lparr>rt_cache := cache_invalidate_all None 0 (rt_cache rt)\<rparr>"
    let ?n = "(node_of rt c)\<lparr>node_runtime := ?rt\<rparr>"
    have "ce_state e = INVALID" if "dict_get (rt_cache ?rt) art = Some e" for art e
      using invalidate_all_entries [of None "rt_cache rt" "rt_cache rt" art e] that dict_get_in_set [of "rt_cache rt" art e]
      by (force simp: cache_invalidate_all_def)
    then have "coherent (core_registry c) ?rt" by (rule coherent_invalid)
    moreover have same: "same_agent rt ?rt" by (simp add: same_agent_def)
    ultimately have "sound_node ?n"
      using cluster_node [OF ok rt] same_agent_sound [OF same] by (simp add: sound_node_def)
    then have "cluster_ok u5 (put_node name ?n c)"
      by (rule cluster_ok_read [OF ok rt]) (simp_all add: same)
    moreover have "\<not> cr_enabled (core_crash_recovery c)" using wiredD(3) [OF cluster_wired [OF ok]] .
    ultimately show ?thesis
      by (simp add: core_recover_def wp_simps rt invalidate_all_cache_def)
  qed (use ok in \<open>simp add: core_recover_def wp_simps\<close>)
qed

section \<open>Reachable clusters\<close>

lemma new_core_fresh:
  assumes "new_CoherenceAdapterCore strategy ttl acc bus sink inst audit start retain crash minted epoch now = Inr c"
  shows "records (core_registry c) = []" "agents_by_name c = []"
proof -
  obtain g s where g: "new_ArtifactRegistry sink (Some []) inst retain None minted epoch now = Inr g"
    and s: "build_strategy strategy ttl acc = Inr s"
    using assms by (auto simp: new_CoherenceAdapterCore_def Let_def split: sum.split_asm)
  show "records (core_registry c) = []" "agents_by_name c = []"
    using assms g s
    by (auto simp: new_CoherenceAdapterCore_def Let_def new_ArtifactRegistry_def split: sum.split_asm if_split_asm option.split_asm)
qed

lemma cluster_init_ok:
  assumes "cluster_init c"
  shows "cluster_ok u5 c"
proof -
  have fresh: "records (core_registry c) = []" "agents_by_name c = []"
    using assms unfolding cluster_init_def by (auto dest: new_core_fresh)
  then show ?thesis
    using assms by (simp add: cluster_ok_def wired_def cluster_init_def reg_ok_def texts_def)
qed

lemma cluster_system:
  assumes "inj (agent_key u5)"
  shows "invariant_system cluster_init (cluster_step sha u5) (cluster_ok u5)"
proof
  show "cluster_ok u5 c" if "cluster_init c" for c using that by (rule cluster_init_ok)
  show "cluster_ok u5 c'" if "cluster_ok u5 c" "cluster_step sha u5 c c'" for c c'
    using that(2,1)
  proof cases
    case (add_artifact minted name content toks)
    then show ?thesis using that(1) by (simp add: keeps_core_register_artifact)
  qed (use that(1) assms in \<open>simp_all add: keepsD_snd keeps_core_register_agent keeps_core_read keeps_core_write keeps_core_write_cas
      keeps_core_heartbeat keeps_core_recover\<close>)
qed

text \<open>
  C4: Reads of a cluster are coherent. In every state that the calls of one adapter can reach (crash
  recovery switched off, any strategy but the blind one, audit and state logs that do not raise,
  agent identifiers that do not collide), a read by any registered agent of any registered artifact
  returns the coordinator's current version and body, whether the agent's cache or the coordinator
  served it.
\<close>

theorem cluster_reads_current:
  assumes "inj (\<lambda>name. u5 (''ccs-agent:'' @ name))" and "reachable cluster_init (cluster_step sha u5) c"
    and "dict_get (agents_by_name c) name \<noteq> None"
    and "get_artifact art (core_registry c) = Some a" and "get_content art (core_registry c) = Some b"
  shows "\<exists>grant c'. core_read sha name art now c = (Inr (FetchResponse art (art_version a) b grant), c')"
proof -
  have inj: "inj (agent_key u5)" using assms(1) by (simp add: agent_key_def [abs_def])
  have ok: "cluster_ok u5 c" by (rule invariant_system.reachable_inv [OF cluster_system [OF inj] assms(2)])
  obtain rt where rt: "dict_get (agents_by_name c) name = Some rt" using assms(3) by blast
  obtain r where r: "dict_get (records (core_registry c)) art = Some r" "a = artifact r" "b = rec_content r"
    using assms(4,5) by (auto simp: get_artifact_def get_content_def)
  have "wp (core_read sha name art now) (\<lambda>x _. \<exists>grant. x = FetchResponse art (art_version a) b grant) (\<lambda>_ _. False) c"
    by (rule wp_core_read [OF ok rt r(1)]) (use r in auto)
  from wp_returns [OF this] show ?thesis by blast
qed

text \<open>Agents stay registered.\<close>

definition known_name :: "string \<Rightarrow> AdapterCore \<Rightarrow> bool" where
  "known_name name c \<longleftrightarrow> dict_get (agents_by_name c) name \<noteq> None"

lemma keeps_except: "keeps P m \<Longrightarrow> (\<And>e. keeps P (h e)) \<Longrightarrow> keeps P (except m h)"
  by (force simp: keeps_def except_def split: prod.splits sum.splits)

lemma keeps_known_name:
  "keeps (known_name k) (binding name)" "keeps (known_name k) (on_runtime name m)" "keeps (known_name k) (on_core_registry m')"
  by (rule keepsI; simp add: wp_simps known_name_def split: option.split; simp add: wp_def split: prod.split sum.split)+

lemma keeps_known_touch: "keeps (known_name k) (touch_agent ag now)"
  unfolding touch_agent_def maybe_sweep_def case_prod_unfold
  by (intro keeps_intros keeps_except keeps_known_name) (simp_all add: keeps_def modify_def known_name_def)

lemma keeps_known_publish:
  "(\<And>h. keeps (known_name k) (call h msg)) \<Longrightarrow> keeps (known_name k) (for_loop peers (publish_to call handlers msg) n)"
  by (rule keeps_for_loop) (auto simp: publish_to_def intro!: keeps_intros split: option.split)

lemma keeps_known_write: "keeps (known_name k) (core_write sha name art content now)"
  unfolding core_write_def dispatch_signals_def dispatch_update_def publish_invalidation_def publish_update_def
    case_prod_unfold
  by (intro keeps_intros keeps_known_name keeps_known_touch keeps_known_publish; simp add: call_invalidation_def call_update_def keeps_known_name)

text \<open>
  C5: A write is seen by everyone. In every reachable cluster (same conditions), a write by a
  registered agent to a registered artifact succeeds, with nothing on the way that can raise, and
  from then on the next read by any agent of the cluster returns the written text at the new version.
\<close>

theorem cluster_write_seen:
  assumes "inj (\<lambda>name. u5 (''ccs-agent:'' @ name))" and "reachable cluster_init (cluster_step sha u5) c"
    and "dict_get (agents_by_name c) name \<noteq> None" and "has_artifact art (core_registry c)"
    and "dict_get (agents_by_name c) reader \<noteq> None"
  shows "\<exists>upd c'. core_write sha name art content now c = (Inr upd, c') \<and>
    (\<exists>grant c''. core_read sha reader art later c' = (Inr (FetchResponse art (art_version upd) (Text content) grant), c''))"
proof -
  have inj: "inj (agent_key u5)" using assms(1) by (simp add: agent_key_def [abs_def])
  have ok: "cluster_ok u5 c" by (rule invariant_system.reachable_inv [OF cluster_system [OF inj] assms(2)])
  obtain rt where rt: "dict_get (agents_by_name c) name = Some rt" using assms(3) by blast
  obtain r where r: "dict_get (records (core_registry c)) art = Some r" using assms(4) by (auto simp: has_artifact_def)
  have "wp (core_write sha name art content now) (\<lambda>upd. settling u5 (rt_agent_id rt) art (art_version upd) (Text content) {})
      (\<lambda>_ _. False) c"
    by (rule wp_core_write [OF ok inj rt r])
  from wp_returns [OF this] obtain upd c' where run: "core_write sha name art content now c = (Inr upd, c')"
    and st: "settling u5 (rt_agent_id rt) art (art_version upd) (Text content) {} c'" by blast
  obtain rt' where reader: "dict_get (agents_by_name c') reader = Some rt'"
    using keepsD_snd [OF keeps_known_write, of reader c sha name art content now] assms(5) run by (auto simp: known_name_def)
  obtain r' where r': "dict_get (records (core_registry c')) art = Some r'" "art_version (artifact r') = art_version upd"
    "rec_content r' = Text content" using st unfolding settling_def by blast
  have "wp (core_read sha reader art later) (\<lambda>x _. \<exists>grant. x = FetchResponse art (art_version upd) (Text content) grant) (\<lambda>_ _. False) c'"
    by (rule wp_core_read [OF settling_done [OF st] reader r'(1)]) (use r' in auto)
  from wp_returns [OF this] run show ?thesis by blast
qed

section \<open>A cluster of two agents\<close>

text \<open>An injective naming that gives the two agents of the examples small identifiers.\<close>

primrec string_code :: "string \<Rightarrow> nat" where
  "string_code [] = 0"
| "string_code (ch # s) = (of_char ch + 1) + 257 * string_code s"

definition demo_naming :: "string \<Rightarrow> uuid" where
  "demo_naming s = (if s = ''ccs-agent:A'' then 0 else if s = ''ccs-agent:B'' then 1 else 2 + string_code s)"

lemma string_code_inj: "string_code s = string_code t \<Longrightarrow> s = t"
proof (induction s arbitrary: t)
  case Nil
  then show ?case by (cases t) simp_all
next
  case (Cons ch s)
  then obtain dh u where t: "t = dh # u" by (cases t) simp_all
  have bounds: "(of_char ch + 1 :: nat) < 257" "(of_char dh + 1 :: nat) < 257"
    using nat_of_char_less_256 [of ch] nat_of_char_less_256 [of dh] by linarith+
  have eq: "(of_char ch + 1) + 257 * string_code s = (of_char dh + 1 :: nat) + 257 * string_code u"
    using Cons.prems t by simp
  have "(of_char ch + 1 :: nat) = of_char dh + 1"
    using arg_cong [OF eq, of "\<lambda>n. n mod 257"] bounds by simp
  moreover from this eq have "string_code s = string_code u" by simp
  ultimately show ?case using Cons.IH t by simp
qed

lemma demo_naming_inj: "inj (\<lambda>name. demo_naming (''ccs-agent:'' @ name))"
  by (rule injI) (auto simp: demo_naming_def split: if_splits dest!: string_code_inj)

definition demo_core :: "bool \<Rightarrow> AdapterCore" where
  "demo_core recovery = projr (new_CoherenceAdapterCore ''lazy'' 300 100 None None (Some ''core'') None None False
     (Some \<lparr>cr_enabled = recovery, heartbeat_timeout_ticks = 120, max_hold_ticks = 900\<rparr>) ''id'' ''epoch'' 0)"

definition demo_cluster :: AdapterCore where
  "demo_cluster =
     (let c = demo_core False;
          c = snd (core_register_agent demo_naming ''A'' 0 c);
          c = snd (core_register_agent demo_naming ''B'' 0 c);
          c = snd (core_register_artifact 7 ''plan'' ''one'' None c);
          c = snd (core_read demo_sha ''B'' 7 2 c)
      in snd (core_write demo_sha ''A'' 7 ''two'' 3 c))"

lemma demo_core_init: "cluster_init (demo_core False)"
proof -
  let ?new = "new_CoherenceAdapterCore ''lazy'' 300 100 None None (Some ''core'') None None False
     (Some \<lparr>cr_enabled = False, heartbeat_timeout_ticks = 120, max_hold_ticks = 900\<rparr>) ''id'' ''epoch'' 0"
  have "\<not> isl ?new" by code_simp
  then have "?new = Inr (demo_core False)" by (simp add: demo_core_def)
  moreover have "\<not> cr_enabled (core_crash_recovery (demo_core False)) \<and> core_strategy (demo_core False) \<noteq> BlindCacheStrategy \<and>
      state_log (core_registry (demo_core False)) = None \<and> core_audit_log (demo_core False) = None"
    by code_simp
  ultimately show ?thesis unfolding cluster_init_def log_ok_def by (intro conjI exI) simp_all
qed

lemmas cluster_next = reach_step [of cluster_init "cluster_step sha u5" for sha u5]

lemma demo_cluster_reachable: "reachable cluster_init (cluster_step demo_sha demo_naming) demo_cluster"
  unfolding demo_cluster_def Let_def
proof (rule cluster_next [OF _ do_write], rule cluster_next [OF _ do_read],
    rule cluster_next [OF _ add_artifact], rule cluster_next [OF _ add_agent], rule cluster_next [OF _ add_agent])
  show "reachable cluster_init (cluster_step demo_sha demo_naming) (demo_core False)"
    by (rule reach_init) (rule demo_core_init)
  show "dict_get (records (core_registry (snd (core_register_agent demo_naming ''B'' 0
      (snd (core_register_agent demo_naming ''A'' 0 (demo_core False))))))) 7 = None"
    by code_simp
qed

text \<open>
  With crash recovery on, the sweep that a call runs first may reclaim a grant that has been held too
  long. It tells nobody: the holder's cache keeps the entry. Here B writes version 2 and stays alive
  by heartbeats; 950 ticks later A's write reclaims the grant of B, finds no valid peer, sends no
  invalidation, and B goes on reading its own version 2 from its cache.
\<close>

definition reclaimed_cluster :: AdapterCore where
  "reclaimed_cluster =
     (let c = demo_core True;
          c = snd (core_register_agent demo_naming ''A'' 0 c);
          c = snd (core_register_agent demo_naming ''B'' 0 c);
          c = snd (core_register_artifact 7 ''plan'' ''one'' None c);
          c = snd (core_write demo_sha ''B'' 7 ''two'' 1 c);
          c = snd (core_heartbeat ''B'' 940 c)
      in snd (core_write demo_sha ''A'' 7 ''three'' 950 c))"

definition demo_view :: "AdapterCore \<Rightarrow> bool \<times> Artifact option \<times> body option" where
  "demo_view c = (known_name ''A'' c \<and> known_name ''B'' c, get_artifact 7 (core_registry c), get_content 7 (core_registry c))"

definition stale_view :: "AdapterCore \<Rightarrow> body option \<times> (py_error + FetchResponse)" where
  "stale_view c = (get_content 7 (core_registry c), fst (core_read demo_sha ''B'' 7 951 c))"

lemma demo_facts:
  "demo_view demo_cluster = (True,
     Some \<lparr>art_id = 7, art_name = ''plan'', art_version = 2, art_hash = None, art_tokens = None, art_depends_on = []\<rparr>,
     Some (Text ''two''))"
  by code_simp

lemma stale_facts:
  "stale_view reclaimed_cluster = (Some (Text ''three''), Inr (FetchResponse 7 2 (Text ''two'') MODIFIED))"
  by code_simp


lemma demo_cluster_facts:
  "dict_get (agents_by_name demo_cluster) ''B'' \<noteq> None"
  "get_artifact 7 (core_registry demo_cluster) =
     Some \<lparr>art_id = 7, art_name = ''plan'', art_version = 2, art_hash = None, art_tokens = None, art_depends_on = []\<rparr>"
  "get_content 7 (core_registry demo_cluster) = Some (Text ''two'')"
  "dict_get (agents_by_name demo_cluster) ''A'' \<noteq> None"
  using demo_facts by (simp_all add: demo_view_def known_name_def)

theorem cluster_reads_current_witness:
  "\<exists>grant c'. core_read demo_sha ''B'' 7 4 demo_cluster = (Inr (FetchResponse 7 2 (Text ''two'') grant), c')"
  using cluster_reads_current [OF demo_naming_inj demo_cluster_reachable demo_cluster_facts(1-3), of 4] by simp

theorem cluster_write_seen_witness:
  "\<exists>upd c'. core_write demo_sha ''B'' 7 ''three'' 4 demo_cluster = (Inr upd, c') \<and>
    (\<exists>grant c''. core_read demo_sha ''A'' 7 5 c' = (Inr (FetchResponse 7 (art_version upd) (Text ''three'') grant), c''))"
proof -
  have "has_artifact 7 (core_registry demo_cluster)"
    using demo_cluster_facts(2) by (auto simp: has_artifact_def get_artifact_def)
  from cluster_write_seen [OF demo_naming_inj demo_cluster_reachable demo_cluster_facts(1) this demo_cluster_facts(4)]
  show ?thesis .
qed

end
