(* ===== verification/Log_Trace.thy ===== *)
theory Log_Trace
  imports System_Inv
begin

text \<open>
  What the state log of a run looks like. \<open>clean_log d S V\<close> says that the entries \<open>d\<close>, read one
  by one, never show two write holders of one artifact, that every commit by a writer comes from a
  write state and raises the version, and that they lead to the states \<open>S\<close> and the last committed
  versions \<open>V\<close>. \<open>in_step\<close> ties the delivered entries of a registry to its records; with a callback
  that never raises it is kept by every request except a deletion.
\<close>

section \<open>Clean logs\<close>

type_synonym agent_states = "uuid \<Rightarrow> uuid \<Rightarrow> MESIState option"

definition one_writer :: "agent_states \<Rightarrow> bool" where
  "one_writer S \<longleftrightarrow> (\<forall>art a b s t. S art a = Some s \<longrightarrow> S art b = Some t \<longrightarrow>
     s \<in> M_OR_E_STATES \<longrightarrow> t \<in> M_OR_E_STATES \<longrightarrow> a = b)"

definition writer_commit :: "log_entry \<Rightarrow> bool" where
  "writer_commit x \<longleftrightarrow> log_trigger x = ''commit'' \<and> to_state x \<in> M_OR_E_STATES"

definition next_states :: "log_entry \<Rightarrow> agent_states \<Rightarrow> agent_states" where
  "next_states x S = S(log_artifact x := (S (log_artifact x))(log_agent x \<mapsto> to_state x))"

definition next_version :: "log_entry \<Rightarrow> (uuid \<Rightarrow> int) \<Rightarrow> uuid \<Rightarrow> int" where
  "next_version x V = (if writer_commit x then V(log_artifact x := log_version x) else V)"

inductive clean_log :: "log_entry list \<Rightarrow> agent_states \<Rightarrow> (uuid \<Rightarrow> int) \<Rightarrow> bool" where
  clean_Nil: "clean_log [] (\<lambda>_ _. None) (\<lambda>_. - 1)"
| clean_Snoc: "clean_log d S V \<Longrightarrow> one_writer (next_states x S) \<Longrightarrow>
    (writer_commit x \<Longrightarrow> from_state x \<in> M_OR_E_STATES \<and> V (log_artifact x) < log_version x) \<Longrightarrow>
    clean_log (d @ [x]) (next_states x S) (next_version x V)"

lemma clean_one_writer: "clean_log d S V \<Longrightarrow> one_writer S"
  by (induction rule: clean_log.induct) (simp add: one_writer_def, assumption)

lemma one_writer_reader: "one_writer S \<Longrightarrow> to_state x \<notin> M_OR_E_STATES \<Longrightarrow> one_writer (next_states x S)"
  unfolding one_writer_def next_states_def by (auto split: if_splits)

lemma one_writer_only:
  assumes "one_writer S" and "\<And>p s. p \<noteq> log_agent x \<Longrightarrow> S (log_artifact x) p = Some s \<Longrightarrow> s \<notin> M_OR_E_STATES"
  shows "one_writer (next_states x S)"
  using assms unfolding one_writer_def next_states_def by (auto split: if_splits)

section \<open>Emissions that do not fail\<close>

definition logged :: "log_request \<Rightarrow> registry \<Rightarrow> registry" where
  "logged q g =
     (if state_log g = None then g
      else g\<lparr>seq := seq g + 1, delivered := delivered g @ [log_entry_of (g\<lparr>seq := seq g + 1\<rparr>) q]\<rparr>)"

lemma emit_reliable: "log_ok g \<Longrightarrow> emit_state_log q g = (Inr (if state_log g = None then 0 else 1), logged q g)"
  by (auto simp: emit_state_log_def logged_def log_ok_def Let_def split: option.splits)

lemma logged_frame [simp]:
  "records (logged q g) = records g" "log_ok (logged q g) = log_ok g" "state_log (logged q g) = state_log g"
  "instance_id (logged q g) = instance_id g" "agent_names (logged q g) = agent_names g" "get_artifact art (logged q g) = get_artifact art g"
  "get_agent_state art ag (logged q g) = get_agent_state art ag g"
  by (simp_all add: logged_def log_ok_def get_artifact_def get_agent_state_def)

lemma emit_batch_reliable: "log_ok g \<Longrightarrow> \<exists>k. emit_batch qs n g = (Inr k, fold logged qs g)"
  by (induction qs arbitrary: n g) (simp_all add: emit_reliable)

lemma fold_logged_frame [simp]:
  "records (fold logged qs g) = records g" "state_log (fold logged qs g) = state_log g"
  "log_ok (fold logged qs g) = log_ok g" "instance_id (fold logged qs g) = instance_id g"
  by (induction qs arbitrary: g) simp_all

lemma fold_logged_env: "\<exists>s d. fold logged qs g = g\<lparr>seq := s, delivered := d\<rparr>"
proof (induction qs arbitrary: g)
  case Nil
  show ?case by (intro exI [of _ "seq g"] exI [of _ "delivered g"]) simp
next
  case (Cons q qs)
  have "\<exists>s d. logged q g = g\<lparr>seq := s, delivered := d\<rparr>"
  proof (cases "state_log g")
    case None
    then have "logged q g = g\<lparr>seq := seq g, delivered := delivered g\<rparr>" by (simp add: logged_def)
    then show ?thesis by blast
  qed (auto simp: logged_def)
  then obtain s d where "logged q g = g\<lparr>seq := s, delivered := d\<rparr>" by blast
  with Cons.IH [of "g\<lparr>seq := s, delivered := d\<rparr>"] show ?case by auto
qed

lemma wp_set_agent_state_reliable:
  assumes "log_ok g"
  shows "wp (set_agent_state art ag st trig tick h) Q E g =
    (case dict_get (records g) art of None \<Rightarrow> E KeyError g
     | Some r \<Rightarrow> Q () (logged (LogRequest art ag (grant_of r ag) st trig tick (art_version (artifact r)) h)
         (put_record art (apply_agent_state ag st trig tick r) g)))"
proof (cases "dict_get (records g) art")
  case (Some r)
  have "log_ok (put_record art (apply_agent_state ag st trig tick r) g)" using assms by simp
  from emit_reliable [OF this] Some show ?thesis
    by (simp add: set_agent_state_def wp_simps) (simp add: wp_def ret_def)
qed (simp add: set_agent_state_def wp_simps)

section \<open>The log and the registry\<close>

abbreviation states_of :: "registry \<Rightarrow> agent_states" where
  "states_of g \<equiv> \<lambda>art ag. get_agent_state art ag g"

definition version_seen :: "uuid set \<Rightarrow> registry \<Rightarrow> uuid \<Rightarrow> int \<Rightarrow> bool" where
  "version_seen B g art v =
     (case get_artifact art g of None \<Rightarrow> v = - 1
      | Some a \<Rightarrow> v < art_version a \<or> art \<notin> B \<and> v = art_version a)"

definition numbered :: "registry \<Rightarrow> bool" where
  "numbered g \<longleftrightarrow> seq g = int (length (delivered g)) \<and>
     map sequence_number (delivered g) = map int [1..<Suc (length (delivered g))] \<and>
     (\<forall>x \<in> set (delivered g). log_instance x = instance_id g)"

text \<open>\<open>B\<close>: the artifacts whose current version no commit entry has announced yet.\<close>

definition in_step :: "uuid set \<Rightarrow> registry \<Rightarrow> bool" where
  "in_step B g \<longleftrightarrow> log_ok g \<and> numbered g \<and>
     (if state_log g = None then delivered g = []
      else \<exists>V. clean_log (delivered g) (states_of g) V \<and> (\<forall>art. version_seen B g art (V art)))"

lemma version_seen_weaken: "version_seen B g art v \<Longrightarrow> B' \<subseteq> B \<Longrightarrow> version_seen B' g art v"
  by (auto simp: version_seen_def split: option.splits)

lemma in_step_weaken: "in_step B g \<Longrightarrow> B' \<subseteq> B \<Longrightarrow> in_step B' g"
  unfolding in_step_def using version_seen_weaken by (simp split: if_splits) blast

lemma in_step_log_ok: "in_step B g \<Longrightarrow> log_ok g"
  by (simp add: in_step_def)

text \<open>The statement reads the states, the versions and the log only.\<close>

lemma in_step_cong:
  assumes "in_step B g" and "state_log g' = state_log g" "delivered g' = delivered g" "seq g' = seq g"
    "instance_id g' = instance_id g"
    and "\<And>art ag. get_agent_state art ag g' = get_agent_state art ag g"
    and "\<And>art. map_option art_version (get_artifact art g') = map_option art_version (get_artifact art g)"
  shows "in_step B g'"
proof -
  have "version_seen B g' art v = version_seen B g art v" for art v
    using assms(7) [of art] by (auto simp: version_seen_def split: option.splits)
  with assms show ?thesis by (simp add: in_step_def numbered_def log_ok_def)
qed

lemma put_record_log [simp]:
  "delivered (put_record art r g) = delivered g" "seq (put_record art r g) = seq g"
  "instance_id (put_record art r g) = instance_id g"
  by (simp_all add: put_record_def)

lemma in_step_put:
  assumes "in_step B g" and "dict_get (records g) art = Some r"
    and "state_by_agent r' = state_by_agent r" and "art_version (artifact r') = art_version (artifact r)"
  shows "in_step B (put_record art r' g)"
  by (rule in_step_cong [OF assms(1)])
    (use assms in \<open>auto simp: get_agent_state_def get_artifact_def\<close>)

lemma numbered_logged: "numbered g \<Longrightarrow> numbered (logged q g)"
  by (auto simp: numbered_def logged_def log_entry_of_def)

lemma in_step_logged:
  assumes st: "in_step B g" and some: "state_log g \<noteq> None"
    and states: "\<And>a p. get_agent_state a p h = (if a = rq_artifact q \<and> p = rq_agent q then Some (rq_to q) else get_agent_state a p g)"
    and same: "records h' = records h" "h' = logged q (g\<lparr>records := records h\<rparr>)"
    and arts: "\<And>a. get_artifact a h = get_artifact a g"
    and only: "rq_to q \<in> M_OR_E_STATES \<Longrightarrow>
      (\<And>p s. p \<noteq> rq_agent q \<Longrightarrow> get_agent_state (rq_artifact q) p g = Some s \<Longrightarrow> s \<notin> M_OR_E_STATES)"
    and commit: "rq_trigger q = ''commit'' \<Longrightarrow> rq_to q \<in> M_OR_E_STATES \<Longrightarrow> rq_from q \<in> M_OR_E_STATES \<and>
      rq_artifact q \<in> B \<and> (\<exists>a. get_artifact (rq_artifact q) g = Some a \<and> art_version a = rq_version q)"
  shows "in_step (if rq_trigger q = ''commit'' \<and> rq_to q \<in> M_OR_E_STATES then B - {rq_artifact q} else B) h'"
proof -
  let ?B = "if rq_trigger q = ''commit'' \<and> rq_to q \<in> M_OR_E_STATES then B - {rq_artifact q} else B"
  let ?x = "log_entry_of (g\<lparr>seq := seq g + 1\<rparr>) q"
  obtain V where V: "clean_log (delivered g) (states_of g) V" "\<And>art. version_seen B g art (V art)"
    using st some unfolding in_step_def by auto
  have x: "log_artifact ?x = rq_artifact q" "log_agent ?x = rq_agent q" "to_state ?x = rq_to q" "from_state ?x = rq_from q"
    "log_version ?x = rq_version q" "log_trigger ?x = rq_trigger q" by (simp_all add: log_entry_of_def)
  have old: "one_writer (states_of g)" by (rule clean_one_writer [OF V(1)])
  have one: "one_writer (next_states ?x (states_of g))"
  proof (cases "rq_to q \<in> M_OR_E_STATES")
    case True
    from only [OF this] show ?thesis by (intro one_writer_only [OF old]) (simp add: x)
  qed (use one_writer_reader [OF old, of ?x] x in simp)
  have fresh: "from_state ?x \<in> M_OR_E_STATES \<and> V (log_artifact ?x) < log_version ?x" if "writer_commit ?x"
    using commit V(2) [of "rq_artifact q"] that by (auto simp: writer_commit_def x version_seen_def)
  have clean: "clean_log (delivered g @ [?x]) (next_states ?x (states_of g)) (next_version ?x V)"
    by (rule clean_Snoc [OF V(1) one fresh])
  have sh: "get_agent_state a p h' = get_agent_state a p h" "get_artifact a h' = get_artifact a h" for a p
    using same(1) by (simp_all add: get_agent_state_def get_artifact_def)
  have "next_states ?x (states_of g) = states_of h'"
    by (intro ext) (simp add: next_states_def x sh states)
  moreover have "delivered h' = delivered g @ [?x]" using some by (simp add: same(2) logged_def log_entry_of_def)
  moreover have "version_seen ?B h' a (next_version ?x V a)" for a
    using V(2) [of a] commit
    by (auto simp: version_seen_def sh arts next_version_def writer_commit_def x split: option.splits if_splits)
  moreover have "numbered h'" unfolding same(2) by (rule numbered_logged) (use st in \<open>simp add: in_step_def numbered_def\<close>)
  moreover have "log_ok h'" "state_log h' \<noteq> None" using st some by (simp_all add: same(2) in_step_def log_ok_def)
  ultimately show ?thesis using clean unfolding in_step_def by (simp add: exI [of _ "next_version ?x V"] del: M_OR_E_iff)
qed

section \<open>The operations\<close>

lemma wp_log_state:
  assumes st: "in_step B g" and r: "dict_get (records g) art = Some r"
    and only: "st \<in> M_OR_E_STATES \<Longrightarrow> (\<And>p. p \<noteq> ag \<Longrightarrow> grant_of r p \<notin> M_OR_E_STATES)"
    and commit: "trig = ''commit'' \<Longrightarrow> st \<in> M_OR_E_STATES \<Longrightarrow> grant_of r ag \<in> M_OR_E_STATES \<and> art \<in> B"
    and post: "\<And>g'. in_step (if trig = ''commit'' \<and> st \<in> M_OR_E_STATES then B - {art} else B) g' \<Longrightarrow> Q () g'"
  shows "wp (set_agent_state art ag st trig tick h) Q E g"
proof -
  let ?r = "apply_agent_state ag st trig tick r"
  let ?q = "LogRequest art ag (grant_of r ag) st trig tick (art_version (artifact r)) h"
  let ?B = "if trig = ''commit'' \<and> st \<in> M_OR_E_STATES then B - {art} else B"
  have "in_step ?B (logged ?q (put_record art ?r g))"
  proof (cases "state_log g")
    case None
    with st show ?thesis by (simp add: in_step_def logged_def numbered_def)
  next
    case (Some sink)
    have "in_step (if rq_trigger ?q = ''commit'' \<and> rq_to ?q \<in> M_OR_E_STATES then B - {rq_artifact ?q} else B)
      (logged ?q (put_record art ?r g))"
    proof (rule in_step_logged [OF st, where h = "put_record art ?r g"])
      show "logged ?q (put_record art ?r g) = logged ?q (g\<lparr>records := records (put_record art ?r g)\<rparr>)"
        by (simp add: put_record_def)
      show "get_agent_state a p (put_record art ?r g) =
        (if a = rq_artifact ?q \<and> p = rq_agent ?q then Some (rq_to ?q) else get_agent_state a p g)" for a p
        using r by (auto simp: get_agent_state_def)
      show "get_artifact a (put_record art ?r g) = get_artifact a g" for a
        using r by (simp add: get_artifact_def)
      show "s \<notin> M_OR_E_STATES" if "rq_to ?q \<in> M_OR_E_STATES" "p \<noteq> rq_agent ?q"
        "get_agent_state (rq_artifact ?q) p g = Some s" for p s
        using only [of p] that r by (simp add: get_agent_state_def get_default_eq_Some del: M_OR_E_iff)
      show "rq_from ?q \<in> M_OR_E_STATES \<and> rq_artifact ?q \<in> B \<and>
        (\<exists>a. get_artifact (rq_artifact ?q) g = Some a \<and> art_version a = rq_version ?q)"
        if "rq_trigger ?q = ''commit''" "rq_to ?q \<in> M_OR_E_STATES"
        using commit that r by (simp add: get_artifact_def del: M_OR_E_iff)
    qed (simp_all add: Some)
    then show ?thesis unfolding log_request.sel .
  qed
  from post [OF this] r show ?thesis by (simp add: wp_set_agent_state_reliable [OF in_step_log_ok [OF st]])
qed

lemma keeps_log_reader:
  assumes "st \<notin> M_OR_E_STATES"
  shows "keeps (in_step B) (set_agent_state art ag st trig tick h)"
proof (rule keepsI)
  fix g
  assume st: "in_step B g"
  show "wp (set_agent_state art ag st trig tick h) (\<lambda>_. in_step B) (\<lambda>_. in_step B) g"
  proof (cases "dict_get (records g) art")
    case None
    with st show ?thesis by (simp add: wp_set_agent_state_reliable [OF in_step_log_ok [OF st]])
  next
    case (Some r)
    show ?thesis by (rule wp_log_state [OF st Some]) (use assms in simp_all)
  qed
qed

lemma keeps_log_prims:
  "keeps (in_step B) (set_agent_state art ag INVALID trig tick h)"
  "keeps (in_step B) (set_agent_state art ag SHARED trig tick h)"
  by (rule keeps_log_reader, simp)+

lemma keeps_log_record:
  assumes "\<And>r. state_by_agent (f r) = state_by_agent r" and "\<And>r. artifact (f r) = artifact r"
  shows "keeps (in_step B) (with_record art (\<lambda>r. modify (put_record art (f r))))"
  by (rule keepsI) (auto simp: wp_simps assms split: option.split intro: in_step_put)

lemma keeps_log_slots:
  "keeps (in_step B) (set_agent_transient art ag ts t)" "keeps (in_step B) (clear_agent_transient art ag)"
  "keeps (in_step B) (record_last_reclamation ag art trig tick)" "keeps (in_step B) (validate_single_writer art)"
  unfolding set_agent_transient_def clear_agent_transient_def record_last_reclamation_def
  by (rule keeps_log_record; simp)+ (rule keepsI, simp add: wp_simps split: sum.split)

lemmas keeps_log = keeps_log_prims keeps_log_slots

lemma keeps_log_invalidate_peer: "keeps (in_step B) (invalidate_peer art ag trig v tick sigs peer)"
  unfolding invalidate_peer_def case_prod_unfold by (intro keeps_intros keeps_log)

lemma log_invalidate: "keeps (in_step B) (invalidate ag art new_v issuer tick abort)"
  unfolding invalidate_def invalidate_impl_def by (intro keeps_intros keeps_log)

lemma log_expire: "keeps (in_step B) (expire_pair cur timeout art n ag)"
  unfolding expire_pair_def by (intro keeps_intros keeps_log)

lemma log_reclaim: "keeps (in_step B) (reclaim_pair cur hb_timeout max_hold notices pair)"
  unfolding reclaim_pair_def case_prod_unfold by (intro keeps_intros keeps_log)

lemma log_heartbeat: "keeps (in_step B) (record_heartbeat ag now)"
proof (rule keepsI)
  fix g
  assume st: "in_step B g"
  have "in_step B (g\<lparr>heartbeat_by_agent := x\<rparr>)" for x
    by (rule in_step_cong [OF st]) (simp_all add: get_agent_state_def get_artifact_def)
  with st show "wp (record_heartbeat ag now) (\<lambda>_. in_step B) (\<lambda>_. in_step B) g"
    by (simp add: record_heartbeat_def reg_record_heartbeat_def wp_simps split: option.split)
qed

text \<open>The closing part of \<open>write\<close>, \<open>commit\<close> and \<open>fetch\<close>.\<close>

lemma log_grant_and_settle:
  assumes "in_step B g" and "dict_get (records g) art = Some r"
    and "st \<in> M_OR_E_STATES \<Longrightarrow> (\<And>p. p \<noteq> ag \<Longrightarrow> grant_of r p \<notin> M_OR_E_STATES)"
    and "trig = ''commit'' \<Longrightarrow> st \<in> M_OR_E_STATES \<Longrightarrow> grant_of r ag \<in> M_OR_E_STATES \<and> art \<in> B"
  shows "wp (grant_and_settle art ag st trig tick h x) (\<lambda>_. in_step {}) (\<lambda>_. in_step {}) g"
proof -
  have "wp (andthen (clear_agent_transient art ag) (\<lambda>_. andthen (validate_single_writer art) (\<lambda>_. ret x)))
      (\<lambda>_. in_step {}) (\<lambda>_. in_step {}) g'" if "in_step C g'" for g' C
    by (rule keepsD [rotated], rule in_step_weaken [OF that])
      (auto intro!: keeps_andthen keeps_log keeps_ret)
  then show ?thesis
    unfolding grant_and_settle_def wp_andthen [of "set_agent_state art ag st trig tick h"]
    by (intro wp_log_state [OF assms]) simp_all
qed

lemma log_invalidate_loop:
  assumes mid: "reg_mid False art g r" and st: "in_step B g"
    and post: "\<And>sigs g' r'. reg_mid False art g' r' \<Longrightarrow> in_step B g' \<Longrightarrow> (\<And>p. p \<noteq> ag \<Longrightarrow> grant_of r' p = INVALID) \<Longrightarrow>
      grant_of r' ag = grant_of r ag \<Longrightarrow> Q sigs g'"
    and err: "\<And>e g'. in_step B g' \<Longrightarrow> E e g'"
  shows "wp (for_loop (state_by_agent r) (invalidate_peer art ag trig v tick) []) Q E g"
proof -
  let ?done = "\<lambda>(sigs :: InvalidationSignal list) g'. \<exists>r'. reg_mid False art g' r' \<and>
    (\<forall>p. p \<noteq> ag \<longrightarrow> grant_of r' p = INVALID) \<and> grant_of r' ag = grant_of r ag"
  have "wp (for_loop (state_by_agent r) (invalidate_peer art ag trig v tick) []) ?done (\<lambda>_ _. True) g"
    by (rule mid_invalidate_loop [OF mid peers_listed_map]) blast+
  from wp_keeping [OF this keeps_for_loop [OF keeps_log_invalidate_peer] st]
  show ?thesis by (rule wp_mono) (auto intro: post err)
qed

lemma log_transient:
  assumes "reg_mid False art g r" and "in_step B g"
    and "\<And>g' r'. reg_mid False art g' r' \<Longrightarrow> in_step B g' \<Longrightarrow> state_by_agent r' = state_by_agent r \<Longrightarrow> artifact r' = artifact r \<Longrightarrow> Q () g'"
  shows "wp (set_agent_transient art ag ts t) Q E g"
proof -
  have "wp (set_agent_transient art ag ts t)
      (\<lambda>_ g'. \<exists>r'. reg_mid False art g' r' \<and> state_by_agent r' = state_by_agent r \<and> artifact r' = artifact r) (\<lambda>_ _. False) g"
    by (rule mid_set_agent_transient [OF assms(1)]) auto
  from wp_keeping [OF this keeps_log_slots(1) assms(2)]
  show ?thesis by (rule wp_mono) (auto intro: assms(3))
qed

definition in_step_ok :: "registry \<Rightarrow> bool" where
  "in_step_ok g \<longleftrightarrow> reg_ok False g \<and> in_step {} g"

lemma in_step_okI:
  assumes "keeps (reg_ok False) m" and "\<And>g. reg_ok False g \<Longrightarrow> in_step {} g \<Longrightarrow> wp m (\<lambda>_. in_step {}) (\<lambda>_. in_step {}) g"
  shows "keeps in_step_ok m"
proof (rule keepsI)
  fix g
  assume "in_step_ok g"
  then have "wp m (\<lambda>_ g'. in_step {} g' \<and> reg_ok False g') (\<lambda>_ g'. in_step {} g' \<and> reg_ok False g') g"
    by (intro wp_keeping assms) (simp_all add: in_step_ok_def)
  then show "wp m (\<lambda>_. in_step_ok) (\<lambda>_. in_step_ok) g"
    by (rule wp_mono) (simp_all add: in_step_ok_def)
qed

lemma log_write: "keeps in_step_ok (write_impl ag art tick)"
proof (rule in_step_okI [OF write_reg_ok])
  fix g
  assume ok: "reg_ok False g" and st: "in_step {} g"
  show "wp (write_impl ag art tick) (\<lambda>_. in_step {}) (\<lambda>_. in_step {}) g"
  proof (cases "dict_get (records g) art")
    case None
    with st show ?thesis by (simp add: write_impl_def wp_simps get_artifact_def)
  next
    case (Some r)
    with ok have mid: "reg_mid False art g r" by (simp add: reg_ok_open)
    have loop: "wp (for_loop (get_state_map art g') (invalidate_peer art ag ''write'' v tick) [])
        (\<lambda>sigs. wp (grant_and_settle art ag EXCLUSIVE ''write'' tick None sigs) (\<lambda>_. in_step {}) (\<lambda>_. in_step {}))
        (\<lambda>_. in_step {}) g'" if g': "reg_mid False art g' r'" "in_step {} g'" for g' r' v
    proof -
      have "get_state_map art g' = state_by_agent r'" using reg_mid_lookup [OF g'(1)] by (simp add: get_state_map_def)
      then show ?thesis
        by (simp, intro log_invalidate_loop [OF g'] log_grant_and_settle) (auto intro: reg_mid_lookup)
    qed
    have "wp (set_agent_transient art ag IED tick)
      (\<lambda>_. wp (andthen (asks (get_state_map art)) (\<lambda>state_map.
        andthen (for_loop state_map (invalidate_peer art ag ''write'' (art_version (artifact r)) tick) [])
          (grant_and_settle art ag EXCLUSIVE ''write'' tick None))) (\<lambda>_. in_step {}) (\<lambda>_. in_step {}))
      (\<lambda>_. in_step {}) g"
      unfolding wp_simps by (rule log_transient [OF mid st]) (rule loop)
    then show ?thesis
      unfolding write_impl_fold wp_simps get_artifact_def Some option.map option.case .
  qed
qed

lemma in_step_store:
  assumes "in_step {} g" and "dict_get (records g) art = Some r"
    and "state_by_agent r' = state_by_agent r" and "art_version (artifact r') = art_version (artifact r) + 1"
  shows "in_step {art} (put_record art r' g)"
proof -
  let ?g = "put_record art r' g"
  have "version_seen {art} ?g a v" if "version_seen {} g a v" for a v
    using that assms(2,4) by (auto simp: version_seen_def get_artifact_def split: option.splits)
  moreover have "states_of ?g = states_of g"
    using assms(2,3) by (intro ext) (simp add: get_agent_state_def)
  moreover have "numbered ?g" using assms(1) by (simp add: in_step_def numbered_def)
  ultimately show ?thesis
    using assms(1) unfolding in_step_def by (simp split: if_splits) blast
qed

lemma log_commit_tail:
  assumes mid: "reg_mid False art g r" and st: "in_step {art} g" and holder: "grant_of r ag \<in> M_OR_E_STATES"
  shows "wp (commit_tail sha256_hex ag art text tick chash upd) (\<lambda>_. in_step {}) (\<lambda>_. in_step {}) g"
proof -
  have "get_state_map art g = state_by_agent r" using reg_mid_lookup [OF mid] by (simp add: get_state_map_def)
  moreover have "wp (for_loop (state_by_agent r) (invalidate_peer art ag ''commit'' (art_version upd) tick) [])
     (\<lambda>sigs. wp (case chash of None \<Rightarrow> lift_sum (compute_content_hash sha256_hex (Text text)) | Some h \<Rightarrow> ret h)
        (\<lambda>h. wp (grant_and_settle art ag MODIFIED ''commit'' tick (Some h) (upd, sigs)) (\<lambda>_. in_step {}) (\<lambda>_. in_step {}))
        (\<lambda>_. in_step {})) (\<lambda>_. in_step {}) g"
  proof (rule log_invalidate_loop [OF mid st])
    fix sigs g' r'
    assume g': "reg_mid False art g' r'" "in_step {art} g'" and peers: "\<And>p. p \<noteq> ag \<Longrightarrow> grant_of r' p = INVALID"
      and own: "grant_of r' ag = grant_of r ag"
    have "wp (grant_and_settle art ag MODIFIED ''commit'' tick (Some h) (upd, sigs)) (\<lambda>_. in_step {}) (\<lambda>_. in_step {}) g'" for h
      by (rule log_grant_and_settle [OF g'(2) reg_mid_lookup [OF g'(1)]]) (use peers own holder in simp_all)
    then show "wp (case chash of None \<Rightarrow> lift_sum (compute_content_hash sha256_hex (Text text)) | Some h \<Rightarrow> ret h)
        (\<lambda>h. wp (grant_and_settle art ag MODIFIED ''commit'' tick (Some h) (upd, sigs)) (\<lambda>_. in_step {}) (\<lambda>_. in_step {}))
        (\<lambda>_. in_step {}) g'"
      by (simp add: wp_simps compute_content_hash_def split: option.split)
  qed (rule in_step_weaken, assumption, simp)
  ultimately show ?thesis unfolding commit_tail_def wp_simps by simp
qed

lemma log_commit: "keeps in_step_ok (commit_impl sha256_hex ag art text tick chash toks)"
proof (rule in_step_okI [OF commit_reg_ok])
  fix g
  assume ok: "reg_ok False g" and st: "in_step {} g"
  show "wp (commit_impl sha256_hex ag art text tick chash toks) (\<lambda>_. in_step {}) (\<lambda>_. in_step {}) g"
  proof (cases "get_agent_state art ag g \<in> {Some EXCLUSIVE, Some MODIFIED}")
    case False
    with st show ?thesis by (auto simp: commit_impl_def wp_simps split: option.split)
  next
    case True
    then obtain r where r: "dict_get (records g) art = Some r" by (auto simp: get_agent_state_def bind_eq_Some_conv)
    with ok have mid: "reg_mid False art g r" by (simp add: reg_ok_open)
    have holder: "grant_of r ag \<in> M_OR_E_STATES" by (rule mid_holder [OF mid True])
    let ?upd = "\<lparr>art_id = art_id (artifact r), art_name = art_name (artifact r),
      art_version = art_version (artifact r) + 1,
      art_hash = (case chash of None \<Rightarrow> art_hash (artifact r) | Some h \<Rightarrow> Some h),
      art_tokens = (case toks of None \<Rightarrow> art_tokens (artifact r) | Some t \<Rightarrow> Some t),
      art_depends_on = art_depends_on (artifact r)\<rparr>"
    have store: "wp (set_artifact_and_content art ?upd (Text text) (Some ag) (Some ag))
        (\<lambda>_. wp (commit_tail sha256_hex ag art text tick chash ?upd) (\<lambda>_. in_step {}) (\<lambda>_. in_step {})) E g'"
      if g': "reg_mid False art g' r'" "in_step {} g'" "state_by_agent r' = state_by_agent r" "artifact r' = artifact r" for g' r' E
    proof -
      let ?r = "stored g' ?upd (Text text) (Some ag) r'"
      have inv: "rec_inv r'" by (rule reg_mid_inv [OF g'(1)])
      have "rec_ok False art r" using mid by (simp add: reg_mid_def)
      then have "rec_ok False art ?r" using g'(4) rec_inv_cong [OF inv, of ?r] by (simp add: rec_ok_def)
      then have "reg_mid False art (put_record art ?r g') ?r" by (rule reg_mid_put [OF g'(1)])
      moreover have "in_step {art} (put_record art ?r g')"
        by (rule in_step_store [OF g'(2) reg_mid_lookup [OF g'(1)]]) (simp_all add: g'(4))
      ultimately have "wp (commit_tail sha256_hex ag art text tick chash ?upd) (\<lambda>_. in_step {}) (\<lambda>_. in_step {})
          (put_record art ?r g')" by (rule log_commit_tail) (use holder g'(3) in simp)
      moreover have "\<not> fenced_out ag r'" by (rule holder_not_fenced [OF inv]) (use holder g'(3) in simp)
      ultimately show ?thesis by (simp add: wp_simps reg_mid_lookup [OF g'(1)])
    qed
    have "wp (set_agent_transient art ag MWB tick)
      (\<lambda>_. wp (andthen (except (set_artifact_and_content art ?upd (Text text) (Some ag) (Some ag))
        (\<lambda>e. case e of StaleReadGeneration _ _ _ _ \<Rightarrow> andthen (clear_agent_transient art ag) (\<lambda>_. throw e)
             | _ \<Rightarrow> throw e)) (\<lambda>_. commit_tail sha256_hex ag art text tick chash ?upd))
        (\<lambda>_. in_step {}) (\<lambda>_. in_step {})) (\<lambda>_. in_step {}) g"
      unfolding wp_andthen wp_except by (rule log_transient [OF mid st]) (rule store)
    with True r show ?thesis
      unfolding commit_impl_fold by (simp only: wp_simps get_artifact_def option.map option.case if_False
          not_True_eq_False Let_def)
  qed
qed

lemma log_downgrade: "keeps (in_step B) (downgrade_holder art tick m u p)"
  unfolding downgrade_holder_def by (intro keeps_intros keeps_log)

lemma log_fetch_loop:
  fixes r :: ArtifactRecord
  assumes mid: "reg_mid False art g r'" and st: "in_step {} g" and smap: "state_by_agent r' = state_by_agent r"
  shows "wp (andthen (for_loop (other_holders ag (state_by_agent r)) (downgrade_holder art tick (state_by_agent r)) ())
     (\<lambda>_. grant_and_settle art ag (fetch_grant ag (state_by_agent r)) ''fetch'' tick None x)) (\<lambda>_. in_step {}) (\<lambda>_. in_step {}) g"
proof -
  let ?loop = "for_loop (other_holders ag (state_by_agent r)) (downgrade_holder art tick (state_by_agent r)) ()"
  have ok: "rec_ok False art r'" using mid by (simp add: reg_mid_def)
  then have sw: "swmr r" using smap by (simp add: rec_ok_def rec_inv_def swmr_def)
  have "wp ?loop (\<lambda>_. downgrading False art ag r []) (\<lambda>_ _. True) g"
  proof (rule wp_for_loop [where I = "\<lambda>ys _. downgrading False art ag r ys"])
    show "downgrading False art ag r (other_holders ag (state_by_agent r)) g"
      by (rule downgrading_start [OF mid ok smap])
  qed (auto intro: downgrading_step [OF _ sw])
  from wp_keeping [OF this keeps_for_loop [OF log_downgrade] st] show ?thesis
    unfolding wp_andthen
  proof (rule wp_mono)
    fix u t
    assume "downgrading False art ag r [] t \<and> in_step {} t"
    then obtain s where s: "reg_mid False art t s" and none: "\<And>p. p \<noteq> ag \<Longrightarrow> grant_of s p \<notin> M_OR_E_STATES"
      and t: "in_step {} t" unfolding downgrading_def by auto
    show "wp (grant_and_settle art ag (fetch_grant ag (state_by_agent r)) ''fetch'' tick None x)
        (\<lambda>_. in_step {}) (\<lambda>_. in_step {}) t"
      by (rule log_grant_and_settle [OF t reg_mid_lookup [OF s]]) (use none in simp_all)
  qed simp
qed

lemma log_fetch: "keeps in_step_ok (fetch art ag tick)"
proof (rule in_step_okI [OF fetch_reg_ok])
  fix g
  assume ok: "reg_ok False g" and st: "in_step {} g"
  show "wp (fetch art ag tick) (\<lambda>_. in_step {}) (\<lambda>_. in_step {}) g"
  proof (cases "dict_get (records g) art")
    case None
    with st show ?thesis by (simp add: fetch_def wp_simps get_artifact_def)
  next
    case (Some r)
    with ok have mid: "reg_mid False art g r" by (simp add: reg_ok_open)
    let ?rest = "andthen (for_loop (other_holders ag (state_by_agent r)) (downgrade_holder art tick (state_by_agent r)) ())
      (\<lambda>_. grant_and_settle art ag (fetch_grant ag (state_by_agent r)) ''fetch'' tick None
        (FetchResponse art (art_version (artifact r)) (rec_content r) (fetch_grant ag (state_by_agent r))))"
    have "wp (set_agent_transient art ag ts tick)
        (\<lambda>_. wp ?rest (\<lambda>_. in_step {}) (\<lambda>_. in_step {})) (\<lambda>_. in_step {}) g" for ts
      by (rule log_transient [OF mid st]) (rule log_fetch_loop)
    moreover have "get_artifact art g = Some (artifact r)" "get_content art g = Some (rec_content r)"
        "get_state_map art g = state_by_agent r"
      using Some by (simp_all add: get_artifact_def get_content_def get_state_map_def)
    ultimately show ?thesis unfolding fetch_fold by (simp only: wp_simps option.case)
  qed
qed

section \<open>Compare-and-swap\<close>

text \<open>The entries of a winning commit only take states down: peers to INVALID, the winner to SHARED.\<close>

definition request_states :: "log_request \<Rightarrow> agent_states \<Rightarrow> agent_states" where
  "request_states q S = S(rq_artifact q := (S (rq_artifact q))(rq_agent q \<mapsto> rq_to q))"

lemma clean_batch:
  assumes "clean_log (delivered g) S V" and "state_log g \<noteq> None" and "\<forall>q \<in> set qs. rq_to q \<notin> M_OR_E_STATES"
  shows "clean_log (delivered (fold logged qs g)) (fold request_states qs S) V"
  using assms
proof (induction qs arbitrary: g S)
  case (Cons q qs)
  let ?x = "log_entry_of (g\<lparr>seq := seq g + 1\<rparr>) q"
  have x: "log_artifact ?x = rq_artifact q" "log_agent ?x = rq_agent q" "to_state ?x = rq_to q" by (simp_all add: log_entry_of_def)
  have quiet: "\<not> writer_commit ?x" using Cons.prems(3) by (simp add: writer_commit_def x)
  have "clean_log (delivered g @ [?x]) (next_states ?x S) (next_version ?x V)"
    by (rule clean_Snoc [OF Cons.prems(1)])
      (use Cons.prems clean_one_writer one_writer_reader quiet in \<open>auto simp: x\<close>)
  moreover have "next_states ?x S = request_states q S" by (simp add: next_states_def request_states_def x)
  ultimately have "clean_log (delivered (logged q g)) (request_states q S) V"
    using quiet Cons.prems(2) by (auto simp: logged_def next_version_def)
  with Cons.prems Cons.IH [of "logged q g" "request_states q S"] show ?case by simp
qed simp

lemma numbered_fold: "numbered g \<Longrightarrow> numbered (fold logged qs g)"
  by (induction qs arbitrary: g) (simp_all add: numbered_logged)

lemma in_step_batch:
  fixes g :: registry
  assumes st: "in_step {} g" and quiet: "\<forall>q \<in> set qs. rq_to q \<notin> M_OR_E_STATES"
    and g': "g' = fold logged qs g\<lparr>records := rs\<rparr>"
    and states: "\<And>a b. get_agent_state a b g' = fold request_states qs (states_of g) a b"
    and grow: "\<And>a. case get_artifact a g of None \<Rightarrow> get_artifact a g' = None
      | Some x \<Rightarrow> (\<exists>y. get_artifact a g' = Some y \<and> art_version x \<le> art_version y)"
  shows "in_step {} g'"
proof (cases "state_log g")
  case None
  then have "fold logged qs g = g" by (induction qs) (simp_all add: logged_def)
  with None st show ?thesis by (simp add: g' in_step_def numbered_def log_ok_def)
next
  case (Some sink)
  then obtain V where V: "clean_log (delivered g) (states_of g) V" "\<And>art. version_seen {} g art (V art)"
    using st unfolding in_step_def by auto
  have "clean_log (delivered (fold logged qs g)) (fold request_states qs (states_of g)) V"
    by (rule clean_batch [OF V(1) _ quiet]) (simp add: Some)
  moreover have "fold request_states qs (states_of g) = states_of g'" by (intro ext) (simp add: states)
  moreover have "version_seen {} g' a (V a)" for a
    using V(2) [of a] grow [of a] by (fastforce simp: version_seen_def split: option.splits)
  moreover have "numbered (fold logged qs g)" using st by (simp add: in_step_def numbered_fold)
  then have "numbered g'" by (simp add: g' numbered_def)
  ultimately show ?thesis using st Some by (auto simp: g' in_step_def log_ok_def)
qed

lemma fold_peer_requests:
  "fold request_states (map (\<lambda>(p, f). LogRequest art p f INVALID trig tick v None) ps) S a b =
     (if a = art \<and> b \<in> fst ` set ps then Some INVALID else S a b)"
  by (induction ps arbitrary: S) (auto simp: request_states_def)

lemma states_invalidate_peers:
  "dict_get (state_by_agent (invalidate_peers ps r)) b =
     (if b \<in> fst ` set ps then Some INVALID else dict_get (state_by_agent r) b)"
  by (induction ps r rule: invalidate_peers.induct) (auto simp: Let_def)

lemma states_won_record:
  "dict_get (state_by_agent (won_record g art ag chash toks c r)) b =
     (if b = ag then Some SHARED else if b \<in> fst ` set (valid_peers ag r) then Some INVALID
      else dict_get (state_by_agent r) b)"
  by (auto simp: won_record_def apply_win_def Let_def states_invalidate_peers split: option.split)

lemma win_request_states:
  assumes "S art = dict_get (state_by_agent r)"
  shows "fold request_states (win_requests art ag chash trig tick r) S a b =
    (if a = art then dict_get (state_by_agent (won_record g art ag chash' toks c r)) b else S a b)"
  using assms unfolding win_requests_def
  by (simp add: fold_peer_requests request_states_def states_won_record)

lemma win_requests_quiet: "\<forall>q \<in> set (win_requests art ag chash trig tick r). rq_to q \<notin> M_OR_E_STATES"
  by (auto simp: win_requests_def)

lemma wp_emit_batch_reliable: "log_ok g \<Longrightarrow> (\<And>k. Q k (fold logged qs g)) \<Longrightarrow> wp (emit_batch qs n) Q E g"
  using emit_batch_reliable [of g qs n] by (auto simp: wp_def)

lemma fold_logged_same_env: "same_env g (fold logged qs g)"
  using fold_logged_env [of qs g] by auto

lemma in_step_conflict: "in_step B g \<Longrightarrow> in_step B (note_conflict art ag why g)"
  by (erule in_step_cong) (simp_all add: note_conflict_def get_agent_state_def get_artifact_def)

lemma log_reg_commit_cas:
  assumes st: "in_step {} g"
  shows "wp (reg_commit_cas art ag expected chash toks c tick trig) (\<lambda>_. in_step {}) (\<lambda>_. in_step {}) g"
proof (cases "dict_get (records g) art")
  case None
  with st show ?thesis by (simp add: reg_commit_cas_def wp_simps)
next
  case (Some r)
  show ?thesis
  proof (cases "arbitrate ag expected r")
    case (Conflicting d)
    have "in_step {} (note_conflict art ag (detail_reason d) g)" by (rule in_step_conflict [OF st])
    with Some Conflicting show ?thesis by (simp add: reg_commit_cas_def wp_simps)
  next
    case Admitted
    let ?upd = "bumped_artifact art chash toks (artifact r)" and ?qs = "win_requests art ag chash trig tick r"
    let ?r = "won_record g art ag chash toks c r"
    have "in_step {} (put_record art ?r (fold logged ?qs g))"
    proof (rule in_step_batch [OF st win_requests_quiet [of art ag chash trig tick r]])
      show "put_record art ?r (fold logged ?qs g) = fold logged ?qs g\<lparr>records := dict_set art ?r (records g)\<rparr>"
        by (simp add: put_record_def)
      show "get_agent_state a b (put_record art ?r (fold logged ?qs g)) = fold request_states ?qs (states_of g) a b" for a b
        using Some by (subst win_request_states [of "states_of g" art r]) (auto simp: get_agent_state_def)
      show "case get_artifact a g of None \<Rightarrow> get_artifact a (put_record art ?r (fold logged ?qs g)) = None
        | Some x \<Rightarrow> \<exists>y. get_artifact a (put_record art ?r (fold logged ?qs g)) = Some y \<and> art_version x \<le> art_version y" for a
        using Some by (auto simp: get_artifact_def bumped_artifact_def split: option.split)
    qed
    then have "in_step {} (put_record art (apply_win (fold logged ?qs g) ag c ?upd (valid_peers ag r) r) (fold logged ?qs g))"
      by (simp add: won_record_def apply_win_env [OF fold_logged_same_env])
    then have "wp (emit_batch ?qs 0)
       (\<lambda>_. wp (andthen (modify (\<lambda>g'. put_record art (apply_win g' ag c ?upd (valid_peers ag r) r) g'))
          (\<lambda>_. ret (CasWin ?upd (map fst (valid_peers ag r))))) (\<lambda>_. in_step {}) (\<lambda>_. in_step {})) (\<lambda>_. in_step {}) g"
      by (intro wp_emit_batch_reliable in_step_log_ok [OF st]) (simp add: wp_simps)
    with Some Admitted show ?thesis by (simp add: reg_commit_cas_def wp_simps Let_def)
  qed (use Some st in \<open>simp add: reg_commit_cas_def wp_simps\<close>)
qed

lemma log_commit_cas: "keeps (in_step {}) (commit_cas ag art expected chash tick toks c abort)"
proof -
  have cas: "keeps (in_step {}) (reg_commit_cas art ag expected chash toks c tick trig)" for trig
    by (rule keepsI) (rule log_reg_commit_cas)
  show ?thesis
    unfolding commit_cas_def commit_cas_impl_def case_write_holder
    by (intro keeps_intros cas)
      (simp split: cas_result.split add: keeps_ret keeps_throw keeps_andthen keeps_lift_sum keeps_log_slots)
qed

text \<open>The batch of \<open>commit_all\<close>: one group of requests for each member, on different artifacts.\<close>

lemma staged_request_states:
  assumes "dict_wf ws" and "\<And>a b. a \<in> fst ` set ws \<Longrightarrow> S a b = get_agent_state a b g"
  shows "fold request_states (concat (map st_requests (stage_members ag tick trig g ws))) S a b =
     (case dict_get ws a of None \<Rightarrow> S a b
      | Some e \<Rightarrow> (case dict_get (records g) a of None \<Rightarrow> S a b
          | Some r \<Rightarrow> dict_get (state_by_agent (member_record g ag a e r)) b))"
  using assms
proof (induction ws arbitrary: S)
  case (Cons w ws)
  obtain art e where w: "w = (art, e)" by (cases w)
  have new: "dict_get ws art = None" "art \<notin> fst ` set ws" using Cons.prems(1) w by (simp_all add: map_of_eq_None_iff)
  show ?case
  proof (cases "dict_get (records g) art")
    case None
    then show ?thesis using Cons.IH [of S] Cons.prems new w by (auto split: option.splits)
  next
    case (Some r)
    let ?S = "fold request_states (win_requests art ag (entry_hash e) trig tick r) S"
    have at: "S art = dict_get (state_by_agent r)"
      using Cons.prems(2) [of art] w Some by (intro ext) (simp add: get_agent_state_def)
    have S: "?S a b = (if a = art then dict_get (state_by_agent (member_record g ag art e r)) b else S a b)" for a b
      unfolding member_record_def by (rule win_request_states [of S art r, OF at])
    have "?S a b = get_agent_state a b g" if "a \<in> fst ` set ws" for a b
      using that new(2) Cons.prems(2) w by (auto simp: S)
    then have "fold request_states (concat (map st_requests (stage_members ag tick trig g ws))) ?S a b =
     (case dict_get ws a of None \<Rightarrow> ?S a b
      | Some e \<Rightarrow> (case dict_get (records g) a of None \<Rightarrow> ?S a b
          | Some r \<Rightarrow> dict_get (state_by_agent (member_record g ag a e r)) b))"
      using Cons.prems(1) w by (intro Cons.IH) simp_all
    then show ?thesis
      using Some w new by (auto simp: stage_member_def S split: option.splits)
  qed
qed simp

lemma staged_quiet:
  "\<forall>q \<in> set (concat (map st_requests (stage_members ag tick trig g ws))). rq_to q \<notin> M_OR_E_STATES"
  using win_requests_quiet
  by (induction ws rule: list.induct) (fastforce simp: stage_member_def split: option.splits)+

lemma in_step_all_won:
  fixes g :: registry
  assumes st: "in_step {} g" and wf: "dict_wf writes"
  shows "in_step {} (fold (apply_staged ag) (stage_members ag tick trig g writes)
    (fold logged (concat (map st_requests (stage_members ag tick trig g writes))) g))" (is "in_step {} ?h")
proof -
  let ?qs = "concat (map st_requests (stage_members ag tick trig g writes))"
  obtain s d where log: "fold logged ?qs g = g\<lparr>seq := s, delivered := d\<rparr>" using fold_logged_env by blast
  have rs: "dict_get (records ?h) a = (case dict_get writes a of None \<Rightarrow> dict_get (records g) a
      | Some e \<Rightarrow> map_option (member_record g ag a e) (dict_get (records g) a))" for a
    using fold_apply_staged [OF wf, of "fold logged ?qs g" g] by (simp add: log split: option.split)
  obtain xs where xs: "?h = fold logged ?qs g\<lparr>records := xs\<rparr>" using fold_apply_staged_frame by blast
  show ?thesis
  proof (rule in_step_batch [OF st staged_quiet xs])
    show "get_agent_state a b ?h = fold request_states ?qs (states_of g) a b" for a b
      by (subst staged_request_states [OF wf]) (simp_all add: get_agent_state_def rs split: option.split)
    show "case get_artifact a g of None \<Rightarrow> get_artifact a ?h = None
      | Some x \<Rightarrow> \<exists>y. get_artifact a ?h = Some y \<and> art_version x \<le> art_version y" for a
      by (auto simp: get_artifact_def rs member_record_def bumped_artifact_def split: option.split)
  qed
qed

lemma log_reg_commit_all:
  assumes wf: "dict_wf writes"
  shows "keeps (in_step {}) (reg_commit_all ag writes tick trig)"
proof (rule keepsI)
  fix g
  assume st: "in_step {} g"
  have noted: "in_step {} (fold (\<lambda>(art, d). note_conflict art ag (detail_reason d)) cs g)" for cs
    using st by (induction cs arbitrary: g) (auto intro: in_step_conflict)
  let ?ss = "stage_members ag tick trig g writes"
  have "wp (andthen (emit_batch (concat (map st_requests ?ss)) 0) (\<lambda>_.
      andthen (modify (fold (apply_staged ag) ?ss)) (\<lambda>_. ret (MultiWin (multi_commit_result ?ss)))))
      (\<lambda>_. in_step {}) (\<lambda>_. in_step {}) g"
    unfolding wp_andthen
    by (rule wp_emit_batch_reliable [OF in_step_log_ok [OF st]]) (simp add: wp_simps in_step_all_won [OF st wf])
  with st noted show "wp (reg_commit_all ag writes tick trig) (\<lambda>_. in_step {}) (\<lambda>_. in_step {}) g"
    by (auto simp: wp_def reg_commit_all_def Let_def split: sum.split check_outcome.split)
qed

lemma log_commit_all:
  assumes "dict_wf writes"
  shows "keeps (in_step {}) (commit_all ag writes tick abort)"
proof -
  have sigs: "keeps (in_step {}) (for_loop vs (member_signals ag tick res) acc)" for vs res acc
    unfolding member_signals_def case_prod_unfold by (intro keeps_intros keeps_log)
  have pre: "keeps (in_step {}) (for_loop writes (commit_all_precondition ag) ())"
    unfolding commit_all_precondition_def case_prod_unfold case_write_holder by (intro keeps_intros)
  show ?thesis
    unfolding commit_all_def commit_all_impl_def
    by (intro keeps_intros pre log_reg_commit_all [OF assms])
      (simp split: multi_result.split add: keeps_ret keeps_throw keeps_andthen sigs)
qed

section \<open>Every request\<close>

lemma in_step_register:
  assumes st: "in_step {} g" and new: "dict_get (records g) (art_id a) = None" and v: "art_version a = 1"
  shows "in_step {} (snd (reg_register_artifact a c g))"
proof -
  obtain r where h: "snd (reg_register_artifact a c g) = put_record (art_id a) r g"
    and r: "state_by_agent r = []" "artifact r = a"
    by (auto simp: reg_register_artifact_def modify_def Let_def new_ArtifactRecord_def)
  let ?h = "put_record (art_id a) r g"
  have "states_of ?h = states_of g"
    using new r by (intro ext) (auto simp: get_agent_state_def)
  moreover have "version_seen {} ?h b w" if "version_seen {} g b w" for b w
    using that new r v by (auto simp: version_seen_def get_artifact_def)
  moreover have "numbered ?h" using st by (simp add: in_step_def numbered_def)
  ultimately have "in_step {} ?h"
    using st unfolding in_step_def by (simp split: if_splits) blast
  then show ?thesis by (simp add: h)
qed

lemma in_step_first_owner:
  assumes st: "in_step {} g" and new: "dict_get (records g) art = None"
  shows "in_step {} (snd (register_artifact art name c (Some ag) toks chash deps g))"
proof -
  let ?a = "\<lparr>art_id = art, art_name = name, art_version = 1, art_hash = chash, art_tokens = toks, art_depends_on = deps\<rparr>"
  let ?h = "snd (reg_register_artifact ?a c g)"
  have h: "in_step {} ?h" by (rule in_step_register [OF st]) (simp_all add: new)
  have reg: "wp (reg_register_artifact ?a c) Q E g = Q () ?h" for Q E
    by (simp add: reg_register_artifact_def wp_def modify_def)
  obtain r where r: "dict_get (records ?h) art = Some r" "state_by_agent r = []"
    by (simp add: reg_register_artifact_def modify_def Let_def new_ArtifactRecord_def)
  have "wp (set_agent_state art ag EXCLUSIVE ''register'' 0 None) (\<lambda>_. in_step {}) (\<lambda>_. in_step {}) ?h"
    by (rule wp_log_state [OF h r(1)]) (simp_all add: r(2) get_default_def)
  then have "wp (register_artifact art name c (Some ag) toks chash deps) (\<lambda>_. in_step {}) (\<lambda>_. in_step {}) g"
    using reg by (simp add: register_artifact_def Let_def wp_andthen [abs_def] wp_ret [abs_def])
  then show ?thesis by (simp add: wp_state)
qed

lemma in_step_ok_environment:
  "in_step_ok g \<Longrightarrow> in_step_ok (g\<lparr>session_pins := pins, session_meta := meta\<rparr>)"
  "in_step_ok g \<Longrightarrow> in_step_ok (g\<lparr>checkpoints := cps, checkpoint_members := members\<rparr>)"
  "in_step_ok g \<Longrightarrow> in_step_ok (g\<lparr>wall_clock := now\<rparr>)"
  by (auto simp: in_step_ok_def get_agent_state_def get_artifact_def elim!: in_step_cong)

lemma in_step_ok_keeps: "keeps (reg_ok False) m \<Longrightarrow> keeps (in_step {}) m \<Longrightarrow> keeps in_step_ok m"
  by (rule in_step_okI) (simp_all add: keepsD)

interpretation trace: coordinator_frame in_step_ok "\<lambda>_ _. True" "\<lambda>_. True" "\<lambda>_. False"
proof (unfold_locales, goal_cases)
  case (10 g a c)
  then show ?case by (auto simp: in_step_ok_def intro: reg_ok_register in_step_register)
next
  case (11 g art ag name c toks chash deps)
  then show ?case
    using coh.op_first_owner [of False g art] by (auto simp: in_step_ok_def intro: in_step_first_owner)
next
  case (14 g h)
  then show ?case by (auto elim!: manifest_updateE intro: in_step_ok_environment)
qed (simp_all add: write_op_def commit_def keeps_abort_guard log_fetch log_write log_commit in_step_ok_environment
    in_step_ok_keeps coh.op_commit_cas coh.op_commit_all coh.op_invalidate coh.op_heartbeat coh.op_expire coh.op_reclaim
    log_commit_cas log_commit_all log_invalidate log_heartbeat log_expire log_reclaim)

text \<open>Any request except a deletion.\<close>

abbreviation no_deletion :: "request \<Rightarrow> service \<Rightarrow> bool" where
  "no_deletion \<equiv> permitted (\<lambda>_ _. True) (\<lambda>_. True) (\<lambda>_. False)"

lemma coord_init_in_step: "coord_init s \<Longrightarrow> log_ok (svc_registry s) \<Longrightarrow> on_reg in_step_ok s"
  using coord_init_reg_ok [of s]
  by (auto elim!: coord_initE simp: new_ArtifactRegistry_def new_CoordinatorService_def on_reg_def in_step_ok_def
      in_step_def numbered_def version_seen_def get_artifact_def get_agent_state_def intro!: exI clean_Nil split: if_splits)

interpretation traced: invariant_system "\<lambda>s. coord_init s \<and> log_ok (svc_registry s)"
    "coord_step sha u5 no_deletion" "on_reg in_step_ok"
  for sha u5
  by unfold_locales (auto intro: coord_init_in_step trace.perform_keeps elim!: coord_stepE)

end
