(* ===== verification/Replay_Loader.thy ===== *)
theory Replay_Loader
  imports Agent_Runtime
begin

text \<open>
  Recorded traces: the entries of the two streams as JSON objects, and \<^verbatim>\<open>src/ccs/replay/loader.py\<close>,
  which opens a recorded session and merges its streams. A stream file is the list of its lines: a
  line is blank, not JSON, or an object. The values of an object are those the format has (null,
  integers, strings). Opening a file and parsing a line are what this list abstracts from; the rest
  of the loader is translated: which streams are used, the \<open>heapq.merge\<close> of the open iterators with
  one look-ahead entry per stream, and the checks made on each entry as it is yielded. A raise in
  the middle of the walk ends the merged stream: \<open>iter_merged\<close> returns what was yielded and the
  exception, if any.
\<close>

section \<open>JSON entries\<close>

datatype json = JNull | JInt int | JStr string

type_synonym jentry = "(string, json) dict"

datatype replay_error =
    ManifestMissingOrUnreadable
  | MultiInstanceTrace string json json
  | TraceCorruption string
  | MissingKey string
  | BadType
  | BadValue

text \<open>Sequencing of computations that may raise.\<close>

definition or_raise :: "'e + 'a \<Rightarrow> ('a \<Rightarrow> 'e + 'b) \<Rightarrow> 'e + 'b" where
  "or_raise x f = (case x of Inl e \<Rightarrow> Inl e | Inr a \<Rightarrow> f a)"

definition jget :: "string \<Rightarrow> jentry \<Rightarrow> json" where
  "jget k e = get_default e k JNull"

definition jitem :: "string \<Rightarrow> jentry \<Rightarrow> replay_error + json" where
  "jitem k e = (case dict_get e k of None \<Rightarrow> Inl (MissingKey k) | Some v \<Rightarrow> Inr v)"

definition truthy :: "json \<Rightarrow> bool" where
  "truthy v = (case v of JNull \<Rightarrow> False | JInt i \<Rightarrow> i \<noteq> 0 | JStr s \<Rightarrow> s \<noteq> [])"

text \<open>The objects that the registry and the runtimes hand to their callbacks.\<close>

definition jopt :: "string option \<Rightarrow> json" where
  "jopt x = (case x of None \<Rightarrow> JNull | Some s \<Rightarrow> JStr s)"

definition jopt_int :: "int option \<Rightarrow> json" where
  "jopt_int x = (case x of None \<Rightarrow> JNull | Some i \<Rightarrow> JInt i)"

fun state_name :: "MESIState \<Rightarrow> string" where
  "state_name MODIFIED = ''MODIFIED''"
| "state_name EXCLUSIVE = ''EXCLUSIVE''"
| "state_name SHARED = ''SHARED''"
| "state_name INVALID = ''INVALID''"

definition state_entry :: "(uuid \<Rightarrow> string) \<Rightarrow> log_entry \<Rightarrow> jentry" where
  "state_entry uuid_str x =
     [(''tick'', JInt (log_tick x)),
      (''artifact_id'', JStr (uuid_str (log_artifact x))),
      (''agent_id'', JStr (uuid_str (log_agent x))),
      (''agent_name'', jopt (log_agent_name x)),
      (''from_state'', JStr (state_name (from_state x))),
      (''to_state'', JStr (state_name (to_state x))),
      (''trigger'', JStr (log_trigger x)),
      (''version'', JInt (log_version x)),
      (''content_hash'', jopt (log_hash x)),
      (''sequence_number'', JInt (sequence_number x)),
      (''instance_id'', JStr (log_instance x)),
      (''schema_version'', JStr (schema_version x))]"

definition audit_entry :: "(uuid \<Rightarrow> string) \<Rightarrow> content_view \<Rightarrow> jentry" where
  "audit_entry uuid_str x =
     [(''tick'', JInt (cv_tick x)),
      (''agent_id'', JStr (uuid_str (cv_agent x))),
      (''agent_name'', jopt (cv_agent_name x)),
      (''artifact_id'', JStr (uuid_str (cv_artifact x))),
      (''version'', jopt_int (cv_version x)),
      (''content_hash'', jopt (cv_hash x)),
      (''source'', JStr (cv_source x)),
      (''outcome'', JStr (cv_outcome x)),
      (''sequence_number'', JInt (cv_sequence x)),
      (''instance_id'', jopt (cv_instance x)),
      (''schema_version'', JStr (cv_schema x))]"

section \<open>Opening a session\<close>

definition STATE_LOG :: string where "STATE_LOG = ''state_log''"

definition CONTENT_AUDIT_LOG :: string where "CONTENT_AUDIT_LOG = ''content_audit_log''"

definition STRICT_DENY_AUDIT :: string where "STRICT_DENY_AUDIT = ''strict_deny_audit''"

definition STREAM_PRIORITY :: "(string, int) dict" where
  "STREAM_PRIORITY = [(STATE_LOG, 0), (CONTENT_AUDIT_LOG, 1), (STRICT_DENY_AUDIT, 2)]"

text \<open>What a read of \<^verbatim>\<open>manifest.json\<close> finds, and its \<open>streams\<close> field where it is an object.\<close>

datatype streams_field = StreamsAbsent | StreamsNotList | Streams "string list"

datatype manifest_file = NoManifest | ManifestUnreadable | ManifestNotJson | ManifestNotObject | Manifest streams_field

datatype line = Blank | NotJson | Parsed jentry

record LoadedTrace =
  lt_manifest :: streams_field
  streams_present :: "string list"
  stream_paths :: "(string, line list) dict"

definition read_manifest :: "manifest_file \<Rightarrow> replay_error + streams_field" where
  "read_manifest mf =
     (case mf of Manifest f \<Rightarrow> Inr f | _ \<Rightarrow> Inl ManifestMissingOrUnreadable)"

definition declared_streams :: "streams_field \<Rightarrow> replay_error + string list" where
  "declared_streams f =
     (case f of
        StreamsNotList \<Rightarrow> Inl ManifestMissingOrUnreadable
      | StreamsAbsent \<Rightarrow> Inr []
      | Streams names \<Rightarrow> Inr (filter (\<lambda>name. name \<in> set (dict_keys STREAM_PRIORITY)) names))"

text \<open>\<open>disk\<close> holds the stream files of the session directory.\<close>

definition load :: "manifest_file \<Rightarrow> (string, line list) dict \<Rightarrow> replay_error + LoadedTrace" where
  "load mf disk =
     or_raise (read_manifest mf) (\<lambda>manifest.
     or_raise (declared_streams manifest) (\<lambda>declared.
       let present = fold (\<lambda>name paths. case dict_get disk name of
                                None \<Rightarrow> paths
                              | Some lines \<Rightarrow> dict_set name lines paths) declared []
       in Inr \<lparr>lt_manifest = manifest, streams_present = dict_keys present, stream_paths = present\<rparr>))"

section \<open>Merging the streams\<close>

text \<open>
  \<open>next_entry\<close> resumes the iterator of one file: \<open>Inr None\<close> is its end. The look-ahead entry of a
  stream carries its merge key (tick, priority, sequence number, name).
\<close>

fun next_entry :: "string \<Rightarrow> line list \<Rightarrow> replay_error + (int \<times> int \<times> jentry \<times> line list) option" where
  "next_entry name [] = Inr None"
| "next_entry name (Blank # ls) = next_entry name ls"
| "next_entry name (NotJson # ls) = Inl (TraceCorruption name)"
| "next_entry name (Parsed e # ls) =
     (case (jget ''tick'' e, jget ''sequence_number'' e) of
        (JInt tick, JInt sq) \<Rightarrow> Inr (Some (tick, sq, e, ls))
      | _ \<Rightarrow> Inl (TraceCorruption name))"

datatype head = Head (h_tick: int) (h_priority: int) (h_seq: int) (h_stream: string) (h_entry: jentry) (h_rest: "line list")

definition head_le :: "head \<Rightarrow> head \<Rightarrow> bool" where
  "head_le x y \<longleftrightarrow>
     h_tick x < h_tick y \<or> h_tick x = h_tick y \<and>
     (h_priority x < h_priority y \<or> h_priority x = h_priority y \<and>
      (h_seq x < h_seq y \<or> h_seq x = h_seq y \<and> str_le (h_stream x) (h_stream y)))"

definition next_head :: "string \<Rightarrow> line list \<Rightarrow> replay_error + head list" where
  "next_head name ls =
     or_raise (next_entry name ls) (\<lambda>found. case found of
        None \<Rightarrow> Inr []
      | Some (tick, sq, e, rest) \<Rightarrow> Inr [Head tick (get_default STREAM_PRIORITY name 0) sq name e rest])"

fun first_heads :: "(string \<times> line list) list \<Rightarrow> replay_error + head list" where
  "first_heads [] = Inr []"
| "first_heads ((name, ls) # files) =
     or_raise (next_head name ls) (\<lambda>h. or_raise (first_heads files) (\<lambda>hs. Inr (h @ hs)))"

fun pop_least :: "head \<Rightarrow> head list \<Rightarrow> head \<times> head list" where
  "pop_least h [] = (h, [])"
| "pop_least h (x # xs) =
     (let (m, rest) = pop_least x xs
      in if head_le h m then (h, m # rest) else (m, h # rest))"

text \<open>What the walk remembers: the instance of each stream and the sequence numbers seen.\<close>

record seen =
  seen_instance_id :: "(string, json) dict"
  seen_seq :: "(string \<times> json \<times> int) list"

definition check_instance_id :: "string \<Rightarrow> jentry \<Rightarrow> seen \<Rightarrow> replay_error + seen" where
  "check_instance_id name e sn =
     (let inst = jget ''instance_id'' e
      in if inst = JNull then Inr sn
         else case dict_get (seen_instance_id sn) name of
           None \<Rightarrow> Inr (sn\<lparr>seen_instance_id := dict_set name inst (seen_instance_id sn)\<rparr>)
         | Some previous \<Rightarrow> (if inst \<noteq> previous then Inl (MultiInstanceTrace name previous inst) else Inr sn))"

definition check_duplicate_seq :: "string \<Rightarrow> jentry \<Rightarrow> int \<Rightarrow> seen \<Rightarrow> replay_error + seen" where
  "check_duplicate_seq name e sq sn =
     (let inst = jget ''instance_id'' e;
          key = (name, if truthy inst then inst else JStr [], sq)
      in if key \<in> set (seen_seq sn) then Inl (TraceCorruption name)
         else Inr (sn\<lparr>seen_seq := key # seen_seq sn\<rparr>))"

lemma next_entry_shorter: "next_entry name ls = Inr (Some (t, q, e, rest)) \<Longrightarrow> length rest < length ls"
  by (induction ls rule: next_entry.induct) (auto split: json.splits)

definition pending :: "head list \<Rightarrow> nat" where
  "pending hs = sum_list (map (\<lambda>h. Suc (length (h_rest h))) hs)"

lemma pending_pop:
  "pop_least h hs = (m, rest) \<Longrightarrow> pending (h # hs) = pending rest + Suc (length (h_rest m))"
  by (induction hs arbitrary: h m rest) (auto simp: pending_def split: prod.splits if_splits)

lemma pending_advance:
  assumes "next_head name ls = Inr hs'"
  shows "pending hs' \<le> length ls"
  using assms
  by (auto simp: next_head_def pending_def or_raise_def dest: next_entry_shorter split: sum.splits option.splits)

text \<open>
  One turn of the loop over \<open>heapq.merge\<close>: the least look-ahead entry is checked and yielded, then
  its stream is resumed.
\<close>

function merge_heads :: "head list \<Rightarrow> seen \<Rightarrow> (string \<times> jentry) list \<times> replay_error option" where
  "merge_heads [] sn = ([], None)"
| "merge_heads (h # hs) sn =
     (case pop_least h hs of (m, rest) \<Rightarrow>
      (case or_raise (check_instance_id (h_stream m) (h_entry m) sn)
              (check_duplicate_seq (h_stream m) (h_entry m) (h_seq m)) of
         Inl err \<Rightarrow> ([], Some err)
       | Inr sn' \<Rightarrow>
           (case next_head (h_stream m) (h_rest m) of
              Inl err \<Rightarrow> ([(h_stream m, h_entry m)], Some err)
            | Inr ahead \<Rightarrow>
                (case merge_heads (ahead @ rest) sn' of
                   (items, err) \<Rightarrow> ((h_stream m, h_entry m) # items, err)))))"
  by pat_completeness auto

termination
proof (relation "measure (\<lambda>(hs, sn). pending hs)", goal_cases)
  case 1
  then show ?case by simp
next
  case (2 h hs sn m rest sn' ahead)
  then have "pending (h # hs) = pending rest + Suc (length (h_rest m))" by (intro pending_pop) simp
  moreover have "pending ahead \<le> length (h_rest m)" using 2 by (intro pending_advance) simp
  moreover have "pending (ahead @ rest) = pending ahead + pending rest" by (simp add: pending_def)
  ultimately show ?case by simp
qed

definition iter_merged :: "(string, line list) dict \<Rightarrow> (string \<times> jentry) list \<times> replay_error option" where
  "iter_merged paths =
     (case first_heads (sorted_by (\<lambda>a b. str_le (fst a) (fst b)) paths) of
        Inl err \<Rightarrow> ([], Some err)
      | Inr hs \<Rightarrow> merge_heads hs \<lparr>seen_instance_id = [], seen_seq = []\<rparr>)"

definition merged :: "LoadedTrace \<Rightarrow> (string \<times> jentry) list \<times> replay_error option" where
  "merged trace = iter_merged (stream_paths trace)"

end
