(* ===== verification/Replay_Predicates.thy ===== *)
theory Replay_Predicates
  imports Replay_Loader
begin

text \<open>
  The offline checks of a recorded trace, \<^verbatim>\<open>src/ccs/replay/predicates.py\<close>: one walk over the merged
  stream with two shared folds (the state of every agent on every artifact, the last committed
  version and its tick), the four predicates that look at each entry, and the dispatch that skips a
  predicate whose streams are missing. \<open>Finding.details\<close> is kept as the
  values its text is made of; the reason text of a skipped predicate follows from its other fields.
\<close>

section \<open>Findings and shared state\<close>

datatype details = OwnersObserved nat | VersionExpected int int | FromState json

record Finding =
  f_kind :: string
  severity :: string
  invariant :: string
  f_agents :: "json list"
  f_artifacts :: "json list"
  tick_range :: "int \<times> int"
  f_stream :: string
  f_sequence :: json
  f_details :: details

record SummaryFinding =
  s_kind :: string
  s_invariant :: string
  stream_required :: string
  opted_out :: bool

record SharedState =
  state_by_agent_artifact :: "(json \<times> json, MESIState) dict"
  latest_committed_version :: "(json, int) dict"
  latest_committed_tick :: "(json, int) dict"

definition new_SharedState :: SharedState where
  "new_SharedState = \<lparr>state_by_agent_artifact = [], latest_committed_version = [], latest_committed_tick = []\<rparr>"

definition mesi_of_name :: "json \<Rightarrow> MESIState option" where
  "mesi_of_name v =
     (case v of JStr s \<Rightarrow> find (\<lambda>st. state_name st = s) [MODIFIED, EXCLUSIVE, SHARED, INVALID] | _ \<Rightarrow> None)"

section \<open>Integers and sorting\<close>

text \<open>\<open>int(x)\<close>: a string is stripped, may have a sign, and single underscores between its digits.\<close>

definition is_space :: "char \<Rightarrow> bool" where
  "is_space c \<longleftrightarrow> c \<in> {CHR '' '', CHR 0x09, CHR 0x0A, CHR 0x0B, CHR 0x0C, CHR 0x0D}"

definition strip :: "string \<Rightarrow> string" where
  "strip s = rev (dropWhile is_space (rev (dropWhile is_space s)))"

definition is_digit :: "char \<Rightarrow> bool" where
  "is_digit c \<longleftrightarrow> (48 :: nat) \<le> of_char c \<and> (of_char c :: nat) \<le> 57"

fun digits :: "int \<Rightarrow> string \<Rightarrow> int option" where
  "digits acc [] = Some acc"
| "digits acc (c # s) =
     (if is_digit c then digits (10 * acc + (of_char c - 48)) s
      else if c = CHR ''_'' then
        (case s of d # t \<Rightarrow> (if is_digit d then digits (10 * acc + (of_char d - 48)) t else None) | [] \<Rightarrow> None)
      else None)"

definition parse_digits :: "string \<Rightarrow> int option" where
  "parse_digits s = (case s of c # t \<Rightarrow> (if is_digit c then digits 0 s else None) | [] \<Rightarrow> None)"

definition parse_int :: "string \<Rightarrow> int option" where
  "parse_int s =
     (case strip s of
        CHR ''-'' # t \<Rightarrow> map_option uminus (parse_digits t)
      | CHR ''+'' # t \<Rightarrow> parse_digits t
      | t \<Rightarrow> parse_digits t)"

definition py_int :: "json \<Rightarrow> replay_error + int" where
  "py_int v =
     (case v of
        JInt i \<Rightarrow> Inr i
      | JStr s \<Rightarrow> (case parse_int s of None \<Rightarrow> Inl BadValue | Some i \<Rightarrow> Inr i)
      | JNull \<Rightarrow> Inl BadType)"

definition int_item :: "string \<Rightarrow> jentry \<Rightarrow> replay_error + int" where
  "int_item k e = or_raise (jitem k e) py_int"

text \<open>\<open>sorted\<close> compares strings with strings and integers with integers only.\<close>

definition json_le :: "json \<Rightarrow> json \<Rightarrow> bool" where
  "json_le x y =
     (case (x, y) of (JInt i, JInt j) \<Rightarrow> i \<le> j | (JStr s, JStr t) \<Rightarrow> str_le s t | _ \<Rightarrow> False)"

definition py_sorted :: "json list \<Rightarrow> replay_error + json list" where
  "py_sorted xs =
     (if length xs \<le> 1 \<or> list_all (\<lambda>x. case x of JStr s \<Rightarrow> True | _ \<Rightarrow> False) xs
         \<or> list_all (\<lambda>x. case x of JInt i \<Rightarrow> True | _ \<Rightarrow> False) xs
      then Inr (sorted_by json_le xs) else Inl BadType)"

section \<open>The predicates\<close>

datatype Predicate = SingleWriterPredicate | MonotonicVersionPredicate | StaleReadPredicate | LostWritePredicate

fun pred_name :: "Predicate \<Rightarrow> string" where
  "pred_name SingleWriterPredicate = ''single-writer''"
| "pred_name MonotonicVersionPredicate = ''monotonic-version''"
| "pred_name StaleReadPredicate = ''stale-read''"
| "pred_name LostWritePredicate = ''lost-write''"

fun required_streams :: "Predicate \<Rightarrow> string list" where
  "required_streams SingleWriterPredicate = [STATE_LOG]"
| "required_streams MonotonicVersionPredicate = [STATE_LOG]"
| "required_streams StaleReadPredicate = [STATE_LOG, CONTENT_AUDIT_LOG]"
| "required_streams LostWritePredicate = [STATE_LOG]"

definition collect_agents_for_artifact :: "(json \<times> json, MESIState) dict \<Rightarrow> json \<Rightarrow> (json, MESIState) dict" where
  "collect_agents_for_artifact m artifact_id =
     map (\<lambda>((agent_id, art_id), st). (agent_id, st)) (filter (\<lambda>((agent_id, art_id), st). art_id = artifact_id) m)"

definition make_single_writer_finding :: "jentry \<Rightarrow> json \<Rightarrow> json list \<Rightarrow> replay_error + Finding" where
  "make_single_writer_finding e artifact_id owners =
     or_raise (int_item ''tick'' e) (\<lambda>tick.
       Inr \<lparr>f_kind = ''single-writer-violation'', severity = ''CONFIRMED'', invariant = ''single-writer'',
            f_agents = owners, f_artifacts = [artifact_id], tick_range = (tick, tick), f_stream = STATE_LOG,
            f_sequence = jget ''sequence_number'' e, f_details = OwnersObserved (length owners)\<rparr>)"

definition process_single_writer :: "jentry \<Rightarrow> string \<Rightarrow> SharedState \<Rightarrow> replay_error + Finding list" where
  "process_single_writer e kind shared =
     (if kind \<noteq> STATE_LOG then Inr []
      else let artifact_id = jget ''artifact_id'' e in
        if \<not> truthy artifact_id then Inr []
        else let owners = owners_of (collect_agents_for_artifact (state_by_agent_artifact shared) artifact_id) in
          if length owners > 1
          then or_raise (py_sorted owners) (\<lambda>owners.
               or_raise (make_single_writer_finding e artifact_id owners) (\<lambda>f. Inr [f]))
          else Inr [])"

definition is_writer_commit :: "jentry \<Rightarrow> bool" where
  "is_writer_commit e \<longleftrightarrow>
     jget ''trigger'' e = JStr ''commit'' \<and> jget ''to_state'' e \<in> {JStr ''MODIFIED'', JStr ''EXCLUSIVE''}"

definition agent_or_blank :: "jentry \<Rightarrow> json" where
  "agent_or_blank e = (if truthy (jget ''agent_id'' e) then jget ''agent_id'' e else JStr [])"

definition make_monotonic_version_finding :: "jentry \<Rightarrow> json \<Rightarrow> int \<Rightarrow> int \<Rightarrow> replay_error + Finding" where
  "make_monotonic_version_finding e artifact_id previous observed =
     or_raise (int_item ''tick'' e) (\<lambda>tick.
       Inr \<lparr>f_kind = ''monotonic-version-violation'', severity = ''CONFIRMED'', invariant = ''monotonic-version'',
            f_agents = [agent_or_blank e], f_artifacts = [artifact_id], tick_range = (tick, tick), f_stream = STATE_LOG,
            f_sequence = jget ''sequence_number'' e, f_details = VersionExpected (previous + 1) observed\<rparr>)"

definition process_monotonic_version :: "jentry \<Rightarrow> string \<Rightarrow> SharedState \<Rightarrow> replay_error + Finding list" where
  "process_monotonic_version e kind shared =
     (if kind \<noteq> STATE_LOG \<or> \<not> is_writer_commit e then Inr []
      else or_raise (jitem ''artifact_id'' e) (\<lambda>artifact_id.
           or_raise (int_item ''version'' e) (\<lambda>version.
             let previous = get_default (latest_committed_version shared) artifact_id (-1) in
             case check_monotonic_version (previous + 1) version of
               Inr _ \<Rightarrow> Inr []
             | Inl _ \<Rightarrow> or_raise (make_monotonic_version_finding e artifact_id previous version) (\<lambda>f. Inr [f]))))"

definition classify_stale_read :: "jentry \<Rightarrow> json \<Rightarrow> json \<Rightarrow> int \<Rightarrow> int \<Rightarrow> int \<Rightarrow> replay_error + Finding list" where
  "classify_stale_read e agent_id artifact_id observed_version latest_version latest_commit_tick =
     or_raise (int_item ''tick'' e) (\<lambda>read_tick.
       let found = (\<lambda>sev kind. \<lparr>f_kind = kind, severity = sev, invariant = ''stale-read'', f_agents = [agent_id],
             f_artifacts = [artifact_id], tick_range = (latest_commit_tick, read_tick), f_stream = CONTENT_AUDIT_LOG,
             f_sequence = jget ''sequence_number'' e, f_details = VersionExpected latest_version observed_version\<rparr>)
       in if read_tick > latest_commit_tick then Inr [found ''CONFIRMED'' ''stale-read'']
          else if read_tick = latest_commit_tick then Inr [found ''AMBIGUOUS'' ''stale-read-ambiguous'']
          else Inr [])"

definition process_stale_read :: "jentry \<Rightarrow> string \<Rightarrow> SharedState \<Rightarrow> replay_error + Finding list" where
  "process_stale_read e kind shared =
     (let agent_id = jget ''agent_id'' e; artifact_id = jget ''artifact_id'' e; observed_version = jget ''version'' e in
      if kind \<noteq> CONTENT_AUDIT_LOG then Inr []
      else if jget ''outcome'' e \<noteq> JStr ''content'' then Inr []
      else if agent_id = JNull then Inr []
      else if artifact_id = JNull \<or> observed_version = JNull then Inr []
      else case dict_get (latest_committed_version shared) artifact_id of
          None \<Rightarrow> Inr []
        | Some latest_version \<Rightarrow>
            (case observed_version of
               JInt v \<Rightarrow>
                 (if v \<ge> latest_version then Inr []
                  else case dict_get (latest_committed_tick shared) artifact_id of
                    None \<Rightarrow> Inl (MissingKey ''artifact_id'')
                  | Some commit_tick \<Rightarrow> classify_stale_read e agent_id artifact_id v latest_version commit_tick)
             | _ \<Rightarrow> Inl BadType))"

definition make_lost_write_finding :: "jentry \<Rightarrow> json \<Rightarrow> replay_error + Finding" where
  "make_lost_write_finding e from =
     or_raise (int_item ''tick'' e) (\<lambda>tick.
     or_raise (jitem ''artifact_id'' e) (\<lambda>artifact_id.
       Inr \<lparr>f_kind = ''lost-write'', severity = ''CONFIRMED'', invariant = ''lost-write'',
            f_agents = [agent_or_blank e], f_artifacts = [artifact_id], tick_range = (tick, tick), f_stream = STATE_LOG,
            f_sequence = jget ''sequence_number'' e, f_details = FromState from\<rparr>))"

definition process_lost_write :: "jentry \<Rightarrow> string \<Rightarrow> SharedState \<Rightarrow> replay_error + Finding list" where
  "process_lost_write e kind shared =
     (if kind \<noteq> STATE_LOG \<or> \<not> is_writer_commit e then Inr []
      else let from = jget ''from_state'' e in
        if from \<in> {JStr ''MODIFIED'', JStr ''EXCLUSIVE''} then Inr []
        else or_raise (make_lost_write_finding e from) (\<lambda>f. Inr [f]))"

fun process :: "Predicate \<Rightarrow> jentry \<Rightarrow> string \<Rightarrow> SharedState \<Rightarrow> replay_error + Finding list" where
  "process SingleWriterPredicate = process_single_writer"
| "process MonotonicVersionPredicate = process_monotonic_version"
| "process StaleReadPredicate = process_stale_read"
| "process LostWritePredicate = process_lost_write"

section \<open>The walk\<close>

definition apply_state_map :: "jentry \<Rightarrow> SharedState \<Rightarrow> SharedState" where
  "apply_state_map e shared =
     (let agent_id = jget ''agent_id'' e; artifact_id = jget ''artifact_id'' e; to_name = jget ''to_state'' e in
      if \<not> (truthy agent_id \<and> truthy artifact_id \<and> truthy to_name) then shared
      else case mesi_of_name to_name of
          None \<Rightarrow> shared
        | Some st \<Rightarrow> shared\<lparr>state_by_agent_artifact :=
            dict_set (agent_id, artifact_id) st (state_by_agent_artifact shared)\<rparr>)"

definition apply_version_fold :: "jentry \<Rightarrow> SharedState \<Rightarrow> SharedState" where
  "apply_version_fold e shared =
     (let artifact_id = jget ''artifact_id'' e in
      case (jget ''version'' e, jget ''tick'' e) of
        (JInt version, JInt tick) \<Rightarrow>
          (if truthy artifact_id \<and> version > get_default (latest_committed_version shared) artifact_id (-1)
           then shared\<lparr>latest_committed_version := dict_set artifact_id version (latest_committed_version shared),
                       latest_committed_tick := dict_set artifact_id tick (latest_committed_tick shared)\<rparr>
           else shared)
      | _ \<Rightarrow> shared)"

fun dispatch_predicates ::
  "Predicate list \<Rightarrow> jentry \<Rightarrow> string \<Rightarrow> SharedState \<Rightarrow> replay_error + Finding list" where
  "dispatch_predicates [] e kind shared = Inr []"
| "dispatch_predicates (p # ps) e kind shared =
     or_raise (process p e kind shared) (\<lambda>fs.
     or_raise (dispatch_predicates ps e kind shared) (\<lambda>gs. Inr (fs @ gs)))"

definition fold_state :: "string \<Rightarrow> jentry \<Rightarrow> SharedState \<Rightarrow> SharedState" where
  "fold_state kind e shared = (if kind = STATE_LOG then apply_state_map e shared else shared)"

definition fold_version :: "string \<Rightarrow> jentry \<Rightarrow> SharedState \<Rightarrow> SharedState" where
  "fold_version kind e shared =
     (if kind = STATE_LOG \<and> is_writer_commit e then apply_version_fold e shared else shared)"

fun walk_items ::
  "Predicate list \<Rightarrow> (string \<times> jentry) list \<Rightarrow> SharedState \<Rightarrow> replay_error + Finding list" where
  "walk_items active [] shared = Inr []"
| "walk_items active ((kind, e) # items) shared =
     (let shared1 = fold_state kind e shared in
      or_raise (dispatch_predicates active e kind shared1) (\<lambda>fs.
      or_raise (walk_items active items (fold_version kind e shared1)) (\<lambda>gs. Inr (fs @ gs))))"

definition walk :: "LoadedTrace \<Rightarrow> Predicate list \<Rightarrow> replay_error + Finding list" where
  "walk trace active =
     (case merged trace of (items, err) \<Rightarrow>
        or_raise (walk_items active items new_SharedState) (\<lambda>findings.
          case err of None \<Rightarrow> Inr findings | Some e \<Rightarrow> Inl e))"

section \<open>Dispatch\<close>

definition CORE_PREDICATES :: "Predicate list" where
  "CORE_PREDICATES = [SingleWriterPredicate, MonotonicVersionPredicate, StaleReadPredicate, LostWritePredicate]"

definition select_predicates :: "string list option \<Rightarrow> Predicate list" where
  "select_predicates invariants =
     (case invariants of None \<Rightarrow> CORE_PREDICATES
      | Some wanted \<Rightarrow> filter (\<lambda>p. pred_name p \<in> set wanted) CORE_PREDICATES)"

definition make_skipped :: "Predicate \<Rightarrow> string \<Rightarrow> string list \<Rightarrow> SummaryFinding" where
  "make_skipped p stream_name declared =
     (let out = stream_name \<notin> set declared in
      \<lparr>s_kind = ''skipped'', s_invariant = pred_name p,
       stream_required = stream_name, opted_out = out\<rparr>)"

definition manifest_streams :: "streams_field \<Rightarrow> string list" where
  "manifest_streams f = (case f of Streams names \<Rightarrow> names | _ \<Rightarrow> [])"

fun partition_active :: "Predicate list \<Rightarrow> LoadedTrace \<Rightarrow> Predicate list \<times> SummaryFinding list" where
  "partition_active [] trace = ([], [])"
| "partition_active (p # ps) trace =
     (let missing = filter (\<lambda>name. name \<notin> set (streams_present trace)) (required_streams p);
          (active, summary) = partition_active ps trace
      in if missing = [] then (p # active, summary)
         else (active, map (\<lambda>name. make_skipped p name (manifest_streams (lt_manifest trace)))
                         (sorted_by str_le missing) @ summary))"

definition run_predicates ::
  "LoadedTrace \<Rightarrow> string list option \<Rightarrow> replay_error + (Finding list \<times> SummaryFinding list)" where
  "run_predicates trace invariants =
     (case partition_active (select_predicates invariants) trace of (active, summary) \<Rightarrow>
        or_raise (walk trace active) (\<lambda>findings. Inr (findings, summary)))"

end
