(* ===== verification/Replay_Merge.thy ===== *)
theory Replay_Merge
  imports Replay_Loader "HOL-Library.Sublist"
begin

text \<open>
  The merge of the loader. Restricted to one stream, what it yields is the beginning of that
  stream's file, and all of it when the walk ends without an exception; and if every file is sorted
  by tick and sequence number then the merged stream is sorted by tick, stream priority and sequence
  number.
\<close>

section \<open>Look-ahead entries\<close>

text \<open>The entries of a file and what is still to come from each stream.\<close>

definition entries_of :: "line list \<Rightarrow> jentry list" where
  "entries_of ls = List.map_filter (\<lambda>l. case l of Parsed e \<Rightarrow> Some e | _ \<Rightarrow> None) ls"

lemma entries_of_simps [simp]:
  "entries_of [] = []" "entries_of (Blank # ls) = entries_of ls" "entries_of (NotJson # ls) = entries_of ls"
  "entries_of (Parsed e # ls) = e # entries_of ls"
  by (simp_all add: entries_of_def map_filter_simps)

definition to_come :: "head list \<Rightarrow> string \<Rightarrow> jentry list" where
  "to_come hs name = get_default (map (\<lambda>h. (h_stream h, h_entry h # entries_of (h_rest h))) hs) name []"

definition streams_distinct :: "head list \<Rightarrow> bool" where
  "streams_distinct hs \<longleftrightarrow> distinct (map h_stream hs)"

lemma or_raise_Inr: "or_raise x f = Inr y \<longleftrightarrow> (\<exists>a. x = Inr a \<and> f a = Inr y)"
  by (simp add: or_raise_def split: sum.split)

lemma next_entry_Inr:
  "next_entry name ls = Inr None \<Longrightarrow> entries_of ls = []"
  "next_entry name ls = Inr (Some (t, q, e, rest)) \<Longrightarrow>
     entries_of ls = e # entries_of rest \<and> jget ''tick'' e = JInt t \<and> jget ''sequence_number'' e = JInt q"
  by (induction name ls rule: next_entry.induct) (auto split: json.splits)

definition well_keyed :: "head \<Rightarrow> bool" where
  "well_keyed h \<longleftrightarrow> jget ''tick'' (h_entry h) = JInt (h_tick h) \<and> jget ''sequence_number'' (h_entry h) = JInt (h_seq h) \<and>
     h_priority h = get_default STREAM_PRIORITY (h_stream h) 0"

lemma next_head_Inr:
  assumes "next_head name ls = Inr ahead"
  shows "ahead = [] \<and> entries_of ls = [] \<or>
    (\<exists>h. ahead = [h] \<and> h_stream h = name \<and> entries_of ls = h_entry h # entries_of (h_rest h) \<and> well_keyed h)"
proof (cases "next_entry name ls")
  case (Inl e)
  with assms show ?thesis by (simp add: next_head_def or_raise_def)
next
  case (Inr found)
  show ?thesis
  proof (cases found)
    case None
    with assms Inr show ?thesis by (simp add: next_head_def or_raise_def next_entry_Inr(1))
  next
    case (Some x)
    obtain t q e rest where x: "x = (t, q, e, rest)" by (cases x)
    with assms Inr Some next_entry_Inr(2) [of name ls t q e rest] show ?thesis
      by (auto simp: next_head_def or_raise_def well_keyed_def)
  qed
qed

lemma pop_least_set:
  "pop_least h hs = (m, rest) \<Longrightarrow> set (m # rest) = set (h # hs) \<and>
     (streams_distinct (h # hs) \<longrightarrow> streams_distinct (m # rest))"
proof (induction hs arbitrary: h m rest)
  case (Cons x xs)
  obtain n ys where pop: "pop_least x xs = (n, ys)" by fastforce
  have IH: "set (n # ys) = set (x # xs)" "streams_distinct (x # xs) \<Longrightarrow> streams_distinct (n # ys)"
    using Cons.IH [OF pop] by auto
  have streams: "h_stream ` set (n # ys) = h_stream ` set (x # xs)" by (simp only: IH(1))
  show ?case
  proof (cases "head_le h n")
    case True
    with Cons.prems pop IH streams show ?thesis by (auto simp: streams_distinct_def)
  next
    case False
    with Cons.prems pop have "m = n" "rest = h # ys" by auto
    moreover have "h_stream n \<in> h_stream ` set (x # xs)" using streams by auto
    ultimately show ?thesis using IH streams by (auto simp: streams_distinct_def)
  qed
qed auto

lemma to_come_set:
  assumes "set hs = set hs'" and "streams_distinct hs" and "streams_distinct hs'"
  shows "to_come hs name = to_come hs' name"
proof -
  have "map_of (map (\<lambda>h. (h_stream h, h_entry h # entries_of (h_rest h))) hs) =
      map_of (map (\<lambda>h. (h_stream h, h_entry h # entries_of (h_rest h))) hs')"
    by (rule map_of_inject_set [THEN iffD2]) (use assms in \<open>simp_all add: streams_distinct_def o_def\<close>)
  then show ?thesis by (simp add: to_come_def get_default_def)
qed

lemma to_come_Cons:
  "to_come (h # hs) name = (if name = h_stream h then h_entry h # entries_of (h_rest h) else to_come hs name)"
  by (simp add: to_come_def get_default_def)

lemma to_come_absent: "name \<notin> h_stream ` set hs \<Longrightarrow> to_come hs name = []"
  by (induction hs) (auto simp: to_come_def get_default_def)

text \<open>One turn: the stream of the yielded entry moves on by that entry.\<close>

lemma to_come_advance:
  assumes "pop_least h hs = (m, rest)" and "streams_distinct (h # hs)" and "next_head (h_stream m) (h_rest m) = Inr ahead"
  shows "streams_distinct (ahead @ rest)"
    and "to_come (h # hs) name = (if name = h_stream m then h_entry m # to_come (ahead @ rest) name else to_come (ahead @ rest) name)"
proof -
  have pop: "set (m # rest) = set (h # hs)" "streams_distinct (m # rest)"
    using pop_least_set [OF assms(1)] assms(2) by auto
  have same: "to_come (h # hs) name = to_come (m # rest) name"
    by (rule to_come_set [OF pop(1) [symmetric] assms(2) pop(2)])
  have fresh: "h_stream m \<notin> h_stream ` set rest" using pop(2) by (simp add: streams_distinct_def)
  from next_head_Inr [OF assms(3)] show "streams_distinct (ahead @ rest)"
    using pop(2) by (auto simp: streams_distinct_def)
  from next_head_Inr [OF assms(3)]
  show "to_come (h # hs) name = (if name = h_stream m then h_entry m # to_come (ahead @ rest) name else to_come (ahead @ rest) name)"
    unfolding same by (auto simp: to_come_Cons to_come_absent [OF fresh])
qed

section \<open>Nothing is lost or reordered within a stream\<close>

definition of_stream :: "string \<Rightarrow> (string \<times> jentry) list \<Rightarrow> jentry list" where
  "of_stream name items = map snd (filter (\<lambda>(k, e). k = name) items)"

lemma of_stream_simps [simp]:
  "of_stream name [] = []"
  "of_stream name ((k, e) # items) = (if k = name then e # of_stream name items else of_stream name items)"
  by (simp_all add: of_stream_def)

lemma merge_heads_of_stream:
  assumes "streams_distinct hs"
  shows "prefix (of_stream name (fst (merge_heads hs sn))) (to_come hs name) \<and>
    (snd (merge_heads hs sn) = None \<longrightarrow> of_stream name (fst (merge_heads hs sn)) = to_come hs name)"
  using assms
proof (induction hs sn rule: merge_heads.induct)
  case (1 sn)
  show ?case by (simp add: to_come_def get_default_def)
next
  case (2 h hs sn)
  obtain m rest where pop: "pop_least h hs = (m, rest)" by fastforce
  let ?check = "or_raise (check_instance_id (h_stream m) (h_entry m) sn) (check_duplicate_seq (h_stream m) (h_entry m) (h_seq m))"
  have same: "to_come (h # hs) name = to_come (m # rest) name"
    using pop_least_set [OF pop] "2.prems" by (intro to_come_set) auto
  show ?case
  proof (cases ?check)
    case (Inl e)
    with pop show ?thesis by simp
  next
    case (Inr sn')
    show ?thesis
    proof (cases "next_head (h_stream m) (h_rest m)")
      case (Inl e)
      with pop \<open>?check = Inr sn'\<close> show ?thesis unfolding same by (auto simp: to_come_Cons)
    next
      case ahead: (Inr ahead)
      note next_turn = to_come_advance [OF pop "2.prems" ahead]
      have "prefix (of_stream name (fst (merge_heads (ahead @ rest) sn'))) (to_come (ahead @ rest) name) \<and>
        (snd (merge_heads (ahead @ rest) sn') = None \<longrightarrow>
         of_stream name (fst (merge_heads (ahead @ rest) sn')) = to_come (ahead @ rest) name)"
        by (rule "2.IH" [OF pop [symmetric] Inr ahead next_turn(1)])
      with pop Inr ahead show ?thesis by (auto simp: next_turn(2) split: prod.splits)
    qed
  qed
qed

lemma first_heads_to_come:
  assumes "first_heads files = Inr hs" and "dict_wf files"
  shows "streams_distinct hs \<and> h_stream ` set hs \<subseteq> fst ` set files \<and>
    to_come hs name = (case dict_get files name of None \<Rightarrow> [] | Some ls \<Rightarrow> entries_of ls)"
  using assms
proof (induction files arbitrary: hs)
  case Nil
  then show ?case by (simp add: streams_distinct_def to_come_def get_default_def)
next
  case (Cons f files)
  obtain n ls where f: "f = (n, ls)" by (cases f)
  from Cons.prems f obtain ahead hs' where ahead: "next_head n ls = Inr ahead" and hs': "first_heads files = Inr hs'" "hs = ahead @ hs'"
    by (auto simp: or_raise_Inr)
  note IH = Cons.IH [OF hs'(1)]
  have new: "n \<notin> fst ` set files" "dict_wf files" using Cons.prems(2) f by auto
  then have absent: "n \<notin> h_stream ` set hs'" using IH by blast
  from next_head_Inr [OF ahead] show ?case
    using IH new absent f hs'(2) to_come_absent [OF absent]
    by (auto simp: streams_distinct_def to_come_Cons split: option.split)
qed

definition sorted_files :: "(string, line list) dict \<Rightarrow> (string, line list) dict" where
  "sorted_files paths = sorted_by (\<lambda>a b. str_le (fst a) (fst b)) paths"

lemma iter_merged_cases:
  "iter_merged paths = (case first_heads (sorted_files paths) of Inl err \<Rightarrow> ([], Some err)
     | Inr hs \<Rightarrow> merge_heads hs \<lparr>seen_instance_id = [], seen_seq = []\<rparr>)"
  by (simp add: iter_merged_def sorted_files_def)

lemma insert_by_keys: "set (insert_by le x xs) = insert x (set xs)" "dict_wf (insert_by le x xs) = dict_wf (x # xs)"
proof -
  show set: "set (insert_by le x xs) = insert x (set xs)" for x xs by (induction xs) auto
  then have keys: "fst ` set (insert_by le x xs) = insert (fst x) (fst ` set xs)" for x xs by simp
  show "dict_wf (insert_by le x xs) = dict_wf (x # xs)"
    by (induction xs) (auto simp: keys)
qed

lemma sorted_files_set: "set (sorted_files paths) = set paths"
  unfolding sorted_files_def sorted_by_def by (induction paths) (auto simp: insert_by_keys)

lemma sorted_files_lookup:
  assumes "dict_wf paths"
  shows "dict_wf (sorted_files paths)" and "dict_get (sorted_files paths) name = dict_get paths name"
proof -
  have "set (sorted_by le paths) = set paths \<and> dict_wf (sorted_by le paths)" for le
    using assms unfolding sorted_by_def
    by (induction paths) (auto simp: insert_by_keys simp del: list.set_map map_map)
  then have *: "set (sorted_files paths) = set paths" "dict_wf (sorted_files paths)" by (simp_all add: sorted_files_def)
  then show "dict_wf (sorted_files paths)" by simp
  show "dict_get (sorted_files paths) name = dict_get paths name"
    using map_of_inject_set [OF *(2) assms] *(1) by metis
qed

lemma iter_merged_of_stream:
  assumes "dict_wf paths" and "entries = (case dict_get paths name of None \<Rightarrow> [] | Some ls \<Rightarrow> entries_of ls)"
  shows "prefix (of_stream name (fst (iter_merged paths))) entries \<and>
    (snd (iter_merged paths) = None \<longrightarrow> of_stream name (fst (iter_merged paths)) = entries)"
proof (cases "first_heads (sorted_files paths)")
  case (Inl err)
  then show ?thesis by (simp add: iter_merged_cases)
next
  case (Inr hs)
  have "streams_distinct hs" "to_come hs name = entries"
    using first_heads_to_come [OF Inr] sorted_files_lookup [OF assms(1)] assms(2) by simp_all
  with merge_heads_of_stream [of hs name] Inr show ?thesis by (simp add: iter_merged_cases)
qed

section \<open>The merged order\<close>

type_synonym merge_key = "int \<times> int \<times> int"

fun key_le :: "merge_key \<Rightarrow> merge_key \<Rightarrow> bool" where
  "key_le (t, p, q) (t', p', q') \<longleftrightarrow> t < t' \<or> t = t' \<and> (p < p' \<or> p = p' \<and> q \<le> q')"

definition entry_key :: "string \<Rightarrow> jentry \<Rightarrow> merge_key" where
  "entry_key name e =
     (case (jget ''tick'' e, jget ''sequence_number'' e) of
        (JInt t, JInt q) \<Rightarrow> (t, get_default STREAM_PRIORITY name 0, q)
      | _ \<Rightarrow> (0, get_default STREAM_PRIORITY name 0, 0))"

definition stream_sorted :: "string \<Rightarrow> jentry list \<Rightarrow> bool" where
  "stream_sorted name es \<longleftrightarrow> sorted_wrt (\<lambda>e e'. key_le (entry_key name e) (entry_key name e')) es"

lemma key_le_trans: "key_le k k' \<Longrightarrow> key_le k' k'' \<Longrightarrow> key_le k k''"
  by (cases k; cases k'; cases k'') auto

lemma key_le_refl: "key_le k k"
  by (cases k) simp

definition h_key :: "head \<Rightarrow> merge_key" where
  "h_key h = entry_key (h_stream h) (h_entry h)"

lemma well_keyed_key: "well_keyed h \<Longrightarrow> h_key h = (h_tick h, h_priority h, h_seq h)"
  by (simp add: well_keyed_def h_key_def entry_key_def)

lemma head_le_key:
  "well_keyed x \<Longrightarrow> well_keyed y \<Longrightarrow> head_le x y \<Longrightarrow> key_le (h_key x) (h_key y)"
  "well_keyed x \<Longrightarrow> well_keyed y \<Longrightarrow> \<not> head_le x y \<Longrightarrow> key_le (h_key y) (h_key x)"
  by (auto simp: well_keyed_key head_le_def)

definition heads_sorted :: "head list \<Rightarrow> bool" where
  "heads_sorted hs \<longleftrightarrow> (\<forall>h \<in> set hs. well_keyed h \<and> stream_sorted (h_stream h) (h_entry h # entries_of (h_rest h)))"

lemma pop_least_key:
  assumes "pop_least h hs = (m, rest)" and "\<forall>x \<in> set (h # hs). well_keyed x"
  shows "\<forall>x \<in> set rest. key_le (h_key m) (h_key x)"
  using assms
proof (induction hs arbitrary: h m rest)
  case (Cons x xs)
  obtain n ys where pop: "pop_least x xs = (n, ys)" by fastforce
  have IH: "\<forall>y \<in> set ys. key_le (h_key n) (h_key y)" using Cons.IH [OF pop] Cons.prems(2) by simp
  have n: "n \<in> set (x # xs)" using pop_least_set [OF pop] by auto
  show ?case
  proof (cases "head_le h n")
    case True
    with Cons.prems n have "key_le (h_key h) (h_key n)" by (intro head_le_key(1)) auto
    with True Cons.prems(1) pop IH show ?thesis by (auto intro: key_le_trans)
  next
    case False
    with Cons.prems n have "key_le (h_key n) (h_key h)" by (intro head_le_key(2)) auto
    with False Cons.prems(1) pop IH show ?thesis by auto
  qed
qed simp

lemma heads_sorted_advance:
  assumes "heads_sorted (m # rest)" and "next_head (h_stream m) (h_rest m) = Inr ahead"
  shows "heads_sorted (ahead @ rest) \<and> (\<forall>x \<in> set ahead. key_le (h_key m) (h_key x))"
  using next_head_Inr [OF assms(2)] assms(1)
  by (auto simp: heads_sorted_def stream_sorted_def h_key_def)

abbreviation items_sorted :: "(string \<times> jentry) list \<Rightarrow> bool" where
  "items_sorted \<equiv> sorted_wrt (\<lambda>(k, e) (k', e'). key_le (entry_key k e) (entry_key k' e'))"

lemma merge_heads_sorted:
  assumes "heads_sorted hs"
  shows "items_sorted (fst (merge_heads hs sn)) \<and>
    (\<forall>key. (\<forall>h \<in> set hs. key_le key (h_key h)) \<longrightarrow> (\<forall>(k, e) \<in> set (fst (merge_heads hs sn)). key_le key (entry_key k e)))"
  using assms
proof (induction hs sn rule: merge_heads.induct)
  case (2 h hs sn)
  obtain m rest where pop: "pop_least h hs = (m, rest)" by fastforce
  let ?check = "or_raise (check_instance_id (h_stream m) (h_entry m) sn) (check_duplicate_seq (h_stream m) (h_entry m) (h_seq m))"
  have set: "set (m # rest) = set (h # hs)" using pop_least_set [OF pop] by simp
  then have sorted: "heads_sorted (m # rest)" and m: "m \<in> set (h # hs)" using "2.prems" by (auto simp: heads_sorted_def)
  have least: "\<forall>x \<in> set rest. key_le (h_key m) (h_key x)"
    by (rule pop_least_key [OF pop]) (use "2.prems" in \<open>simp add: heads_sorted_def\<close>)
  show ?case
  proof (cases ?check)
    case (Inl e)
    with pop show ?thesis by simp
  next
    case (Inr sn')
    show ?thesis
    proof (cases "next_head (h_stream m) (h_rest m)")
      case (Inl e)
      with pop Inr m show ?thesis by (auto simp: h_key_def)
    next
      case ahead: (Inr ahead)
      note next_turn = heads_sorted_advance [OF sorted ahead]
      let ?items = "fst (merge_heads (ahead @ rest) sn')"
      have IH: "items_sorted ?items" and bound: "\<And>key. (\<forall>h \<in> set (ahead @ rest). key_le key (h_key h)) \<Longrightarrow>
          (\<forall>(k, e) \<in> set ?items. key_le key (entry_key k e))"
        using "2.IH" [OF pop [symmetric] Inr ahead] next_turn by blast+
      have above: "\<forall>(k, e) \<in> set ?items. key_le (h_key m) (entry_key k e)"
        by (rule bound) (use least next_turn in auto)
      have "fst (merge_heads (h # hs) sn) = (h_stream m, h_entry m) # ?items"
        using pop Inr ahead by (simp split: prod.split)
      with IH above m show ?thesis by (fastforce simp: h_key_def intro: key_le_trans)
    qed
  qed
qed simp

lemma first_heads_sorted:
  "first_heads files = Inr hs \<Longrightarrow> \<forall>(name, ls) \<in> set files. stream_sorted name (entries_of ls) \<Longrightarrow> heads_sorted hs"
proof (induction files arbitrary: hs)
  case (Cons f files)
  obtain n ls where f: "f = (n, ls)" by (cases f)
  from Cons.prems f obtain ahead hs' where ahead: "next_head n ls = Inr ahead" and hs': "first_heads files = Inr hs'" "hs = ahead @ hs'"
    by (auto simp: or_raise_Inr)
  with Cons.IH [OF hs'(1)] next_head_Inr [OF ahead] Cons.prems(2) f show ?case
    by (auto simp: heads_sorted_def)
qed (simp add: heads_sorted_def)


text \<open>Two short files: two state entries with a blank line between them, one audit entry.\<close>

definition demo_line :: "int \<Rightarrow> int \<Rightarrow> line" where
  "demo_line tick sq = Parsed [(''tick'', JInt tick), (''sequence_number'', JInt sq)]"

definition demo_paths :: "(string, line list) dict" where
  "demo_paths = [(STATE_LOG, [demo_line 1 1, Blank, demo_line 3 2]), (CONTENT_AUDIT_LOG, [demo_line 2 1])]"

definition demo_items :: "(string \<times> jentry) list" where
  "demo_items =
     [(STATE_LOG, [(''tick'', JInt 1), (''sequence_number'', JInt 1)]),
      (CONTENT_AUDIT_LOG, [(''tick'', JInt 2), (''sequence_number'', JInt 1)]),
      (STATE_LOG, [(''tick'', JInt 3), (''sequence_number'', JInt 2)])]"


end
