(* ===== verification/Replay_Clean.thy ===== *)
theory Replay_Clean
  imports Log_Trace Replay_Predicates Replay_Merge Scenarios
begin

text \<open>
  Replaying what the coordinator recorded. The state log of a run without deletions, written out as
  JSON lines and read back beside any content-audit stream, passes the loader's checks and gives no
  single-writer, no monotonic-version and no lost-write finding. The text of an identifier
  (\<open>str\<close> of a UUID) is a parameter: different identifiers have different, non-empty texts.
\<close>

definition text_ids :: "(uuid \<Rightarrow> string) \<Rightarrow> bool" where
  "text_ids u \<longleftrightarrow> inj u \<and> (\<forall>x. u x \<noteq> [])"

section \<open>Entries as the predicates see them\<close>

lemma state_entry_get [simp]:
  "jget ''tick'' (state_entry u x) = JInt (log_tick x)"
  "jget ''artifact_id'' (state_entry u x) = JStr (u (log_artifact x))"
  "jget ''agent_id'' (state_entry u x) = JStr (u (log_agent x))"
  "jget ''from_state'' (state_entry u x) = JStr (state_name (from_state x))"
  "jget ''to_state'' (state_entry u x) = JStr (state_name (to_state x))"
  "jget ''trigger'' (state_entry u x) = JStr (log_trigger x)"
  "jget ''version'' (state_entry u x) = JInt (log_version x)"
  "jget ''sequence_number'' (state_entry u x) = JInt (sequence_number x)"
  "jget ''instance_id'' (state_entry u x) = JStr (log_instance x)"
  "jitem ''artifact_id'' (state_entry u x) = Inr (JStr (u (log_artifact x)))"
  "int_item ''version'' (state_entry u x) = Inr (log_version x)"
  by (simp_all add: jget_def jitem_def int_item_def py_int_def or_raise_def state_entry_def get_default_def)

lemma state_name_iff [simp]:
  "state_name st = ''MODIFIED'' \<longleftrightarrow> st = MODIFIED" "state_name st = ''EXCLUSIVE'' \<longleftrightarrow> st = EXCLUSIVE"
  "state_name st \<noteq> []"
  by (cases st; simp)+

lemma mesi_of_state_name [simp]: "mesi_of_name (JStr (state_name st)) = Some st"
  by (cases st) (simp_all add: mesi_of_name_def)

lemma is_writer_commit_entry [simp]: "is_writer_commit (state_entry u x) = writer_commit x"
  by (auto simp: is_writer_commit_def writer_commit_def)

section \<open>The shared folds follow the log\<close>

definition shadows :: "(uuid \<Rightarrow> string) \<Rightarrow> agent_states \<Rightarrow> (uuid \<Rightarrow> int) \<Rightarrow> SharedState \<Rightarrow> bool" where
  "shadows u S V sh \<longleftrightarrow> dict_wf (state_by_agent_artifact sh) \<and>
     (\<forall>k \<in> set (dict_keys (state_by_agent_artifact sh)). \<exists>ag art. k = (JStr (u ag), JStr (u art))) \<and>
     (\<forall>ag art. dict_get (state_by_agent_artifact sh) (JStr (u ag), JStr (u art)) = S art ag) \<and>
     (\<forall>art. get_default (latest_committed_version sh) (JStr (u art)) (-1) = V art)"

lemma shadows_start: "shadows u (\<lambda>_ _. None) (\<lambda>_. - 1) new_SharedState"
  by (simp add: shadows_def new_SharedState_def get_default_def)

lemma shadows_fold_state:
  assumes "text_ids u" and "shadows u S V sh"
  shows "shadows u (next_states x S) V (fold_state STATE_LOG (state_entry u x) sh)"
proof -
  have inj: "u a = u b \<longleftrightarrow> a = b" for a b using assms(1) by (simp add: text_ids_def inj_eq)
  have "fold_state STATE_LOG (state_entry u x) sh = sh\<lparr>state_by_agent_artifact :=
      dict_set (JStr (u (log_agent x)), JStr (u (log_artifact x))) (to_state x) (state_by_agent_artifact sh)\<rparr>"
    using assms(1) by (simp add: fold_state_def apply_state_map_def truthy_def text_ids_def)
  with assms(2) show ?thesis
    by (auto simp: shadows_def next_states_def inj update_keys)
qed

lemma owners_at_most_one:
  assumes u: "text_ids u" and sh: "shadows u S V sh" and one: "one_writer S"
  shows "length (owners_of (collect_agents_for_artifact (state_by_agent_artifact sh) (JStr (u art)))) \<le> 1"
proof -
  let ?m = "state_by_agent_artifact sh" and ?c = "collect_agents_for_artifact (state_by_agent_artifact sh) (JStr (u art))"
  have inj: "u a = u b \<longleftrightarrow> a = b" for a b using u by (simp add: text_ids_def inj_eq)
  have wf: "dict_wf ?m" using sh by (simp add: shadows_def)
  then have "dict_wf ?c"
    by (auto simp: collect_agents_for_artifact_def distinct_map inj_on_def case_prod_unfold intro!: distinct_filter)
      (metis fst_conv snd_conv)
  then have distinct: "distinct (owners_of ?c)" by (rule distinct_owners_of)
  have owner: "\<exists>ag st. k = JStr (u ag) \<and> S art ag = Some st \<and> st \<in> M_OR_E_STATES" if k: "k \<in> set (owners_of ?c)" for k
  proof -
    from k obtain st where st: "((k, JStr (u art)), st) \<in> set ?m" "st \<in> M_OR_E_STATES"
      by (auto simp: owners_of_def collect_agents_for_artifact_def)
    have "(k, JStr (u art)) \<in> set (dict_keys ?m)" using st(1) by (simp add: rev_image_eqI)
    with sh obtain ag b where "(k, JStr (u art)) = (JStr (u ag), JStr (u b))" unfolding shadows_def by blast
    moreover from this st(1) have "dict_get ?m (JStr (u ag), JStr (u art)) = Some st"
      using dict_in_set_get [OF wf] by (auto simp: inj)
    ultimately have "S art ag = Some st" "k = JStr (u ag)" using sh by (simp_all add: shadows_def inj)
    with st(2) show ?thesis by blast
  qed
  have "x = y" if "x \<in> set (owners_of ?c)" "y \<in> set (owners_of ?c)" for x y
    using owner [OF that(1)] owner [OF that(2)] one unfolding one_writer_def by blast
  then show ?thesis using short_distinct_list [OF distinct] by blast
qed

lemma entry_passes:
  assumes u: "text_ids u" and sh: "shadows u S V sh" and one: "one_writer (next_states x S)"
    and commit: "writer_commit x \<Longrightarrow> from_state x \<in> M_OR_E_STATES \<and> V (log_artifact x) < log_version x"
  shows "process p (state_entry u x) STATE_LOG (fold_state STATE_LOG (state_entry u x) sh) = Inr []"
proof -
  let ?sh = "fold_state STATE_LOG (state_entry u x) sh"
  have sh': "shadows u (next_states x S) V ?sh" by (rule shadows_fold_state [OF u sh])
  show ?thesis
  proof (cases p)
    case SingleWriterPredicate
    then show ?thesis
      using owners_at_most_one [OF u sh' one, of "log_artifact x"]
      by (simp add: process_single_writer_def Let_def)
  next
    case MonotonicVersionPredicate
    then show ?thesis
      using commit sh' by (auto simp: process_monotonic_version_def or_raise_def check_monotonic_version_def shadows_def)
  next
    case StaleReadPredicate
    then show ?thesis by (simp add: process_stale_read_def STATE_LOG_def CONTENT_AUDIT_LOG_def)
  next
    case LostWritePredicate
    then show ?thesis using commit by (auto simp: process_lost_write_def)
  qed
qed

lemma shadows_fold_version:
  assumes u: "text_ids u" and sh: "shadows u S V sh" and commit: "writer_commit x \<Longrightarrow> V (log_artifact x) < log_version x"
  shows "shadows u S (next_version x V) (fold_version STATE_LOG (state_entry u x) sh)"
proof (cases "writer_commit x")
  case False
  with sh show ?thesis by (simp add: fold_version_def next_version_def)
next
  case True
  have inj: "u a = u b \<longleftrightarrow> a = b" for a b using u by (simp add: text_ids_def inj_eq)
  have "fold_version STATE_LOG (state_entry u x) sh =
      sh\<lparr>latest_committed_version := dict_set (JStr (u (log_artifact x))) (log_version x) (latest_committed_version sh),
         latest_committed_tick := dict_set (JStr (u (log_artifact x))) (log_tick x) (latest_committed_tick sh)\<rparr>"
    using True commit sh u by (simp add: fold_version_def apply_version_fold_def truthy_def text_ids_def shadows_def Let_def)
  with sh True show ?thesis by (auto simp: shadows_def next_version_def inj)
qed

section \<open>The walk\<close>

text \<open>The state entries of a walked stream, as log entries of a run.\<close>

definition state_items :: "(uuid \<Rightarrow> string) \<Rightarrow> log_entry list \<Rightarrow> (string \<times> jentry) list \<Rightarrow> bool" where
  "state_items u d items \<longleftrightarrow> of_stream STATE_LOG items = map (state_entry u) d"

lemma dispatch_passes: "(\<And>p. p \<in> set ps \<Longrightarrow> process p e k sh = Inr []) \<Longrightarrow> dispatch_predicates ps e k sh = Inr []"
  by (induction ps) (simp_all add: or_raise_def)

lemma other_stream_passes:
  assumes "k \<noteq> STATE_LOG" and "p \<noteq> StaleReadPredicate"
  shows "process p e k sh = Inr []"
  using assms by (cases p) (simp_all add: process_single_writer_def process_monotonic_version_def process_lost_write_def)

inductive clean_from :: "log_entry list \<Rightarrow> agent_states \<Rightarrow> (uuid \<Rightarrow> int) \<Rightarrow> bool" where
  "clean_from [] S V"
| "one_writer (next_states x S) \<Longrightarrow>
   (writer_commit x \<Longrightarrow> from_state x \<in> M_OR_E_STATES \<and> V (log_artifact x) < log_version x) \<Longrightarrow>
   clean_from d (next_states x S) (next_version x V) \<Longrightarrow> clean_from (x # d) S V"

lemma clean_from_snoc:
  assumes "clean_from d S V" and "\<And>S' V'. S' = fold next_states d S \<Longrightarrow> V' = fold next_version d V \<Longrightarrow>
     one_writer (next_states x S') \<and>
     (writer_commit x \<longrightarrow> from_state x \<in> M_OR_E_STATES \<and> V' (log_artifact x) < log_version x)"
  shows "clean_from (d @ [x]) S V"
  using assms by (induction rule: clean_from.induct) (auto intro!: clean_from.intros)

lemma clean_log_from: "clean_log d S V \<Longrightarrow> clean_from d (\<lambda>_ _. None) (\<lambda>_. - 1) \<and>
    S = fold next_states d (\<lambda>_ _. None) \<and> V = fold next_version d (\<lambda>_. - 1)"
proof (induction rule: clean_log.induct)
  case clean_Nil
  show ?case by (simp add: clean_from.intros)
next
  case (clean_Snoc d S V x)
  then show ?case by (auto intro: clean_from_snoc)
qed

lemma clean_from_prefix: "clean_from (d @ d') S V \<Longrightarrow> clean_from d S V"
proof (induction d arbitrary: S V)
  case (Cons x d)
  from Cons.prems show ?case by (cases rule: clean_from.cases) (auto intro: clean_from.intros Cons.IH)
qed (simp add: clean_from.intros)

lemma walk_clean:
  assumes u: "text_ids u" and ps: "StaleReadPredicate \<notin> set ps"
  shows "clean_from d S V \<Longrightarrow> shadows u S V sh \<Longrightarrow> state_items u d items \<Longrightarrow> walk_items ps items sh = Inr []"
proof (induction items arbitrary: d S V sh)
  case (Cons it items)
  obtain k e where it: "it = (k, e)" by (cases it)
  show ?case
  proof (cases "k = STATE_LOG")
    case False
    have "dispatch_predicates ps e k sh = Inr []"
      by (intro dispatch_passes other_stream_passes) (use False ps in auto)
    moreover have "walk_items ps items sh = Inr []"
      by (rule Cons.IH [OF Cons.prems(1,2)]) (use Cons.prems(3) it False in \<open>simp add: state_items_def\<close>)
    ultimately show ?thesis using it False by (simp add: fold_state_def fold_version_def or_raise_def)
  next
    case True
    with Cons.prems(3) it obtain x d' where d: "d = x # d'" "e = state_entry u x" "state_items u d' items"
      by (auto simp: state_items_def)
    from Cons.prems(1) d(1) have one: "one_writer (next_states x S)"
      and commit: "writer_commit x \<Longrightarrow> from_state x \<in> M_OR_E_STATES \<and> V (log_artifact x) < log_version x"
      and rest: "clean_from d' (next_states x S) (next_version x V)" by (auto elim: clean_from.cases)
    let ?sh = "fold_state STATE_LOG e sh"
    have "dispatch_predicates ps e k ?sh = Inr []"
      unfolding d(2) True by (intro dispatch_passes entry_passes [OF u Cons.prems(2) one commit])
    moreover have "shadows u (next_states x S) (next_version x V) (fold_version STATE_LOG e ?sh)"
      unfolding d(2) by (intro shadows_fold_version [OF u] shadows_fold_state [OF u Cons.prems(2)]) (simp add: commit)
    then have "walk_items ps items (fold_version STATE_LOG e ?sh) = Inr []" by (rule Cons.IH [OF rest _ d(3)])
    ultimately show ?thesis using it True by (simp add: or_raise_def)
  qed
qed simp

section \<open>A recorded run\<close>

text \<open>The file of the state log: one line for each delivered entry.\<close>

definition recorded :: "(uuid \<Rightarrow> string) \<Rightarrow> registry \<Rightarrow> line list" where
  "recorded u g = map (\<lambda>x. Parsed (state_entry u x)) (delivered g)"

lemma entries_recorded: "entries_of (recorded u g) = map (state_entry u) (delivered g)"
proof -
  have "entries_of (map (\<lambda>x. Parsed (state_entry u x)) d) = map (state_entry u) d" for d by (induction d) simp_all
  then show ?thesis by (simp add: recorded_def)
qed

definition log_invariants :: "string list" where
  "log_invariants = [''single-writer'', ''monotonic-version'', ''lost-write'']"

definition log_predicates :: "Predicate list" where
  "log_predicates = [SingleWriterPredicate, MonotonicVersionPredicate, LostWritePredicate]"

lemma select_log_predicates: "select_predicates (Some log_invariants) = log_predicates"
  by (simp add: select_predicates_def log_invariants_def log_predicates_def CORE_PREDICATES_def)

lemma partition_log_predicates:
  "STATE_LOG \<in> set (streams_present trace) \<Longrightarrow> partition_active log_predicates trace = (log_predicates, [])"
  by (simp add: log_predicates_def)

lemma load_both:
  "load (Manifest (Streams [STATE_LOG, CONTENT_AUDIT_LOG])) [(STATE_LOG, states), (CONTENT_AUDIT_LOG, audit)] =
     Inr \<lparr>lt_manifest = Streams [STATE_LOG, CONTENT_AUDIT_LOG], streams_present = [STATE_LOG, CONTENT_AUDIT_LOG],
          stream_paths = [(STATE_LOG, states), (CONTENT_AUDIT_LOG, audit)]\<rparr>"
  by (simp add: load_def or_raise_def read_manifest_def declared_streams_def STREAM_PRIORITY_def STATE_LOG_def
      CONTENT_AUDIT_LOG_def STRICT_DENY_AUDIT_def)

lemma in_step_clean: "in_step B g \<Longrightarrow> clean_from (delivered g) (\<lambda>_ _. None) (\<lambda>_. - 1)"
  using clean_log_from by (auto simp: in_step_def clean_from.intros split: if_splits)

lemma walk_recorded:
  assumes u: "text_ids u" and st: "in_step B g" and ps: "StaleReadPredicate \<notin> set ps"
    and paths: "dict_wf (stream_paths trace)" "dict_get (stream_paths trace) STATE_LOG = Some (recorded u g)"
  shows "walk trace ps = (case snd (merged trace) of None \<Rightarrow> Inr [] | Some e \<Rightarrow> Inl e)"
proof -
  obtain items err where m: "merged trace = (items, err)" by fastforce
  have "prefix (of_stream STATE_LOG items) (map (state_entry u) (delivered g))"
    using iter_merged_of_stream [OF paths(1), of _ STATE_LOG] m paths(2)
    by (simp add: merged_def entries_recorded)
  then obtain rest where "map (state_entry u) (delivered g) = of_stream STATE_LOG items @ rest" by (auto simp: prefix_def)
  then obtain d d' where d: "delivered g = d @ d'" "state_items u d items"
    by (auto simp: state_items_def map_eq_append_conv)
  have clean: "clean_from d (\<lambda>_ _. None) (\<lambda>_. - 1)"
    using in_step_clean [OF st] unfolding d(1) by (rule clean_from_prefix)
  have "walk_items ps items new_SharedState = Inr []"
    by (rule walk_clean [OF u ps clean shadows_start d(2)])
  then show ?thesis by (simp add: walk_def m or_raise_def)
qed

text \<open>The loader's checks on a file that holds one instance's entries with different sequence numbers.\<close>

definition file_of :: "(uuid \<Rightarrow> string) \<Rightarrow> log_entry list \<Rightarrow> line list" where
  "file_of u d = map (\<lambda>x. Parsed (state_entry u x)) d"

lemma next_head_file:
  "next_head STATE_LOG (file_of u []) = Inr []"
  "next_head STATE_LOG (file_of u (x # xs)) =
     Inr [Head (log_tick x) 0 (sequence_number x) STATE_LOG (state_entry u x) (file_of u xs)]"
  by (simp_all add: next_head_def file_of_def or_raise_def STREAM_PRIORITY_def get_default_def)

lemma instance_text: "(if truthy (JStr s) then JStr s else JStr []) = JStr s"
  by (simp add: truthy_def)

lemma checks_pass:
  assumes "dict_get (seen_instance_id sn) STATE_LOG \<in> {None, Some (JStr (log_instance x))}"
    and "(STATE_LOG, JStr (log_instance x), sequence_number x) \<notin> set (seen_seq sn)"
  obtains sn' where "or_raise (check_instance_id STATE_LOG (state_entry u x) sn)
      (check_duplicate_seq STATE_LOG (state_entry u x) (sequence_number x)) = Inr sn'"
    and "seen_seq sn' = (STATE_LOG, JStr (log_instance x), sequence_number x) # seen_seq sn"
    and "dict_get (seen_instance_id sn') STATE_LOG = Some (JStr (log_instance x))"
  using assms
  by (cases "dict_get (seen_instance_id sn) STATE_LOG")
    (auto simp: check_instance_id_def check_duplicate_seq_def instance_text or_raise_def Let_def)

lemma merge_single_stream:
  assumes "distinct (map sequence_number (x # xs))" and "\<forall>y \<in> set (x # xs). log_instance y = inst"
    and "\<forall>y \<in> set (x # xs). (STATE_LOG, JStr inst, sequence_number y) \<notin> set (seen_seq sn)"
    and "dict_get (seen_instance_id sn) STATE_LOG \<in> {None, Some (JStr inst)}"
  shows "snd (merge_heads [Head (log_tick x) 0 (sequence_number x) STATE_LOG (state_entry u x) (file_of u xs)] sn) = None"
  using assms
proof (induction xs arbitrary: x sn)
  case Nil
  obtain sn' where "or_raise (check_instance_id STATE_LOG (state_entry u x) sn)
      (check_duplicate_seq STATE_LOG (state_entry u x) (sequence_number x)) = Inr sn'"
    using Nil.prems by (auto intro: checks_pass [of sn x])
  then show ?case by (simp add: next_head_file)
next
  case (Cons y ys)
  obtain sn' where sn': "or_raise (check_instance_id STATE_LOG (state_entry u x) sn)
      (check_duplicate_seq STATE_LOG (state_entry u x) (sequence_number x)) = Inr sn'"
    and seen: "seen_seq sn' = (STATE_LOG, JStr (log_instance x), sequence_number x) # seen_seq sn"
      "dict_get (seen_instance_id sn') STATE_LOG = Some (JStr (log_instance x))"
    using Cons.prems by (auto intro: checks_pass [of sn x])
  have "snd (merge_heads [Head (log_tick y) 0 (sequence_number y) STATE_LOG (state_entry u y) (file_of u ys)] sn') = None"
  proof (rule Cons.IH)
    have "sequence_number z \<noteq> sequence_number x" if "z \<in> set (y # ys)" for z
      using Cons.prems(1) that by (metis distinct.simps(2) imageI list.set_map list.simps(9))
    then show "\<forall>z \<in> set (y # ys). (STATE_LOG, JStr inst, sequence_number z) \<notin> set (seen_seq sn')"
      using Cons.prems(3) seen(1) by simp
  qed (use Cons.prems seen(2) in simp_all)
  with sn' show ?case by (auto simp: next_head_file split: prod.splits)
qed

lemma recorded_alone_loads:
  assumes "numbered g"
  shows "snd (iter_merged [(STATE_LOG, recorded u g)]) = None"
proof -
  have rec: "recorded u g = file_of u (delivered g)" by (simp add: recorded_def file_of_def)
  show ?thesis
  proof (cases "delivered g")
    case Nil
    then show ?thesis by (simp add: rec iter_merged_def sorted_by_def next_head_file or_raise_def)
  next
    case (Cons x xs)
    have "distinct (map sequence_number (delivered g))"
      using assms by (simp add: numbered_def distinct_map)
    moreover have "\<forall>y \<in> set (delivered g). log_instance y = instance_id g" using assms by (simp add: numbered_def)
    ultimately have "snd (merge_heads [Head (log_tick x) 0 (sequence_number x) STATE_LOG (state_entry u x) (file_of u xs)]
        \<lparr>seen_instance_id = [], seen_seq = []\<rparr>) = None"
      unfolding Cons by (rule merge_single_stream) simp_all
    then show ?thesis by (simp add: rec Cons iter_merged_def sorted_by_def next_head_file or_raise_def)
  qed
qed

text \<open>
  C6: A recorded run replays clean. Take any run of the coordinator without deletions, with a state
  log that never fails, write the entries it delivered to a state log file and nothing else: the
  loader accepts the session, no sequence number is repeated and no second instance appears, and
  replaying it gives no finding at all, only the note that the stale-read check was skipped because
  its stream was not recorded.
\<close>

theorem recorded_run_replays_clean:
  assumes "text_ids u" and "reachable (\<lambda>s. coord_init s \<and> log_ok (svc_registry s)) (coord_step sha u5 no_deletion) s"
  shows "\<exists>trace. load (Manifest (Streams [STATE_LOG])) [(STATE_LOG, recorded u (svc_registry s))] = Inr trace \<and>
    run_predicates trace None = Inr ([], [make_skipped StaleReadPredicate CONTENT_AUDIT_LOG [STATE_LOG]])"
proof -
  let ?g = "svc_registry s"
  let ?trace = "\<lparr>lt_manifest = Streams [STATE_LOG], streams_present = [STATE_LOG],
    stream_paths = [(STATE_LOG, recorded u ?g)]\<rparr>"
  have st: "in_step {} ?g" using traced.reachable_inv [OF assms(2)] by (simp add: on_reg_def in_step_ok_def)
  have load: "load (Manifest (Streams [STATE_LOG])) [(STATE_LOG, recorded u ?g)] = Inr ?trace"
    by (simp add: load_def or_raise_def read_manifest_def declared_streams_def STREAM_PRIORITY_def)
  have "snd (merged ?trace) = None"
    using st by (simp add: merged_def recorded_alone_loads in_step_def)
  then have "walk ?trace log_predicates = Inr []"
    using walk_recorded [OF assms(1) st, of log_predicates ?trace] by (simp add: log_predicates_def)
  moreover have "partition_active (select_predicates None) ?trace =
      (log_predicates, [make_skipped StaleReadPredicate CONTENT_AUDIT_LOG [STATE_LOG]])"
    by (simp add: select_predicates_def CORE_PREDICATES_def log_predicates_def manifest_streams_def STATE_LOG_def
        CONTENT_AUDIT_LOG_def sorted_by_def)
  ultimately show ?thesis using load by (simp add: run_predicates_def or_raise_def)
qed


section \<open>A recorded run of two agents\<close>

text \<open>Agent 5 owns the artifact it registered, agent 6 writes and commits, agent 5 reads again.\<close>

definition tally :: "uuid \<Rightarrow> string" where
  "tally n = replicate (Suc n) (CHR ''x'')"

definition logged_start :: service where
  "logged_start = new_CoordinatorService (demo_registry\<lparr>state_log := Some (\<lambda>_. True)\<rparr>) None"

definition logged_run :: service where
  "logged_run = perform demo_sha demo_u5 (Fetch 1 5 3) (perform demo_sha demo_u5 (Commit 6 1 ''z'' 2 None None False)
     (perform demo_sha demo_u5 (Write 6 1 1 False)
       (perform demo_sha demo_u5 (Register 1 ''a'' (Text ''x'') (Some 5) None None []) logged_start)))"

lemma tally_text: "text_ids tally"
proof -
  have "m = n" if "tally m = tally n" for m n using arg_cong [OF that, of length] by (simp add: tally_def)
  then show ?thesis by (auto simp: text_ids_def tally_def intro!: injI)
qed

lemma logged_start_init: "coord_init logged_start \<and> log_ok (svc_registry logged_start)"
proof -
  have "new_ArtifactRegistry (Some (\<lambda>_. True)) None (Some ''i'') True (Some demo_policy) ''i'' ''e'' 0 =
      Inr (demo_registry\<lparr>state_log := Some (\<lambda>_. True)\<rparr>)"
    by (simp add: new_ArtifactRegistry_def demo_registry_def)
  then have "coord_init logged_start" unfolding logged_start_def by (rule coord_init.intros)
  then show ?thesis by (simp add: logged_start_def new_CoordinatorService_def log_ok_def)
qed

lemma reach_request:
  "reachable init (coord_step sha u5 allowed) s \<Longrightarrow> request_ok q \<Longrightarrow> allowed q s \<Longrightarrow>
   reachable init (coord_step sha u5 allowed) (perform sha u5 q s)"
  by (erule reach_step) (rule serve)

lemma logged_run_reachable:
  "reachable (\<lambda>s. coord_init s \<and> log_ok (svc_registry s)) (coord_step demo_sha demo_u5 no_deletion) logged_run"
  unfolding logged_run_def
  by (intro reach_request reach_init logged_start_init)
    (simp_all add: request_ok_def permitted_def logged_start_def new_CoordinatorService_def demo_registry_def)

theorem recorded_run_replays_clean_witness:
  "map to_state (delivered (svc_registry logged_run)) = [EXCLUSIVE, INVALID, EXCLUSIVE, MODIFIED, SHARED, SHARED] \<and>
   (\<exists>trace. load (Manifest (Streams [STATE_LOG])) [(STATE_LOG, recorded tally (svc_registry logged_run))] = Inr trace \<and>
    run_predicates trace None = Inr ([], [make_skipped StaleReadPredicate CONTENT_AUDIT_LOG [STATE_LOG]]))"
proof
  show "map to_state (delivered (svc_registry logged_run)) = [EXCLUSIVE, INVALID, EXCLUSIVE, MODIFIED, SHARED, SHARED]"
    by code_simp
  show "\<exists>trace. load (Manifest (Streams [STATE_LOG])) [(STATE_LOG, recorded tally (svc_registry logged_run))] = Inr trace \<and>
    run_predicates trace None = Inr ([], [make_skipped StaleReadPredicate CONTENT_AUDIT_LOG [STATE_LOG]])"
    by (rule recorded_run_replays_clean [OF tally_text logged_run_reachable])
qed


end
