(* ===== verification/Sqlite_Registry.thy ===== *)
theory Sqlite_Registry
  imports Registry_Inv
begin

text \<open>
  The durable registry, \<^verbatim>\<open>src/ccs/coordinator/sqlite_registry.py\<close>, as operations on tables. The
  database engine is not part of the repository. Of it the model has what the statements rely on:
  \<^item> a table is a dictionary from its primary key to the row; an insert that breaks a primary key, a
    \<open>UNIQUE\<close> column or a foreign key raises \<open>IntegrityError\<close>, an update without a matching row does
    nothing, and deleting an artifact cascades along the foreign keys;
  \<^item> \<open>BEGIN IMMEDIATE\<close> ... \<open>COMMIT\<close> is \<open>transaction\<close>: a raise restores the tables, and so does a
    \<open>COMMIT\<close> that fails. Whether it fails is the field \<open>commit_ok\<close>;
  \<^item> a \<open>SELECT\<close> without \<open>ORDER BY\<close> returns its rows in an order of the engine's own, the field \<open>scan\<close>.
  The other fields are those of \<open>SqliteArtifactRegistry\<close>; \<open>seq_incremented\<close> is the local variable of that
  name, and the two fields of the environment are as in the in-memory registry.
\<close>

section \<open>Tables\<close>

record artifact_row =
  row_name :: string
  row_version :: int
  row_owner_generation :: nat
  row_content_hash :: string
  row_size_tokens :: "int option"
  row_last_writer_id :: "uuid option"
  row_updated_at :: rat

record agent_state_row =
  row_state :: MESIState
  row_transient_state :: "TransientState option"
  row_transient_tick :: "int option"
  row_granted_at_tick :: "int option"
  row_last_reclaim_trigger :: "string option"
  row_last_reclaim_tick :: "int option"
  row_read_generation :: "nat option"
  row_last_observed_version :: "int option"

record version_row =
  row_content :: body
  row_captured_at :: rat

record notice_row =
  row_preempter :: uuid
  row_preempted_at :: rat

record database =
  artifacts_table :: "(uuid, artifact_row) dict"
  agent_states_table :: "(uuid \<times> uuid, agent_state_row) dict"
  heartbeats_table :: "(uuid, int) dict"
  meta_instance_id :: string
  meta_sequence_number :: int
  meta_coordinator_epoch :: string
  pending_notices_table :: "(uuid \<times> uuid, notice_row) dict"
  artifact_versions_table :: "(uuid \<times> int, version_row) dict"
  session_pins_table :: "(string \<times> uuid, int) dict"
  session_meta_table :: "(string, uuid \<times> int) dict"
  conflict_counters_table :: "(uuid \<times> uuid \<times> conflict_reason, int) dict"

record sqlite_registry =
  tables :: database
  read_only :: bool
  sq_state_log :: "(log_entry \<Rightarrow> bool) option"
  sq_agent_names :: "(uuid, string) dict option"
  sq_instance_id :: string
  sq_coordinator_epoch :: string
  sq_seq :: int
  sq_retain_versions :: bool
  sq_retention_policy :: "RetentionPolicy option"
  seq_incremented :: int
  sq_delivered :: "log_entry list"
  sq_wall_clock :: rat
  scan :: "uuid list \<Rightarrow> uuid list"
  commit_ok :: "database \<Rightarrow> bool"

type_synonym 'a qop = "(sqlite_registry, py_error, 'a) py"

text \<open>The tables of a fresh file, \<open>_apply_v2_schema\<close>; the two identities it mints are arguments.\<close>

definition apply_v2_schema :: "string option \<Rightarrow> string \<Rightarrow> string \<Rightarrow> database" where
  "apply_v2_schema inst minted epoch =
     \<lparr>artifacts_table = [], agent_states_table = [], heartbeats_table = [],
      meta_instance_id = (case inst of None \<Rightarrow> minted | Some i \<Rightarrow> i), meta_sequence_number = 0,
      meta_coordinator_epoch = epoch, pending_notices_table = [], artifact_versions_table = [],
      session_pins_table = [], session_meta_table = [], conflict_counters_table = []\<rparr>"

text \<open>
  Opening the current schema for writing: \<open>__init__\<close> up to \<open>_rehydrate_meta\<close>. Python's \<open>or\<close> makes an
  empty override count as absent.
\<close>

definition open_registry ::
  "database \<Rightarrow> (log_entry \<Rightarrow> bool) option \<Rightarrow> (uuid, string) dict option \<Rightarrow> string option \<Rightarrow> bool
   \<Rightarrow> RetentionPolicy option \<Rightarrow> bool \<Rightarrow> rat \<Rightarrow> (uuid list \<Rightarrow> uuid list) \<Rightarrow> (database \<Rightarrow> bool)
   \<Rightarrow> py_error + sqlite_registry" where
  "open_registry db sink names inst retain policy ro now order commits =
     (if sink \<noteq> None \<and> inst = None then Inl ValueError
      else if ro \<and> sink \<noteq> None then Inl ValueError
      else Inr \<lparr>tables = db, read_only = ro, sq_state_log = sink, sq_agent_names = names,
        sq_instance_id = (case inst of None \<Rightarrow> meta_instance_id db
                          | Some i \<Rightarrow> (if i = '''' then meta_instance_id db else i)),
        sq_coordinator_epoch = meta_coordinator_epoch db, sq_seq = meta_sequence_number db,
        sq_retain_versions = retain, sq_retention_policy = policy, seq_incremented = 0,
        sq_delivered = [], sq_wall_clock = now, scan = order, commit_ok = commits\<rparr>)"

section \<open>Statements\<close>

definition statement :: "(database \<Rightarrow> database) \<Rightarrow> unit qop" where
  "statement f = modify (\<lambda>s. s\<lparr>tables := f (tables s)\<rparr>)"

definition query :: "(database \<Rightarrow> 'a) \<Rightarrow> 'a qop" where
  "query f = asks (\<lambda>s. f (tables s))"

definition update_row :: "'k \<Rightarrow> ('v \<Rightarrow> 'v) \<Rightarrow> ('k, 'v) dict \<Rightarrow> ('k, 'v) dict" where
  "update_row k f t = (case dict_get t k of None \<Rightarrow> t | Some v \<Rightarrow> dict_set k (f v) t)"

definition delete_where :: "('k \<Rightarrow> 'v \<Rightarrow> bool) \<Rightarrow> ('k, 'v) dict \<Rightarrow> ('k, 'v) dict" where
  "delete_where P t = filter (\<lambda>(k, v). \<not> P k v) t"

definition require :: "(database \<Rightarrow> bool) \<Rightarrow> unit qop" where
  "require P = (\<lambda>s. if P (tables s) then (Inr (), s) else (Inl IntegrityError, s))"

definition name_taken :: "string \<Rightarrow> uuid \<Rightarrow> database \<Rightarrow> bool" where
  "name_taken nm art db = list_ex (\<lambda>(i, row). i \<noteq> art \<and> row_name row = nm) (artifacts_table db)"

definition artifact_exists :: "uuid \<Rightarrow> database \<Rightarrow> bool" where
  "artifact_exists art db \<longleftrightarrow> dict_get (artifacts_table db) art \<noteq> None"

definition update_artifact :: "uuid \<Rightarrow> (artifact_row \<Rightarrow> artifact_row) \<Rightarrow> database \<Rightarrow> database" where
  "update_artifact art f db = db\<lparr>artifacts_table := update_row art f (artifacts_table db)\<rparr>"

definition update_agent :: "uuid \<Rightarrow> uuid \<Rightarrow> (agent_state_row \<Rightarrow> agent_state_row) \<Rightarrow> database \<Rightarrow> database" where
  "update_agent art ag f db = db\<lparr>agent_states_table := update_row (art, ag) f (agent_states_table db)\<rparr>"

definition insert_agent :: "uuid \<Rightarrow> uuid \<Rightarrow> agent_state_row \<Rightarrow> database \<Rightarrow> database" where
  "insert_agent art ag row db = db\<lparr>agent_states_table := dict_set (art, ag) row (agent_states_table db)\<rparr>"

definition blank_row :: "MESIState \<Rightarrow> agent_state_row" where
  "blank_row st = \<lparr>row_state = st, row_transient_state = None, row_transient_tick = None,
     row_granted_at_tick = None, row_last_reclaim_trigger = None, row_last_reclaim_tick = None,
     row_read_generation = None, row_last_observed_version = None\<rparr>"

definition agent_row :: "uuid \<Rightarrow> uuid \<Rightarrow> database \<Rightarrow> agent_state_row option" where
  "agent_row art ag db = dict_get (agent_states_table db) (art, ag)"

text \<open>The rows of one artifact that satisfy a condition, in the engine's order.\<close>

definition select_agents ::
  "(uuid \<Rightarrow> agent_state_row \<Rightarrow> bool) \<Rightarrow> uuid \<Rightarrow> sqlite_registry \<Rightarrow> (uuid \<times> agent_state_row) list" where
  "select_agents P art s =
     (let t = agent_states_table (tables s);
          ids = map (\<lambda>((i, ag), row). ag) (filter (\<lambda>((i, ag), row). i = art \<and> P ag row) t)
      in List.map_filter (\<lambda>ag. map_option (Pair ag) (dict_get t (art, ag))) (scan s ids))"

section \<open>Transactions\<close>

definition guard_writable :: "unit qop" where
  "guard_writable = (\<lambda>s. if read_only s then (Inl ReadOnlyMutationError, s) else (Inr (), s))"

text \<open>
  The \<open>try\<close> block of every mutator: \<open>ROLLBACK\<close> on a raise, and the entries the call has counted are
  taken back from the sequence counter.
\<close>

definition transaction :: "'a qop \<Rightarrow> 'a qop" where
  "transaction m =
     (\<lambda>s. case m (s\<lparr>seq_incremented := 0\<rparr>) of
            (Inl e, t) \<Rightarrow> (Inl e, t\<lparr>tables := tables s, sq_seq := sq_seq t - seq_incremented t, seq_incremented := 0\<rparr>)
          | (Inr a, t) \<Rightarrow>
              (if commit_ok t (tables t) then (Inr a, t\<lparr>seq_incremented := 0\<rparr>)
               else (Inl OperationalError,
                     t\<lparr>tables := tables s, sq_seq := sq_seq t - seq_incremented t, seq_incremented := 0\<rparr>)))"

definition mutator :: "'a qop \<Rightarrow> 'a qop" where
  "mutator m = andthen guard_writable (\<lambda>_. transaction m)"

section \<open>The state log\<close>

definition sql_log_entry_of :: "sqlite_registry \<Rightarrow> log_request \<Rightarrow> log_entry" where
  "sql_log_entry_of s q =
     \<lparr>log_tick = rq_tick q, log_artifact = rq_artifact q, log_agent = rq_agent q,
      log_agent_name = (case sq_agent_names s of None \<Rightarrow> None | Some names \<Rightarrow> dict_get names (rq_agent q)),
      from_state = rq_from q, to_state = rq_to q, log_trigger = rq_trigger q,
      log_version = rq_version q, log_hash = rq_hash q, sequence_number = sq_seq s,
      log_instance = sq_instance_id s, schema_version = CCS_STATE_LOG_SCHEMA_VERSION\<rparr>"

definition sql_emit_state_log :: "log_request \<Rightarrow> unit qop" where
  "sql_emit_state_log q =
     (\<lambda>s. case sq_state_log s of
            None \<Rightarrow> (Inr (), s)
          | Some sink \<Rightarrow>
              (let s1 = s\<lparr>sq_seq := sq_seq s + 1\<rparr>; entry = sql_log_entry_of s1 q
               in if sink entry
                  then (Inr (), s1\<lparr>sq_delivered := sq_delivered s1 @ [entry],
                                   seq_incremented := seq_incremented s1 + 1,
                                   tables := (tables s1)\<lparr>meta_sequence_number := sq_seq s1\<rparr>\<rparr>)
                  else (Inl CallbackError, s1\<lparr>sq_seq := sq_seq s1 - 1\<rparr>)))"

section \<open>Version capture\<close>

definition live_pins_for_artifact_sql :: "uuid \<Rightarrow> database \<Rightarrow> int set" where
  "live_pins_for_artifact_sql art db =
     set (map snd (filter (\<lambda>((token, i), v). i = art) (session_pins_table db)))"

definition version_stamps :: "uuid \<Rightarrow> database \<Rightarrow> (int, rat) dict" where
  "version_stamps art db =
     map (\<lambda>((i, v), row). (v, row_captured_at row)) (filter (\<lambda>((i, v), row). i = art) (artifact_versions_table db))"

definition capture_version_sql :: "uuid \<Rightarrow> int \<Rightarrow> body \<Rightarrow> unit qop" where
  "capture_version_sql art v b =
     andthen (require (artifact_exists art)) (\<lambda>_.
     andthen (asks sq_wall_clock) (\<lambda>now.
     andthen (statement (\<lambda>db. db\<lparr>artifact_versions_table :=
        dict_set (art, v) \<lparr>row_content = b, row_captured_at = now\<rparr> (artifact_versions_table db)\<rparr>)) (\<lambda>_.
     andthen (asks sq_retention_policy) (\<lambda>policy.
     case policy of
       None \<Rightarrow> ret ()
     | Some p \<Rightarrow>
         statement (\<lambda>db.
           let dropped = collectible_versions (Stamped (version_stamps art db)) v p now
                           (live_pins_for_artifact_sql art db)
           in db\<lparr>artifact_versions_table :=
                   delete_where (\<lambda>(i, u) row. i = art \<and> u \<in> dropped) (artifact_versions_table db)\<rparr>)))))"

section \<open>Artifacts\<close>

definition insert_artifact :: "uuid \<Rightarrow> artifact_row \<Rightarrow> unit qop" where
  "insert_artifact art row =
     andthen (require (\<lambda>db. \<not> artifact_exists art db \<and> \<not> name_taken (row_name row) art db)) (\<lambda>_.
     statement (\<lambda>db. db\<lparr>artifacts_table := dict_set art row (artifacts_table db)\<rparr>))"

definition hash_column :: "string option \<Rightarrow> string" where
  "hash_column h = (case h of None \<Rightarrow> '''' | Some x \<Rightarrow> x)"

definition sql_register_artifact :: "Artifact \<Rightarrow> body \<Rightarrow> unit qop" where
  "sql_register_artifact art b =
     mutator (
       andthen (asks sq_wall_clock) (\<lambda>now.
       andthen (insert_artifact (art_id art)
         \<lparr>row_name = art_name art, row_version = art_version art, row_owner_generation = 0,
          row_content_hash = hash_column (art_hash art), row_size_tokens = art_tokens art,
          row_last_writer_id = None, row_updated_at = now\<rparr>) (\<lambda>_.
       andthen (asks sq_retain_versions) (\<lambda>retain.
       if retain then capture_version_sql (art_id art) (art_version art) b else ret ()))))"

definition sql_set_artifact_and_content ::
  "uuid \<Rightarrow> Artifact \<Rightarrow> body \<Rightarrow> uuid option \<Rightarrow> uuid option \<Rightarrow> unit qop" where
  "sql_set_artifact_and_content art upd b writer fence_agent =
     mutator (
       andthen
         (case fence_agent of None \<Rightarrow> ret ()
          | Some ag \<Rightarrow>
              andthen (query (agent_row art ag)) (\<lambda>rg_row.
              case Option.bind rg_row row_read_generation of None \<Rightarrow> ret ()
              | Some read_gen \<Rightarrow>
                  andthen (query (\<lambda>db. dict_get (artifacts_table db) art)) (\<lambda>og_row.
                  case og_row of None \<Rightarrow> throw KeyError
                  | Some row \<Rightarrow>
                      (if read_gen < row_owner_generation row
                       then throw (StaleReadGeneration ag art read_gen (row_owner_generation row))
                       else ret ()))))
         (\<lambda>_.
       andthen (asks sq_wall_clock) (\<lambda>now.
       andthen (require (\<lambda>db. artifact_exists art db \<longrightarrow> \<not> name_taken (art_name upd) art db)) (\<lambda>_.
       andthen (statement (update_artifact art (\<lambda>row. row\<lparr>row_name := art_name upd,
         row_version := art_version upd, row_content_hash := hash_column (art_hash upd),
         row_size_tokens := art_tokens upd, row_last_writer_id := writer, row_updated_at := now\<rparr>))) (\<lambda>_.
       andthen (asks sq_retain_versions) (\<lambda>retain.
       if retain then capture_version_sql art (art_version upd) b else ret ()))))))"

definition sql_remove_artifact :: "uuid \<Rightarrow> unit qop" where
  "sql_remove_artifact art =
     mutator (statement (\<lambda>db. db\<lparr>artifacts_table := dict_pop art (artifacts_table db),
       agent_states_table := delete_where (\<lambda>(i, ag) row. i = art) (agent_states_table db),
       pending_notices_table := delete_where (\<lambda>(ag, i) row. i = art) (pending_notices_table db),
       artifact_versions_table := delete_where (\<lambda>(i, v) row. i = art) (artifact_versions_table db)\<rparr>))"

text \<open>
  First-observation seeding. \<open>new_id\<close> is the identifier the call mints. The handler of
  \<open>IntegrityError\<close> rolls back and looks the name up again.
\<close>

definition lookup_artifact_id_by_name :: "string \<Rightarrow> database \<Rightarrow> uuid option" where
  "lookup_artifact_id_by_name nm db =
     map_option fst (find (\<lambda>(i, row). row_name row = nm) (artifacts_table db))"

definition resolve_or_register :: "string \<Rightarrow> string \<Rightarrow> uuid \<Rightarrow> uuid qop" where
  "resolve_or_register path chash new_id =
     andthen guard_writable (\<lambda>_.
     except
       (transaction (
          andthen (query (lookup_artifact_id_by_name path)) (\<lambda>found.
          case found of Some i \<Rightarrow> ret i
          | None \<Rightarrow>
              andthen (asks sq_wall_clock) (\<lambda>now.
              andthen (insert_artifact new_id
                \<lparr>row_name = path, row_version = 1, row_owner_generation = 0, row_content_hash = chash,
                 row_size_tokens = None, row_last_writer_id = None, row_updated_at = now\<rparr>) (\<lambda>_.
              ret new_id)))))
       (\<lambda>e. if e = IntegrityError
            then andthen (query (lookup_artifact_id_by_name path)) (\<lambda>found.
                 case found of None \<Rightarrow> throw RuntimeError | Some i \<Rightarrow> ret i)
            else throw e))"

section \<open>Agent state\<close>

definition sql_set_agent_state ::
  "uuid \<Rightarrow> uuid \<Rightarrow> MESIState \<Rightarrow> string \<Rightarrow> int \<Rightarrow> string option \<Rightarrow> unit qop" where
  "sql_set_agent_state art ag st trig tick chash =
     mutator (
       andthen (query (agent_row art ag)) (\<lambda>prior_row.
       let frm = (case prior_row of None \<Rightarrow> INVALID | Some row \<Rightarrow> row_state row);
           prior_granted_at = Option.bind prior_row row_granted_at_tick;
           new_in_me = st \<in> M_OR_E_STATES;
           prev_in_me = frm \<in> M_OR_E_STATES;
           granted = (if new_in_me \<and> \<not> prev_in_me then Some tick
                      else if new_in_me \<and> prev_in_me then prior_granted_at
                      else if prev_in_me then None else prior_granted_at);
           clear_reclaim = (new_in_me \<and> \<not> prev_in_me)
       in
       andthen (query (\<lambda>db. dict_get (artifacts_table db) art)) (\<lambda>version_row.
       case version_row of None \<Rightarrow> throw KeyError
       | Some arow \<Rightarrow>
       andthen (if prev_in_me \<and> \<not> new_in_me \<and> trig \<in> EPOCH_BUMP_TRIGGERS
                then statement (update_artifact art (\<lambda>row. row\<lparr>row_owner_generation := row_owner_generation row + 1\<rparr>))
                else ret ()) (\<lambda>_.
       andthen (let observe = (st \<noteq> INVALID) in
                case prior_row of
                  None \<Rightarrow> statement (insert_agent art ag ((blank_row st)\<lparr>row_granted_at_tick := granted,
                            row_last_observed_version := (if observe then Some (row_version arow) else None)\<rparr>))
                | Some _ \<Rightarrow>
                    (if clear_reclaim
                     then statement (update_agent art ag (\<lambda>row. row\<lparr>row_state := st, row_granted_at_tick := granted,
                            row_last_reclaim_trigger := None, row_last_reclaim_tick := None,
                            row_last_observed_version :=
                              (if observe then Some (row_version arow) else row_last_observed_version row)\<rparr>))
                     else statement (update_agent art ag (\<lambda>row. row\<lparr>row_state := st, row_granted_at_tick := granted,
                            row_last_observed_version :=
                              (if observe then Some (row_version arow) else row_last_observed_version row)\<rparr>)))) (\<lambda>_.
       andthen (if (new_in_me \<and> \<not> prev_in_me) \<or>
                   (trig \<in> CLAIM_CAPTURE_TRIGGERS \<and> st \<noteq> INVALID \<and> \<not> prev_in_me)
                then statement (\<lambda>db. update_agent art ag (\<lambda>row. row\<lparr>row_read_generation :=
                       map_option row_owner_generation (dict_get (artifacts_table db) art)\<rparr>) db)
                else ret ()) (\<lambda>_.
       sql_emit_state_log (LogRequest art ag frm st trig tick (row_version arow) chash)))))))"

definition sql_set_agent_transient :: "uuid \<Rightarrow> uuid \<Rightarrow> TransientState \<Rightarrow> int \<Rightarrow> unit qop" where
  "sql_set_agent_transient art ag ts entered =
     mutator (
       andthen (query (agent_row art ag)) (\<lambda>row.
       case row of
         None \<Rightarrow> andthen (require (artifact_exists art)) (\<lambda>_.
                 statement (insert_agent art ag ((blank_row INVALID)\<lparr>row_transient_state := Some ts,
                   row_transient_tick := Some entered\<rparr>)))
       | Some _ \<Rightarrow> statement (update_agent art ag (\<lambda>row. row\<lparr>row_transient_state := Some ts,
                     row_transient_tick := Some entered\<rparr>))))"

definition sql_clear_agent_transient :: "uuid \<Rightarrow> uuid \<Rightarrow> unit qop" where
  "sql_clear_agent_transient art ag =
     mutator (statement (update_agent art ag (\<lambda>row. row\<lparr>row_transient_state := None, row_transient_tick := None\<rparr>)))"

definition sql_record_heartbeat :: "uuid \<Rightarrow> int \<Rightarrow> unit qop" where
  "sql_record_heartbeat ag now =
     mutator (statement (\<lambda>db. db\<lparr>heartbeats_table :=
       (case dict_get (heartbeats_table db) ag of
          None \<Rightarrow> dict_set ag now (heartbeats_table db)
        | Some last_tick \<Rightarrow> dict_set ag (max last_tick now) (heartbeats_table db))\<rparr>))"

definition sql_record_last_reclamation :: "uuid \<Rightarrow> uuid \<Rightarrow> string \<Rightarrow> int \<Rightarrow> unit qop" where
  "sql_record_last_reclamation ag art trig tick =
     mutator (statement (update_agent art ag (\<lambda>row. row\<lparr>row_last_reclaim_trigger := Some trig,
       row_last_reclaim_tick := Some tick\<rparr>)))"

end
