(* ===== verification/Sqlite_CAS.thy ===== *)
theory Sqlite_CAS
  imports Sqlite_Registry
begin

text \<open>
  The optimistic commits of \<^verbatim>\<open>src/ccs/coordinator/sqlite_registry.py\<close>, its session pins, its
  preemption notices and its read accessors.
\<close>

section \<open>Arbitration\<close>

definition count_conflict_in_txn :: "uuid \<Rightarrow> uuid \<Rightarrow> conflict_reason \<Rightarrow> database \<Rightarrow> database" where
  "count_conflict_in_txn art ag why db =
     db\<lparr>conflict_counters_table :=
         (case dict_get (conflict_counters_table db) (art, ag, why) of
            None \<Rightarrow> dict_set (art, ag, why) 1 (conflict_counters_table db)
          | Some n \<Rightarrow> dict_set (art, ag, why) (n + 1) (conflict_counters_table db))\<rparr>"

definition deny :: "uuid \<Rightarrow> uuid \<Rightarrow> conflict_reason \<Rightarrow> int \<Rightarrow> ConflictDetail qop" where
  "deny art ag why cur =
     andthen (statement (count_conflict_in_txn art ag why)) (\<lambda>_. ret (ConflictDetail why cur))"

definition sql_other_holder :: "uuid \<Rightarrow> uuid \<Rightarrow> database \<Rightarrow> bool" where
  "sql_other_holder art ag db =
     list_ex (\<lambda>((i, peer), row). i = art \<and> peer \<noteq> ag \<and> row_state row \<in> {MODIFIED, EXCLUSIVE}) (agent_states_table db)"

definition sql_fenced_out :: "uuid \<Rightarrow> uuid \<Rightarrow> artifact_row \<Rightarrow> database \<Rightarrow> bool" where
  "sql_fenced_out art ag arow db =
     (case Option.bind (agent_row art ag db) row_read_generation of None \<Rightarrow> False
      | Some read_gen \<Rightarrow> read_gen < row_owner_generation arow)"

section \<open>The winning write\<close>

text \<open>The peers are invalidated and logged one by one, in the order in which the engine returns them.\<close>

definition sql_invalidate_peer ::
  "uuid \<Rightarrow> string \<Rightarrow> int \<Rightarrow> int \<Rightarrow> uuid list \<Rightarrow> uuid \<times> agent_state_row \<Rightarrow> uuid list qop" where
  "sql_invalidate_peer art trig tick next_version invalidated peer =
     (case peer of (ag, row) \<Rightarrow>
        let peer_from = row_state row;
            new_granted = (if peer_from \<in> M_OR_E_STATES then None else row_granted_at_tick row)
        in andthen (statement (update_agent art ag (\<lambda>r. r\<lparr>row_state := INVALID, row_granted_at_tick := new_granted\<rparr>))) (\<lambda>_.
           andthen (sql_emit_state_log (LogRequest art ag peer_from INVALID trig tick next_version None)) (\<lambda>_.
           ret (invalidated @ [ag]))))"

definition sql_share_committer :: "uuid \<Rightarrow> uuid \<Rightarrow> string \<Rightarrow> string \<Rightarrow> int \<Rightarrow> int \<Rightarrow> unit qop" where
  "sql_share_committer art ag chash trig tick next_version =
     andthen (query (agent_row art ag)) (\<lambda>committer_row.
     andthen (case committer_row of
         None \<Rightarrow> statement (insert_agent art ag ((blank_row SHARED)\<lparr>row_last_observed_version := Some next_version\<rparr>))
       | Some prior \<Rightarrow> statement (update_agent art ag (\<lambda>r. r\<lparr>row_state := SHARED,
                         row_granted_at_tick := row_granted_at_tick prior,
                         row_last_observed_version := Some next_version\<rparr>))) (\<lambda>_.
     sql_emit_state_log (LogRequest art ag
       (case committer_row of None \<Rightarrow> INVALID | Some prior \<Rightarrow> row_state prior) SHARED trig tick next_version (Some chash))))"

definition sql_apply_win ::
  "uuid \<Rightarrow> uuid \<Rightarrow> string \<Rightarrow> int option \<Rightarrow> body option \<Rightarrow> int \<Rightarrow> string \<Rightarrow> int \<Rightarrow> uuid list qop" where
  "sql_apply_win art ag chash resolved_size b tick trig next_version =
     andthen (asks sq_wall_clock) (\<lambda>now.
     andthen (statement (update_artifact art (\<lambda>row. row\<lparr>row_version := next_version, row_content_hash := chash,
       row_size_tokens := resolved_size, row_last_writer_id := Some ag, row_updated_at := now\<rparr>))) (\<lambda>_.
     andthen (asks (select_agents (\<lambda>peer row. peer \<noteq> ag \<and> row_state row \<noteq> INVALID) art)) (\<lambda>peer_rows.
     andthen (for_loop peer_rows (sql_invalidate_peer art trig tick next_version) []) (\<lambda>invalidated.
     andthen (sql_share_committer art ag chash trig tick next_version) (\<lambda>_.
     andthen (asks sq_retain_versions) (\<lambda>retain.
     andthen (case b of None \<Rightarrow> ret ()
              | Some c \<Rightarrow> (if retain then capture_version_sql art next_version c else ret ())) (\<lambda>_.
     ret invalidated)))))))"

section \<open>commit\_cas\<close>

definition resolved_size_tokens :: "int option \<Rightarrow> int option \<Rightarrow> int option" where
  "resolved_size_tokens toks current_size = (case toks of None \<Rightarrow> current_size | Some t \<Rightarrow> Some t)"

definition sql_commit_cas ::
  "uuid \<Rightarrow> uuid \<Rightarrow> int \<Rightarrow> string \<Rightarrow> int option \<Rightarrow> body option \<Rightarrow> int \<Rightarrow> string \<Rightarrow> cas_result qop" where
  "sql_commit_cas art ag expected chash toks b tick trig =
     mutator (
       andthen (query (\<lambda>db. dict_get (artifacts_table db) art)) (\<lambda>version_row.
       case version_row of None \<Rightarrow> throw KeyError
       | Some arow \<Rightarrow>
         (let cur = row_version arow in
          if expected > cur then ret (CasCorruption cur)
          else if expected < cur then andthen (deny art ag version_mismatch cur) (\<lambda>d. ret (CasConflict d))
          else
          andthen (query (sql_other_holder art ag)) (\<lambda>held.
          if held then andthen (deny art ag other_holder cur) (\<lambda>d. ret (CasConflict d))
          else
          andthen (query (sql_fenced_out art ag arow)) (\<lambda>fenced.
          if fenced then andthen (deny art ag stale_read_generation cur) (\<lambda>d. ret (CasConflict d))
          else
          andthen (sql_apply_win art ag chash (resolved_size_tokens toks (row_size_tokens arow)) b tick trig (cur + 1)) (\<lambda>invalidated.
          ret (CasWin \<lparr>art_id = art, art_name = row_name arow, art_version = cur + 1, art_hash = Some chash,
                 art_tokens = resolved_size_tokens toks (row_size_tokens arow), art_depends_on = []\<rparr> invalidated)))))))"

section \<open>commit\_all\<close>

fun sql_check_members ::
  "uuid \<Rightarrow> database \<Rightarrow> (uuid, CommitAllEntry) dict \<Rightarrow> (uuid, ConflictDetail) dict \<Rightarrow> py_error + check_outcome" where
  "sql_check_members ag db [] conflicts = Inr (CheckConflicts conflicts)"
| "sql_check_members ag db ((art, entry) # ws) conflicts =
     (case dict_get (artifacts_table db) art of
        None \<Rightarrow> Inl KeyError
      | Some arow \<Rightarrow>
          (let cur = row_version arow in
           if entry_expected entry > cur then Inr (CheckCorrupt cur)
           else if entry_expected entry < cur
           then sql_check_members ag db ws (dict_set art (ConflictDetail version_mismatch cur) conflicts)
           else if sql_other_holder art ag db
           then sql_check_members ag db ws (dict_set art (ConflictDetail other_holder cur) conflicts)
           else if sql_fenced_out art ag arow db
           then sql_check_members ag db ws (dict_set art (ConflictDetail stale_read_generation cur) conflicts)
           else sql_check_members ag db ws conflicts))"

text \<open>
  One member of a winning batch. \<open>current_by\<close> is what the check read: the version and the size of every
  member at the start of the transaction.
\<close>

definition sql_apply_member ::
  "uuid \<Rightarrow> int \<Rightarrow> string \<Rightarrow> database \<Rightarrow> MultiCommitResult \<Rightarrow> uuid \<times> CommitAllEntry \<Rightarrow> MultiCommitResult qop" where
  "sql_apply_member ag tick trig current_by acc member =
     (case member of (art, entry) \<Rightarrow>
        case dict_get (artifacts_table current_by) art of None \<Rightarrow> throw KeyError
        | Some arow \<Rightarrow>
            andthen (sql_apply_win art ag (entry_hash entry)
                (resolved_size_tokens (entry_tokens entry) (row_size_tokens arow)) (entry_content entry) tick trig
                (row_version arow + 1)) (\<lambda>member_invalidated.
            ret \<lparr>mcr_versions = dict_set art (row_version arow + 1) (mcr_versions acc),
                 mcr_invalidated = (if member_invalidated \<noteq> []
                                    then dict_set art member_invalidated (mcr_invalidated acc)
                                    else mcr_invalidated acc)\<rparr>))"

definition sql_commit_all ::
  "uuid \<Rightarrow> (uuid, CommitAllEntry) dict \<Rightarrow> int \<Rightarrow> string \<Rightarrow> multi_result qop" where
  "sql_commit_all ag writes tick trig =
     (if writes = [] then throw ValueError
      else mutator (
        andthen (query (\<lambda>db. sql_check_members ag db writes [])) (\<lambda>checked.
        case checked of
          Inl e \<Rightarrow> throw e
        | Inr (CheckCorrupt cur) \<Rightarrow> ret (MultiCorruption cur)
        | Inr (CheckConflicts conflicts) \<Rightarrow>
            (if conflicts \<noteq> []
             then andthen (statement (fold (\<lambda>(art, d). count_conflict_in_txn art ag (detail_reason d)) conflicts)) (\<lambda>_.
                  ret (MultiCommitConflict conflicts))
             else andthen (asks tables) (\<lambda>current_by.
                  andthen (for_loop writes (sql_apply_member ag tick trig current_by)
                    \<lparr>mcr_versions = [], mcr_invalidated = []\<rparr>) (\<lambda>res.
                  ret (MultiWin res)))))))"

section \<open>Snapshot sessions\<close>

fun sql_capture_loop ::
  "database \<Rightarrow> uuid list \<Rightarrow> (uuid, int) dict \<Rightarrow> uuid list \<Rightarrow> (uuid, int) dict \<times> uuid list" where
  "sql_capture_loop db [] pins missing = (pins, missing)"
| "sql_capture_loop db (art # arts) pins missing =
     (case dict_get (artifacts_table db) art of
        None \<Rightarrow> sql_capture_loop db arts pins (missing @ [art])
      | Some row \<Rightarrow> sql_capture_loop db arts (dict_set art (row_version row) pins) missing)"

definition sql_capture_version_vector ::
  "uuid list \<Rightarrow> string \<Rightarrow> uuid option \<Rightarrow> int option \<Rightarrow> capture_result qop" where
  "sql_capture_version_vector read_set token owner created =
     mutator (
       andthen (query (\<lambda>db. sql_capture_loop db read_set [] [])) (\<lambda>(pins, missing).
       if missing \<noteq> []
       then andthen (asks sq_coordinator_epoch) (\<lambda>epoch.
            ret (CaptureRejected (VersionedReadRejection UNKNOWN_ARTIFACT (hd (sort missing)) 0 None epoch)))
       else
       andthen (statement (\<lambda>db. db\<lparr>session_pins_table :=
         fold (\<lambda>(art, v). dict_set (token, art) v) pins (session_pins_table db)\<rparr>)) (\<lambda>_.
       andthen (case owner of None \<Rightarrow> ret ()
                | Some ow \<Rightarrow> statement (\<lambda>db. db\<lparr>session_meta_table := dict_set token
                    (ow, case created of None \<Rightarrow> 0 | Some t \<Rightarrow> t) (session_meta_table db)\<rparr>)) (\<lambda>_.
       ret (Cut pins)))))"

definition sql_release_session :: "string \<Rightarrow> unit qop" where
  "sql_release_session token =
     mutator (statement (\<lambda>db. db\<lparr>session_pins_table := delete_where (\<lambda>(tok, art) v. tok = token) (session_pins_table db),
       session_meta_table := dict_pop token (session_meta_table db)\<rparr>))"

definition sql_get_session_meta :: "string \<Rightarrow> sqlite_registry \<Rightarrow> (uuid \<times> int) option" where
  "sql_get_session_meta token s = dict_get (session_meta_table (tables s)) token"

definition sql_session_count :: "sqlite_registry \<Rightarrow> nat" where
  "sql_session_count s = length (session_meta_table (tables s))"

definition sql_get_session_cut :: "string \<Rightarrow> sqlite_registry \<Rightarrow> (uuid, int) dict option" where
  "sql_get_session_cut token s =
     (let t = session_pins_table (tables s);
          ids = map (\<lambda>((tok, art), v). art) (filter (\<lambda>((tok, art), v). tok = token) t);
          rows = List.map_filter (\<lambda>art. map_option (Pair art) (dict_get t (token, art))) (scan s ids)
      in if rows = [] then None else Some rows)"

section \<open>Preemption notices\<close>

definition record_preemption_notice :: "uuid \<Rightarrow> uuid \<Rightarrow> uuid \<Rightarrow> rat \<Rightarrow> unit qop" where
  "record_preemption_notice victim art preempter stamp =
     mutator (
       andthen (require (artifact_exists art)) (\<lambda>_.
       statement (\<lambda>db. db\<lparr>pending_notices_table :=
         (case dict_get (pending_notices_table db) (victim, art) of
            None \<Rightarrow> dict_set (victim, art) \<lparr>row_preempter = preempter, row_preempted_at = stamp\<rparr> (pending_notices_table db)
          | Some row \<Rightarrow>
              (if stamp > row_preempted_at row
               then dict_set (victim, art) \<lparr>row_preempter = preempter, row_preempted_at = stamp\<rparr> (pending_notices_table db)
               else pending_notices_table db))\<rparr>)))"

definition pop_pending_notices :: "uuid \<Rightarrow> (uuid \<times> uuid \<times> rat) list qop" where
  "pop_pending_notices agent =
     mutator (
       andthen (asks (\<lambda>s.
         let t = pending_notices_table (tables s);
             ids = map (\<lambda>((ag, art), row). art) (filter (\<lambda>((ag, art), row). ag = agent) t)
         in List.map_filter (\<lambda>art. map_option (\<lambda>row. (art, row_preempter row, row_preempted_at row))
              (dict_get t (agent, art))) (scan s ids))) (\<lambda>rows.
       andthen (if rows \<noteq> []
                then statement (\<lambda>db. db\<lparr>pending_notices_table :=
                       delete_where (\<lambda>(ag, art) row. ag = agent) (pending_notices_table db)\<rparr>)
                else ret ()) (\<lambda>_.
       ret rows)))"

definition peek_preemption_notice :: "uuid \<Rightarrow> uuid \<Rightarrow> sqlite_registry \<Rightarrow> (uuid \<times> rat) option" where
  "peek_preemption_notice agent art s =
     map_option (\<lambda>row. (row_preempter row, row_preempted_at row))
       (dict_get (pending_notices_table (tables s)) (agent, art))"

definition pop_preemption_notice :: "uuid \<Rightarrow> uuid \<Rightarrow> (uuid \<times> rat) option qop" where
  "pop_preemption_notice agent art =
     mutator (
       andthen (query (\<lambda>db. dict_get (pending_notices_table db) (agent, art))) (\<lambda>row.
       andthen (if row \<noteq> None
                then statement (\<lambda>db. db\<lparr>pending_notices_table := dict_pop (agent, art) (pending_notices_table db)\<rparr>)
                else ret ()) (\<lambda>_.
       ret (map_option (\<lambda>r. (row_preempter r, row_preempted_at r)) row))))"

definition evict_stale_notices :: "rat \<Rightarrow> rat option \<Rightarrow> nat qop" where
  "evict_stale_notices max_age now_unix =
     andthen (asks (\<lambda>s. (case now_unix of None \<Rightarrow> sq_wall_clock s | Some t \<Rightarrow> t) - max_age)) (\<lambda>cutoff.
     mutator (
       andthen (query (\<lambda>db. length (filter (\<lambda>(k, row). row_preempted_at row < cutoff) (pending_notices_table db)))) (\<lambda>deleted.
       andthen (statement (\<lambda>db. db\<lparr>pending_notices_table :=
         delete_where (\<lambda>k row. row_preempted_at row < cutoff) (pending_notices_table db)\<rparr>)) (\<lambda>_.
       ret deleted))))"

section \<open>Read accessors\<close>

definition row_artifact :: "uuid \<Rightarrow> artifact_row \<Rightarrow> Artifact" where
  "row_artifact art row =
     \<lparr>art_id = art, art_name = row_name row, art_version = row_version row,
      art_hash = (if row_content_hash row = '''' then None else Some (row_content_hash row)),
      art_tokens = row_size_tokens row, art_depends_on = []\<rparr>"

definition sql_has_artifact :: "uuid \<Rightarrow> sqlite_registry \<Rightarrow> bool" where
  "sql_has_artifact art s = artifact_exists art (tables s)"

definition sql_artifact_ids :: "sqlite_registry \<Rightarrow> uuid list" where
  "sql_artifact_ids s = scan s (dict_keys (artifacts_table (tables s)))"

definition sql_get_artifact :: "uuid \<Rightarrow> sqlite_registry \<Rightarrow> Artifact option" where
  "sql_get_artifact art s = map_option (row_artifact art) (dict_get (artifacts_table (tables s)) art)"

definition sql_get_content :: "uuid \<Rightarrow> sqlite_registry \<Rightarrow> body option" where
  "sql_get_content art s = (if sql_has_artifact art s then Some (Bytes []) else None)"

definition last_writer_for :: "uuid \<Rightarrow> sqlite_registry \<Rightarrow> uuid option" where
  "last_writer_for art s = Option.bind (dict_get (artifacts_table (tables s)) art) row_last_writer_id"

definition sql_get_owner_generation :: "uuid \<Rightarrow> sqlite_registry \<Rightarrow> py_error + nat" where
  "sql_get_owner_generation art s =
     (case dict_get (artifacts_table (tables s)) art of None \<Rightarrow> Inl KeyError
      | Some row \<Rightarrow> Inr (row_owner_generation row))"

definition sql_get_artifact_and_generation :: "uuid \<Rightarrow> sqlite_registry \<Rightarrow> (Artifact \<times> nat) option" where
  "sql_get_artifact_and_generation art s =
     map_option (\<lambda>row. (row_artifact art row, row_owner_generation row)) (dict_get (artifacts_table (tables s)) art)"

definition sql_get_content_at_version :: "uuid \<Rightarrow> int \<Rightarrow> sqlite_registry \<Rightarrow> body option" where
  "sql_get_content_at_version art v s =
     map_option row_content (dict_get (artifact_versions_table (tables s)) (art, v))"

definition sql_get_version_record :: "uuid \<Rightarrow> int \<Rightarrow> sqlite_registry \<Rightarrow> (body \<times> rat) option" where
  "sql_get_version_record art v s =
     map_option (\<lambda>row. (row_content row, row_captured_at row)) (dict_get (artifact_versions_table (tables s)) (art, v))"

definition sql_get_state_map :: "uuid \<Rightarrow> sqlite_registry \<Rightarrow> (uuid, MESIState) dict" where
  "sql_get_state_map art s = map (\<lambda>(ag, row). (ag, row_state row)) (select_agents (\<lambda>_ _. True) art s)"

definition sql_get_agent_state :: "uuid \<Rightarrow> uuid \<Rightarrow> sqlite_registry \<Rightarrow> MESIState option" where
  "sql_get_agent_state art ag s = map_option row_state (agent_row art ag (tables s))"

definition sql_get_read_generation :: "uuid \<Rightarrow> uuid \<Rightarrow> sqlite_registry \<Rightarrow> nat option" where
  "sql_get_read_generation art ag s = Option.bind (agent_row art ag (tables s)) row_read_generation"

definition sql_last_observed_version_for :: "uuid \<Rightarrow> uuid \<Rightarrow> sqlite_registry \<Rightarrow> int option" where
  "sql_last_observed_version_for art ag s = Option.bind (agent_row art ag (tables s)) row_last_observed_version"

definition sql_get_agent_transient :: "uuid \<Rightarrow> uuid \<Rightarrow> sqlite_registry \<Rightarrow> TransientState option" where
  "sql_get_agent_transient art ag s = Option.bind (agent_row art ag (tables s)) row_transient_state"

definition sql_get_transient_map :: "uuid \<Rightarrow> sqlite_registry \<Rightarrow> (uuid, TransientState) dict" where
  "sql_get_transient_map art s =
     List.map_filter (\<lambda>(ag, row). map_option (Pair ag) (row_transient_state row))
       (select_agents (\<lambda>_ row. row_transient_state row \<noteq> None) art s)"

definition sql_get_transient_tick :: "uuid \<Rightarrow> uuid \<Rightarrow> sqlite_registry \<Rightarrow> int option" where
  "sql_get_transient_tick art ag s = Option.bind (agent_row art ag (tables s)) row_transient_tick"

definition sql_last_heartbeat_tick :: "uuid \<Rightarrow> sqlite_registry \<Rightarrow> int option" where
  "sql_last_heartbeat_tick ag s = dict_get (heartbeats_table (tables s)) ag"

definition sql_get_last_reclamation :: "uuid \<Rightarrow> uuid \<Rightarrow> sqlite_registry \<Rightarrow> (string \<times> int option) option" where
  "sql_get_last_reclamation ag art s =
     Option.bind (agent_row art ag (tables s)) (\<lambda>row.
       map_option (\<lambda>trig. (trig, row_last_reclaim_tick row)) (row_last_reclaim_trigger row))"

definition sql_granted_at_tick :: "uuid \<Rightarrow> uuid \<Rightarrow> sqlite_registry \<Rightarrow> int option" where
  "sql_granted_at_tick ag art s = Option.bind (agent_row art ag (tables s)) row_granted_at_tick"

definition sql_valid_holders :: "uuid \<Rightarrow> sqlite_registry \<Rightarrow> uuid list" where
  "sql_valid_holders art s = map fst (select_agents (\<lambda>_ row. row_state row \<noteq> INVALID) art s)"

definition sql_conflict_outcome_totals :: "sqlite_registry \<Rightarrow> (uuid \<times> uuid \<times> conflict_reason, int) dict" where
  "sql_conflict_outcome_totals s = conflict_counters_table (tables s)"

definition artifacts_held_by_agent :: "uuid \<Rightarrow> MESIState set \<Rightarrow> sqlite_registry \<Rightarrow> uuid list" where
  "artifacts_held_by_agent agent states s =
     (if states = {} then []
      else scan s (map (\<lambda>((i, ag), row). i)
        (filter (\<lambda>((i, ag), row). ag = agent \<and> row_state row \<in> states) (agent_states_table (tables s)))))"

end
