(* ===== verification/Sqlite_Views.thy ===== *)
theory Sqlite_Views
  imports Sqlite_CAS "HOL-Library.Multiset"
begin

text \<open>
  What a registry is to its clients, as one abstract state for both implementations: per artifact its metadata,
  one row of columns per agent, and the retained versions; heartbeats, pins, sessions, conflict counts and
  the transitions that were logged. \<open>abs_mem\<close> reads it off the in-memory registry and \<open>abs_sql\<close> off the
  tables. An agent without an entry is one with an INVALID entry, and the order of the log inside one call is not
  part of the view.
\<close>

declare map_of_eq_Some_iff [simp del] Some_eq_map_of_iff [simp del]

section \<open>The abstract registry\<close>

record art_view =
  v_name :: string
  v_version :: int
  v_generation :: nat
  v_hash :: string
  v_tokens :: "int option"
  v_writer :: "uuid option"
  v_agents :: "uuid \<Rightarrow> agent_state_row"
  v_bodies :: "int \<Rightarrow> body option"
  v_stamps :: "int \<Rightarrow> rat option"

record registry_view =
  w_artifacts :: "uuid \<Rightarrow> art_view option"
  w_heartbeats :: "uuid \<Rightarrow> int option"
  w_pins :: "string \<Rightarrow> uuid \<Rightarrow> int option"
  w_sessions :: "string \<Rightarrow> (uuid \<times> int) option"
  w_conflicts :: "uuid \<times> uuid \<times> conflict_reason \<Rightarrow> int option"
  w_seq :: int
  w_log :: "log_request multiset"
  w_logging :: bool
  w_retain :: bool
  w_policy :: "RetentionPolicy option"
  w_clock :: rat
  w_epoch :: string

definition request_of :: "log_entry \<Rightarrow> log_request" where
  "request_of e = LogRequest (log_artifact e) (log_agent e) (from_state e) (to_state e) (log_trigger e)
     (log_tick e) (log_version e) (log_hash e)"

definition agent_view :: "ArtifactRecord \<Rightarrow> uuid \<Rightarrow> agent_state_row" where
  "agent_view r ag =
     \<lparr>row_state = grant_of r ag, row_transient_state = dict_get (transient_by_agent r) ag,
      row_transient_tick = dict_get (transient_tick_by_agent r) ag,
      row_granted_at_tick = dict_get (granted_at_tick_by_agent r) ag,
      row_last_reclaim_trigger = map_option fst (dict_get (last_reclamation_by_agent r) ag),
      row_last_reclaim_tick = map_option snd (dict_get (last_reclamation_by_agent r) ag),
      row_read_generation = dict_get (read_generation_by_agent r) ag,
      row_last_observed_version = dict_get (last_observed_version_by_agent r) ag\<rparr>"

definition mem_view :: "ArtifactRecord \<Rightarrow> art_view" where
  "mem_view r =
     \<lparr>v_name = art_name (artifact r), v_version = art_version (artifact r), v_generation = owner_generation r,
      v_hash = hash_column (art_hash (artifact r)), v_tokens = art_tokens (artifact r), v_writer = last_writer r,
      v_agents = agent_view r, v_bodies = dict_get (version_history r), v_stamps = dict_get (version_captured_at r)\<rparr>"

definition abs_mem :: "registry \<Rightarrow> registry_view" where
  "abs_mem g =
     \<lparr>w_artifacts = (\<lambda>art. map_option mem_view (dict_get (records g) art)),
      w_heartbeats = dict_get (heartbeat_by_agent g),
      w_pins = (\<lambda>token art. Option.bind (dict_get (session_pins g) token) (\<lambda>pins. dict_get pins art)),
      w_sessions = dict_get (session_meta g), w_conflicts = dict_get (conflict_counts g), w_seq = seq g,
      w_log = mset (map request_of (delivered g)), w_logging = (state_log g \<noteq> None), w_retain = retain_versions g,
      w_policy = retention_policy g, w_clock = wall_clock g, w_epoch = coordinator_epoch g\<rparr>"

definition row_or_blank :: "uuid \<Rightarrow> database \<Rightarrow> uuid \<Rightarrow> agent_state_row" where
  "row_or_blank art db ag = (case agent_row art ag db of None \<Rightarrow> blank_row INVALID | Some row \<Rightarrow> row)"

definition row_view :: "uuid \<Rightarrow> database \<Rightarrow> artifact_row \<Rightarrow> art_view" where
  "row_view art db row =
     \<lparr>v_name = row_name row, v_version = row_version row, v_generation = row_owner_generation row,
      v_hash = row_content_hash row, v_tokens = row_size_tokens row, v_writer = row_last_writer_id row,
      v_agents = row_or_blank art db,
      v_bodies = (\<lambda>v. map_option row_content (dict_get (artifact_versions_table db) (art, v))),
      v_stamps = (\<lambda>v. map_option row_captured_at (dict_get (artifact_versions_table db) (art, v)))\<rparr>"

definition abs_sql :: "sqlite_registry \<Rightarrow> registry_view" where
  "abs_sql s =
     \<lparr>w_artifacts = (\<lambda>art. map_option (row_view art (tables s)) (dict_get (artifacts_table (tables s)) art)),
      w_heartbeats = dict_get (heartbeats_table (tables s)),
      w_pins = (\<lambda>token art. dict_get (session_pins_table (tables s)) (token, art)),
      w_sessions = dict_get (session_meta_table (tables s)),
      w_conflicts = dict_get (conflict_counters_table (tables s)), w_seq = sq_seq s,
      w_log = mset (map request_of (sq_delivered s)), w_logging = (sq_state_log s \<noteq> None),
      w_retain = sq_retain_versions s, w_policy = sq_retention_policy s, w_clock = sq_wall_clock s,
      w_epoch = sq_coordinator_epoch s\<rparr>"

text \<open>The changes of an abstract state that the operations share.\<close>

definition w_set :: "uuid \<Rightarrow> art_view \<Rightarrow> registry_view \<Rightarrow> registry_view" where
  "w_set art v w = w\<lparr>w_artifacts := (w_artifacts w)(art \<mapsto> v)\<rparr>"

definition w_emit :: "log_request \<Rightarrow> registry_view \<Rightarrow> registry_view" where
  "w_emit q w = (if w_logging w then w\<lparr>w_seq := w_seq w + 1, w_log := add_mset q (w_log w)\<rparr> else w)"

definition w_pinned :: "uuid \<Rightarrow> registry_view \<Rightarrow> int set" where
  "w_pinned art w = {v. \<exists>token. w_pins w token art = Some v}"

section \<open>Well-formed implementations\<close>

definition healthy :: "sqlite_registry \<Rightarrow> bool" where
  "healthy s \<longleftrightarrow> \<not> read_only s \<and> (\<forall>db. commit_ok s db) \<and> (\<forall>xs. mset (scan s xs) = mset xs) \<and>
     (case sq_state_log s of None \<Rightarrow> True | Some sink \<Rightarrow> \<forall>e. sink e)"

definition schema_ok :: "database \<Rightarrow> bool" where
  "schema_ok db \<longleftrightarrow>
     dict_wf (artifacts_table db) \<and> dict_wf (agent_states_table db) \<and> dict_wf (artifact_versions_table db) \<and>
     dict_wf (session_pins_table db) \<and>
     (\<forall>art ag. agent_row art ag db \<noteq> None \<longrightarrow> artifact_exists art db) \<and>
     (\<forall>art v. dict_get (artifact_versions_table db) (art, v) \<noteq> None \<longrightarrow> artifact_exists art db)"

definition rec_wf :: "uuid \<Rightarrow> ArtifactRecord \<Rightarrow> bool" where
  "rec_wf art r \<longleftrightarrow> art_id (artifact r) = art \<and> dict_wf (state_by_agent r) \<and> dict_wf (version_captured_at r)"

definition mem_ok :: "registry \<Rightarrow> bool" where
  "mem_ok g \<longleftrightarrow> log_ok g \<and> dict_wf (session_pins g) \<and>
     (\<forall>art r. dict_get (records g) art = Some r \<longrightarrow> rec_wf art r)"

section \<open>Tables\<close>

lemma dict_get_update_row [simp]:
  "dict_get (update_row k f t) = (dict_get t)(k := map_option f (dict_get t k))"
  by (auto simp: update_row_def split: option.splits)

lemma dict_wf_update_row [simp]: "dict_wf t \<Longrightarrow> dict_wf (update_row k f t)"
  by (auto simp: update_row_def split: option.splits)

lemma dict_wf_delete_where [simp]: "dict_wf t \<Longrightarrow> dict_wf (delete_where P t)"
  by (simp add: delete_where_def distinct_map_filter)

lemma dict_get_delete_where:
  assumes "dict_wf t"
  shows "dict_get (delete_where P t) k =
    (case dict_get t k of None \<Rightarrow> None | Some v \<Rightarrow> if P k v then None else Some v)"
  using assms by (induction t) (force simp: delete_where_def split: option.splits dest: map_of_SomeD)+

lemma wp_statement [wp_simps]: "wp (statement f) Q E s = Q () (s\<lparr>tables := f (tables s)\<rparr>)"
  by (simp add: statement_def wp_simps)

lemma wp_query [wp_simps]: "wp (query f) Q E s = Q (f (tables s)) s"
  by (simp add: query_def wp_simps)

lemma wp_require [wp_simps]:
  "wp (require P) Q E s = (if P (tables s) then Q () s else E IntegrityError s)"
  by (simp add: require_def wp_def)

lemma wp_mutator:
  assumes "healthy s"
    and "wp m (\<lambda>a t. commit_ok t = commit_ok s \<and> Q a (t\<lparr>seq_incremented := 0\<rparr>))
      (\<lambda>e t. E e (t\<lparr>tables := tables s, sq_seq := sq_seq t - seq_incremented t, seq_incremented := 0\<rparr>))
      (s\<lparr>seq_incremented := 0\<rparr>)"
  shows "wp (mutator m) Q E s"
  using assms
  by (auto simp: wp_def mutator_def transaction_def guard_writable_def andthen_def healthy_def
      split: prod.splits sum.splits)

end
