(* ===== verification/Sqlite_Effects.thy ===== *)
theory Sqlite_Effects
  imports Sqlite_Views
begin

text \<open>
  What the operations of the two registries do to the abstract state. Each operation has one effect on the view, and
  both implementations have it.
\<close>

section \<open>Changes of one artifact\<close>

definition w_map :: "uuid \<Rightarrow> (art_view \<Rightarrow> art_view) \<Rightarrow> registry_view \<Rightarrow> registry_view" where
  "w_map art F w = w\<lparr>w_artifacts := (w_artifacts w)(art := map_option F (w_artifacts w art))\<rparr>"

definition v_agent :: "uuid \<Rightarrow> (agent_state_row \<Rightarrow> agent_state_row) \<Rightarrow> art_view \<Rightarrow> art_view" where
  "v_agent ag f v = v\<lparr>v_agents := (v_agents v)(ag := f (v_agents v ag))\<rparr>"

lemma w_map_map: "w_map art F (w_map art G w) = w_map art (\<lambda>v. F (G v)) w"
  by (simp add: w_map_def option.map_comp o_def)

lemma w_map_cong:
  assumes "\<And>v. w_artifacts w art = Some v \<Longrightarrow> F v = G v"
  shows "w_map art F w = w_map art G w"
  using assms by (cases "w_artifacts w art") (simp_all add: w_map_def)

lemma w_emit_map: "w_emit q (w_map art F w) = w_map art F (w_emit q w)"
  by (simp add: w_emit_def w_map_def)

lemma w_emit_artifacts [simp]: "w_artifacts (w_emit q w) = w_artifacts w"
  by (simp add: w_emit_def)

section \<open>The tables\<close>

lemma row_view_frame [simp]:
  "row_view art (db\<lparr>artifacts_table := x1\<rparr>) = row_view art db"
  "row_view art (db\<lparr>heartbeats_table := x2\<rparr>) = row_view art db"
  "row_view art (db\<lparr>meta_sequence_number := x3\<rparr>) = row_view art db"
  "row_view art (db\<lparr>session_pins_table := x4\<rparr>) = row_view art db"
  "row_view art (db\<lparr>session_meta_table := x5\<rparr>) = row_view art db"
  "row_view art (db\<lparr>conflict_counters_table := x6\<rparr>) = row_view art db"
  by (simp_all add: fun_eq_iff row_view_def row_or_blank_def agent_row_def)

lemma abs_update_artifact:
  assumes "\<And>row. dict_get (artifacts_table (tables s)) art = Some row \<Longrightarrow>
    row_view art (tables s) (f row) = F (row_view art (tables s) row)"
  shows "abs_sql (s\<lparr>tables := update_artifact art f (tables s)\<rparr>) = w_map art F (abs_sql s)"
  using assms
  by (cases "dict_get (artifacts_table (tables s)) art")
    (simp_all add: abs_sql_def w_map_def update_artifact_def fun_eq_iff)

lemma row_view_agents:
  "row_view i (db\<lparr>agent_states_table := dict_set (art, ag) row (agent_states_table db)\<rparr>) =
     (if i = art then (\<lambda>arow. v_agent ag (\<lambda>_. row) (row_view i db arow)) else row_view i db)"
  by (auto simp: row_view_def v_agent_def row_or_blank_def agent_row_def fun_eq_iff)

lemma abs_insert_agent:
  "abs_sql (s\<lparr>tables := insert_agent art ag row (tables s)\<rparr>) = w_map art (v_agent ag (\<lambda>_. row)) (abs_sql s)"
  by (simp add: abs_sql_def w_map_def insert_agent_def row_view_agents fun_eq_iff option.map_comp o_def)

lemma abs_update_agent:
  assumes "agent_row art ag (tables s) = Some row"
  shows "abs_sql (s\<lparr>tables := update_agent art ag f (tables s)\<rparr>) = w_map art (v_agent ag f) (abs_sql s)"
proof -
  have "update_agent art ag f (tables s) = insert_agent art ag (f row) (tables s)"
    using assms by (simp add: update_agent_def insert_agent_def update_row_def agent_row_def)
  moreover have "v_agents v ag = row" if "w_artifacts (abs_sql s) art = Some v" for v
    using that assms by (auto simp: abs_sql_def row_view_def row_or_blank_def)
  ultimately show ?thesis
    by (auto simp: abs_insert_agent v_agent_def intro!: w_map_cong)
qed

lemma schema_update_artifact: "schema_ok db \<Longrightarrow> schema_ok (update_artifact art f db)"
  by (auto simp: schema_ok_def update_artifact_def agent_row_def artifact_exists_def)

lemma schema_update_agent: "schema_ok db \<Longrightarrow> schema_ok (update_agent art ag f db)"
  by (auto simp: schema_ok_def update_agent_def agent_row_def artifact_exists_def)

lemma schema_insert_agent:
  "schema_ok db \<Longrightarrow> artifact_exists art db \<Longrightarrow> schema_ok (insert_agent art ag row db)"
  by (auto simp: schema_ok_def insert_agent_def agent_row_def artifact_exists_def)

lemma schema_frame [simp]:
  "schema_ok (db\<lparr>heartbeats_table := x2\<rparr>) = schema_ok db"
  "schema_ok (db\<lparr>meta_sequence_number := x3\<rparr>) = schema_ok db"
  "schema_ok (db\<lparr>session_meta_table := x5\<rparr>) = schema_ok db"
  "schema_ok (db\<lparr>conflict_counters_table := x6\<rparr>) = schema_ok db"
  by (simp_all add: schema_ok_def agent_row_def artifact_exists_def)

section \<open>The log\<close>

definition sql_logged :: "log_request \<Rightarrow> sqlite_registry \<Rightarrow> sqlite_registry" where
  "sql_logged q s = snd (sql_emit_state_log q s)"

lemma request_of_entry [simp]:
  "request_of (sql_log_entry_of s q) = q" "request_of (log_entry_of g q) = q"
  by (cases q; simp add: request_of_def sql_log_entry_of_def log_entry_of_def)+

lemma wp_sql_emit:
  assumes "healthy s"
  shows "wp (sql_emit_state_log q) Q E s = Q () (sql_logged q s)"
  using assms by (auto simp: wp_def sql_logged_def sql_emit_state_log_def healthy_def Let_def split: option.splits)

lemma abs_sql_logged: "healthy s \<Longrightarrow> abs_sql (sql_logged q s) = w_emit q (abs_sql s)"
  by (auto simp: abs_sql_def w_emit_def sql_logged_def sql_emit_state_log_def healthy_def Let_def
      split: option.splits)

lemma sql_logged_frame:
  "healthy (sql_logged q s) = healthy s" "commit_ok (sql_logged q s) = commit_ok s"
  "scan (sql_logged q s) = scan s"
  "schema_ok (tables (sql_logged q s)) = schema_ok (tables s)"
  "artifacts_table (tables (sql_logged q s)) = artifacts_table (tables s)"
  "agent_states_table (tables (sql_logged q s)) = agent_states_table (tables s)"
  "sq_wall_clock (sql_logged q s) = sq_wall_clock s"
  "sq_retain_versions (sql_logged q s) = sq_retain_versions s"
  "sq_retention_policy (sql_logged q s) = sq_retention_policy s"
  by (simp_all add: sql_logged_def sql_emit_state_log_def healthy_def Let_def split: option.splits)

definition log_step :: "registry \<Rightarrow> registry \<Rightarrow> bool" where
  "log_step g g' \<longleftrightarrow> (\<exists>n d. g' = g\<lparr>seq := n, delivered := d\<rparr>)"

lemma log_stepI: "log_step g g" "log_step g (g\<lparr>seq := n, delivered := d\<rparr>)"
  unfolding log_step_def
  by (rule exI [where x = "seq g"], rule exI [where x = "delivered g"], simp) blast

lemma log_step_trans: "log_step g g' \<Longrightarrow> log_step g' g'' \<Longrightarrow> log_step g g''"
  unfolding log_step_def by (elim exE) (auto intro!: exI)

lemma log_step_ok: "log_step g g' \<Longrightarrow> log_ok g' = log_ok g"
  by (auto simp: log_step_def log_ok_def)

lemma emit_state_log_reliable:
  assumes "log_ok g"
  shows "\<exists>k g'. emit_state_log q g = (Inr k, g') \<and> abs_mem g' = w_emit q (abs_mem g) \<and> log_step g g'"
proof (cases "state_log g")
  case None
  then show ?thesis by (simp add: emit_state_log_def abs_mem_def w_emit_def log_stepI)
next
  case (Some sink)
  with assms show ?thesis
    by (simp add: emit_state_log_def log_ok_def abs_mem_def w_emit_def Let_def log_stepI)
qed

lemma emit_batch_accepted:
  assumes "log_ok g"
  shows "\<exists>k g'. emit_batch qs n g = (Inr k, g') \<and> abs_mem g' = fold w_emit qs (abs_mem g) \<and> log_step g g'"
  using assms
proof (induction qs arbitrary: n g)
  case Nil
  then show ?case by (simp add: log_stepI)
next
  case (Cons q qs)
  from emit_state_log_reliable [OF Cons.prems] obtain k g' where
    one: "emit_state_log q g = (Inr k, g')" "abs_mem g' = w_emit q (abs_mem g)" "log_step g g'"
    by blast
  from Cons.prems log_step_ok [OF one(3)] have "log_ok g'" by simp
  from Cons.IH [OF this, of "n + k"] one show ?case by (auto intro: log_step_trans)
qed

section \<open>Contracts\<close>

text \<open>
  \<open>meets ok view canon m spec s\<close>: run from \<open>s\<close>, the method \<open>m\<close> keeps \<open>ok\<close>, and its outcome and its effect on the
  abstract state are those of \<open>spec\<close>. \<open>canon\<close> forgets of a result what the contract leaves open.
\<close>

definition meets ::
  "('s \<Rightarrow> bool) \<Rightarrow> ('s \<Rightarrow> registry_view) \<Rightarrow> ('a \<Rightarrow> 'b) \<Rightarrow> ('s, py_error, 'a) py
   \<Rightarrow> (registry_view, py_error, 'b) py \<Rightarrow> 's \<Rightarrow> bool" where
  "meets ok view canon m spec s \<longleftrightarrow>
     wp m (\<lambda>a t. ok t \<and> spec (view s) = (Inr (canon a), view t)) (\<lambda>e t. ok t \<and> spec (view s) = (Inl e, view t)) s"

definition sql_ok :: "sqlite_registry \<Rightarrow> bool" where
  "sql_ok s \<longleftrightarrow> healthy s \<and> schema_ok (tables s)"

abbreviation mem_meets :: "('a \<Rightarrow> 'b) \<Rightarrow> 'a rop \<Rightarrow> (registry_view, py_error, 'b) py \<Rightarrow> registry \<Rightarrow> bool" where
  "mem_meets \<equiv> meets mem_ok abs_mem"

abbreviation sql_meets :: "('a \<Rightarrow> 'b) \<Rightarrow> 'a qop \<Rightarrow> (registry_view, py_error, 'b) py \<Rightarrow> sqlite_registry \<Rightarrow> bool" where
  "sql_meets \<equiv> meets sql_ok abs_sql"

lemma healthy_frame [simp]:
  "healthy (s\<lparr>tables := x1\<rparr>) = healthy s" "healthy (s\<lparr>seq_incremented := x2\<rparr>) = healthy s"
  "healthy (s\<lparr>sq_seq := x3\<rparr>) = healthy s"
  by (simp_all add: healthy_def)

lemma abs_sql_frame [simp]: "abs_sql (s\<lparr>seq_incremented := x2\<rparr>) = abs_sql s"
  by (simp add: abs_sql_def)

lemma abs_artifact_sql [simp]:
  "w_artifacts (abs_sql s) art = map_option (row_view art (tables s)) (dict_get (artifacts_table (tables s)) art)"
  by (simp add: abs_sql_def)

lemma abs_artifact_mem [simp]:
  "w_artifacts (abs_mem g) art = map_option mem_view (dict_get (records g) art)"
  by (simp add: abs_mem_def)

lemma sql_meetsI:
  assumes "sql_ok s"
    and "wp m (\<lambda>a t. commit_ok t = commit_ok s \<and> sql_ok t \<and> spec (abs_sql s) = (Inr (canon a), abs_sql t))
      (\<lambda>e t. t = s\<lparr>seq_incremented := 0\<rparr> \<and> spec (abs_sql s) = (Inl e, abs_sql s)) (s\<lparr>seq_incremented := 0\<rparr>)"
  shows "sql_meets canon (mutator m) spec s"
  unfolding meets_def
proof (rule wp_mutator)
  show "healthy s" using assms(1) by (simp add: sql_ok_def)
  show "wp m (\<lambda>a t. commit_ok t = commit_ok s \<and>
      (sql_ok (t\<lparr>seq_incremented := 0\<rparr>) \<and> spec (abs_sql s) = (Inr (canon a), abs_sql (t\<lparr>seq_incremented := 0\<rparr>))))
    (\<lambda>e t. sql_ok (t\<lparr>tables := tables s, sq_seq := sq_seq t - seq_incremented t, seq_incremented := 0\<rparr>) \<and>
      spec (abs_sql s) = (Inl e, abs_sql (t\<lparr>tables := tables s, sq_seq := sq_seq t - seq_incremented t, seq_incremented := 0\<rparr>)))
    (s\<lparr>seq_incremented := 0\<rparr>)"
    using assms(2)
  proof (rule wp_mono, goal_cases)
    case (1 a t)
    then show ?case by (simp add: sql_ok_def)
  next
    case (2 e t)
    with assms(1) show ?case by (simp add: sql_ok_def abs_sql_def)
  qed
qed

section \<open>A state change\<close>

definition v_grant :: "uuid \<Rightarrow> MESIState \<Rightarrow> string \<Rightarrow> int \<Rightarrow> art_view \<Rightarrow> art_view" where
  "v_grant ag st trig tick v =
     (let row = v_agents v ag;
          new_in_me = st \<in> M_OR_E_STATES;
          prev_in_me = row_state row \<in> M_OR_E_STATES;
          acquire = (new_in_me \<and> \<not> prev_in_me);
          gen = (if prev_in_me \<and> \<not> new_in_me \<and> trig \<in> EPOCH_BUMP_TRIGGERS then v_generation v + 1 else v_generation v)
      in v\<lparr>v_generation := gen,
           v_agents := (v_agents v)(ag := row\<lparr>row_state := st,
             row_granted_at_tick := (if acquire then Some tick else if prev_in_me \<and> \<not> new_in_me then None
                                     else row_granted_at_tick row),
             row_last_reclaim_trigger := (if acquire then None else row_last_reclaim_trigger row),
             row_last_reclaim_tick := (if acquire then None else row_last_reclaim_tick row),
             row_read_generation := (if acquire \<or> trig \<in> CLAIM_CAPTURE_TRIGGERS \<and> st \<noteq> INVALID \<and> \<not> prev_in_me
                                     then Some gen else row_read_generation row),
             row_last_observed_version := (if st \<noteq> INVALID then Some (v_version v) else row_last_observed_version row)\<rparr>)\<rparr>)"

definition spec_set_agent_state ::
  "uuid \<Rightarrow> uuid \<Rightarrow> MESIState \<Rightarrow> string \<Rightarrow> int \<Rightarrow> string option \<Rightarrow> (registry_view, py_error, unit) py" where
  "spec_set_agent_state art ag st trig tick chash =
     (\<lambda>w. case w_artifacts w art of None \<Rightarrow> (Inl KeyError, w)
          | Some v \<Rightarrow> (Inr (), w_emit (LogRequest art ag (row_state (v_agents v ag)) st trig tick (v_version v) chash)
                                (w_map art (v_grant ag st trig tick) w)))"

lemma mem_view_fields [simp]:
  "v_version (mem_view r) = art_version (artifact r)" "v_agents (mem_view r) = agent_view r"
  "v_generation (mem_view r) = owner_generation r" "v_tokens (mem_view r) = art_tokens (artifact r)"
  "v_name (mem_view r) = art_name (artifact r)" "row_state (agent_view r ag) = grant_of r ag"
  "row_read_generation (agent_view r ag) = dict_get (read_generation_by_agent r) ag"
  by (simp_all add: mem_view_def agent_view_def)

lemma row_view_fields [simp]:
  "v_version (row_view art db row) = row_version row" "v_agents (row_view art db row) = row_or_blank art db"
  "v_generation (row_view art db row) = row_owner_generation row" "v_tokens (row_view art db row) = row_size_tokens row"
  "v_name (row_view art db row) = row_name row"
  by (simp_all add: row_view_def)

lemma mem_view_apply_agent_state:
  "mem_view (apply_agent_state ag st trig tick r) = v_grant ag st trig tick (mem_view r)"
  by (cases "st \<in> M_OR_E_STATES"; cases "grant_of r ag \<in> M_OR_E_STATES"; cases "st = INVALID")
    (simp_all add: mem_view_def v_grant_def agent_view_def apply_agent_state_fields Let_def fun_eq_iff del: M_OR_E_iff)

lemma mem_ok_put:
  assumes "mem_ok g" and "rec_wf art r"
  shows "mem_ok (put_record art r g)"
  using assms by (auto simp: mem_ok_def log_ok_def)

lemma abs_mem_put: "abs_mem (put_record art r g) = w_set art (mem_view r) (abs_mem g)"
  by (auto simp: abs_mem_def w_set_def put_record_def fun_eq_iff)

lemma mem_ok_log_step: "log_step g g' \<Longrightarrow> mem_ok g' = mem_ok g"
  by (auto simp: log_step_def mem_ok_def log_ok_def)

lemma w_set_map: "w_artifacts w art = Some v \<Longrightarrow> w_set art (F v) w = w_map art F w"
  by (simp add: w_set_def w_map_def)

lemma mem_set_agent_state:
  assumes ok: "mem_ok g"
  shows "mem_meets (\<lambda>u. u) (set_agent_state art ag st trig tick chash) (spec_set_agent_state art ag st trig tick chash) g"
proof (cases "dict_get (records g) art")
  case None
  with ok show ?thesis by (simp add: meets_def set_agent_state_def spec_set_agent_state_def wp_simps)
next
  case (Some r)
  let ?r = "apply_agent_state ag st trig tick r"
  let ?q = "LogRequest art ag (grant_of r ag) st trig tick (art_version (artifact r)) chash"
  have ok': "mem_ok (put_record art ?r g)"
    using ok Some by (intro mem_ok_put) (auto simp: mem_ok_def rec_wf_def)
  then have "log_ok (put_record art ?r g)" by (simp add: mem_ok_def)
  from emit_state_log_reliable [OF this, of ?q] obtain k g' where
    emit: "emit_state_log ?q (put_record art ?r g) = (Inr k, g')"
      "abs_mem g' = w_emit ?q (abs_mem (put_record art ?r g))" "log_step (put_record art ?r g) g'"
    by blast
  have "set_agent_state art ag st trig tick chash g = (Inr (), g')"
    using Some emit(1) by (simp add: set_agent_state_def with_record_def py_defs)
  moreover have "mem_ok g'" using ok' mem_ok_log_step [OF emit(3)] by simp
  moreover have "spec_set_agent_state art ag st trig tick chash (abs_mem g) = (Inr (), abs_mem g')"
    using Some
    by (simp add: spec_set_agent_state_def emit(2) abs_mem_put mem_view_apply_agent_state
        w_set_map [where v = "mem_view r"])
  ultimately show ?thesis by (simp add: meets_def wp_def)
qed

definition upsert_agent :: "uuid \<Rightarrow> uuid \<Rightarrow> (agent_state_row \<Rightarrow> agent_state_row) \<Rightarrow> database \<Rightarrow> database" where
  "upsert_agent art ag f db = insert_agent art ag (f (row_or_blank art db ag)) db"

lemma upsert_agent_cases:
  "agent_row art ag db = Some row \<Longrightarrow> update_agent art ag f db = upsert_agent art ag f db"
  "agent_row art ag db = None \<Longrightarrow> insert_agent art ag (f (blank_row INVALID)) db = upsert_agent art ag f db"
  by (simp_all add: upsert_agent_def update_agent_def insert_agent_def update_row_def agent_row_def row_or_blank_def)

lemma abs_upsert_agent:
  "abs_sql (s\<lparr>tables := upsert_agent art ag f (tables s)\<rparr>) = w_map art (v_agent ag f) (abs_sql s)"
  unfolding upsert_agent_def abs_insert_agent
  by (rule w_map_cong) (auto simp: v_agent_def)

lemma schema_upsert_agent: "schema_ok db \<Longrightarrow> artifact_exists art db \<Longrightarrow> schema_ok (upsert_agent art ag f db)"
  by (simp add: upsert_agent_def schema_insert_agent)

lemma upsert_agent_row: "agent_row art ag (upsert_agent art ag f db) = Some (f (row_or_blank art db ag))"
  by (simp add: upsert_agent_def insert_agent_def agent_row_def)

lemma agent_table_frame [simp]:
  "artifacts_table (upsert_agent art ag f db) = artifacts_table db"
  "agent_row i a (update_artifact art h db) = agent_row i a db"
  by (simp_all add: upsert_agent_def insert_agent_def update_artifact_def agent_row_def)

lemma wp_when [wp_simps]:
  "wp (if c then statement f else ret ()) Q E s = Q () (s\<lparr>tables := (if c then f (tables s) else tables s)\<rparr>)"
  by (simp add: wp_simps)

text \<open>The statements of \<open>set_agent_state\<close> before the log entry, as changes of the tables.\<close>

definition grant_tables :: "uuid \<Rightarrow> uuid \<Rightarrow> MESIState \<Rightarrow> string \<Rightarrow> int \<Rightarrow> artifact_row \<Rightarrow> database \<Rightarrow> database" where
  "grant_tables art ag st trig tick arow db =
     (let row = row_or_blank art db ag;
          new_in_me = st \<in> M_OR_E_STATES;
          prev_in_me = row_state row \<in> M_OR_E_STATES;
          acquire = (new_in_me \<and> \<not> prev_in_me);
          db1 = (if prev_in_me \<and> \<not> new_in_me \<and> trig \<in> EPOCH_BUMP_TRIGGERS
                 then update_artifact art (\<lambda>r. r\<lparr>row_owner_generation := row_owner_generation r + 1\<rparr>) db else db);
          db2 = upsert_agent art ag (\<lambda>r. r\<lparr>row_state := st,
                  row_granted_at_tick := (if acquire then Some tick else if prev_in_me \<and> \<not> new_in_me then None
                                          else row_granted_at_tick row),
                  row_last_reclaim_trigger := (if acquire then None else row_last_reclaim_trigger r),
                  row_last_reclaim_tick := (if acquire then None else row_last_reclaim_tick r),
                  row_last_observed_version := (if st \<noteq> INVALID then Some (row_version arow)
                                                else row_last_observed_version r)\<rparr>) db1
      in if acquire \<or> (trig \<in> CLAIM_CAPTURE_TRIGGERS \<and> st \<noteq> INVALID \<and> \<not> prev_in_me)
         then upsert_agent art ag (\<lambda>r. r\<lparr>row_read_generation :=
                map_option row_owner_generation (dict_get (artifacts_table db2) art)\<rparr>) db2
         else db2)"

lemma wp_sql_set_agent_state:
  assumes arow: "dict_get (artifacts_table (tables s)) art = Some arow" and h: "healthy s"
    and post: "Q () (sql_logged (LogRequest art ag (row_state (row_or_blank art (tables s) ag)) st trig tick (row_version arow) chash)
       (s\<lparr>seq_incremented := 0, tables := grant_tables art ag st trig tick arow (tables s)\<rparr>)\<lparr>seq_incremented := 0\<rparr>)"
  shows "wp (sql_set_agent_state art ag st trig tick chash) Q E s"
proof -
  note rows = upsert_agent_def insert_agent_def update_agent_def update_row_def row_or_blank_def agent_row_def blank_row_def
    grant_tables_def update_artifact_def
  note stmts = wp_simps Let_def wp_sql_emit sql_logged_frame h arow
  show ?thesis
    unfolding sql_set_agent_state_def
  proof (rule wp_mutator [OF h], cases "agent_row art ag (tables s)", goal_cases)
    case 1
    with post show ?case
      by (cases st; cases "trig \<in> CLAIM_CAPTURE_TRIGGERS") (simp_all add: stmts rows)
  next
    case (2 row)
    with post show ?case
      by (cases st; cases "row_state row"; cases "trig \<in> CLAIM_CAPTURE_TRIGGERS"; cases "trig \<in> EPOCH_BUMP_TRIGGERS")
        (simp_all add: stmts rows)
  qed
qed

lemma abs_tables_upsert:
  assumes "abs_sql (s\<lparr>tables := db\<rparr>) = w"
  shows "abs_sql (s\<lparr>tables := upsert_agent art ag f db\<rparr>) = w_map art (v_agent ag f) w"
  using abs_upsert_agent [where s = "s\<lparr>tables := db\<rparr>" and art = art and ag = ag and f = f] assms by simp

lemma abs_tables_artifact:
  assumes "abs_sql (s\<lparr>tables := db\<rparr>) = w"
    and "\<And>row. dict_get (artifacts_table db) art = Some row \<Longrightarrow> row_view art db (f row) = F (row_view art db row)"
  shows "abs_sql (s\<lparr>tables := update_artifact art f db\<rparr>) = w_map art F w"
  using abs_update_artifact [where s = "s\<lparr>tables := db\<rparr>" and art = art and f = f and F = F] assms by simp

lemma w_map_id: "w_map art (\<lambda>v. v) w = w"
  by (simp add: w_map_def option.map_ident fun_upd_idem)

lemma abs_grant_tables:
  assumes arow: "dict_get (artifacts_table (tables s)) art = Some arow"
  shows "abs_sql (s\<lparr>tables := grant_tables art ag st trig tick arow (tables s)\<rparr>) =
    w_map art (v_grant ag st trig tick) (abs_sql s)"
proof -
  let ?row = "row_or_blank art (tables s) ag"
  let ?prev = "row_state ?row \<in> M_OR_E_STATES" and ?new = "st \<in> M_OR_E_STATES"
  define b where "b \<longleftrightarrow> ?prev \<and> \<not> ?new \<and> trig \<in> EPOCH_BUMP_TRIGGERS"
  define c where "c \<longleftrightarrow> ?new \<and> \<not> ?prev \<or> (trig \<in> CLAIM_CAPTURE_TRIGGERS \<and> st \<noteq> INVALID \<and> \<not> ?prev)"
  let ?db1 = "if b then update_artifact art (\<lambda>r. r\<lparr>row_owner_generation := row_owner_generation r + 1\<rparr>) (tables s) else tables s"
  have up: "abs_sql (s\<lparr>tables := update_artifact art (\<lambda>r. r\<lparr>row_owner_generation := row_owner_generation r + 1\<rparr>) (tables s)\<rparr>)
      = w_map art (\<lambda>v. v\<lparr>v_generation := v_generation v + 1\<rparr>) (abs_sql s)"
    by (rule abs_tables_artifact) (simp_all add: row_view_def)
  have one: "abs_sql (s\<lparr>tables := ?db1\<rparr>) = w_map art (\<lambda>v. if b then v\<lparr>v_generation := v_generation v + 1\<rparr> else v) (abs_sql s)"
    using up by (cases b) (simp_all add: w_map_id)
  have gen: "dict_get (artifacts_table ?db1) art =
      Some (if b then arow\<lparr>row_owner_generation := row_owner_generation arow + 1\<rparr> else arow)"
    using arow by (simp add: update_artifact_def)
  let ?f = "\<lambda>r. r\<lparr>row_state := st,
      row_granted_at_tick := (if ?new \<and> \<not> ?prev then Some tick else if ?prev \<and> \<not> ?new then None
                              else row_granted_at_tick ?row),
      row_last_reclaim_trigger := (if ?new \<and> \<not> ?prev then None else row_last_reclaim_trigger r),
      row_last_reclaim_tick := (if ?new \<and> \<not> ?prev then None else row_last_reclaim_tick r),
      row_last_observed_version := (if st \<noteq> INVALID then Some (row_version arow) else row_last_observed_version r)\<rparr>"
  let ?h = "\<lambda>r. r\<lparr>row_read_generation := Some (if b then row_owner_generation arow + 1 else row_owner_generation arow)\<rparr>"
  have "abs_sql (s\<lparr>tables := grant_tables art ag st trig tick arow (tables s)\<rparr>) =
      w_map art (\<lambda>v. if c then v_agent ag ?h (v_agent ag ?f (if b then v\<lparr>v_generation := v_generation v + 1\<rparr> else v))
                    else v_agent ag ?f (if b then v\<lparr>v_generation := v_generation v + 1\<rparr> else v)) (abs_sql s)"
    unfolding grant_tables_def Let_def agent_table_frame b_def [symmetric] c_def [symmetric] gen
    by (cases c; cases b) (use one in \<open>simp_all add: abs_tables_upsert w_map_map del: M_OR_E_iff\<close>)
  also have "\<dots> = w_map art (v_grant ag st trig tick) (abs_sql s)"
  proof (rule w_map_cong, goal_cases)
    case (1 v)
    with arow have v: "v = row_view art (tables s) arow" by simp
    show ?case
      unfolding v by (cases st; cases "row_state ?row"; cases ?row)
        (simp_all add: row_view_def v_agent_def v_grant_def Let_def b_def c_def)
  qed
  finally show ?thesis .
qed

lemma schema_grant_tables:
  assumes "schema_ok db" and "dict_get (artifacts_table db) art = Some arow"
  shows "schema_ok (grant_tables art ag st trig tick arow db)"
proof -
  have "artifact_exists art (update_artifact art f db)" "artifact_exists art db" for f
    using assms(2) by (simp_all add: artifact_exists_def update_artifact_def)
  moreover have "artifact_exists art (upsert_agent art ag f db') = artifact_exists art db'" for f db'
    by (simp add: artifact_exists_def)
  ultimately show ?thesis
    using assms(1) by (simp add: grant_tables_def Let_def schema_upsert_agent schema_update_artifact del: M_OR_E_iff)
qed

lemma sql_set_agent_state_meets:
  assumes ok: "sql_ok s"
  shows "sql_meets (\<lambda>u. u) (sql_set_agent_state art ag st trig tick chash) (spec_set_agent_state art ag st trig tick chash) s"
proof (cases "dict_get (artifacts_table (tables s)) art")
  case None
  have "sql_meets (\<lambda>u. u) (sql_set_agent_state art ag st trig tick chash) (spec_set_agent_state art ag st trig tick chash) s"
    unfolding sql_set_agent_state_def
    by (rule sql_meetsI [OF ok]) (simp add: None wp_simps Let_def spec_set_agent_state_def)
  then show ?thesis .
next
  case (Some arow)
  have h: "healthy s" and sch: "schema_ok (tables s)" using ok by (simp_all add: sql_ok_def)
  show ?thesis
    unfolding meets_def
    by (rule wp_sql_set_agent_state [OF Some h])
      (simp add: sql_ok_def sql_logged_frame h sch schema_grant_tables [OF sch Some] abs_sql_logged
        spec_set_agent_state_def Some abs_grant_tables [of "s\<lparr>seq_incremented := 0\<rparr>", simplified, OF Some])
qed

end
