(* ===== verification/Sqlite_Contract.thy ===== *)
theory Sqlite_Contract
  imports Sqlite_Effects
begin

text \<open>
  The contract of the operations on artifacts, agents and sessions, met by the in-memory registry and by the
  tables.
\<close>

section \<open>Retained versions\<close>

lemma collectible_cong:
  assumes "set d = set d'"
  shows "collectible_versions (Stamped d) cur p now ex = collectible_versions (Stamped d') cur p now ex"
proof -
  have keys: "set (dict_keys d) = set (dict_keys d')" using assms by simp
  then have "sort (remdups (dict_keys d)) = sort (remdups (dict_keys d'))"
    by (intro sorted_distinct_set_unique) auto
  then have "kept_by_k (dict_keys d) k = kept_by_k (dict_keys d') k" for k
    by (simp add: kept_by_k_def)
  with keys assms show ?thesis by (simp add: collectible_versions_def Let_def split: option.splits)
qed

lemma dict_set_eqI:
  assumes "dict_wf d" and "dict_wf d'" and "dict_get d = dict_get d'"
  shows "set d = set d'"
proof -
  have "(k, v) \<in> set d \<longleftrightarrow> (k, v) \<in> set d'" for k v
    unfolding dict_in_set_get [OF assms(1)] dict_in_set_get [OF assms(2)] assms(3) ..
  then show ?thesis by auto
qed

text \<open>The versions to drop, read off the capture times as a map.\<close>

definition v_dropped :: "(int \<Rightarrow> rat option) \<Rightarrow> int \<Rightarrow> RetentionPolicy \<Rightarrow> rat \<Rightarrow> int set \<Rightarrow> int set" where
  "v_dropped stamps cur p now ex =
     \<Union> {collectible_versions (Stamped d) cur p now ex | d. dict_wf d \<and> dict_get d = stamps}"

lemma v_dropped_eq:
  assumes "dict_wf d"
  shows "v_dropped (dict_get d) cur p now ex = collectible_versions (Stamped d) cur p now ex"
proof -
  have "collectible_versions (Stamped d') cur p now ex = collectible_versions (Stamped d) cur p now ex"
    if "dict_wf d'" "dict_get d' = dict_get d" for d'
    by (rule collectible_cong [OF dict_set_eqI [OF that(1) assms that(2)]])
  with assms show ?thesis unfolding v_dropped_def by blast
qed

definition v_capture :: "registry_view \<Rightarrow> uuid \<Rightarrow> int \<Rightarrow> body \<Rightarrow> art_view \<Rightarrow> art_view" where
  "v_capture w art ver b v =
     (let bodies = (v_bodies v)(ver \<mapsto> b); stamps = (v_stamps v)(ver \<mapsto> w_clock w);
          D = (case w_policy w of None \<Rightarrow> {}
               | Some p \<Rightarrow> v_dropped stamps ver p (w_clock w) (w_pinned art w))
      in v\<lparr>v_bodies := (\<lambda>u. if u \<in> D then None else bodies u), v_stamps := (\<lambda>u. if u \<in> D then None else stamps u)\<rparr>)"

lemma live_pins_mem:
  assumes "dict_wf (session_pins g)"
  shows "live_pins_for_artifact art g = w_pinned art (abs_mem g)"
proof -
  have "v \<in> live_pins_for_artifact art g \<longleftrightarrow> (\<exists>token pins. (token, pins) \<in> set (session_pins g) \<and> dict_get pins art = Some v)" for v
    by (force simp: live_pins_for_artifact_def List.map_filter_def)
  then show ?thesis
    unfolding dict_in_set_get [OF assms] by (auto simp: w_pinned_def abs_mem_def bind_eq_Some_conv)
qed

lemma live_pins_sql:
  assumes "dict_wf (session_pins_table (tables s))"
  shows "live_pins_for_artifact_sql art (tables s) = w_pinned art (abs_sql s)"
proof -
  have "v \<in> live_pins_for_artifact_sql art (tables s) \<longleftrightarrow> (\<exists>token. ((token, art), v) \<in> set (session_pins_table (tables s)))" for v
    by (force simp: live_pins_for_artifact_sql_def)
  then show ?thesis
    unfolding dict_in_set_get [OF assms] by (auto simp: w_pinned_def abs_sql_def)
qed

lemma mem_view_capture:
  assumes "mem_ok g" and "rec_wf art r"
  shows "mem_view (capture_version g ver b r) = v_capture (abs_mem g) art ver b (mem_view r)"
    and "rec_wf art (capture_version g ver b r)"
proof -
  from assms have wf: "dict_wf (version_captured_at r)" "art_id (artifact r) = art" "dict_wf (session_pins g)"
    by (simp_all add: rec_wf_def mem_ok_def)
  let ?d = "dict_set ver (wall_clock g) (version_captured_at r)"
  have drop: "collectible_versions (Stamped ?d) ver p (wall_clock g) (live_pins_for_artifact art g) =
      v_dropped ((dict_get (version_captured_at r))(ver \<mapsto> wall_clock g)) ver p (wall_clock g) (w_pinned art (abs_mem g))" for p
    using v_dropped_eq [OF distinct_update [OF wf(1)], of ver "wall_clock g" ver p "wall_clock g" "w_pinned art (abs_mem g)"]
    by (simp only: live_pins_mem [OF wf(3)] dict_get_set)
  have fields: "w_clock (abs_mem g) = wall_clock g" "w_policy (abs_mem g) = retention_policy g"
    by (simp_all add: abs_mem_def)
  show "mem_view (capture_version g ver b r) = v_capture (abs_mem g) art ver b (mem_view r)"
    by (cases "retention_policy g")
      (simp_all add: capture_version_def v_capture_def fields Let_def drop wf(2) mem_view_def agent_view_def fun_eq_iff)
  show "rec_wf art (capture_version g ver b r)"
    using assms(2) by (cases "retention_policy g") (simp_all add: capture_version_def rec_wf_def Let_def)
qed

lemma dict_get_slice:
  "dict_get (map (\<lambda>((i, v), row). (v, f row)) (filter (\<lambda>((i, v), row). i = art) t)) v = map_option f (dict_get t (art, v))"
  by (induction t) auto

lemma dict_wf_slice:
  assumes "dict_wf t"
  shows "dict_wf (map (\<lambda>((i, v), row). (v, f row)) (filter (\<lambda>((i, v), row). i = art) t))"
  using assms by (induction t) (force simp: image_iff)+

definition capture_tables :: "sqlite_registry \<Rightarrow> uuid \<Rightarrow> int \<Rightarrow> body \<Rightarrow> database" where
  "capture_tables s art ver b =
     (let db = (tables s)\<lparr>artifact_versions_table :=
            dict_set (art, ver) \<lparr>row_content = b, row_captured_at = sq_wall_clock s\<rparr> (artifact_versions_table (tables s))\<rparr>
      in case sq_retention_policy s of None \<Rightarrow> db
         | Some p \<Rightarrow> db\<lparr>artifact_versions_table :=
             delete_where (\<lambda>(i, u) row. i = art \<and> u \<in>
               collectible_versions (Stamped (version_stamps art db)) ver p (sq_wall_clock s) (live_pins_for_artifact_sql art db))
               (artifact_versions_table db)\<rparr>)"

lemma wp_capture_version_sql:
  assumes "artifact_exists art (tables s)"
  shows "wp (capture_version_sql art ver b) Q E s = Q () (s\<lparr>tables := capture_tables s art ver b\<rparr>)"
  using assms by (cases "sq_retention_policy s") (simp_all add: capture_version_sql_def capture_tables_def wp_simps Let_def)

lemma capture_tables_frame [simp]:
  "artifacts_table (capture_tables s art ver b) = artifacts_table (tables s)"
  "agent_states_table (capture_tables s art ver b) = agent_states_table (tables s)"
  "heartbeats_table (capture_tables s art ver b) = heartbeats_table (tables s)"
  "session_pins_table (capture_tables s art ver b) = session_pins_table (tables s)"
  "session_meta_table (capture_tables s art ver b) = session_meta_table (tables s)"
  "conflict_counters_table (capture_tables s art ver b) = conflict_counters_table (tables s)"
  by (simp_all add: capture_tables_def Let_def split: option.splits)

lemma captured_versions:
  fixes art :: uuid and ver :: int
  assumes "schema_ok (tables s)"
  defines "stamps \<equiv> (\<lambda>u. map_option row_captured_at (dict_get (artifact_versions_table (tables s)) (art, u)))(ver \<mapsto> sq_wall_clock s)"
  defines "D \<equiv> (case sq_retention_policy s of None \<Rightarrow> {}
     | Some p \<Rightarrow> v_dropped stamps ver p (sq_wall_clock s) (w_pinned art (abs_sql s)))"
  shows "dict_get (artifact_versions_table (capture_tables s art ver b)) (i, u) =
    (if i = art \<and> u \<in> D then None
     else if i = art \<and> u = ver then Some \<lparr>row_content = b, row_captured_at = sq_wall_clock s\<rparr>
     else dict_get (artifact_versions_table (tables s)) (i, u))"
    and "dict_wf (artifact_versions_table (capture_tables s art ver b))"
proof -
  let ?t = "dict_set (art, ver) \<lparr>row_content = b, row_captured_at = sq_wall_clock s\<rparr> (artifact_versions_table (tables s))"
  let ?db = "(tables s)\<lparr>artifact_versions_table := ?t\<rparr>"
  have wf: "dict_wf ?t" "dict_wf (session_pins_table (tables s))" using assms(1) by (simp_all add: schema_ok_def)
  have "dict_get (version_stamps art ?db) = stamps"
    by (simp add: version_stamps_def stamps_def dict_get_slice fun_eq_iff)
  moreover have "dict_wf (version_stamps art ?db)"
    using dict_wf_slice [OF wf(1)] by (simp add: version_stamps_def)
  moreover have "live_pins_for_artifact_sql art ?db = w_pinned art (abs_sql s)"
    using live_pins_sql [OF wf(2)] by (simp add: live_pins_for_artifact_sql_def)
  ultimately have drop: "collectible_versions (Stamped (version_stamps art ?db)) ver p (sq_wall_clock s)
      (live_pins_for_artifact_sql art ?db) = v_dropped stamps ver p (sq_wall_clock s) (w_pinned art (abs_sql s))" for p
    using v_dropped_eq [of "version_stamps art ?db"] by simp
  show "dict_get (artifact_versions_table (capture_tables s art ver b)) (i, u) =
    (if i = art \<and> u \<in> D then None
     else if i = art \<and> u = ver then Some \<lparr>row_content = b, row_captured_at = sq_wall_clock s\<rparr>
     else dict_get (artifact_versions_table (tables s)) (i, u))"
    using wf(1) by (auto simp: capture_tables_def Let_def D_def drop dict_get_delete_where split: option.splits)
  show "dict_wf (artifact_versions_table (capture_tables s art ver b))"
    using wf(1) by (simp add: capture_tables_def Let_def split: option.splits)
qed

lemma abs_tables_map:
  assumes "\<And>i row. row_view i db row = (if i = art then F (row_view i (tables s) row) else row_view i (tables s) row)"
    and "artifacts_table db = artifacts_table (tables s)" "heartbeats_table db = heartbeats_table (tables s)"
      "session_pins_table db = session_pins_table (tables s)" "session_meta_table db = session_meta_table (tables s)"
      "conflict_counters_table db = conflict_counters_table (tables s)"
  shows "abs_sql (s\<lparr>tables := db\<rparr>) = w_map art F (abs_sql s)"
proof -
  have "row_view i db = (if i = art then (\<lambda>row. F (row_view i (tables s) row)) else row_view i (tables s))" for i
    using assms(1) by (auto simp: fun_eq_iff)
  with assms(2-) show ?thesis by (auto simp: abs_sql_def w_map_def option.map_comp o_def)
qed

lemma abs_capture_tables:
  assumes "schema_ok (tables s)"
  shows "abs_sql (s\<lparr>tables := capture_tables s art ver b\<rparr>) = w_map art (v_capture (abs_sql s) art ver b) (abs_sql s)"
proof (rule abs_tables_map)
  fix i row
  show "row_view i (capture_tables s art ver b) row =
      (if i = art then v_capture (abs_sql s) art ver b (row_view i (tables s) row) else row_view i (tables s) row)"
    by (auto simp: row_view_def row_or_blank_def agent_row_def v_capture_def captured_versions(1) [OF assms] Let_def
        fun_eq_iff abs_sql_def split: option.splits)
qed simp_all

lemma schema_capture_tables:
  assumes "schema_ok (tables s)" and "artifact_exists art (tables s)"
  shows "schema_ok (capture_tables s art ver b)"
proof -
  have "i = art \<or> dict_get (artifact_versions_table (tables s)) (i, u) \<noteq> None"
    if "dict_get (artifact_versions_table (capture_tables s art ver b)) (i, u) \<noteq> None" for i u
    using that unfolding captured_versions(1) [OF assms(1)] by (metis (lifting))
  then have "artifact_exists i (tables s)"
    if "dict_get (artifact_versions_table (capture_tables s art ver b)) (i, u) \<noteq> None" for i u
    using that assms unfolding schema_ok_def by blast
  with assms(1) captured_versions(2) [OF assms(1)] show ?thesis
    unfolding schema_ok_def agent_row_def artifact_exists_def capture_tables_frame by blast
qed

section \<open>Agents\<close>

definition spec_row :: "uuid \<Rightarrow> uuid \<Rightarrow> (agent_state_row \<Rightarrow> agent_state_row) \<Rightarrow> (registry_view, py_error, unit) py" where
  "spec_row art ag f = (\<lambda>w. (Inr (), w_map art (v_agent ag f) w))"

definition transient_row :: "TransientState option \<Rightarrow> int option \<Rightarrow> agent_state_row \<Rightarrow> agent_state_row" where
  "transient_row ts entered row = row\<lparr>row_transient_state := ts, row_transient_tick := entered\<rparr>"

definition reclaim_row :: "string \<Rightarrow> int \<Rightarrow> agent_state_row \<Rightarrow> agent_state_row" where
  "reclaim_row trig tick row = row\<lparr>row_last_reclaim_trigger := Some trig, row_last_reclaim_tick := Some tick\<rparr>"

lemma mem_meets_record:
  assumes "mem_ok g" and "dict_get (records g) art = Some r"
    and "mem_view (f r) = v_agent ag h (mem_view r)" and "rec_wf art r \<Longrightarrow> rec_wf art (f r)"
  shows "mem_meets (\<lambda>u. u) (with_record art (\<lambda>r. modify (put_record art (f r)))) (spec_row art ag h) g"
proof -
  have "rec_wf art (f r)" using assms(1,2,4) by (simp add: mem_ok_def)
  then show ?thesis
    using assms mem_ok_put [OF assms(1), of art "f r"] w_set_map [of "abs_mem g" art "mem_view r" "v_agent ag h"]
    by (simp add: meets_def wp_simps spec_row_def abs_mem_put)
qed

lemma sql_meets_row:
  assumes "sql_ok s" and "artifact_exists art (tables s)"
    and "f (tables s) = upsert_agent art ag h (tables s)"
  shows "sql_meets (\<lambda>u. u) (mutator (statement f)) (spec_row art ag h) s"
  using assms
  by (intro sql_meetsI) (auto simp: wp_simps sql_ok_def spec_row_def schema_upsert_agent
      abs_upsert_agent [where s = "s\<lparr>seq_incremented := 0\<rparr>", simplified])

lemma mem_view_transient:
  "mem_view (r\<lparr>transient_by_agent := dict_set ag ts (transient_by_agent r),
     transient_tick_by_agent := dict_set ag entered (transient_tick_by_agent r)\<rparr>) =
   v_agent ag (transient_row (Some ts) (Some entered)) (mem_view r)"
  "mem_view (r\<lparr>transient_by_agent := dict_pop ag (transient_by_agent r),
     transient_tick_by_agent := dict_pop ag (transient_tick_by_agent r)\<rparr>) =
   v_agent ag (transient_row None None) (mem_view r)"
  "mem_view (r\<lparr>last_reclamation_by_agent := dict_set ag (trig, tick) (last_reclamation_by_agent r)\<rparr>) =
   v_agent ag (reclaim_row trig tick) (mem_view r)"
  by (auto simp: mem_view_def v_agent_def transient_row_def reclaim_row_def agent_view_def fun_eq_iff)

lemma known_record:
  assumes "w_artifacts (abs_mem g) art \<noteq> None"
  obtains r where "dict_get (records g) art = Some r"
  using assms by auto

lemma mem_set_agent_transient:
  assumes "mem_ok g" and "w_artifacts (abs_mem g) art \<noteq> None"
  shows "mem_meets (\<lambda>u. u) (set_agent_transient art ag ts entered) (spec_row art ag (transient_row (Some ts) (Some entered))) g"
  unfolding set_agent_transient_def
  by (rule known_record [OF assms(2)], rule mem_meets_record [OF assms(1)])
    (auto simp: mem_view_transient rec_wf_def)

lemma mem_clear_agent_transient:
  assumes "mem_ok g" and "w_artifacts (abs_mem g) art \<noteq> None"
  shows "mem_meets (\<lambda>u. u) (clear_agent_transient art ag) (spec_row art ag (transient_row None None)) g"
  unfolding clear_agent_transient_def
  by (rule known_record [OF assms(2)], rule mem_meets_record [OF assms(1)])
    (auto simp: mem_view_transient rec_wf_def)

lemma mem_record_last_reclamation:
  assumes "mem_ok g" and "w_artifacts (abs_mem g) art \<noteq> None"
  shows "mem_meets (\<lambda>u. u) (record_last_reclamation ag art trig tick) (spec_row art ag (reclaim_row trig tick)) g"
  unfolding record_last_reclamation_def
  by (rule known_record [OF assms(2)], rule mem_meets_record [OF assms(1)])
    (auto simp: mem_view_transient rec_wf_def)

lemma known_artifact: "w_artifacts (abs_sql s) art \<noteq> None \<longleftrightarrow> artifact_exists art (tables s)"
  by (simp add: artifact_exists_def)

lemma sql_set_agent_transient_meets:
  assumes "sql_ok s" and "w_artifacts (abs_sql s) art \<noteq> None"
  shows "sql_meets (\<lambda>u. u) (sql_set_agent_transient art ag ts entered) (spec_row art ag (transient_row (Some ts) (Some entered))) s"
proof -
  let ?f = "\<lambda>db. upsert_agent art ag (transient_row (Some ts) (Some entered)) db"
  have "wp (sql_set_agent_transient art ag ts entered) Q E s = wp (mutator (statement ?f)) Q E s" for Q E
    using assms(2) unfolding known_artifact
    by (cases "agent_row art ag (tables s)")
      (simp_all add: sql_set_agent_transient_def mutator_def transaction_def guard_writable_def query_def statement_def require_def
        py_defs wp_def upsert_agent_cases transient_row_def [abs_def] upsert_agent_def row_or_blank_def
        split: prod.splits sum.splits)
  then show ?thesis
    using sql_meets_row [where f = ?f, OF assms(1) assms(2) [unfolded known_artifact] refl] by (simp add: meets_def)
qed

lemma row_recorded:
  assumes "w_artifacts (abs_sql s) art = Some v" and "v_agents v ag \<noteq> blank_row INVALID"
  obtains row where "agent_row art ag (tables s) = Some row"
  using assms by (auto simp: row_view_def row_or_blank_def split: option.splits)

lemma sql_record_last_reclamation_meets:
  assumes "sql_ok s" and "w_artifacts (abs_sql s) art = Some v" and "v_agents v ag \<noteq> blank_row INVALID"
  shows "sql_meets (\<lambda>u. u) (sql_record_last_reclamation ag art trig tick) (spec_row art ag (reclaim_row trig tick)) s"
proof -
  obtain row where "agent_row art ag (tables s) = Some row" by (rule row_recorded [OF assms(2,3)])
  then show ?thesis
    unfolding sql_record_last_reclamation_def
    using assms(1,2) upsert_agent_cases(1)
    by (intro sql_meets_row) (auto simp: artifact_exists_def reclaim_row_def [abs_def])
qed

lemma sql_clear_agent_transient_meets:
  assumes "sql_ok s" and "w_artifacts (abs_sql s) art \<noteq> None"
  shows "sql_meets (\<lambda>u. u) (sql_clear_agent_transient art ag) (spec_row art ag (transient_row None None)) s"
proof (cases "agent_row art ag (tables s)")
  case None
  have "w_map art (v_agent ag (transient_row None None)) (abs_sql s) = w_map art (\<lambda>v. v) (abs_sql s)"
    using None by (intro w_map_cong) (auto simp: v_agent_def transient_row_def row_or_blank_def blank_row_def row_view_def fun_eq_iff)
  moreover have "update_agent art ag f (tables s) = tables s" for f
    using None by (simp add: update_agent_def update_row_def agent_row_def)
  ultimately show ?thesis
    unfolding sql_clear_agent_transient_def
    using assms(1) by (intro sql_meetsI) (simp_all add: wp_simps sql_ok_def spec_row_def w_map_id)
next
  case (Some row)
  show ?thesis
    unfolding sql_clear_agent_transient_def
    using assms by (intro sql_meets_row) (simp_all add: artifact_exists_def upsert_agent_cases(1) [OF Some] transient_row_def [abs_def])
qed

section \<open>Heartbeats\<close>

definition spec_record_heartbeat :: "uuid \<Rightarrow> int \<Rightarrow> (registry_view, py_error, unit) py" where
  "spec_record_heartbeat ag now = (\<lambda>w. (Inr (), w\<lparr>w_heartbeats := (w_heartbeats w)(ag \<mapsto>
     (case w_heartbeats w ag of None \<Rightarrow> now | Some prev \<Rightarrow> max prev now))\<rparr>))"

lemma mem_record_heartbeat:
  assumes "mem_ok g"
  shows "mem_meets (\<lambda>u. u) (reg_record_heartbeat ag now) (spec_record_heartbeat ag now) g"
  using assms
  by (cases "dict_get (heartbeat_by_agent g) ag")
    (auto simp: meets_def reg_record_heartbeat_def spec_record_heartbeat_def wp_simps mem_ok_def log_ok_def abs_mem_def
      fun_eq_iff max_def)

lemma sql_record_heartbeat_meets:
  assumes "sql_ok s"
  shows "sql_meets (\<lambda>u. u) (sql_record_heartbeat ag now) (spec_record_heartbeat ag now) s"
  unfolding sql_record_heartbeat_def using assms
  by (intro sql_meetsI) (auto simp: wp_simps sql_ok_def spec_record_heartbeat_def abs_sql_def split: option.splits)

section \<open>Removal\<close>

definition spec_remove_artifact :: "uuid \<Rightarrow> (registry_view, py_error, unit) py" where
  "spec_remove_artifact art = (\<lambda>w. (Inr (), w\<lparr>w_artifacts := (w_artifacts w)(art := None)\<rparr>))"

lemma mem_remove_artifact:
  assumes "mem_ok g"
  shows "mem_meets (\<lambda>u. u) (remove_artifact art) (spec_remove_artifact art) g"
  using assms
  by (auto simp: meets_def remove_artifact_def spec_remove_artifact_def wp_simps mem_ok_def log_ok_def abs_mem_def fun_eq_iff)

lemma sql_remove_artifact_meets:
  assumes "sql_ok s"
  shows "sql_meets (\<lambda>u. u) (sql_remove_artifact art) (spec_remove_artifact art) s"
proof -
  define db where "db = (tables s)\<lparr>artifacts_table := dict_pop art (artifacts_table (tables s)),
       agent_states_table := delete_where (\<lambda>(i, ag) row. i = art) (agent_states_table (tables s)),
       pending_notices_table := delete_where (\<lambda>(ag, i) row. i = art) (pending_notices_table (tables s)),
       artifact_versions_table := delete_where (\<lambda>(i, v) row. i = art) (artifact_versions_table (tables s))\<rparr>"
  have wf: "dict_wf (artifacts_table (tables s))" "dict_wf (agent_states_table (tables s))"
    "dict_wf (artifact_versions_table (tables s))" "dict_wf (session_pins_table (tables s))"
    using assms by (simp_all add: sql_ok_def schema_ok_def)
  then have wf': "dict_wf (artifacts_table db)" "dict_wf (agent_states_table db)" "dict_wf (artifact_versions_table db)"
    "dict_wf (session_pins_table db)"
    by (simp_all add: db_def)
  have rows: "dict_get (artifacts_table db) i = (if i = art then None else dict_get (artifacts_table (tables s)) i)"
    "dict_get (agent_states_table db) (i, ag) = (if i = art then None else dict_get (agent_states_table (tables s)) (i, ag))"
    "dict_get (artifact_versions_table db) (i, v) = (if i = art then None else dict_get (artifact_versions_table (tables s)) (i, v))"
    for i ag v
    using wf by (simp_all add: db_def dict_get_delete_where split: option.splits)
  have rest: "heartbeats_table db = heartbeats_table (tables s)" "session_pins_table db = session_pins_table (tables s)"
    "session_meta_table db = session_meta_table (tables s)" "conflict_counters_table db = conflict_counters_table (tables s)"
    by (simp_all add: db_def)
  have "row_view i db = row_view i (tables s)" if "i \<noteq> art" for i
    using that by (simp add: row_view_def row_or_blank_def agent_row_def rows fun_eq_iff)
  then have "abs_sql (s\<lparr>seq_incremented := 0, tables := db\<rparr>) = (abs_sql s)\<lparr>w_artifacts := (w_artifacts (abs_sql s))(art := None)\<rparr>"
    by (auto simp: abs_sql_def rows rest intro!: ext)
  moreover have "schema_ok db"
    using assms wf' by (auto simp: sql_ok_def schema_ok_def agent_row_def rows artifact_exists_def)
  ultimately show ?thesis
    unfolding sql_remove_artifact_def using assms
    by (intro sql_meetsI) (simp_all add: wp_simps sql_ok_def spec_remove_artifact_def db_def)
qed

section \<open>Registration and metadata\<close>

definition v_new :: "Artifact \<Rightarrow> art_view" where
  "v_new a = \<lparr>v_name = art_name a, v_version = art_version a, v_generation = 0, v_hash = hash_column (art_hash a),
     v_tokens = art_tokens a, v_writer = None, v_agents = (\<lambda>_. blank_row INVALID), v_bodies = Map.empty, v_stamps = Map.empty\<rparr>"

definition v_retain :: "registry_view \<Rightarrow> uuid \<Rightarrow> int \<Rightarrow> body \<Rightarrow> art_view \<Rightarrow> art_view" where
  "v_retain w art ver b v = (if w_retain w then v_capture w art ver b v else v)"

definition spec_register_artifact :: "Artifact \<Rightarrow> body \<Rightarrow> (registry_view, py_error, unit) py" where
  "spec_register_artifact a b =
     (\<lambda>w. (Inr (), w_set (art_id a) (v_retain w (art_id a) (art_version a) b (v_new a)) w))"

definition name_free :: "string \<Rightarrow> uuid \<Rightarrow> registry_view \<Rightarrow> bool" where
  "name_free nm art w \<longleftrightarrow> (\<forall>i v. i \<noteq> art \<longrightarrow> w_artifacts w i = Some v \<longrightarrow> v_name v \<noteq> nm)"

definition v_metadata :: "Artifact \<Rightarrow> uuid option \<Rightarrow> art_view \<Rightarrow> art_view" where
  "v_metadata a writer v = v\<lparr>v_name := art_name a, v_version := art_version a, v_hash := hash_column (art_hash a),
     v_tokens := art_tokens a, v_writer := writer\<rparr>"

definition v_fenced :: "uuid \<Rightarrow> art_view \<Rightarrow> bool" where
  "v_fenced ag v = (case row_read_generation (v_agents v ag) of None \<Rightarrow> False | Some n \<Rightarrow> n < v_generation v)"

definition spec_set_artifact_and_content ::
  "uuid \<Rightarrow> Artifact \<Rightarrow> body \<Rightarrow> uuid option \<Rightarrow> uuid option \<Rightarrow> (registry_view, py_error, unit) py" where
  "spec_set_artifact_and_content art a b writer fence =
     (\<lambda>w. case w_artifacts w art of None \<Rightarrow> (Inl KeyError, w)
          | Some v \<Rightarrow>
              (case fence of
                 Some ag \<Rightarrow>
                   (if v_fenced ag v
                    then (Inl (StaleReadGeneration ag art (the (row_read_generation (v_agents v ag))) (v_generation v)), w)
                    else (Inr (), w_map art (\<lambda>v. v_retain w art (art_version a) b (v_metadata a writer v)) w))
               | None \<Rightarrow> (Inr (), w_map art (\<lambda>v. v_retain w art (art_version a) b (v_metadata a writer v)) w)))"

lemma v_capture_frame [simp]:
  "v_capture (w_map i F w) = v_capture w" "v_capture (w_set i u w) = v_capture w" "v_capture (w_emit q w) = v_capture w"
  by (cases "w_policy w"; simp add: v_capture_def fun_eq_iff w_map_def w_set_def w_emit_def w_pinned_def Let_def)+

lemma w_retain_frame [simp]:
  "w_retain (w_map i F w) = w_retain w" "w_retain (w_set i u w) = w_retain w" "w_retain (w_emit q w) = w_retain w"
  by (simp_all add: w_map_def w_set_def w_emit_def)

lemma v_retain_frame [simp]:
  "v_retain (w_map i F w) = v_retain w" "v_retain (w_set i u w) = v_retain w" "v_retain (w_emit q w) = v_retain w"
  by (simp_all add: v_retain_def fun_eq_iff)

lemma w_map_set [simp]: "w_map art F (w_set art v w) = w_set art (F v) w"
  by (simp add: w_map_def w_set_def)

lemma mem_view_new: "mem_view (new_ArtifactRecord a b) = v_new a" "rec_wf (art_id a) (new_ArtifactRecord a b)"
  by (simp_all add: mem_view_def v_new_def new_ArtifactRecord_def agent_view_def blank_row_def get_default_def rec_wf_def fun_eq_iff)

lemma mem_view_retain:
  assumes "mem_ok g" and "rec_wf art r"
  shows "mem_view (if retain_versions g then capture_version g ver b r else r) = v_retain (abs_mem g) art ver b (mem_view r)"
    and "rec_wf art (if retain_versions g then capture_version g ver b r else r)"
  using mem_view_capture [OF assms] assms(2) by (simp_all add: v_retain_def abs_mem_def)

lemma mem_register_artifact:
  assumes "mem_ok g"
  shows "mem_meets (\<lambda>u. u) (reg_register_artifact a b) (spec_register_artifact a b) g"
  using mem_ok_put [OF assms mem_view_retain(2) [OF assms mem_view_new(2)]]
  by (simp add: meets_def reg_register_artifact_def spec_register_artifact_def wp_simps abs_mem_put
      mem_view_retain(1) [OF assms mem_view_new(2)] mem_view_new(1) Let_def)

lemma v_retain_metadata: "v_metadata a writer (v_retain w art ver b v) = v_retain w art ver b (v_metadata a writer v)"
  by (simp add: v_retain_def v_capture_def v_metadata_def Let_def)

lemma mem_set_artifact_and_content:
  assumes ok: "mem_ok g" and id: "art_id a = art"
  shows "mem_meets (\<lambda>u. u) (set_artifact_and_content art a b writer fence) (spec_set_artifact_and_content art a b writer fence) g"
proof (cases "dict_get (records g) art")
  case None
  with ok show ?thesis by (simp add: meets_def set_artifact_and_content_def spec_set_artifact_and_content_def wp_simps)
next
  case (Some r)
  let ?r1 = "if retain_versions g then capture_version g (art_version a) b r else r"
  let ?r2 = "?r1\<lparr>artifact := a, rec_content := b, last_writer := writer\<rparr>"
  have wf: "rec_wf art r" using ok Some by (simp add: mem_ok_def)
  have "mem_view ?r2 = v_metadata a writer (mem_view ?r1)"
    by (simp add: mem_view_def v_metadata_def agent_view_def fun_eq_iff)
  also have "\<dots> = v_retain (abs_mem g) art (art_version a) b (v_metadata a writer (mem_view r))"
    unfolding mem_view_retain(1) [OF ok wf] v_retain_metadata ..
  finally have view: "mem_view ?r2 = v_retain (abs_mem g) art (art_version a) b (v_metadata a writer (mem_view r))" .
  have "rec_wf art ?r2"
    using mem_view_retain(2) [OF ok wf] id by (simp add: rec_wf_def split: if_splits)
  then have ok': "mem_ok (put_record art ?r2 g)" by (rule mem_ok_put [OF ok])
  have abs: "abs_mem (put_record art ?r2 g) =
      w_map art (\<lambda>v. v_retain (abs_mem g) art (art_version a) b (v_metadata a writer v)) (abs_mem g)"
    unfolding abs_mem_put view using Some by (intro w_set_map) simp
  show ?thesis
  proof (cases fence)
    case None
    then show ?thesis
      using Some ok' abs ok
      by (simp add: meets_def set_artifact_and_content_def spec_set_artifact_and_content_def wp_simps Let_def)
  next
    case (Some ag)
    then show ?thesis
      using \<open>dict_get (records g) art = Some r\<close> ok' abs ok
      by (cases "dict_get (read_generation_by_agent r) ag")
        (simp_all add: meets_def set_artifact_and_content_def spec_set_artifact_and_content_def wp_simps Let_def v_fenced_def)
  qed
qed

definition retain_tables :: "sqlite_registry \<Rightarrow> uuid \<Rightarrow> int \<Rightarrow> body \<Rightarrow> database" where
  "retain_tables s art ver b = (if sq_retain_versions s then capture_tables s art ver b else tables s)"

lemma wp_retain:
  assumes "artifact_exists art (tables s)"
  shows "wp (if sq_retain_versions s then capture_version_sql art ver b else ret ()) Q E s = Q () (s\<lparr>tables := retain_tables s art ver b\<rparr>)"
  using assms by (simp add: retain_tables_def wp_capture_version_sql wp_simps)

lemma abs_retain_tables:
  assumes "schema_ok (tables s)"
  shows "abs_sql (s\<lparr>tables := retain_tables s art ver b\<rparr>) = w_map art (v_retain (abs_sql s) art ver b) (abs_sql s)"
proof (cases "sq_retain_versions s")
  case True
  then have "v_retain (abs_sql s) art ver b = v_capture (abs_sql s) art ver b"
    by (simp add: v_retain_def abs_sql_def fun_eq_iff)
  with True show ?thesis by (simp add: retain_tables_def abs_capture_tables [OF assms])
next
  case False
  then have "v_retain (abs_sql s) art ver b = (\<lambda>v. v)"
    by (simp add: v_retain_def abs_sql_def fun_eq_iff)
  with False show ?thesis by (simp add: retain_tables_def w_map_id)
qed

lemma schema_retain_tables:
  "schema_ok (tables s) \<Longrightarrow> artifact_exists art (tables s) \<Longrightarrow> schema_ok (retain_tables s art ver b)"
  by (simp add: retain_tables_def schema_capture_tables)

lemma name_free_sql:
  assumes "schema_ok (tables s)"
  shows "name_free nm art (abs_sql s) \<longleftrightarrow> \<not> name_taken nm art (tables s)"
proof -
  have wf: "dict_wf (artifacts_table (tables s))" using assms by (simp add: schema_ok_def)
  have "name_taken nm art (tables s) \<longleftrightarrow> (\<exists>i row. (i, row) \<in> set (artifacts_table (tables s)) \<and> i \<noteq> art \<and> row_name row = nm)"
    by (force simp: name_taken_def list_ex_iff)
  then show ?thesis unfolding dict_in_set_get [OF wf] name_free_def by fastforce
qed

lemma row_view_unknown:
  assumes "schema_ok db" and "\<not> artifact_exists art db"
  shows "row_view art db \<lparr>row_name = art_name a, row_version = art_version a, row_owner_generation = 0,
    row_content_hash = hash_column (art_hash a), row_size_tokens = art_tokens a, row_last_writer_id = None,
    row_updated_at = now\<rparr> = v_new a"
proof -
  have "agent_row art ag db = None" "dict_get (artifact_versions_table db) (art, v) = None" for ag v
    using assms unfolding schema_ok_def by blast+
  then show ?thesis by (simp add: row_view_def v_new_def row_or_blank_def fun_eq_iff)
qed

lemma sql_register_artifact_meets:
  assumes ok: "sql_ok s" and fresh: "w_artifacts (abs_sql s) (art_id a) = None"
    and free: "name_free (art_name a) (art_id a) (abs_sql s)"
  shows "sql_meets (\<lambda>u. u) (sql_register_artifact a b) (spec_register_artifact a b) s"
proof -
  let ?row = "\<lparr>row_name = art_name a, row_version = art_version a, row_owner_generation = 0,
    row_content_hash = hash_column (art_hash a), row_size_tokens = art_tokens a, row_last_writer_id = None,
    row_updated_at = sq_wall_clock s\<rparr>"
  define s1 where "s1 = s\<lparr>seq_incremented := 0, tables := (tables s)\<lparr>artifacts_table := dict_set (art_id a) ?row (artifacts_table (tables s))\<rparr>\<rparr>"
  have sch: "schema_ok (tables s)" and h: "healthy s" using ok by (simp_all add: sql_ok_def)
  have new: "\<not> artifact_exists (art_id a) (tables s)" using fresh by (simp add: artifact_exists_def)
  have taken: "\<not> name_taken (art_name a) (art_id a) (tables s)" using free name_free_sql [OF sch] by simp
  have ex: "artifact_exists (art_id a) (tables s1)" by (simp add: s1_def artifact_exists_def)
  have sch1: "schema_ok (tables s1)"
    using sch by (auto simp: s1_def schema_ok_def agent_row_def artifact_exists_def)
  have abs1: "abs_sql s1 = w_set (art_id a) (v_new a) (abs_sql s)"
    using row_view_unknown [OF sch new] by (auto simp: s1_def abs_sql_def w_set_def fun_eq_iff)
  have same: "sq_retain_versions s1 = sq_retain_versions s" "commit_ok s1 = commit_ok s" "healthy s1" "commit_ok (s1\<lparr>tables := x\<rparr>) = commit_ok s" for x
    using h by (simp_all add: s1_def)
  have "wp (if sq_retain_versions s1 then capture_version_sql (art_id a) (art_version a) b else ret ())
     (\<lambda>u t. commit_ok t = commit_ok s \<and> sql_ok t \<and> spec_register_artifact a b (abs_sql s) = (Inr u, abs_sql t)) E s1" for E
    unfolding wp_retain [OF ex]
    using abs_retain_tables [OF sch1] schema_retain_tables [OF sch1 ex]
    by (simp add: same sql_ok_def spec_register_artifact_def abs1)
  then have rest: "sq_retain_versions s1 \<Longrightarrow> wp (capture_version_sql (art_id a) (art_version a) b)
     (\<lambda>u t. commit_ok t = commit_ok s \<and> sql_ok t \<and> spec_register_artifact a b (abs_sql s) = (Inr u, abs_sql t)) E s1"
    "\<not> sq_retain_versions s1 \<Longrightarrow> sql_ok s1 \<and> spec_register_artifact a b (abs_sql s) = (Inr (), abs_sql s1)" for E
    by (auto simp: wp_simps)
  show ?thesis
    unfolding sql_register_artifact_def
    by (rule sql_meetsI [OF ok], cases "sq_retain_versions s")
      (use rest in \<open>simp_all add: wp_simps insert_artifact_def new taken s1_def\<close>)
qed

definition update_metadata :: "Artifact \<Rightarrow> uuid option \<Rightarrow> rat \<Rightarrow> artifact_row \<Rightarrow> artifact_row" where
  "update_metadata a writer now row = row\<lparr>row_name := art_name a, row_version := art_version a,
     row_content_hash := hash_column (art_hash a), row_size_tokens := art_tokens a, row_last_writer_id := writer,
     row_updated_at := now\<rparr>"

lemma sql_set_artifact_and_content_meets:
  assumes ok: "sql_ok s" and known: "w_artifacts (abs_sql s) art \<noteq> None"
    and free: "name_free (art_name a) art (abs_sql s)"
  shows "sql_meets (\<lambda>u. u) (sql_set_artifact_and_content art a b writer fence) (spec_set_artifact_and_content art a b writer fence) s"
proof -
  define s1 where "s1 = s\<lparr>seq_incremented := 0,
    tables := update_artifact art (update_metadata a writer (sq_wall_clock s)) (tables s)\<rparr>"
  have sch: "schema_ok (tables s)" and h: "healthy s" using ok by (simp_all add: sql_ok_def)
  obtain arow where arow: "dict_get (artifacts_table (tables s)) art = Some arow" using known by auto
  have taken: "\<not> name_taken (art_name a) art (tables s)" using free name_free_sql [OF sch] by simp
  have ex: "artifact_exists art (tables s1)" using arow by (simp add: s1_def artifact_exists_def update_artifact_def)
  have sch1: "schema_ok (tables s1)" using sch by (simp add: s1_def schema_update_artifact)
  have abs1: "abs_sql s1 = w_map art (v_metadata a writer) (abs_sql s)"
    unfolding s1_def
    by (rule abs_tables_artifact) (simp_all add: row_view_def v_metadata_def update_metadata_def)
  have same: "sq_retain_versions s1 = sq_retain_versions s" "healthy s1" "commit_ok (s1\<lparr>tables := x\<rparr>) = commit_ok s" for x
    using h by (simp_all add: s1_def)
  let ?done = "(Inr (), w_map art (\<lambda>v. v_retain (abs_sql s) art (art_version a) b (v_metadata a writer v)) (abs_sql s))"
  have rest: "wp (if sq_retain_versions s then capture_version_sql art (art_version a) b else ret ())
     (\<lambda>u t. commit_ok t = commit_ok s \<and> sql_ok t \<and> ?done = (Inr u, abs_sql t)) E s1" for E
    unfolding same(1) [symmetric] wp_retain [OF ex]
    using abs_retain_tables [OF sch1] schema_retain_tables [OF sch1 ex]
    by (simp add: same sql_ok_def abs1 w_map_map)
  then have rest: "sq_retain_versions s \<Longrightarrow> wp (capture_version_sql art (art_version a) b)
     (\<lambda>u t. commit_ok t = commit_ok s \<and> sql_ok t \<and> ?done = (Inr u, abs_sql t)) E s1"
    "\<not> sq_retain_versions s \<Longrightarrow> sql_ok s1 \<and> ?done = (Inr (), abs_sql s1)" for E
    by (auto simp: wp_simps)
  note stmts = wp_simps taken arow spec_set_artifact_and_content_def s1_def
  show ?thesis
    unfolding sql_set_artifact_and_content_def update_metadata_def [symmetric]
  proof (rule sql_meetsI [OF ok], cases fence, goal_cases)
    case 1
    with rest show ?case by (cases "sq_retain_versions s") (simp_all add: stmts)
  next
    case (2 ag)
    show ?case
    proof (cases "Option.bind (agent_row art ag (tables s)) row_read_generation")
      case None
      then have "\<not> v_fenced ag (row_view art (tables s) arow)"
        by (auto simp: v_fenced_def row_or_blank_def blank_row_def split: option.splits)
      with None 2 rest show ?thesis by (cases "sq_retain_versions s") (simp_all add: stmts)
    next
      case (Some n)
      then have "row_read_generation (row_or_blank art (tables s) ag) = Some n"
        by (auto simp: row_or_blank_def bind_eq_Some_conv)
      with Some 2 rest show ?thesis
        by (cases "sq_retain_versions s") (simp_all add: stmts v_fenced_def)
    qed
  qed
qed

section \<open>Sessions\<close>

fun capture_from :: "(uuid \<Rightarrow> int option) \<Rightarrow> uuid list \<Rightarrow> (uuid, int) dict \<Rightarrow> uuid list \<Rightarrow> (uuid, int) dict \<times> uuid list" where
  "capture_from ver [] pins missing = (pins, missing)"
| "capture_from ver (art # arts) pins missing =
     (case ver art of None \<Rightarrow> capture_from ver arts pins (missing @ [art])
      | Some v \<Rightarrow> capture_from ver arts (dict_set art v pins) missing)"

definition w_versions :: "registry_view \<Rightarrow> uuid \<Rightarrow> int option" where
  "w_versions w art = map_option v_version (w_artifacts w art)"

lemma capture_loop_mem: "capture_loop g arts pins missing = capture_from (w_versions (abs_mem g)) arts pins missing"
  by (induction arts arbitrary: pins missing) (auto simp: w_versions_def split: option.splits)

lemma capture_loop_sql:
  "sql_capture_loop (tables s) arts pins missing = capture_from (w_versions (abs_sql s)) arts pins missing"
  by (induction arts arbitrary: pins missing) (auto simp: w_versions_def split: option.splits)

lemma dict_wf_capture_from:
  "dict_wf pins \<Longrightarrow> capture_from ver arts pins missing = (pins', missing') \<Longrightarrow> dict_wf pins'"
proof (induction arts arbitrary: pins missing)
  case (Cons art arts)
  then show ?case
    by (cases "ver art") (auto intro: Cons.IH [OF dict_wf_set] Cons.IH)
qed simp

definition spec_capture_version_vector ::
  "uuid list \<Rightarrow> string \<Rightarrow> uuid option \<Rightarrow> int option \<Rightarrow> (registry_view, py_error, capture_result) py" where
  "spec_capture_version_vector read_set token owner created =
     (\<lambda>w. case capture_from (w_versions w) read_set [] [] of (pins, missing) \<Rightarrow>
        if missing \<noteq> []
        then (Inr (CaptureRejected (VersionedReadRejection UNKNOWN_ARTIFACT (hd (sort missing)) 0 None (w_epoch w))), w)
        else (Inr (Cut pins), w\<lparr>w_pins := (w_pins w)(token := dict_get pins),
               w_sessions := (case owner of None \<Rightarrow> w_sessions w
                 | Some ow \<Rightarrow> (w_sessions w)(token \<mapsto> (ow, case created of None \<Rightarrow> 0 | Some t \<Rightarrow> t)))\<rparr>))"

lemma mem_capture_version_vector:
  assumes "mem_ok g"
  shows "mem_meets (\<lambda>c. c) (capture_version_vector read_set token owner created) (spec_capture_version_vector read_set token owner created) g"
  using assms
  by (cases "capture_from (w_versions (abs_mem g)) read_set [] []"; cases owner)
    (auto simp: meets_def capture_version_vector_def spec_capture_version_vector_def wp_def capture_loop_mem Let_def
      mem_ok_def log_ok_def abs_mem_def fun_eq_iff)

lemma dict_get_fold_pins:
  assumes "dict_wf pins"
  shows "dict_get (fold (\<lambda>(art, v). dict_set (token, art) v) pins t) (tok, art) =
    (if tok = token \<and> dict_get pins art \<noteq> None then dict_get pins art else dict_get t (tok, art))"
  using assms
proof (induction pins arbitrary: t)
  case (Cons p pins)
  obtain i v where p: "p = (i, v)" by (cases p)
  with Cons.prems have "dict_get pins i = None" by (simp add: map_of_eq_None_iff)
  with Cons p show ?case by auto
qed simp

lemma dict_wf_fold_pins: "dict_wf t \<Longrightarrow> dict_wf (fold (\<lambda>(art, v). dict_set (token, art) v) pins t)"
  by (induction pins arbitrary: t) auto

lemma schema_pins:
  "schema_ok db \<Longrightarrow> dict_wf t \<Longrightarrow> schema_ok (db\<lparr>session_pins_table := t\<rparr>)"
  by (simp add: schema_ok_def agent_row_def artifact_exists_def)

lemma sql_capture_version_vector_meets:
  assumes ok: "sql_ok s" and fresh: "\<And>art. w_pins (abs_sql s) token art = None"
  shows "sql_meets (\<lambda>c. c) (sql_capture_version_vector read_set token owner created) (spec_capture_version_vector read_set token owner created) s"
proof -
  obtain pins missing where loop: "capture_from (w_versions (abs_sql s)) read_set [] [] = (pins, missing)" by fastforce
  then have wf: "dict_wf pins" using dict_wf_capture_from by force
  let ?t = "fold (\<lambda>(art, v). dict_set (token, art) v) pins (session_pins_table (tables s))"
  have pins: "(\<lambda>tok art. dict_get ?t (tok, art)) = (w_pins (abs_sql s))(token := dict_get pins)"
    using fresh by (auto simp: dict_get_fold_pins [OF wf] abs_sql_def fun_eq_iff)
  have sch: "schema_ok ((tables s)\<lparr>session_pins_table := ?t\<rparr>)"
    using ok by (intro schema_pins) (simp_all add: sql_ok_def schema_ok_def dict_wf_fold_pins)
  have abs: "abs_sql (s\<lparr>seq_incremented := 0, tables := (tables s)\<lparr>session_pins_table := ?t\<rparr>\<rparr>) =
      (abs_sql s)\<lparr>w_pins := (w_pins (abs_sql s))(token := dict_get pins)\<rparr>"
    "abs_sql (s\<lparr>seq_incremented := 0, tables := (tables s)\<lparr>session_pins_table := ?t, session_meta_table := dict_set token m (session_meta_table (tables s))\<rparr>\<rparr>) =
      (abs_sql s)\<lparr>w_pins := (w_pins (abs_sql s))(token := dict_get pins), w_sessions := (w_sessions (abs_sql s))(token \<mapsto> m)\<rparr>" for m
    unfolding pins [symmetric] by (auto simp: abs_sql_def)
  have epoch: "w_epoch (abs_sql s) = sq_coordinator_epoch s" by (simp add: abs_sql_def)
  show ?thesis
    unfolding sql_capture_version_vector_def using ok sch
    by (intro sql_meetsI; cases owner)
      (simp_all add: wp_simps capture_loop_sql loop sql_ok_def spec_capture_version_vector_def abs epoch)
qed

definition spec_release_session :: "string \<Rightarrow> (registry_view, py_error, unit) py" where
  "spec_release_session token = (\<lambda>w. (Inr (), w\<lparr>w_pins := (w_pins w)(token := Map.empty),
     w_sessions := (w_sessions w)(token := None)\<rparr>))"

lemma mem_release_session:
  assumes "mem_ok g"
  shows "mem_meets (\<lambda>u. u) (release_session token) (spec_release_session token) g"
  using assms
  by (auto simp: meets_def release_session_def spec_release_session_def wp_simps mem_ok_def log_ok_def abs_mem_def fun_eq_iff)

lemma sql_release_session_meets:
  assumes ok: "sql_ok s"
  shows "sql_meets (\<lambda>u. u) (sql_release_session token) (spec_release_session token) s"
proof -
  let ?t = "delete_where (\<lambda>(tok, art) v. tok = token) (session_pins_table (tables s))"
  have wf: "dict_wf (session_pins_table (tables s))" using ok by (simp add: sql_ok_def schema_ok_def)
  have "(\<lambda>tok art. dict_get ?t (tok, art)) = (w_pins (abs_sql s))(token := Map.empty)"
    by (auto simp: dict_get_delete_where [OF wf] abs_sql_def fun_eq_iff split: option.splits)
  moreover have "schema_ok ((tables s)\<lparr>session_pins_table := ?t\<rparr>)"
    using ok wf by (intro schema_pins) (simp_all add: sql_ok_def)
  ultimately show ?thesis
    unfolding sql_release_session_def using ok
    by (intro sql_meetsI) (auto simp: wp_simps sql_ok_def spec_release_session_def abs_sql_def)
qed

end
