(* ===== verification/Sqlite_Commits.thy ===== *)
theory Sqlite_Commits
  imports Sqlite_Contract Coherence_CAS
begin

text \<open>
  The contract of the optimistic commits: the arbitration, the effect of a win on the view, and both registries meet
  it, for one artifact and for a batch.
\<close>

declare map_of_eq_Some_iff [simp del] Some_eq_map_of_iff [simp del]

section \<open>Specification\<close>

definition v_held :: "uuid \<Rightarrow> art_view \<Rightarrow> bool" where
  "v_held ag v \<longleftrightarrow> (\<exists>p. p \<noteq> ag \<and> row_state (v_agents v p) \<in> M_OR_E_STATES)"

definition v_arbitrate :: "uuid \<Rightarrow> int \<Rightarrow> art_view \<Rightarrow> verdict" where
  "v_arbitrate ag expected v =
     (if expected > v_version v then Corrupt (v_version v)
      else if expected < v_version v then Conflicting (ConflictDetail version_mismatch (v_version v))
      else if v_held ag v then Conflicting (ConflictDetail other_holder (v_version v))
      else if v_fenced ag v then Conflicting (ConflictDetail stale_read_generation (v_version v))
      else Admitted)"

definition v_peers :: "uuid \<Rightarrow> art_view \<Rightarrow> uuid set" where
  "v_peers ag v = {p. p \<noteq> ag \<and> row_state (v_agents v p) \<noteq> INVALID}"

definition revoked_row :: "agent_state_row \<Rightarrow> agent_state_row" where
  "revoked_row row = row\<lparr>row_state := INVALID,
     row_granted_at_tick := (if row_state row \<in> M_OR_E_STATES then None else row_granted_at_tick row)\<rparr>"

definition v_revoke :: "uuid set \<Rightarrow> art_view \<Rightarrow> art_view" where
  "v_revoke P v = v\<lparr>v_agents := (\<lambda>p. if p \<in> P then revoked_row (v_agents v p) else v_agents v p)\<rparr>"

definition v_bump :: "uuid \<Rightarrow> string \<Rightarrow> int option \<Rightarrow> art_view \<Rightarrow> art_view" where
  "v_bump ag chash toks v = v\<lparr>v_version := v_version v + 1, v_hash := chash,
     v_tokens := resolved_size_tokens toks (v_tokens v), v_writer := Some ag\<rparr>"

definition v_share :: "uuid \<Rightarrow> art_view \<Rightarrow> art_view" where
  "v_share ag v = v_agent ag (\<lambda>row. row\<lparr>row_state := SHARED, row_last_observed_version := Some (v_version v)\<rparr>) v"

definition v_win :: "uuid \<Rightarrow> string \<Rightarrow> int option \<Rightarrow> art_view \<Rightarrow> art_view" where
  "v_win ag chash toks v = v_share ag (v_revoke (v_peers ag v) (v_bump ag chash toks v))"

definition v_won :: "registry_view \<Rightarrow> uuid \<Rightarrow> uuid \<Rightarrow> string \<Rightarrow> int option \<Rightarrow> body option \<Rightarrow> art_view \<Rightarrow> art_view" where
  "v_won w art ag chash toks b v =
     (case b of None \<Rightarrow> v_win ag chash toks v
      | Some c \<Rightarrow> v_retain w art (v_version v + 1) c (v_win ag chash toks v))"

definition win_log :: "uuid \<Rightarrow> uuid \<Rightarrow> string \<Rightarrow> int \<Rightarrow> string \<Rightarrow> art_view \<Rightarrow> log_request multiset" where
  "win_log art ag chash tick trig v =
     image_mset (\<lambda>p. LogRequest art p (row_state (v_agents v p)) INVALID trig tick (v_version v + 1) None) (mset_set (v_peers ag v))
     + {#LogRequest art ag (row_state (v_agents v ag)) SHARED trig tick (v_version v + 1) (Some chash)#}"

definition w_emits :: "log_request multiset \<Rightarrow> registry_view \<Rightarrow> registry_view" where
  "w_emits Q w = (if w_logging w then w\<lparr>w_seq := w_seq w + int (size Q), w_log := w_log w + Q\<rparr> else w)"

definition w_count :: "uuid \<Rightarrow> uuid \<Rightarrow> conflict_reason \<Rightarrow> registry_view \<Rightarrow> registry_view" where
  "w_count art ag why w = w\<lparr>w_conflicts := (w_conflicts w)((art, ag, why) \<mapsto>
     (case w_conflicts w (art, ag, why) of None \<Rightarrow> 1 | Some n \<Rightarrow> n + 1))\<rparr>"

datatype cas_view = ViewWin Artifact "uuid multiset" | ViewConflict ConflictDetail | ViewCorruption int

fun canon_cas :: "cas_result \<Rightarrow> cas_view" where
  "canon_cas (CasWin a peers) = ViewWin (a\<lparr>art_depends_on := []\<rparr>) (mset peers)"
| "canon_cas (CasConflict d) = ViewConflict d"
| "canon_cas (CasCorruption cur) = ViewCorruption cur"

definition spec_commit_cas ::
  "uuid \<Rightarrow> uuid \<Rightarrow> int \<Rightarrow> string \<Rightarrow> int option \<Rightarrow> body option \<Rightarrow> int \<Rightarrow> string \<Rightarrow> (registry_view, py_error, cas_view) py" where
  "spec_commit_cas art ag expected chash toks b tick trig =
     (\<lambda>w. case w_artifacts w art of None \<Rightarrow> (Inl KeyError, w)
          | Some v \<Rightarrow>
              (case v_arbitrate ag expected v of
                 Corrupt cur \<Rightarrow> (Inr (ViewCorruption cur), w)
               | Conflicting d \<Rightarrow> (Inr (ViewConflict d), w_count art ag (detail_reason d) w)
               | Admitted \<Rightarrow>
                   (Inr (ViewWin \<lparr>art_id = art, art_name = v_name v, art_version = v_version v + 1, art_hash = Some chash,
                      art_tokens = resolved_size_tokens toks (v_tokens v), art_depends_on = []\<rparr> (mset_set (v_peers ag v))),
                    w_emits (win_log art ag chash tick trig v) (w_map art (v_won w art ag chash toks b) w))))"

lemma fold_w_emit: "fold w_emit qs w = w_emits (mset qs) w"
  by (induction qs arbitrary: w) (simp_all add: w_emits_def w_emit_def add.assoc)

lemma w_emits_w_emits: "w_emits Q (w_emits R w) = w_emits (R + Q) w"
  by (simp add: w_emits_def ac_simps)

lemma w_emit_emits: "w_emit q w = w_emits {#q#} w"
  by (simp add: w_emits_def w_emit_def)

lemma w_emits_map: "w_map art F (w_emits Q w) = w_emits Q (w_map art F w)"
  by (simp add: w_emits_def w_map_def)

lemma w_emits_artifacts [simp]: "w_artifacts (w_emits Q w) = w_artifacts w"
  by (simp add: w_emits_def)

lemma v_retain_emits [simp]: "v_retain (w_emits Q w) = v_retain w"
  by (cases "w_policy w"; simp add: w_emits_def v_retain_def v_capture_def w_pinned_def fun_eq_iff Let_def)

section \<open>The in-memory registry\<close>

lemma state_pairs:
  assumes "dict_wf (state_by_agent r)"
  shows "(\<exists>st. (p, st) \<in> set (state_by_agent r) \<and> st \<noteq> INVALID \<and> R st) \<longleftrightarrow> grant_of r p \<noteq> INVALID \<and> R (grant_of r p)"
  unfolding dict_in_set_get [OF assms] get_default_def by (cases "dict_get (state_by_agent r) p") auto

lemma has_other_holder_view:
  assumes "dict_wf (state_by_agent r)"
  shows "has_other_holder ag r = v_held ag (mem_view r)"
proof -
  have "has_other_holder ag r \<longleftrightarrow> (\<exists>p. p \<noteq> ag \<and> (\<exists>st. (p, st) \<in> set (state_by_agent r) \<and> st \<noteq> INVALID \<and> st \<in> M_OR_E_STATES))"
    by (force simp: has_other_holder_def list_ex_iff)
  then show ?thesis unfolding state_pairs [OF assms] v_held_def by auto
qed

lemma fenced_out_view: "fenced_out ag r = v_fenced ag (mem_view r)"
  by (simp add: fenced_out_def v_fenced_def split: option.split)

lemma arbitrate_view: "dict_wf (state_by_agent r) \<Longrightarrow> arbitrate ag expected r = v_arbitrate ag expected (mem_view r)"
  by (simp add: arbitrate_def v_arbitrate_def has_other_holder_view fenced_out_view Let_def)

lemma valid_peers_view:
  assumes "dict_wf (state_by_agent r)"
  shows "mset (map fst (valid_peers ag r)) = mset_set (v_peers ag (mem_view r))"
    and "fst ` set (valid_peers ag r) = v_peers ag (mem_view r)"
    and "(p, st) \<in> set (valid_peers ag r) \<Longrightarrow> st = grant_of r p"
proof -
  have "p \<in> fst ` set (valid_peers ag r) \<longleftrightarrow> p \<noteq> ag \<and> (\<exists>st. (p, st) \<in> set (state_by_agent r) \<and> st \<noteq> INVALID \<and> True)" for p
    by (force simp: valid_peers_def)
  then show set: "fst ` set (valid_peers ag r) = v_peers ag (mem_view r)"
    unfolding state_pairs [OF assms] v_peers_def by auto
  have "distinct (map fst (valid_peers ag r))"
    using assms by (simp add: valid_peers_def distinct_map_filter)
  then show "mset (map fst (valid_peers ag r)) = mset_set (v_peers ag (mem_view r))"
    using set by (simp add: mset_set_set [symmetric] del: mset_map)
  show "st = grant_of r p" if "(p, st) \<in> set (valid_peers ag r)"
  proof -
    have "(p, st) \<in> set (state_by_agent r)" using that by (simp add: valid_peers_def)
    then show ?thesis unfolding dict_in_set_get [OF assms] by (simp add: get_default_def)
  qed
qed

lemma granted_revoked:
  "dict_get (granted_at_tick_by_agent (invalidate_peers ps r)) p =
     (if \<exists>st. (p, st) \<in> set ps \<and> st \<in> M_OR_E_STATES then None else dict_get (granted_at_tick_by_agent r) p)"
  by (induction ps r rule: invalidate_peers.induct) (auto simp: Let_def)

lemma agent_view_invalidate_peers:
  assumes "dict_wf (state_by_agent r)"
  shows "agent_view (invalidate_peers (valid_peers ag r) r) p =
    (if p \<in> v_peers ag (mem_view r) then revoked_row (agent_view r p) else agent_view r p)"
proof -
  have "(\<exists>st. (p, st) \<in> set (valid_peers ag r) \<and> st \<in> M_OR_E_STATES) \<longleftrightarrow>
      p \<in> v_peers ag (mem_view r) \<and> grant_of r p \<in> M_OR_E_STATES"
    unfolding valid_peers_view(2) [OF assms, symmetric] image_iff Bex_def
    using valid_peers_view(3) [OF assms] by (metis fst_conv surj_pair)
  then show ?thesis
    by (simp add: agent_view_def grant_of_invalidate_peers granted_revoked valid_peers_view(2) [OF assms] revoked_row_def
        del: M_OR_E_iff)
qed

lemma v_win_retain: "v_win ag chash toks (v_retain w art ver c v) = v_retain w art ver c (v_win ag chash toks v)"
  by (simp add: v_win_def v_share_def v_revoke_def v_bump_def v_agent_def v_peers_def v_retain_def v_capture_def Let_def
      cong: if_cong option.case_cong)

text \<open>A win on a record, apart from the capture of the body.\<close>

definition win_on :: "uuid \<Rightarrow> uuid \<Rightarrow> string \<Rightarrow> int option \<Rightarrow> ArtifactRecord \<Rightarrow> ArtifactRecord" where
  "win_on art ag chash toks r =
     (let upd = bumped_artifact art chash toks (artifact r);
          r4 = invalidate_peers (valid_peers ag r) (r\<lparr>artifact := upd, last_writer := Some ag\<rparr>)
      in r4\<lparr>state_by_agent := dict_set ag SHARED (state_by_agent r4),
            last_observed_version_by_agent := dict_set ag (art_version upd) (last_observed_version_by_agent r4)\<rparr>)"

lemma mem_view_win_on:
  assumes "dict_wf (state_by_agent r)"
  shows "mem_view (win_on art ag chash toks r) = v_win ag chash toks (mem_view r)"
proof -
  let ?upd = "bumped_artifact art chash toks (artifact r)"
  let ?r = "r\<lparr>artifact := ?upd, last_writer := Some ag\<rparr>"
  have same: "valid_peers ag ?r = valid_peers ag r" "agent_view ?r = agent_view r" "v_peers ag (mem_view ?r) = v_peers ag (mem_view r)"
    by (simp_all add: valid_peers_def agent_view_def v_peers_def fun_eq_iff)
  have peers: "agent_view (invalidate_peers (valid_peers ag r) ?r) p =
      (if p \<in> v_peers ag (mem_view r) then revoked_row (agent_view r p) else agent_view r p)" for p
    using agent_view_invalidate_peers [of ?r ag p] assms by (simp add: same)
  have shared: "agent_view (q\<lparr>state_by_agent := dict_set ag SHARED (state_by_agent q),
      last_observed_version_by_agent := dict_set ag n (last_observed_version_by_agent q)\<rparr>) p =
      (if p = ag then (agent_view q p)\<lparr>row_state := SHARED, row_last_observed_version := Some n\<rparr> else agent_view q p)" for q n p
    by (simp add: agent_view_def)
  have ag: "ag \<notin> v_peers ag (mem_view r)" by (simp add: v_peers_def)
  have "agent_view (win_on art ag chash toks r) p = v_agents (v_win ag chash toks (mem_view r)) p" for p
    unfolding win_on_def Let_def shared peers using ag
    by (simp add: v_win_def v_share_def v_agent_def v_revoke_def v_bump_def bumped_artifact_def)
  then have "agent_view (win_on art ag chash toks r) = v_agents (v_win ag chash toks (mem_view r))" by (rule ext)
  then show ?thesis
    by (simp add: mem_view_def [of "win_on art ag chash toks r"] win_on_def Let_def)
      (simp add: v_win_def v_share_def v_agent_def v_revoke_def v_bump_def mem_view_def bumped_artifact_def hash_column_def resolved_size_tokens_def)
qed

lemma mem_view_won_record:
  assumes ok: "mem_ok g" and wf: "rec_wf art r"
  shows "mem_view (won_record g art ag chash toks b r) = v_won (abs_mem g) art ag chash toks b (mem_view r)"
    and "rec_wf art (won_record g art ag chash toks b r)"
proof -
  define r2 where "r2 = (case b of None \<Rightarrow> r
     | Some c \<Rightarrow> (if retain_versions g then capture_version g (art_version (artifact r) + 1) c (r\<lparr>rec_content := c\<rparr>) else r\<lparr>rec_content := c\<rparr>))"
  have body: "mem_view (r\<lparr>rec_content := c\<rparr>) = mem_view r" "rec_wf art (r\<lparr>rec_content := c\<rparr>)" for c
    using wf by (simp_all add: mem_view_def agent_view_def rec_wf_def fun_eq_iff)
  have r2: "mem_view r2 = (case b of None \<Rightarrow> mem_view r | Some c \<Rightarrow> v_retain (abs_mem g) art (art_version (artifact r) + 1) c (mem_view r))"
    "rec_wf art r2"
    using mem_view_retain [OF ok body(2)] wf by (simp_all add: r2_def body(1) split: option.split)
  have same: "artifact r2 = artifact r" "valid_peers ag r2 = valid_peers ag r"
    by (simp_all add: r2_def capture_version_def valid_peers_def Let_def split: option.split)
  have won: "won_record g art ag chash toks b r = win_on art ag chash toks r2"
  proof -
    have v: "art_version (bumped_artifact art chash toks a) = art_version a + 1" for a by (simp add: bumped_artifact_def)
    show ?thesis
      unfolding won_record_def apply_win_def win_on_def Let_def same by (cases b) (simp_all add: r2_def v)
  qed
  have dict: "dict_wf (state_by_agent r2)" using r2(2) by (simp add: rec_wf_def)
  show "mem_view (won_record g art ag chash toks b r) = v_won (abs_mem g) art ag chash toks b (mem_view r)"
    unfolding won mem_view_win_on [OF dict] r2(1) v_won_def by (simp add: v_win_retain split: option.split)
  have "dict_wf (state_by_agent (invalidate_peers ps q))" if "dict_wf (state_by_agent q)" for ps q
    using that by (rule wf_invalidate_peers)
  then show "rec_wf art (won_record g art ag chash toks b r)"
    using r2(2) unfolding won by (simp add: win_on_def rec_wf_def Let_def bumped_artifact_def)
qed

lemma win_requests_view:
  assumes "dict_wf (state_by_agent r)"
  shows "mset (win_requests art ag chash trig tick r) = win_log art ag chash tick trig (mem_view r)"
proof -
  let ?f = "\<lambda>p. LogRequest art p (grant_of r p) INVALID trig tick (art_version (artifact r) + 1) None"
  have requests: "map (\<lambda>(peer, peer_from). LogRequest art peer peer_from INVALID trig tick (art_version (artifact r) + 1) None) (valid_peers ag r)
      = map ?f (map fst (valid_peers ag r))"
    using valid_peers_view(3) [OF assms] by auto
  have "mset (map ?f (map fst (valid_peers ag r))) = image_mset ?f (mset_set (v_peers ag (mem_view r)))"
    unfolding mset_map [of ?f] valid_peers_view(1) [OF assms] ..
  then show ?thesis unfolding win_requests_def requests mset_append win_log_def by simp
qed

lemma abs_note_conflict: "abs_mem (note_conflict art ag why g) = w_count art ag why (abs_mem g)"
  by (simp add: note_conflict_def w_count_def abs_mem_def get_default_def fun_eq_iff split: option.split)

lemma mem_ok_note_conflict [simp]: "mem_ok (note_conflict art ag why g) = mem_ok g"
  by (simp add: note_conflict_def mem_ok_def log_ok_def)

lemma mem_commit_cas:
  assumes ok: "mem_ok g"
  shows "mem_meets canon_cas (reg_commit_cas art ag expected chash toks b tick trig) (spec_commit_cas art ag expected chash toks b tick trig) g"
proof (cases "dict_get (records g) art")
  case None
  with ok show ?thesis by (simp add: meets_def reg_commit_cas_def spec_commit_cas_def wp_simps)
next
  case (Some r)
  have wf: "rec_wf art r" "dict_wf (state_by_agent r)" using ok Some by (auto simp: mem_ok_def rec_wf_def)
  have verdict: "v_arbitrate ag expected (mem_view r) = arbitrate ag expected r" by (simp add: arbitrate_view [OF wf(2)])
  show ?thesis
  proof (cases "arbitrate ag expected r")
    case Admitted
    let ?qs = "win_requests art ag chash trig tick r" and ?upd = "bumped_artifact art chash toks (artifact r)"
    from ok have "log_ok g" by (simp add: mem_ok_def)
    from emit_batch_accepted [OF this, of ?qs 0] obtain k g' where
      emit: "emit_batch ?qs 0 g = (Inr k, g')" "abs_mem g' = fold w_emit ?qs (abs_mem g)" "log_step g g'" by blast
    obtain n d where g': "g' = g\<lparr>seq := n, delivered := d\<rparr>" using emit(3) by (auto simp: log_step_def)
    have win: "apply_win g' ag b ?upd (valid_peers ag r) r = won_record g art ag chash toks b r"
      by (simp add: g' won_record_def apply_win_env [OF same_env_log])
    have run: "reg_commit_cas art ag expected chash toks b tick trig g =
        (Inr (CasWin ?upd (map fst (valid_peers ag r))), put_record art (won_record g art ag chash toks b r) g')"
      using Some Admitted emit(1) win by (simp add: reg_commit_cas_def with_record_def py_defs Let_def)
    have "mem_ok g'" using ok mem_ok_log_step [OF emit(3)] by simp
    then have "mem_ok (put_record art (won_record g art ag chash toks b r) g')"
      by (rule mem_ok_put) (rule mem_view_won_record(2) [OF ok wf(1)])
    moreover have "abs_mem (put_record art (won_record g art ag chash toks b r) g') =
        w_emits (win_log art ag chash tick trig (mem_view r)) (w_map art (v_won (abs_mem g) art ag chash toks b) (abs_mem g))"
      using Some
      by (simp add: abs_mem_put mem_view_won_record(1) [OF ok wf(1)] emit(2) fold_w_emit win_requests_view [OF wf(2)]
          w_set_map [where v = "mem_view r"] w_emits_map)
    ultimately show ?thesis
      using Some Admitted verdict run valid_peers_view(1) [OF wf(2)]
      by (simp add: meets_def wp_def spec_commit_cas_def bumped_artifact_def resolved_size_tokens_def)
  qed (use Some ok verdict in \<open>simp_all add: meets_def reg_commit_cas_def spec_commit_cas_def wp_simps abs_note_conflict\<close>)
qed

section \<open>The tables\<close>

lemma select_agents_rows:
  assumes "healthy s" and wf: "dict_wf (agent_states_table (tables s))"
  shows "distinct (map fst (select_agents P art s))"
    and "fst ` set (select_agents P art s) = {p. \<exists>row. agent_row art p (tables s) = Some row \<and> P p row}"
    and "(p, row) \<in> set (select_agents P art s) \<Longrightarrow> agent_row art p (tables s) = Some row"
proof -
  let ?t = "agent_states_table (tables s)"
  let ?ids = "map (\<lambda>((i, ag), row). ag) (filter (\<lambda>((i, ag), row). i = art \<and> P ag row) ?t)"
  have "distinct (map (\<lambda>((i, ag), row). ag) (filter (\<lambda>((i, ag), row). i = art \<and> P ag row) t))" if "dict_wf t" for t
    using that by (induction t) (force simp: image_iff)+
  then have "distinct ?ids" using wf by blast
  moreover have perm: "mset (scan s ?ids) = mset ?ids" using assms(1) by (simp add: healthy_def)
  ultimately have dist: "distinct (scan s ?ids)" by (metis mset_eq_imp_distinct_iff)
  have "p \<in> set ?ids \<longleftrightarrow> (\<exists>row. ((art, p), row) \<in> set ?t \<and> P p row)" for p by force
  then have ids: "p \<in> set (scan s ?ids) \<longleftrightarrow> (\<exists>row. agent_row art p (tables s) = Some row \<and> P p row)" for p
    unfolding mset_eq_setD [OF perm] dict_in_set_get [OF wf] agent_row_def .
  have keys: "map fst (select_agents P art s) = scan s ?ids"
  proof -
    have "map fst (List.map_filter (\<lambda>ag. map_option (Pair ag) (agent_row art ag (tables s))) xs) = xs"
      if "\<And>p. p \<in> set xs \<Longrightarrow> agent_row art p (tables s) \<noteq> None" for xs
      using that by (induction xs) (force simp: List.map_filter_simps split: option.split)+
    then show ?thesis unfolding select_agents_def Let_def agent_row_def [symmetric] using ids by blast
  qed
  then show "distinct (map fst (select_agents P art s))" using dist by simp
  show "fst ` set (select_agents P art s) = {p. \<exists>row. agent_row art p (tables s) = Some row \<and> P p row}"
    unfolding set_map [symmetric] keys set_eq_iff mem_Collect_eq using ids by blast
  show "agent_row art p (tables s) = Some row" if "(p, row) \<in> set (select_agents P art s)"
    using that by (auto simp: select_agents_def Let_def List.map_filter_def agent_row_def)
qed

text \<open>The environment that a win reads besides the tables.\<close>

definition sql_env :: "sqlite_registry \<Rightarrow> sqlite_registry \<Rightarrow> bool" where
  "sql_env s t \<longleftrightarrow> healthy t \<and> commit_ok t = commit_ok s \<and> scan t = scan s \<and> sq_wall_clock t = sq_wall_clock s \<and>
     sq_retain_versions t = sq_retain_versions s"

lemma revoke_step:
  assumes h: "healthy s" and sch: "schema_ok (tables s)" and row: "agent_row art p (tables s) = Some row"
    and s1_def: "s1 = sql_logged (LogRequest art p (row_state row) INVALID trig tick next_version None)
      (s\<lparr>tables := upsert_agent art p revoked_row (tables s)\<rparr>)"
  shows "wp (sql_invalidate_peer art trig tick next_version acc (p, row)) Q E s = Q (acc @ [p]) s1"
    and "sql_env s s1" and "schema_ok (tables s1)" and "artifacts_table (tables s1) = artifacts_table (tables s)"
    and "q \<noteq> p \<Longrightarrow> agent_row art q (tables s1) = agent_row art q (tables s)"
    and "abs_sql s1 = w_emits {#LogRequest art p (row_state row) INVALID trig tick next_version None#} (w_map art (v_revoke {p}) (abs_sql s))"
proof -
  have ex: "artifact_exists art (tables s)" using sch row unfolding schema_ok_def by blast
  have eq: "update_agent art p (\<lambda>r. r\<lparr>row_state := INVALID, row_granted_at_tick := (if row_state row \<in> M_OR_E_STATES then None
      else row_granted_at_tick row)\<rparr>) (tables s) = upsert_agent art p revoked_row (tables s)"
    using row by (simp add: update_agent_def upsert_agent_def insert_agent_def update_row_def agent_row_def row_or_blank_def
        revoked_row_def del: M_OR_E_iff)
  show "wp (sql_invalidate_peer art trig tick next_version acc (p, row)) Q E s = Q (acc @ [p]) s1"
    by (simp add: sql_invalidate_peer_def wp_simps Let_def eq wp_sql_emit h s1_def del: M_OR_E_iff)
  show "sql_env s s1" "schema_ok (tables s1)" "artifacts_table (tables s1) = artifacts_table (tables s)"
    using h sch ex by (simp_all add: sql_env_def s1_def sql_logged_frame schema_upsert_agent)
  show "agent_row art q (tables s1) = agent_row art q (tables s)" if "q \<noteq> p"
    using that by (simp add: agent_row_def s1_def sql_logged_frame upsert_agent_def insert_agent_def)
  have "v_agent p revoked_row = v_revoke {p}" by (simp add: fun_eq_iff v_agent_def v_revoke_def)
  then show "abs_sql s1 = w_emits {#LogRequest art p (row_state row) INVALID trig tick next_version None#} (w_map art (v_revoke {p}) (abs_sql s))"
    using h by (simp add: s1_def abs_sql_logged abs_upsert_agent w_emit_emits)
qed

lemma revoke_loop:
  assumes "healthy s" and "schema_ok (tables s)" and "distinct (map fst rows)"
    and "\<And>p row. (p, row) \<in> set rows \<Longrightarrow> agent_row art p (tables s) = Some row"
  shows "wp (for_loop rows (sql_invalidate_peer art trig tick next_version) acc)
    (\<lambda>peers t. peers = acc @ map fst rows \<and> sql_env s t \<and> schema_ok (tables t) \<and>
       artifacts_table (tables t) = artifacts_table (tables s) \<and>
       (\<forall>q. q \<notin> fst ` set rows \<longrightarrow> agent_row art q (tables t) = agent_row art q (tables s)) \<and>
       abs_sql t = w_emits (mset (map (\<lambda>(p, row). LogRequest art p (row_state row) INVALID trig tick next_version None) rows))
         (w_map art (v_revoke (fst ` set rows)) (abs_sql s)))
    (\<lambda>_ _. False) s"
  using assms
proof (induction rows arbitrary: s acc)
  case Nil
  have "v_revoke {} = (\<lambda>v. v)" by (simp add: v_revoke_def fun_eq_iff)
  with Nil show ?case by (simp add: wp_simps sql_env_def w_map_id w_emits_def)
next
  case (Cons x rows)
  obtain p row where x: "x = (p, row)" by (cases x)
  let ?q = "LogRequest art p (row_state row) INVALID trig tick next_version None"
  let ?s1 = "sql_logged ?q (s\<lparr>tables := upsert_agent art p revoked_row (tables s)\<rparr>)"
  have row: "agent_row art p (tables s) = Some row" using Cons.prems(4) x by simp
  note step = revoke_step [OF Cons.prems(1,2) row refl]
  have "healthy ?s1" using step(2) by (simp add: sql_env_def)
  moreover have "agent_row art i (tables ?s1) = Some r" if "(i, r) \<in> set rows" for i r
  proof -
    have "i \<noteq> p" using that Cons.prems(3) x by force
    with that show ?thesis using Cons.prems(4) [of i r] step(5) by simp
  qed
  ultimately have loop: "wp (for_loop rows (sql_invalidate_peer art trig tick next_version) (acc @ [p]))
    (\<lambda>peers t. peers = (acc @ [p]) @ map fst rows \<and> sql_env ?s1 t \<and> schema_ok (tables t) \<and>
       artifacts_table (tables t) = artifacts_table (tables ?s1) \<and>
       (\<forall>q. q \<notin> fst ` set rows \<longrightarrow> agent_row art q (tables t) = agent_row art q (tables ?s1)) \<and>
       abs_sql t = w_emits (mset (map (\<lambda>(p, row). LogRequest art p (row_state row) INVALID trig tick next_version None) rows))
         (w_map art (v_revoke (fst ` set rows)) (abs_sql ?s1)))
    (\<lambda>_ _. False) ?s1"
    using Cons.prems(3) step(3) by (intro Cons.IH) simp_all
  have union: "v_revoke (fst ` set rows) (v_revoke {p} v) = v_revoke (insert p (fst ` set rows)) v" for v
    using Cons.prems(3) x by (auto simp: v_revoke_def fun_eq_iff)
  show ?case
    unfolding x for_loop.simps wp_andthen step(1)
    by (rule wp_mono [OF loop])
      (use step in \<open>auto simp: sql_env_def w_emits_map w_map_map w_emits_w_emits union add.commute\<close>)
qed

lemma share_step:
  assumes h: "healthy s" and sch: "schema_ok (tables s)" and ex: "artifact_exists art (tables s)"
    and q_def: "q = LogRequest art ag (row_state (row_or_blank art (tables s) ag)) SHARED trig tick next_version (Some chash)"
    and s1_def: "s1 = sql_logged q (s\<lparr>tables := upsert_agent art ag (\<lambda>r. r\<lparr>row_state := SHARED,
      row_last_observed_version := Some next_version\<rparr>) (tables s)\<rparr>)"
  shows "wp (sql_share_committer art ag chash trig tick next_version) Q E s = Q () s1"
    and "sql_env s s1" and "schema_ok (tables s1)" and "artifacts_table (tables s1) = artifacts_table (tables s)"
    and "abs_sql s1 = w_emits {#q#} (w_map art (v_agent ag (\<lambda>r. r\<lparr>row_state := SHARED, row_last_observed_version := Some next_version\<rparr>)) (abs_sql s))"
proof -
  have keep: "r\<lparr>row_state := st, row_granted_at_tick := row_granted_at_tick r, row_last_observed_version := x\<rparr>
      = r\<lparr>row_state := st, row_last_observed_version := x\<rparr>" for r :: agent_state_row and st x
    by (cases r) simp
  show "wp (sql_share_committer art ag chash trig tick next_version) Q E s = Q () s1"
    by (cases "agent_row art ag (tables s)")
      (simp_all add: sql_share_committer_def wp_simps wp_sql_emit h s1_def q_def upsert_agent_def update_agent_def insert_agent_def
        update_row_def agent_row_def row_or_blank_def blank_row_def keep)
  show "sql_env s s1" "schema_ok (tables s1)" "artifacts_table (tables s1) = artifacts_table (tables s)"
    using h sch ex by (simp_all add: sql_env_def s1_def sql_logged_frame schema_upsert_agent)
  show "abs_sql s1 = w_emits {#q#} (w_map art (v_agent ag (\<lambda>r. r\<lparr>row_state := SHARED, row_last_observed_version := Some next_version\<rparr>)) (abs_sql s))"
    using h by (simp add: s1_def abs_sql_logged abs_upsert_agent w_emit_emits)
qed

lemma sql_env_trans: "sql_env s t \<Longrightarrow> sql_env t u \<Longrightarrow> sql_env s u"
  by (simp add: sql_env_def)

lemma capture_step:
  assumes h: "healthy s" and sch: "schema_ok (tables s)" and ex: "artifact_exists art (tables s)"
    and s1_def: "s1 = (case b of None \<Rightarrow> s | Some c \<Rightarrow> s\<lparr>tables := retain_tables s art ver c\<rparr>)"
  shows "wp (case b of None \<Rightarrow> ret () | Some c \<Rightarrow> (if sq_retain_versions s then capture_version_sql art ver c else ret ())) Q E s = Q () s1"
    and "sql_env s s1" and "schema_ok (tables s1)"
    and "abs_sql s1 = w_map art (\<lambda>v. case b of None \<Rightarrow> v | Some c \<Rightarrow> v_retain (abs_sql s) art ver c v) (abs_sql s)"
proof -
  show "wp (case b of None \<Rightarrow> ret () | Some c \<Rightarrow> (if sq_retain_versions s then capture_version_sql art ver c else ret ())) Q E s = Q () s1"
    using ex by (cases b) (simp_all add: s1_def wp_retain wp_simps del: wp_if)
  show "sql_env s s1" "schema_ok (tables s1)"
    using h sch ex by (cases b; simp add: s1_def sql_env_def schema_retain_tables)+
  show "abs_sql s1 = w_map art (\<lambda>v. case b of None \<Rightarrow> v | Some c \<Rightarrow> v_retain (abs_sql s) art ver c v) (abs_sql s)"
    using sch by (cases b) (simp_all add: s1_def abs_retain_tables w_map_id)
qed

lemma peer_rows:
  assumes h: "healthy s" and sch: "schema_ok (tables s)"
    and rows_def: "rows = select_agents (\<lambda>peer row. peer \<noteq> ag \<and> row_state row \<noteq> INVALID) art s"
    and v: "v_agents v = row_or_blank art (tables s)"
  shows "distinct (map fst rows)" and "(p, row) \<in> set rows \<Longrightarrow> agent_row art p (tables s) = Some row"
    and "fst ` set rows = v_peers ag v" and "mset (map fst rows) = mset_set (v_peers ag v)"
    and "mset (map (\<lambda>(p, row). LogRequest art p (row_state row) INVALID trig tick ver None) rows) =
      image_mset (\<lambda>p. LogRequest art p (row_state (v_agents v p)) INVALID trig tick ver None) (mset_set (v_peers ag v))"
proof -
  have "dict_wf (agent_states_table (tables s))" using sch by (simp add: schema_ok_def)
  note sel = select_agents_rows [OF h this, where P = "\<lambda>peer row. peer \<noteq> ag \<and> row_state row \<noteq> INVALID" and art = art, folded rows_def]
  show "distinct (map fst rows)" by (rule sel(1))
  show "agent_row art p (tables s) = Some row" if "(p, row) \<in> set rows" for p row by (rule sel(3) [OF that])
  show peers: "fst ` set rows = v_peers ag v"
    unfolding sel(2) v_peers_def v by (auto simp: row_or_blank_def blank_row_def split: option.splits)
  show mset_peers: "mset (map fst rows) = mset_set (v_peers ag v)"
    using sel(1) peers by (simp add: mset_set_set [symmetric] del: mset_map)
  let ?f = "\<lambda>p. LogRequest art p (row_state (v_agents v p)) INVALID trig tick ver None"
  have requests: "map (\<lambda>(p, row). LogRequest art p (row_state row) INVALID trig tick ver None) rows = map ?f (map fst rows)"
    using sel(3) by (auto simp: v row_or_blank_def)
  show "mset (map (\<lambda>(p, row). LogRequest art p (row_state row) INVALID trig tick ver None) rows) =
      image_mset ?f (mset_set (v_peers ag v))"
    unfolding requests mset_map [of ?f] mset_peers ..
qed

lemma v_won_at:
  assumes "w_artifacts w art = Some v" and "share = (\<lambda>r. r\<lparr>row_state := SHARED, row_last_observed_version := Some (v_version v + 1)\<rparr>)"
  shows "w_map art (v_won base art ag chash toks b) w =
    w_map art (\<lambda>x. case b of None \<Rightarrow> v_agent ag share (v_revoke (v_peers ag v) (v_bump ag chash toks x))
      | Some c \<Rightarrow> v_retain base art (v_version v + 1) c (v_agent ag share (v_revoke (v_peers ag v) (v_bump ag chash toks x)))) w"
proof (rule w_map_cong, goal_cases)
  case (1 x)
  with assms(1) have "x = v" by simp
  then show ?case
    by (cases b) (simp_all add: assms(2) v_won_def v_win_def v_share_def v_revoke_def v_bump_def)
qed

lemma sql_apply_win_meets:
  assumes h: "healthy s" and sch: "schema_ok (tables s)" and arow: "dict_get (artifacts_table (tables s)) art = Some arow"
    and v_def: "v = row_view art (tables s) arow"
  shows "wp (sql_apply_win art ag chash (resolved_size_tokens toks (row_size_tokens arow)) b tick trig (row_version arow + 1))
    (\<lambda>peers t. mset peers = mset_set (v_peers ag v) \<and> sql_env s t \<and> schema_ok (tables t) \<and>
       abs_sql t = w_emits (win_log art ag chash tick trig v) (w_map art (v_won (abs_sql s) art ag chash toks b) (abs_sql s)))
    (\<lambda>_ _. False) s"
proof -
  define bump :: "artifact_row \<Rightarrow> artifact_row" where "bump = (\<lambda>row. row\<lparr>row_version := row_version arow + 1, row_content_hash := chash,
     row_size_tokens := resolved_size_tokens toks (row_size_tokens arow), row_last_writer_id := Some ag, row_updated_at := sq_wall_clock s\<rparr>)"
  define s1 where "s1 = s\<lparr>tables := update_artifact art bump (tables s)\<rparr>"
  define share :: "agent_state_row \<Rightarrow> agent_state_row" where
    "share = (\<lambda>r. r\<lparr>row_state := SHARED, row_last_observed_version := Some (v_version v + 1)\<rparr>)"
  have ver: "row_version arow = v_version v" and v: "w_artifacts (abs_sql s) art = Some v" by (simp_all add: v_def arow)
  have h1: "healthy s1" and sch1: "schema_ok (tables s1)" and env1: "sql_env s s1"
    using h sch by (simp_all add: s1_def schema_update_artifact sql_env_def)
  have ex: "artifact_exists art (tables s1)" and agents: "v_agents v = row_or_blank art (tables s1)"
    using arow by (simp_all add: s1_def v_def artifact_exists_def update_artifact_def row_or_blank_def agent_row_def fun_eq_iff)
  have abs1: "abs_sql s1 = w_map art (v_bump ag chash toks) (abs_sql s)"
    unfolding s1_def
    by (rule abs_tables_artifact) (use arow in \<open>simp_all add: bump_def row_view_def v_bump_def\<close>)
  note rows = peer_rows [OF h1 sch1 refl agents]
  have ag: "ag \<notin> v_peers ag v" by (simp add: v_peers_def)
  show ?thesis
    unfolding sql_apply_win_def wp_simps bump_def [symmetric] s1_def [symmetric]
  proof (rule wp_mono [OF revoke_loop [OF h1 sch1 rows(1) rows(2)]], goal_cases)
    case (2 peers t)
    then have t: "mset peers = mset_set (v_peers ag v)" "sql_env s1 t" "schema_ok (tables t)" "artifact_exists art (tables t)"
      "row_or_blank art (tables t) ag = v_agents v ag"
      "abs_sql t = w_emits (image_mset (\<lambda>p. LogRequest art p (row_state (v_agents v p)) INVALID trig tick (v_version v + 1) None) (mset_set (v_peers ag v)))
         (w_map art (v_revoke (v_peers ag v)) (abs_sql s1))"
      using ag ex rows(4) unfolding rows(3) rows(5) by (simp_all add: agents artifact_exists_def row_or_blank_def ver)
    have ht: "healthy t" using t(2) by (simp add: sql_env_def)
    note sh = share_step [where next_version = "v_version v + 1" and ag = ag and trig = trig and tick = tick and chash = chash,
        OF ht t(3,4) refl refl, folded share_def, unfolded t(5)]
    let ?q = "LogRequest art ag (row_state (v_agents v ag)) SHARED trig tick (v_version v + 1) (Some chash)"
    let ?t1 = "sql_logged ?q (t\<lparr>tables := upsert_agent art ag share (tables t)\<rparr>)"
    have h2: "healthy ?t1" and ex2: "artifact_exists art (tables ?t1)"
      using sh(2,4) t(4) by (simp_all add: sql_env_def artifact_exists_def)
    note capture = capture_step [where b = b and ver = "v_version v + 1", OF h2 sh(3) ex2 refl]
    have "sql_env s (case b of None \<Rightarrow> ?t1 | Some c \<Rightarrow> ?t1\<lparr>tables := retain_tables ?t1 art (v_version v + 1) c\<rparr>)"
      using env1 t(2) sh(2) capture(2) by (blast intro: sql_env_trans)
    moreover have "abs_sql (case b of None \<Rightarrow> ?t1 | Some c \<Rightarrow> ?t1\<lparr>tables := retain_tables ?t1 art (v_version v + 1) c\<rparr>) =
        w_emits (win_log art ag chash tick trig v) (w_map art (v_won (abs_sql s) art ag chash toks b) (abs_sql s))"
      unfolding capture(4) sh(5) t(6) abs1 v_won_at [OF v share_def]
      by (cases b) (simp_all add: w_emits_map w_map_map w_emits_w_emits win_log_def)
    ultimately show ?case
      unfolding wp_simps ver sh(1) capture(1) using capture(3) t(1) by simp
  qed simp
qed

lemma sql_other_holder_view:
  assumes "schema_ok db"
  shows "sql_other_holder art ag db = v_held ag (row_view art db arow)"
proof -
  have wf: "dict_wf (agent_states_table db)" using assms by (simp add: schema_ok_def)
  have "sql_other_holder art ag db \<longleftrightarrow> (\<exists>p row. ((art, p), row) \<in> set (agent_states_table db) \<and> p \<noteq> ag \<and> row_state row \<in> M_OR_E_STATES)"
    by (force simp: sql_other_holder_def list_ex_iff)
  moreover have "row_state (row_or_blank art db p) \<in> M_OR_E_STATES \<longleftrightarrow>
      (\<exists>row. dict_get (agent_states_table db) (art, p) = Some row \<and> row_state row \<in> M_OR_E_STATES)" for p
    by (cases "dict_get (agent_states_table db) (art, p)") (simp_all add: row_or_blank_def agent_row_def blank_row_def)
  ultimately show ?thesis
    unfolding dict_in_set_get [OF wf] v_held_def row_view_fields by blast
qed

lemma sql_fenced_out_view: "sql_fenced_out art ag arow db = v_fenced ag (row_view art db arow)"
  by (simp add: sql_fenced_out_def v_fenced_def row_or_blank_def blank_row_def split: option.split)

lemma abs_count_conflict:
  "abs_sql (s\<lparr>tables := count_conflict_in_txn art ag why (tables s)\<rparr>) = w_count art ag why (abs_sql s)"
  by (cases "dict_get (conflict_counters_table (tables s)) (art, ag, why)")
    (simp_all add: count_conflict_in_txn_def w_count_def abs_sql_def fun_eq_iff)

lemma schema_count_conflict [simp]: "schema_ok (count_conflict_in_txn art ag why db) = schema_ok db"
  by (simp add: count_conflict_in_txn_def)

lemma sql_commit_cas_meets:
  assumes ok: "sql_ok s"
  shows "sql_meets canon_cas (sql_commit_cas art ag expected chash toks b tick trig) (spec_commit_cas art ag expected chash toks b tick trig) s"
  unfolding sql_commit_cas_def
proof (rule sql_meetsI [OF ok], cases "dict_get (artifacts_table (tables s)) art", goal_cases)
  case 1
  then show ?case by (simp add: wp_simps spec_commit_cas_def)
next
  case (2 arow)
  let ?s = "s\<lparr>seq_incremented := 0\<rparr>" and ?v = "row_view art (tables s) arow"
  have h: "healthy ?s" and sch: "schema_ok (tables ?s)" using ok by (simp_all add: sql_ok_def)
  have held: "sql_other_holder art ag (tables s) = v_held ag ?v" using sch sql_other_holder_view by simp
  have arow: "dict_get (artifacts_table (tables ?s)) art = Some arow" using 2 by simp
  note win = sql_apply_win_meets [OF h sch arow refl]
  show ?case
  proof (cases "v_arbitrate ag expected ?v = Admitted")
    case True
    then have adm: "expected = row_version arow" "\<not> v_held ag ?v" "\<not> v_fenced ag ?v"
      by (auto simp: v_arbitrate_def split: if_splits)
    have "wp (sql_apply_win art ag chash (resolved_size_tokens toks (row_size_tokens arow)) b tick trig (row_version arow + 1))
      (\<lambda>peers t. commit_ok t = commit_ok s \<and> sql_ok t \<and> spec_commit_cas art ag expected chash toks b tick trig (abs_sql s) =
        (Inr (canon_cas (CasWin \<lparr>art_id = art, art_name = row_name arow, art_version = row_version arow + 1, art_hash = Some chash,
           art_tokens = resolved_size_tokens toks (row_size_tokens arow), art_depends_on = []\<rparr> peers)), abs_sql t)) E ?s" for E
      by (rule wp_mono [OF win]) (use 2 True in \<open>auto simp: sql_ok_def sql_env_def spec_commit_cas_def\<close>)
    with 2 adm held show ?thesis by (simp add: wp_simps wp_ret [abs_def] Let_def sql_fenced_out_view)
  next
    case False
    with 2 held sch h show ?thesis
      by (auto simp: wp_simps deny_def Let_def sql_fenced_out_view v_arbitrate_def spec_commit_cas_def sql_ok_def
          abs_count_conflict [where s = ?s, simplified] split: if_splits)
  qed
qed

section \<open>Batches\<close>

fun w_check ::
  "uuid \<Rightarrow> registry_view \<Rightarrow> (uuid, CommitAllEntry) dict \<Rightarrow> (uuid, ConflictDetail) dict \<Rightarrow> py_error + check_outcome" where
  "w_check ag w [] conflicts = Inr (CheckConflicts conflicts)"
| "w_check ag w ((art, entry) # ws) conflicts =
     (case w_artifacts w art of
        None \<Rightarrow> Inl KeyError
      | Some v \<Rightarrow>
          (case v_arbitrate ag (entry_expected entry) v of
             Corrupt cur \<Rightarrow> Inr (CheckCorrupt cur)
           | Conflicting d \<Rightarrow> w_check ag w ws (dict_set art d conflicts)
           | Admitted \<Rightarrow> w_check ag w ws conflicts))"

definition w_member :: "uuid \<Rightarrow> int \<Rightarrow> string \<Rightarrow> registry_view \<Rightarrow> uuid \<times> CommitAllEntry \<Rightarrow> registry_view \<Rightarrow> registry_view" where
  "w_member ag tick trig w0 = (\<lambda>(art, e) w.
     case w_artifacts w0 art of None \<Rightarrow> w
     | Some v \<Rightarrow> w_emits (win_log art ag (entry_hash e) tick trig v)
         (w_map art (v_won w0 art ag (entry_hash e) (entry_tokens e) (entry_content e)) w))"

datatype multi_view =
    MultiViewWin "(uuid, int) dict" "(uuid, uuid multiset) dict"
  | MultiViewConflict "(uuid, ConflictDetail) dict"
  | MultiViewCorruption int

fun canon_multi :: "multi_result \<Rightarrow> multi_view" where
  "canon_multi (MultiWin res) = MultiViewWin (mcr_versions res) (map (\<lambda>(art, ps). (art, mset ps)) (mcr_invalidated res))"
| "canon_multi (MultiCommitConflict cs) = MultiViewConflict cs"
| "canon_multi (MultiCorruption cur) = MultiViewCorruption cur"

definition batch_versions :: "registry_view \<Rightarrow> (uuid, CommitAllEntry) dict \<Rightarrow> (uuid, int) dict" where
  "batch_versions w writes = map (\<lambda>(art, e). (art, v_version (the (w_artifacts w art)) + 1)) writes"

definition batch_peers :: "uuid \<Rightarrow> registry_view \<Rightarrow> (uuid, CommitAllEntry) dict \<Rightarrow> (uuid, uuid multiset) dict" where
  "batch_peers ag w writes =
     map (\<lambda>(art, e). (art, mset_set (v_peers ag (the (w_artifacts w art)))))
       (filter (\<lambda>(art, e). mset_set (v_peers ag (the (w_artifacts w art))) \<noteq> {#}) writes)"

definition spec_commit_all ::
  "uuid \<Rightarrow> (uuid, CommitAllEntry) dict \<Rightarrow> int \<Rightarrow> string \<Rightarrow> (registry_view, py_error, multi_view) py" where
  "spec_commit_all ag writes tick trig =
     (\<lambda>w. if writes = [] then (Inl ValueError, w)
          else case w_check ag w writes [] of
            Inl e \<Rightarrow> (Inl e, w)
          | Inr (CheckCorrupt cur) \<Rightarrow> (Inr (MultiViewCorruption cur), w)
          | Inr (CheckConflicts cs) \<Rightarrow>
              (if cs \<noteq> [] then (Inr (MultiViewConflict cs), fold (\<lambda>(art, d). w_count art ag (detail_reason d)) cs w)
               else (Inr (MultiViewWin (batch_versions w writes) (batch_peers ag w writes)),
                     fold (w_member ag tick trig w) writes w)))"

lemma w_check_mem:
  assumes "mem_ok g"
  shows "check_members ag g ws conflicts = w_check ag (abs_mem g) ws conflicts"
proof (induction ws arbitrary: conflicts)
  case (Cons x ws)
  obtain art e where x: "x = (art, e)" by (cases x)
  show ?case
  proof (cases "dict_get (records g) art")
    case (Some r)
    with assms have "dict_wf (state_by_agent r)" by (auto simp: mem_ok_def rec_wf_def)
    with Some x Cons.IH show ?thesis by (simp add: arbitrate_view split: verdict.split)
  qed (simp add: x)
qed simp

lemma w_check_sql:
  assumes "schema_ok (tables s)"
  shows "sql_check_members ag (tables s) ws conflicts = w_check ag (abs_sql s) ws conflicts"
proof (induction ws arbitrary: conflicts)
  case (Cons x ws)
  obtain art e where x: "x = (art, e)" by (cases x)
  show ?case
    using Cons.IH sql_other_holder_view [OF assms]
    by (cases "dict_get (artifacts_table (tables s)) art") (auto simp: x v_arbitrate_def Let_def sql_fenced_out_view)
qed simp

lemma w_check_clean:
  "w_check ag w ws cs = Inr (CheckConflicts []) \<Longrightarrow> (art, e) \<in> set ws \<Longrightarrow> w_artifacts w art \<noteq> None"
  by (induction ag w ws cs rule: w_check.induct) (auto split: option.splits verdict.splits)

lemma v_won_frame [simp]:
  "v_won (w_emits Q w) = v_won w" "v_won (w_map i F w) = v_won w" "v_won (w_set i u w) = v_won w"
  by (simp_all add: v_won_def fun_eq_iff split: option.split)

lemma w_member_frame:
  assumes "i \<noteq> art"
  shows "w_artifacts (w_member ag tick trig w0 (art, e) w) i = w_artifacts w i"
  using assms by (simp add: w_member_def w_map_def split: option.split)

lemma v_won_member [simp]: "v_won (w_member ag tick trig w0 x w) = v_won w"
  by (cases x) (simp add: w_member_def split: option.split)

lemma dict_set_absent: "k \<notin> fst ` set d \<Longrightarrow> dict_set k v d = d @ [(k, v)]"
  by (induction d) auto

subsection \<open>The tables\<close>

lemma sql_member_step:
  assumes h: "healthy t" and sch: "schema_ok (tables t)" and v: "w_artifacts (abs_sql t) art = Some v"
    and cur: "map_option (row_view art db) (dict_get (artifacts_table db) art) = Some v"
  shows "wp (sql_apply_member ag tick trig db acc (art, e))
    (\<lambda>res t'. sql_env t t' \<and> schema_ok (tables t') \<and>
       abs_sql t' = w_emits (win_log art ag (entry_hash e) tick trig v)
         (w_map art (v_won (abs_sql t) art ag (entry_hash e) (entry_tokens e) (entry_content e)) (abs_sql t)) \<and>
       (\<exists>peers. mset peers = mset_set (v_peers ag v) \<and>
          res = \<lparr>mcr_versions = dict_set art (v_version v + 1) (mcr_versions acc),
                 mcr_invalidated = (if peers \<noteq> [] then dict_set art peers (mcr_invalidated acc) else mcr_invalidated acc)\<rparr>))
    (\<lambda>_ _. False) t"
proof -
  obtain arow where arow: "dict_get (artifacts_table (tables t)) art = Some arow" "row_view art (tables t) arow = v"
    using v by auto
  obtain crow where crow: "dict_get (artifacts_table db) art = Some crow" "row_view art db crow = v" using cur by auto
  have same: "row_version crow = row_version arow" "row_size_tokens crow = row_size_tokens arow"
    using arow(2) crow(2) by (auto simp: row_view_def)
  have ver: "v_version v = row_version arow" using arow(2) by (auto simp: row_view_def)
  show ?thesis
    unfolding sql_apply_member_def prod.case crow(1) option.case wp_andthen same ver
  proof (rule wp_mono [OF sql_apply_win_meets [OF h sch arow(1) arow(2) [symmetric]]], goal_cases)
    case (1 peers t')
    then show ?case unfolding wp_ret by (intro conjI exI [of _ peers]) simp_all
  qed
qed

lemma sql_batch_loop:
  assumes "healthy t" and "schema_ok (tables t)" and "dict_wf ws"
    and "\<And>art e. (art, e) \<in> set ws \<Longrightarrow> w_artifacts (abs_sql t) art = w_artifacts (abs_sql base) art \<and> w_artifacts (abs_sql base) art \<noteq> None"
    and "v_won (abs_sql t) = v_won (abs_sql base)"
    and "fst ` set (mcr_versions acc) \<inter> fst ` set ws = {}" and "fst ` set (mcr_invalidated acc) \<inter> fst ` set ws = {}"
  shows "wp (for_loop ws (sql_apply_member ag tick trig (tables base)) acc)
    (\<lambda>res t'. sql_env t t' \<and> schema_ok (tables t') \<and> abs_sql t' = fold (w_member ag tick trig (abs_sql base)) ws (abs_sql t) \<and>
       mcr_versions res = mcr_versions acc @ batch_versions (abs_sql base) ws \<and>
       map (\<lambda>(art, ps). (art, mset ps)) (mcr_invalidated res) =
         map (\<lambda>(art, ps). (art, mset ps)) (mcr_invalidated acc) @ batch_peers ag (abs_sql base) ws)
    (\<lambda>_ _. False) t"
  using assms
proof (induction ws arbitrary: t acc)
  case Nil
  then show ?case by (simp add: wp_simps sql_env_def batch_versions_def batch_peers_def)
next
  case (Cons x ws)
  obtain art e where x: "x = (art, e)" by (cases x)
  obtain v where v: "w_artifacts (abs_sql base) art = Some v" "w_artifacts (abs_sql t) art = Some v"
    using Cons.prems(4) [of art e] x by auto
  have new: "art \<notin> fst ` set ws" "art \<notin> fst ` set (mcr_versions acc)" "art \<notin> fst ` set (mcr_invalidated acc)"
    using Cons.prems(3,6,7) x by auto
  have cur: "map_option (row_view art (tables base)) (dict_get (artifacts_table (tables base)) art) = Some v" using v(1) by simp
  show ?case
    unfolding x for_loop.simps wp_andthen
  proof (rule wp_mono [OF sql_member_step [OF Cons.prems(1,2) v(2) cur]], goal_cases)
    case (1 res t')
    then obtain peers where t': "sql_env t t'" "schema_ok (tables t')"
      "abs_sql t' = w_member ag tick trig (abs_sql base) (art, e) (abs_sql t)"
      and peers: "mset peers = mset_set (v_peers ag v)"
      and res: "mcr_versions res = mcr_versions acc @ [(art, v_version v + 1)]"
        "mcr_invalidated res = (if peers \<noteq> [] then mcr_invalidated acc @ [(art, peers)] else mcr_invalidated acc)"
      using v(1) Cons.prems(5) new by (auto simp: w_member_def dict_set_absent)
    have "healthy t'" using t'(1) by (simp add: sql_env_def)
    then have "wp (for_loop ws (sql_apply_member ag tick trig (tables base)) res)
      (\<lambda>res' t''. sql_env t' t'' \<and> schema_ok (tables t'') \<and> abs_sql t'' = fold (w_member ag tick trig (abs_sql base)) ws (abs_sql t') \<and>
         mcr_versions res' = mcr_versions res @ batch_versions (abs_sql base) ws \<and>
         map (\<lambda>(art, ps). (art, mset ps)) (mcr_invalidated res') =
           map (\<lambda>(art, ps). (art, mset ps)) (mcr_invalidated res) @ batch_peers ag (abs_sql base) ws)
      (\<lambda>_ _. False) t'"
    proof (rule Cons.IH [OF _ t'(2)], goal_cases)
      case 1
      then show ?case using Cons.prems(3) by simp
    next
      case (2 i f)
      then have "i \<noteq> art" using new(1) by force
      with 2 show ?case using Cons.prems(4) [of i f] unfolding t'(3) by (simp add: w_member_frame)
    next
      case 3
      show ?case unfolding t'(3) using Cons.prems(5) by simp
    next
      case 4
      show ?case using Cons.prems(6) new(1) unfolding res x by auto
    next
      case 5
      show ?case using Cons.prems(7) new(1) unfolding res x by auto
    qed
    moreover have "peers = [] \<longleftrightarrow> mset_set (v_peers ag v) = {#}" using peers by (metis mset_zero_iff)
    ultimately show ?case
      using t' res peers v(1)
      by (elim wp_mono) (auto simp: sql_env_def batch_versions_def batch_peers_def)
  qed simp
qed

lemma abs_count_conflicts:
  "abs_sql (s\<lparr>tables := fold (\<lambda>(art, d). count_conflict_in_txn art ag (detail_reason d)) cs (tables s)\<rparr>) =
     fold (\<lambda>(art, d). w_count art ag (detail_reason d)) cs (abs_sql s)"
proof (induction cs arbitrary: s)
  case (Cons c cs)
  obtain art d where c: "c = (art, d)" by (cases c)
  show ?case
    using Cons.IH [of "s\<lparr>tables := count_conflict_in_txn art ag (detail_reason d) (tables s)\<rparr>"]
    by (simp add: c abs_count_conflict)
qed simp

lemma schema_count_conflicts:
  "schema_ok (fold (\<lambda>(art, d). count_conflict_in_txn art ag (detail_reason d)) cs db) = schema_ok db"
  by (induction cs arbitrary: db) (simp_all add: split_def)

lemma sql_commit_all_meets:
  assumes ok: "sql_ok s" and wf: "dict_wf writes"
  shows "sql_meets canon_multi (sql_commit_all ag writes tick trig) (spec_commit_all ag writes tick trig) s"
proof (cases "writes = []")
  case True
  with ok show ?thesis by (simp add: sql_commit_all_def spec_commit_all_def meets_def wp_simps)
next
  case False
  let ?s = "s\<lparr>seq_incremented := 0\<rparr>"
  have h: "healthy ?s" and sch: "schema_ok (tables ?s)" using ok by (simp_all add: sql_ok_def)
  have check: "sql_check_members ag (tables s) writes [] = w_check ag (abs_sql s) writes []"
    using w_check_sql [of ?s] sch by simp
  have win: "wp (for_loop writes (sql_apply_member ag tick trig (tables s)) \<lparr>mcr_versions = [], mcr_invalidated = []\<rparr>)
    (\<lambda>res t. commit_ok t = commit_ok s \<and> sql_ok t \<and> spec_commit_all ag writes tick trig (abs_sql s) = (Inr (canon_multi (MultiWin res)), abs_sql t))
    E ?s" if clean: "w_check ag (abs_sql s) writes [] = Inr (CheckConflicts [])" for E
  proof (rule wp_mono [OF sql_batch_loop [OF h sch wf, where base = s]], goal_cases)
    case (1 art e)
    then show ?case using w_check_clean [OF clean] by simp
  next
    case (5 res t)
    with clean False show ?case by (simp add: sql_ok_def sql_env_def spec_commit_all_def)
  qed simp_all
  show ?thesis
  proof (cases "w_check ag (abs_sql s) writes [] = Inr (CheckConflicts [])")
    case True
    from win [OF True] show ?thesis
      unfolding sql_commit_all_def using False
      by (simp add: sql_meetsI [OF ok] wp_simps wp_ret [abs_def] check True)
  next
    case bad: False
    show ?thesis
      unfolding sql_commit_all_def if_not_P [OF False]
    proof (rule sql_meetsI [OF ok], cases "w_check ag (abs_sql s) writes []", goal_cases)
      case (1 e)
      then show ?case using False by (simp add: wp_simps check spec_commit_all_def)
    next
      case (2 out)
      then show ?case
        using False bad h sch
        by (cases out) (simp_all add: wp_simps check spec_commit_all_def sql_ok_def schema_count_conflicts
            abs_count_conflicts [where s = ?s, simplified])
    qed
  qed
qed

subsection \<open>The in-memory registry\<close>

definition batch_log :: "uuid \<Rightarrow> int \<Rightarrow> string \<Rightarrow> registry_view \<Rightarrow> (uuid, CommitAllEntry) dict \<Rightarrow> log_request multiset" where
  "batch_log ag tick trig w ws =
     sum_list (map (\<lambda>(art, e). win_log art ag (entry_hash e) tick trig (the (w_artifacts w art))) ws)"

definition batch_maps :: "uuid \<Rightarrow> registry_view \<Rightarrow> (uuid, CommitAllEntry) dict \<Rightarrow> registry_view \<Rightarrow> registry_view" where
  "batch_maps ag base = fold (\<lambda>(art, e). w_map art (v_won base art ag (entry_hash e) (entry_tokens e) (entry_content e)))"

lemma batch_maps_emits: "batch_maps ag base ws (w_emits Q w) = w_emits Q (batch_maps ag base ws w)"
  by (induction ws arbitrary: w) (auto simp: batch_maps_def w_emits_map)

lemma fold_w_member:
  assumes "\<And>art e. (art, e) \<in> set ws \<Longrightarrow> w_artifacts base art \<noteq> None"
  shows "fold (w_member ag tick trig base) ws w = w_emits (batch_log ag tick trig base ws) (batch_maps ag base ws w)"
  using assms
proof (induction ws arbitrary: w)
  case Nil
  then show ?case by (simp add: batch_log_def batch_maps_def w_emits_def)
next
  case (Cons x ws)
  obtain art e where x: "x = (art, e)" by (cases x)
  obtain v where v: "w_artifacts base art = Some v" using Cons.prems [of art e] x by auto
  let ?F = "v_won base art ag (entry_hash e) (entry_tokens e) (entry_content e)"
  have "w_artifacts base i \<noteq> None" if "(i, f) \<in> set ws" for i f
    using Cons.prems [of i f] that by simp
  note ih = Cons.IH [OF this]
  have "w_member ag tick trig base x w = w_emits (win_log art ag (entry_hash e) tick trig v) (w_map art ?F w)"
    by (simp add: x v w_member_def)
  then have "fold (w_member ag tick trig base) (x # ws) w =
      w_emits (win_log art ag (entry_hash e) tick trig v + batch_log ag tick trig base ws) (batch_maps ag base ws (w_map art ?F w))"
    by (simp add: ih batch_maps_emits w_emits_w_emits)
  then show ?case by (simp add: batch_log_def batch_maps_def x v)
qed

lemma mem_batch_records:
  assumes "mem_ok h" and ok: "mem_ok g" and "dict_wf ws" and "same_env g h"
    and "\<And>art e. (art, e) \<in> set ws \<Longrightarrow> dict_get (records h) art = dict_get (records g) art \<and> dict_get (records g) art \<noteq> None"
  shows "mem_ok (fold (apply_staged ag) (stage_members ag tick trig g ws) h) \<and>
    abs_mem (fold (apply_staged ag) (stage_members ag tick trig g ws) h) = batch_maps ag (abs_mem g) ws (abs_mem h)"
  using assms(1,3,4,5)
proof (induction ws arbitrary: h)
  case Nil
  then show ?case by (simp add: batch_maps_def)
next
  case (Cons x ws)
  obtain art e where x: "x = (art, e)" by (cases x)
  obtain r where r: "dict_get (records g) art = Some r" "dict_get (records h) art = Some r"
    using Cons.prems(4) [of art e] x by auto
  let ?h = "put_record art (member_record g ag art e r) h"
  have wf: "rec_wf art r" using ok r(1) by (simp add: mem_ok_def)
  have step: "apply_staged ag (stage_member ag tick trig art e r) h = ?h"
    by (rule apply_staged_member [OF r(2) Cons.prems(3)])
  have ok': "mem_ok ?h"
    unfolding member_record_def by (rule mem_ok_put [OF Cons.prems(1)]) (rule mem_view_won_record(2) [OF ok wf])
  have env: "same_env g ?h" by (rule same_env_trans [OF Cons.prems(3) same_env_put])
  have rest: "dict_get (records ?h) i = dict_get (records g) i \<and> dict_get (records g) i \<noteq> None" if "(i, f) \<in> set ws" for i f
  proof -
    have "i \<noteq> art" using that Cons.prems(2) x by force
    then show ?thesis using Cons.prems(4) [of i f] that by simp
  qed
  have "abs_mem ?h = w_map art (v_won (abs_mem g) art ag (entry_hash e) (entry_tokens e) (entry_content e)) (abs_mem h)"
    using r(2) by (simp add: abs_mem_put member_record_def mem_view_won_record(1) [OF ok wf] w_set_map [where v = "mem_view r"])
  with Cons.IH [OF ok' _ env rest] Cons.prems(2) show ?case
    by (simp add: x r(1) step batch_maps_def)
qed

lemma stage_members_view:
  assumes ok: "mem_ok g" and "\<And>art e. (art, e) \<in> set ws \<Longrightarrow> dict_get (records g) art \<noteq> None"
  shows "mset (concat (map st_requests (stage_members ag tick trig g ws))) = batch_log ag tick trig (abs_mem g) ws"
    and "canon_multi (MultiWin (multi_commit_result (stage_members ag tick trig g ws))) =
      MultiViewWin (batch_versions (abs_mem g) ws) (batch_peers ag (abs_mem g) ws)"
proof -
  have *: "mset (concat (map st_requests (stage_members ag tick trig g ws))) = batch_log ag tick trig (abs_mem g) ws \<and>
    canon_multi (MultiWin (multi_commit_result (stage_members ag tick trig g ws))) =
      MultiViewWin (batch_versions (abs_mem g) ws) (batch_peers ag (abs_mem g) ws)"
    using assms(2)
  proof (induction ws)
    case Nil
    then show ?case by (simp add: batch_log_def batch_versions_def batch_peers_def multi_commit_result_def)
  next
    case (Cons x ws)
    obtain art e where x: "x = (art, e)" by (cases x)
    obtain r where r: "dict_get (records g) art = Some r" using Cons.prems [of art e] x by auto
    have wf: "dict_wf (state_by_agent r)" using ok r by (auto simp: mem_ok_def rec_wf_def)
    have ih: "mset (concat (map st_requests (stage_members ag tick trig g ws))) = batch_log ag tick trig (abs_mem g) ws \<and>
      canon_multi (MultiWin (multi_commit_result (stage_members ag tick trig g ws))) =
        MultiViewWin (batch_versions (abs_mem g) ws) (batch_peers ag (abs_mem g) ws)"
    proof (rule Cons.IH)
      show "dict_get (records g) i \<noteq> None" if "(i, f) \<in> set ws" for i f using Cons.prems [of i f] that by simp
    qed
    have peers: "mset (map fst (valid_peers ag r)) = mset_set (v_peers ag (mem_view r))" by (rule valid_peers_view(1) [OF wf])
    then have "valid_peers ag r = [] \<longleftrightarrow> mset_set (v_peers ag (mem_view r)) = {#}"
      by (metis Nil_is_map_conv mset_zero_iff)
    then show ?case
      using ih peers win_requests_view [OF wf]
      by (simp add: x r stage_member_def batch_log_def batch_versions_def batch_peers_def multi_commit_result_def bumped_artifact_def)
  qed
  from * show "mset (concat (map st_requests (stage_members ag tick trig g ws))) = batch_log ag tick trig (abs_mem g) ws" ..
  from * show "canon_multi (MultiWin (multi_commit_result (stage_members ag tick trig g ws))) =
      MultiViewWin (batch_versions (abs_mem g) ws) (batch_peers ag (abs_mem g) ws)" ..
qed

lemma mem_ok_note_conflicts:
  "mem_ok (fold (\<lambda>(art, d). note_conflict art ag (detail_reason d)) cs g) = mem_ok g"
  "abs_mem (fold (\<lambda>(art, d). note_conflict art ag (detail_reason d)) cs g) =
     fold (\<lambda>(art, d). w_count art ag (detail_reason d)) cs (abs_mem g)"
  by (induction cs arbitrary: g) (simp_all add: split_def abs_note_conflict)

lemma mem_commit_all:
  assumes ok: "mem_ok g" and wf: "dict_wf writes"
  shows "mem_meets canon_multi (reg_commit_all ag writes tick trig) (spec_commit_all ag writes tick trig) g"
proof (cases "writes \<noteq> [] \<and> w_check ag (abs_mem g) writes [] = Inr (CheckConflicts [])")
  case True
  then have known: "dict_get (records g) art \<noteq> None" if "(art, e) \<in> set writes" for art e
    using w_check_clean [of ag "abs_mem g" writes "[]" art e] that by simp
  let ?ss = "stage_members ag tick trig g writes"
  from ok have "log_ok g" by (simp add: mem_ok_def)
  from emit_batch_accepted [OF this, of "concat (map st_requests ?ss)" 0] obtain k g' where
    emit: "emit_batch (concat (map st_requests ?ss)) 0 g = (Inr k, g')"
      "abs_mem g' = fold w_emit (concat (map st_requests ?ss)) (abs_mem g)" "log_step g g'" by blast
  have run: "reg_commit_all ag writes tick trig g = (Inr (MultiWin (multi_commit_result ?ss)), fold (apply_staged ag) ?ss g')"
    using True emit(1) by (simp add: reg_commit_all_def w_check_mem [OF ok] py_defs Let_def)
  have env: "same_env g g'" and recs: "records g' = records g" using emit(3) by (auto simp: log_step_def)
  have "mem_ok g'" using ok mem_ok_log_step [OF emit(3)] by simp
  from mem_batch_records [OF this ok wf env] known recs
  have post: "mem_ok (fold (apply_staged ag) ?ss g')" "abs_mem (fold (apply_staged ag) ?ss g') = batch_maps ag (abs_mem g) writes (abs_mem g')"
    by simp_all
  have "abs_mem (fold (apply_staged ag) ?ss g') = fold (w_member ag tick trig (abs_mem g)) writes (abs_mem g)"
    using known by (simp add: post(2) emit(2) fold_w_emit stage_members_view(1) [OF ok known] batch_maps_emits fold_w_member)
  with True run post(1) stage_members_view(2) [OF ok known] show ?thesis
    by (simp add: meets_def wp_def spec_commit_all_def)
next
  case False
  with ok show ?thesis
    by (cases "w_check ag (abs_mem g) writes []")
      (auto simp: meets_def wp_def reg_commit_all_def spec_commit_all_def w_check_mem [OF ok] mem_ok_note_conflicts
        split: check_outcome.splits)
qed

end
