(* ===== verification/Sqlite_Parity.thy ===== *)
theory Sqlite_Parity
  imports Sqlite_Commits
begin

text \<open>
  The two registries are interchangeable. A call of the registry protocol is a value of \<open>registry_call\<close>; the locale
  \<open>registry_contract\<close> says that an implementation answers every admissible call as the contract does, and that it
  therefore answers every sequence of calls so. It is interpreted on the in-memory registry and on the
  tables.
\<close>

declare map_of_eq_Some_iff [simp del] Some_eq_map_of_iff [simp del]

section \<open>Calls\<close>

datatype registry_call =
    RegisterArtifact Artifact body
  | SetArtifactAndContent uuid Artifact body "uuid option" "uuid option"
  | RemoveArtifact uuid
  | SetAgentState uuid uuid MESIState string int "string option"
  | SetAgentTransient uuid uuid TransientState int
  | ClearAgentTransient uuid uuid
  | RecordHeartbeat uuid int
  | RecordLastReclamation uuid uuid string int
  | RegistryCommitCas uuid uuid int string "int option" "body option" int string
  | RegistryCommitAll uuid "(uuid, CommitAllEntry) dict" int string
  | CaptureVersionVector "uuid list" string "uuid option" "int option"
  | ReleaseSession string

datatype reply = Done | CasReply cas_result | MultiReply multi_result | CutReply capture_result

datatype reply_view = DoneView | CasView cas_view | MultiView multi_view | CutView capture_result

fun canon_reply :: "reply \<Rightarrow> reply_view" where
  "canon_reply Done = DoneView"
| "canon_reply (CasReply c) = CasView (canon_cas c)"
| "canon_reply (MultiReply c) = MultiView (canon_multi c)"
| "canon_reply (CutReply c) = CutView c"

definition replying :: "('s, 'e, 'a) py \<Rightarrow> ('a \<Rightarrow> 'b) \<Rightarrow> ('s, 'e, 'b) py" where
  "replying m f = andthen m (\<lambda>a. ret (f a))"

fun mem_call :: "registry_call \<Rightarrow> reply rop" where
  "mem_call (RegisterArtifact a b) = replying (reg_register_artifact a b) (\<lambda>_. Done)"
| "mem_call (SetArtifactAndContent art a b writer fence) = replying (set_artifact_and_content art a b writer fence) (\<lambda>_. Done)"
| "mem_call (RemoveArtifact art) = replying (remove_artifact art) (\<lambda>_. Done)"
| "mem_call (SetAgentState art ag st trig tick chash) = replying (set_agent_state art ag st trig tick chash) (\<lambda>_. Done)"
| "mem_call (SetAgentTransient art ag ts entered) = replying (set_agent_transient art ag ts entered) (\<lambda>_. Done)"
| "mem_call (ClearAgentTransient art ag) = replying (clear_agent_transient art ag) (\<lambda>_. Done)"
| "mem_call (RecordHeartbeat ag now) = replying (reg_record_heartbeat ag now) (\<lambda>_. Done)"
| "mem_call (RecordLastReclamation ag art trig tick) = replying (record_last_reclamation ag art trig tick) (\<lambda>_. Done)"
| "mem_call (RegistryCommitCas art ag expected chash toks b tick trig) =
     replying (reg_commit_cas art ag expected chash toks b tick trig) CasReply"
| "mem_call (RegistryCommitAll ag writes tick trig) = replying (reg_commit_all ag writes tick trig) MultiReply"
| "mem_call (CaptureVersionVector read_set token owner created) =
     replying (capture_version_vector read_set token owner created) CutReply"
| "mem_call (ReleaseSession token) = replying (release_session token) (\<lambda>_. Done)"

fun sql_call :: "registry_call \<Rightarrow> reply qop" where
  "sql_call (RegisterArtifact a b) = replying (sql_register_artifact a b) (\<lambda>_. Done)"
| "sql_call (SetArtifactAndContent art a b writer fence) = replying (sql_set_artifact_and_content art a b writer fence) (\<lambda>_. Done)"
| "sql_call (RemoveArtifact art) = replying (sql_remove_artifact art) (\<lambda>_. Done)"
| "sql_call (SetAgentState art ag st trig tick chash) = replying (sql_set_agent_state art ag st trig tick chash) (\<lambda>_. Done)"
| "sql_call (SetAgentTransient art ag ts entered) = replying (sql_set_agent_transient art ag ts entered) (\<lambda>_. Done)"
| "sql_call (ClearAgentTransient art ag) = replying (sql_clear_agent_transient art ag) (\<lambda>_. Done)"
| "sql_call (RecordHeartbeat ag now) = replying (sql_record_heartbeat ag now) (\<lambda>_. Done)"
| "sql_call (RecordLastReclamation ag art trig tick) = replying (sql_record_last_reclamation ag art trig tick) (\<lambda>_. Done)"
| "sql_call (RegistryCommitCas art ag expected chash toks b tick trig) =
     replying (sql_commit_cas art ag expected chash toks b tick trig) CasReply"
| "sql_call (RegistryCommitAll ag writes tick trig) = replying (sql_commit_all ag writes tick trig) MultiReply"
| "sql_call (CaptureVersionVector read_set token owner created) =
     replying (sql_capture_version_vector read_set token owner created) CutReply"
| "sql_call (ReleaseSession token) = replying (sql_release_session token) (\<lambda>_. Done)"

fun spec_call :: "registry_call \<Rightarrow> (registry_view, py_error, reply_view) py" where
  "spec_call (RegisterArtifact a b) = replying (spec_register_artifact a b) (\<lambda>_. DoneView)"
| "spec_call (SetArtifactAndContent art a b writer fence) = replying (spec_set_artifact_and_content art a b writer fence) (\<lambda>_. DoneView)"
| "spec_call (RemoveArtifact art) = replying (spec_remove_artifact art) (\<lambda>_. DoneView)"
| "spec_call (SetAgentState art ag st trig tick chash) = replying (spec_set_agent_state art ag st trig tick chash) (\<lambda>_. DoneView)"
| "spec_call (SetAgentTransient art ag ts entered) = replying (spec_row art ag (transient_row (Some ts) (Some entered))) (\<lambda>_. DoneView)"
| "spec_call (ClearAgentTransient art ag) = replying (spec_row art ag (transient_row None None)) (\<lambda>_. DoneView)"
| "spec_call (RecordHeartbeat ag now) = replying (spec_record_heartbeat ag now) (\<lambda>_. DoneView)"
| "spec_call (RecordLastReclamation ag art trig tick) = replying (spec_row art ag (reclaim_row trig tick)) (\<lambda>_. DoneView)"
| "spec_call (RegistryCommitCas art ag expected chash toks b tick trig) =
     replying (spec_commit_cas art ag expected chash toks b tick trig) CasView"
| "spec_call (RegistryCommitAll ag writes tick trig) = replying (spec_commit_all ag writes tick trig) MultiView"
| "spec_call (CaptureVersionVector read_set token owner created) =
     replying (spec_capture_version_vector read_set token owner created) CutView"
| "spec_call (ReleaseSession token) = replying (spec_release_session token) (\<lambda>_. DoneView)"

text \<open>
  Which calls the contract covers. Where it does not, the two differ: the tables refuse a second artifact of one
  identifier or name, raise or ignore instead of raising \<open>KeyError\<close> for an unknown artifact, and
  drop a reclamation slot of a pair that has no row.
\<close>

fun allowed :: "registry_call \<Rightarrow> registry_view \<Rightarrow> bool" where
  "allowed (RegisterArtifact a b) w \<longleftrightarrow> w_artifacts w (art_id a) = None \<and> name_free (art_name a) (art_id a) w"
| "allowed (SetArtifactAndContent art a b writer fence) w \<longleftrightarrow>
     w_artifacts w art \<noteq> None \<and> art_id a = art \<and> name_free (art_name a) art w"
| "allowed (SetAgentTransient art ag ts entered) w \<longleftrightarrow> w_artifacts w art \<noteq> None"
| "allowed (ClearAgentTransient art ag) w \<longleftrightarrow> w_artifacts w art \<noteq> None"
| "allowed (RecordLastReclamation ag art trig tick) w \<longleftrightarrow>
     (\<exists>v. w_artifacts w art = Some v \<and> v_agents v ag \<noteq> blank_row INVALID)"
| "allowed (RegistryCommitAll ag writes tick trig) w \<longleftrightarrow> dict_wf writes"
| "allowed (CaptureVersionVector read_set token owner created) w \<longleftrightarrow> (\<forall>art. w_pins w token art = None)"
| "allowed _ w \<longleftrightarrow> True"

section \<open>Sequences of calls\<close>

fun run_calls :: "('c \<Rightarrow> ('s, 'e, 'a) py) \<Rightarrow> 'c list \<Rightarrow> 's \<Rightarrow> ('e + 'a) list \<times> 's" where
  "run_calls call [] s = ([], s)"
| "run_calls call (c # cs) s =
     (case call c s of (r, t) \<Rightarrow> (case run_calls call cs t of (rs, u) \<Rightarrow> (r # rs, u)))"

fun allowed_run :: "registry_call list \<Rightarrow> registry_view \<Rightarrow> bool" where
  "allowed_run [] w \<longleftrightarrow> True"
| "allowed_run (c # cs) w \<longleftrightarrow> allowed c w \<and> allowed_run cs (snd (spec_call c w))"

locale registry_contract =
  fixes ok :: "'s \<Rightarrow> bool" and view :: "'s \<Rightarrow> registry_view" and call :: "registry_call \<Rightarrow> ('s, py_error, reply) py"
  assumes call_meets: "ok s \<Longrightarrow> allowed c (view s) \<Longrightarrow> meets ok view canon_reply (call c) (spec_call c) s"
begin

lemma call_spec:
  assumes "ok s" and "allowed c (view s)"
  shows "ok (snd (call c s))" and "spec_call c (view s) = (map_sum (\<lambda>e. e) canon_reply (fst (call c s)), view (snd (call c s)))"
  using call_meets [OF assms] by (auto simp: meets_def wp_def split: prod.splits sum.splits)

lemma run_spec:
  assumes "ok s" and "allowed_run cs (view s)"
  shows "ok (snd (run_calls call cs s)) \<and>
    run_calls spec_call cs (view s) = (map (map_sum (\<lambda>e. e) canon_reply) (fst (run_calls call cs s)), view (snd (run_calls call cs s)))"
  using assms
proof (induction cs arbitrary: s)
  case (Cons c cs)
  then have c: "ok (snd (call c s))" "spec_call c (view s) = (map_sum (\<lambda>e. e) canon_reply (fst (call c s)), view (snd (call c s)))"
    using call_spec by auto
  moreover have "allowed_run cs (view (snd (call c s)))" using Cons.prems(2) c(2) by simp
  ultimately show ?case using Cons.IH [of "snd (call c s)"] by (auto split: prod.splits)
qed simp

end

lemma meets_replying:
  assumes "meets ok view canon m spec s" and "\<And>a. canon' (f a) = h (canon a)"
  shows "meets ok view canon' (replying m f) (replying spec h) s"
  using assms by (auto simp: meets_def wp_def replying_def py_defs split: prod.splits sum.splits)

lemmas mem_operations = mem_register_artifact mem_set_artifact_and_content mem_remove_artifact mem_set_agent_state
  mem_set_agent_transient mem_clear_agent_transient mem_record_heartbeat mem_record_last_reclamation mem_commit_cas
  mem_commit_all mem_capture_version_vector mem_release_session

lemmas sql_operations = sql_register_artifact_meets sql_set_artifact_and_content_meets sql_remove_artifact_meets
  sql_set_agent_state_meets sql_set_agent_transient_meets sql_clear_agent_transient_meets sql_record_heartbeat_meets
  sql_record_last_reclamation_meets sql_commit_cas_meets sql_commit_all_meets sql_capture_version_vector_meets
  sql_release_session_meets

interpretation memory: registry_contract mem_ok abs_mem mem_call
proof
  fix g c
  assume "mem_ok g" and "allowed c (abs_mem g)"
  then show "mem_meets canon_reply (mem_call c) (spec_call c) g"
    by (cases c) (auto intro!: meets_replying mem_operations simp del: abs_artifact_mem)
qed

interpretation durable: registry_contract sql_ok abs_sql sql_call
proof
  fix s c
  assume "sql_ok s" and "allowed c (abs_sql s)"
  then show "sql_meets canon_reply (sql_call c) (spec_call c) s"
    by (cases c) (auto intro!: meets_replying sql_operations simp del: abs_artifact_sql)
qed

section \<open>Admissible calls, on the in-memory registry\<close>

definition other_name :: "string \<Rightarrow> uuid \<Rightarrow> registry \<Rightarrow> bool" where
  "other_name nm art g = list_all (\<lambda>(i, r). i = art \<or> art_name (artifact r) \<noteq> nm) (records g)"

fun permits :: "registry_call \<Rightarrow> registry \<Rightarrow> bool" where
  "permits (RegisterArtifact a b) g \<longleftrightarrow> \<not> has_artifact (art_id a) g \<and> other_name (art_name a) (art_id a) g"
| "permits (SetArtifactAndContent art a b writer fence) g \<longleftrightarrow>
     has_artifact art g \<and> art_id a = art \<and> other_name (art_name a) art g"
| "permits (SetAgentTransient art ag ts entered) g \<longleftrightarrow> has_artifact art g"
| "permits (ClearAgentTransient art ag) g \<longleftrightarrow> has_artifact art g"
| "permits (RecordLastReclamation ag art trig tick) g \<longleftrightarrow>
     (case dict_get (records g) art of None \<Rightarrow> False | Some r \<Rightarrow> agent_view r ag \<noteq> blank_row INVALID)"
| "permits (RegistryCommitAll ag writes tick trig) g \<longleftrightarrow> dict_wf writes"
| "permits (CaptureVersionVector read_set token owner created) g \<longleftrightarrow>
     (case get_session_cut token g of None \<Rightarrow> True | Some pins \<Rightarrow> pins = [])"
| "permits _ g \<longleftrightarrow> True"

fun permitted_run :: "registry_call list \<Rightarrow> registry \<Rightarrow> bool" where
  "permitted_run [] g \<longleftrightarrow> True"
| "permitted_run (c # cs) g \<longleftrightarrow> permits c g \<and> permitted_run cs (snd (mem_call c g))"

lemma name_free_mem:
  assumes "other_name nm art g"
  shows "name_free nm art (abs_mem g)"
  unfolding name_free_def
proof (intro allI impI)
  fix i v
  assume i: "i \<noteq> art" and "w_artifacts (abs_mem g) i = Some v"
  then obtain r where r: "dict_get (records g) i = Some r" "v = mem_view r" by auto
  from map_of_SomeD [OF r(1)] assms i show "v_name v \<noteq> nm"
    by (auto simp: other_name_def list_all_iff r(2) mem_view_def)
qed

lemma abs_pins_mem: "w_pins (abs_mem g) token art = Option.bind (get_session_cut token g) (\<lambda>pins. dict_get pins art)"
  by (simp add: abs_mem_def get_session_cut_def)

lemma permits_allowed: "permits c g \<Longrightarrow> allowed c (abs_mem g)"
  by (cases c) (auto simp: name_free_mem has_artifact_def abs_pins_mem mem_view_def split: option.splits)

lemma permitted_allowed:
  assumes "mem_ok g" and "permitted_run cs g"
  shows "allowed_run cs (abs_mem g)"
  using assms
proof (induction cs arbitrary: g)
  case (Cons c cs)
  then have "allowed c (abs_mem g)" by (simp add: permits_allowed)
  with Cons memory.call_spec [of g c] show ?case by simp
qed simp

section \<open>Readers\<close>

text \<open>What the tables keep of an artifact's metadata: no dependencies, and no empty hash.\<close>

definition stored_artifact :: "Artifact \<Rightarrow> Artifact" where
  "stored_artifact a = a\<lparr>art_depends_on := [], art_hash := (if art_hash a = Some '''' then None else art_hash a)\<rparr>"

definition state_or_invalid :: "MESIState option \<Rightarrow> MESIState" where
  "state_or_invalid st = (case st of None \<Rightarrow> INVALID | Some x \<Rightarrow> x)"

definition readers_agree :: "sqlite_registry \<Rightarrow> registry \<Rightarrow> bool" where
  "readers_agree s g \<longleftrightarrow>
     (\<forall>art. sql_has_artifact art s = has_artifact art g) \<and>
     set (sql_artifact_ids s) = set (artifact_ids g) \<and>
     (\<forall>art. sql_get_artifact_and_generation art s =
        map_option (map_prod stored_artifact (\<lambda>n. n)) (get_artifact_and_generation art g)) \<and>
     (\<forall>art. sql_get_owner_generation art s = get_owner_generation art g) \<and>
     (\<forall>art ag. sql_get_read_generation art ag s = get_read_generation art ag g) \<and>
     (\<forall>art ag. sql_last_observed_version_for art ag s = last_observed_version_for art ag g) \<and>
     (\<forall>art ag. state_or_invalid (sql_get_agent_state art ag s) = state_or_invalid (get_agent_state art ag g)) \<and>
     (\<forall>art. set (sql_valid_holders art s) = set (valid_holders art g)) \<and>
     (\<forall>art ag. sql_get_agent_transient art ag s = get_agent_transient art ag g) \<and>
     (\<forall>art ag. sql_get_transient_tick art ag s = get_transient_tick art ag g) \<and>
     (\<forall>art ag. sql_granted_at_tick ag art s = granted_at_tick ag art g) \<and>
     (\<forall>art ag. sql_get_last_reclamation ag art s =
        map_option (map_prod (\<lambda>t. t) Some) (get_last_reclamation ag art g)) \<and>
     (\<forall>ag. sql_last_heartbeat_tick ag s = last_heartbeat_tick ag g) \<and>
     (\<forall>art v. sql_get_version_record art v s = get_version_record art v g) \<and>
     (\<forall>token. sql_get_session_meta token s = get_session_meta token g) \<and>
     (\<forall>token art. Option.bind (sql_get_session_cut token s) (\<lambda>pins. dict_get pins art) =
        Option.bind (get_session_cut token g) (\<lambda>pins. dict_get pins art)) \<and>
     (\<forall>k. dict_get (sql_conflict_outcome_totals s) k = dict_get (conflict_outcome_totals g) k)"

lemma view_at:
  assumes "abs_sql s = abs_mem g"
  shows "map_option (row_view art (tables s)) (dict_get (artifacts_table (tables s)) art) = map_option mem_view (dict_get (records g) art)"
  using arg_cong [OF assms, of "\<lambda>w. w_artifacts w art"] by simp

lemma known_at:
  assumes "abs_sql s = abs_mem g" and "dict_get (records g) art = Some r"
  obtains row where "dict_get (artifacts_table (tables s)) art = Some row" "row_view art (tables s) row = mem_view r"
  using view_at [OF assms(1), of art] assms(2) by auto

lemma unknown_at:
  assumes "abs_sql s = abs_mem g" and "schema_ok (tables s)" and "dict_get (records g) art = None"
  shows "dict_get (artifacts_table (tables s)) art = None" and "agent_row art ag (tables s) = None"
    and "dict_get (artifact_versions_table (tables s)) (art, v) = None"
proof -
  show *: "dict_get (artifacts_table (tables s)) art = None"
    using view_at [OF assms(1), of art] assms(3) by (cases "dict_get (artifacts_table (tables s)) art") auto
  show "agent_row art ag (tables s) = None" and "dict_get (artifact_versions_table (tables s)) (art, v) = None"
    using assms(2) * unfolding schema_ok_def artifact_exists_def by blast+
qed

lemma agent_column:
  assumes "abs_sql s = abs_mem g" and "schema_ok (tables s)" and "f (blank_row INVALID) = None"
  shows "Option.bind (agent_row art ag (tables s)) f =
    Option.bind (dict_get (records g) art) (\<lambda>r. f (agent_view r ag))"
proof (cases "dict_get (records g) art")
  case None
  then show ?thesis by (simp add: unknown_at [OF assms(1,2)])
next
  case (Some r)
  with known_at [OF assms(1)] obtain row where "row_view art (tables s) row = mem_view r" by blast
  then have "row_or_blank art (tables s) ag = agent_view r ag" by (simp add: row_view_def mem_view_def fun_eq_iff)
  then show ?thesis using assms(3) Some by (auto simp: row_or_blank_def split: option.splits)
qed

lemma agent_states:
  assumes "abs_sql s = abs_mem g" and "schema_ok (tables s)"
  shows "state_or_invalid (sql_get_agent_state art ag s) = state_or_invalid (get_agent_state art ag g)"
proof (cases "dict_get (records g) art")
  case None
  then show ?thesis using unknown_at [OF assms] by (simp add: sql_get_agent_state_def get_agent_state_def)
next
  case (Some r)
  with known_at [OF assms(1)] obtain row where "row_view art (tables s) row = mem_view r" by blast
  then have "row_or_blank art (tables s) ag = agent_view r ag" by (simp add: row_view_def mem_view_def fun_eq_iff)
  from arg_cong [OF this, of row_state] have "row_state (row_or_blank art (tables s) ag) = grant_of r ag"
    by (simp add: agent_view_def)
  then show ?thesis using Some
    by (simp add: state_or_invalid_def sql_get_agent_state_def get_agent_state_def row_or_blank_def blank_row_def
        get_default_def split: option.splits)
qed

lemma dict_get_found:
  "dict_get (List.map_filter (\<lambda>k. map_option (Pair k) (f k)) xs) k = (if k \<in> set xs then f k else None)"
  by (induction xs) (auto simp: List.map_filter_def split: option.splits)

lemma sql_cut_lookup:
  assumes "healthy s"
  shows "Option.bind (sql_get_session_cut token s) (\<lambda>pins. dict_get pins art) =
    dict_get (session_pins_table (tables s)) (token, art)"
proof -
  let ?t = "session_pins_table (tables s)"
  let ?ids = "map (\<lambda>((tok, art), v). art) (filter (\<lambda>((tok, art), v). tok = token) ?t)"
  have "set (scan s ?ids) = set ?ids" using assms by (metis healthy_def set_mset_mset)
  then have known: "art \<in> set (scan s ?ids) \<longleftrightarrow> dict_get ?t (token, art) \<noteq> None"
    by (force simp: map_of_eq_None_iff)
  let ?rows = "List.map_filter (\<lambda>art. map_option (Pair art) (dict_get ?t (token, art))) (scan s ?ids)"
  have "Option.bind (sql_get_session_cut token s) (\<lambda>pins. dict_get pins art) = dict_get ?rows art"
    unfolding sql_get_session_cut_def Let_def by (cases "?rows = []") simp_all
  then show ?thesis using known unfolding dict_get_found by auto
qed

lemma mem_valid_holders:
  assumes "mem_ok g"
  shows "set (valid_holders art g) = {ag. state_or_invalid (get_agent_state art ag g) \<noteq> INVALID}"
proof (cases "dict_get (records g) art")
  case (Some r)
  then have wf: "dict_wf (state_by_agent r)" using assms by (auto simp: mem_ok_def rec_wf_def)
  have "set (valid_holders art g) = {ag. \<exists>st. (ag, st) \<in> set (state_by_agent r) \<and> st \<noteq> INVALID}"
    using Some by (force simp: valid_holders_def get_state_map_def)
  then show ?thesis
    unfolding dict_in_set_get [OF wf] using Some by (auto simp: state_or_invalid_def get_agent_state_def split: option.splits)
qed (simp add: valid_holders_def get_state_map_def get_agent_state_def state_or_invalid_def)

lemma sql_valid_holders_set:
  assumes "sql_ok s"
  shows "set (sql_valid_holders art s) = {ag. state_or_invalid (sql_get_agent_state art ag s) \<noteq> INVALID}"
  using select_agents_rows(2) [where s = s and P = "\<lambda>_ row. row_state row \<noteq> INVALID" and art = art] assms
  by (auto simp: sql_valid_holders_def sql_ok_def schema_ok_def sql_get_agent_state_def state_or_invalid_def split: option.splits)

lemma stored_row:
  assumes "abs_sql s = abs_mem g" and "mem_ok g" and "schema_ok (tables s)"
  shows "sql_get_artifact_and_generation art s =
    map_option (map_prod stored_artifact (\<lambda>n. n)) (get_artifact_and_generation art g)"
proof (cases "dict_get (records g) art")
  case None
  then show ?thesis using unknown_at [OF assms(1,3)] by (simp add: sql_get_artifact_and_generation_def get_artifact_and_generation_def)
next
  case (Some r)
  then have "art_id (artifact r) = art" using assms(2) by (simp add: mem_ok_def rec_wf_def)
  moreover obtain row where "dict_get (artifacts_table (tables s)) art = Some row" "row_view art (tables s) row = mem_view r"
    using known_at [OF assms(1) Some] by blast
  ultimately show ?thesis using Some
    by (auto simp: sql_get_artifact_and_generation_def get_artifact_and_generation_def row_artifact_def stored_artifact_def
        row_view_def mem_view_def hash_column_def split: option.splits if_splits)
qed

lemma version_records:
  assumes "abs_sql s = abs_mem g" and "schema_ok (tables s)"
  shows "sql_get_version_record art v s = get_version_record art v g"
proof (cases "dict_get (records g) art")
  case None
  then show ?thesis using unknown_at [OF assms] by (simp add: sql_get_version_record_def get_version_record_def)
next
  case (Some r)
  with known_at [OF assms(1)] obtain row where row: "row_view art (tables s) row = mem_view r" by blast
  have "map_option row_content (dict_get (artifact_versions_table (tables s)) (art, v)) = dict_get (version_history r) v"
    and "map_option row_captured_at (dict_get (artifact_versions_table (tables s)) (art, v)) = dict_get (version_captured_at r) v"
    using arg_cong [OF row, of "\<lambda>w. v_bodies w v"] arg_cong [OF row, of "\<lambda>w. v_stamps w v"]
    by (simp_all add: row_view_def mem_view_def)
  then show ?thesis using Some
    by (auto simp: sql_get_version_record_def get_version_record_def split: option.splits)
qed

lemma same_view_readers:
  assumes s: "sql_ok s" and g: "mem_ok g" and view: "abs_sql s = abs_mem g"
  shows "readers_agree s g"
proof -
  have ok: "schema_ok (tables s)" and healthy: "healthy s" using s by (simp_all add: sql_ok_def)
  have ex: "dict_get (artifacts_table (tables s)) art = None \<longleftrightarrow> dict_get (records g) art = None" for art
    using view_at [OF view, of art] 
    by (cases "dict_get (records g) art"; cases "dict_get (artifacts_table (tables s)) art") simp_all
  note column = agent_column [OF view ok]
  have gens: "sql_get_owner_generation art s = get_owner_generation art g" for art
    using stored_row [OF view g ok, of art]
    by (cases "dict_get (records g) art"; cases "dict_get (artifacts_table (tables s)) art")
       (simp_all add: sql_get_owner_generation_def get_owner_generation_def sql_get_artifact_and_generation_def
        get_artifact_and_generation_def)
  have ids: "set (sql_artifact_ids s) = set (artifact_ids g)"
  proof -
    have "set (sql_artifact_ids s) = set (dict_keys (artifacts_table (tables s)))"
      using s by (metis sql_ok_def healthy_def sql_artifact_ids_def set_mset_mset)
    also have "\<dots> = set (dict_keys (records g))" using ex by (auto simp: map_of_eq_None_iff)
    finally show ?thesis by (simp add: artifact_ids_def)
  qed
  have readers: "sql_get_read_generation art ag s = get_read_generation art ag g"
      "sql_last_observed_version_for art ag s = last_observed_version_for art ag g"
      "sql_get_agent_transient art ag s = get_agent_transient art ag g"
      "sql_get_transient_tick art ag s = get_transient_tick art ag g"
      "sql_granted_at_tick ag art s = granted_at_tick ag art g" for art ag
    unfolding sql_get_read_generation_def sql_last_observed_version_for_def sql_get_agent_transient_def
      sql_get_transient_tick_def sql_granted_at_tick_def get_read_generation_def last_observed_version_for_def
      get_agent_transient_def get_transient_tick_def granted_at_tick_def
    by (subst column; simp add: blank_row_def agent_view_def)+
  have reclaimed: "sql_get_last_reclamation ag art s =
      map_option (map_prod (\<lambda>t. t) Some) (get_last_reclamation ag art g)" for art ag
    unfolding sql_get_last_reclamation_def get_last_reclamation_def
    by (subst column) (auto simp: blank_row_def agent_view_def map_prod_def option.map_comp comp_def split_def
        split: Option.bind_splits intro!: map_option_cong)
  have "set (sql_valid_holders art s) = set (valid_holders art g)" for art
    by (simp add: mem_valid_holders [OF g] sql_valid_holders_set [OF s] agent_states [OF view ok])
  moreover have "sql_has_artifact art s = has_artifact art g" for art
    using ex [of art] by (simp add: sql_has_artifact_def has_artifact_def artifact_exists_def)
  moreover have "sql_last_heartbeat_tick ag s = last_heartbeat_tick ag g"
      "dict_get (sql_conflict_outcome_totals s) k = dict_get (conflict_outcome_totals g) k"
      "sql_get_session_meta token s = get_session_meta token g"
      "Option.bind (sql_get_session_cut token s) (\<lambda>pins. dict_get pins art) =
       Option.bind (get_session_cut token g) (\<lambda>pins. dict_get pins art)" for ag k token art
    using arg_cong [OF view, of "\<lambda>w. w_heartbeats w ag"] arg_cong [OF view, of "\<lambda>w. w_conflicts w k"]
      arg_cong [OF view, of "\<lambda>w. w_sessions w token"] arg_cong [OF view, of "\<lambda>w. w_pins w token art"]
    unfolding sql_cut_lookup [OF healthy]
    by (simp_all add: sql_last_heartbeat_tick_def last_heartbeat_tick_def sql_conflict_outcome_totals_def
        conflict_outcome_totals_def sql_get_session_meta_def get_session_meta_def get_session_cut_def
        abs_sql_def abs_mem_def)
  ultimately show ?thesis
    unfolding readers_agree_def using stored_row [OF view g ok] gens readers reclaimed ids agent_states [OF view ok]
      version_records [OF view ok] by simp
qed

section \<open>Fresh registries\<close>

lemma fresh_memory:
  assumes "new_ArtifactRegistry sink names inst retain policy minted epoch now = Inr g"
    and "case sink of None \<Rightarrow> True | Some f \<Rightarrow> \<forall>e. f e"
  shows "mem_ok g"
  using assms by (auto simp: new_ArtifactRegistry_def mem_ok_def log_ok_def split: if_splits)

lemma fresh_schema: "schema_ok (apply_v2_schema inst minted epoch)"
  by (simp add: apply_v2_schema_def schema_ok_def agent_row_def)

lemma fresh_durable:
  assumes "open_registry (apply_v2_schema inst minted epoch) sink names inst retain policy False now order commits = Inr s"
    and "case sink of None \<Rightarrow> True | Some f \<Rightarrow> \<forall>e. f e"
    and "\<And>xs. mset (order xs) = mset xs" and "\<And>db. commits db"
  shows "sql_ok s"
  using assms by (auto simp: open_registry_def sql_ok_def healthy_def fresh_schema split: if_splits)

lemma fresh_views:
  assumes "new_ArtifactRegistry sink names inst retain policy minted epoch now = Inr g"
    and "open_registry (apply_v2_schema inst minted epoch) sink names inst retain policy False now order commits = Inr s"
  shows "abs_sql s = abs_mem g"
  using assms by (auto simp: new_ArtifactRegistry_def open_registry_def apply_v2_schema_def abs_sql_def abs_mem_def fun_eq_iff
      split: if_splits)


text \<open>Two agents write one artifact: the second write has a stale base and is refused, and a removal is seen.\<close>

definition parity_art :: Artifact where
  "parity_art = \<lparr>art_id = 7, art_name = ''plan'', art_version = 1, art_hash = Some ''h'', art_tokens = None, art_depends_on = []\<rparr>"

definition parity_calls :: "registry_call list" where
  "parity_calls =
     [RegisterArtifact parity_art (Bytes [1]), SetAgentState 7 1 SHARED ''fetch'' 1 None,
      SetAgentTransient 7 2 SIA 2, RegistryCommitCas 7 1 1 ''h2'' None (Some (Bytes [2])) 3 ''commit'',
      RegistryCommitCas 7 2 1 ''h3'' None None 4 ''commit'', CaptureVersionVector [7] ''tok'' (Some 1) (Some 4),
      ReleaseSession ''tok'', RemoveArtifact 7, SetAgentState 7 1 SHARED ''fetch'' 5 None]"

definition parity_memory :: registry where
  "parity_memory = projr (new_ArtifactRegistry (Some (\<lambda>_. True)) None (Some ''c1'') True None ''m'' ''e1'' 0)"

definition parity_durable :: sqlite_registry where
  "parity_durable = projr (open_registry (apply_v2_schema (Some ''c1'') ''m'' ''e1'') (Some (\<lambda>_. True)) None (Some ''c1'') True None
     False 0 rev (\<lambda>_. True))"

lemma parity_permitted: "permitted_run parity_calls parity_memory"
  by code_simp


end
