(* ===== verification/Sqlite_Safety.thy ===== *)
theory Sqlite_Safety
  imports Sqlite_Parity Coherence_Ops
begin

text \<open>
  What the SQLite registry guarantees whatever fails: the log sink may raise, a \<open>COMMIT\<close> may fail and the
  caller may pass anything. Every method body keeps the tables well formed and the sequence counter in step with the
  persisted one (\<open>book\<close>); the transaction around it turns that into atomicity, and the well-formedness of every
  reachable file follows.
\<close>

declare map_of_eq_Some_iff [simp del] Some_eq_map_of_iff [simp del]

section \<open>Well-formed tables\<close>

text \<open>The constraints of the schema: primary keys, unique artifact names and the foreign keys to \<open>artifacts\<close>.\<close>

definition tables_ok :: "database \<Rightarrow> bool" where
  "tables_ok db \<longleftrightarrow>
     dict_wf (artifacts_table db) \<and> dict_wf (agent_states_table db) \<and> dict_wf (heartbeats_table db) \<and>
     dict_wf (pending_notices_table db) \<and> dict_wf (artifact_versions_table db) \<and> dict_wf (session_pins_table db) \<and>
     dict_wf (session_meta_table db) \<and> dict_wf (conflict_counters_table db) \<and>
     (\<forall>i j r q. dict_get (artifacts_table db) i = Some r \<longrightarrow> dict_get (artifacts_table db) j = Some q \<longrightarrow>
        row_name r = row_name q \<longrightarrow> i = j) \<and>
     (\<forall>art ag row. agent_row art ag db = Some row \<longrightarrow> artifact_exists art db) \<and>
     (\<forall>art v row. dict_get (artifact_versions_table db) (art, v) = Some row \<longrightarrow> artifact_exists art db) \<and>
     (\<forall>ag art row. dict_get (pending_notices_table db) (ag, art) = Some row \<longrightarrow> artifact_exists art db)"

lemma name_not_taken:
  "\<not> name_taken nm art db \<Longrightarrow> i \<noteq> art \<Longrightarrow> dict_get (artifacts_table db) i = Some row \<Longrightarrow> row_name row \<noteq> nm"
  by (auto simp: name_taken_def list_ex_iff dest!: map_of_SomeD)

lemma dict_wf_fold_set [simp]: "dict_wf t \<Longrightarrow> dict_wf (fold (\<lambda>(k, v). dict_set (h k) v) xs t)"
  by (induction xs arbitrary: t) auto

lemma artifact_exists_update [simp]:
  "artifact_exists i (update_artifact art f db) = artifact_exists i db"
  "artifact_exists i (update_agent art ag h db) = artifact_exists i db"
  "artifact_exists i (insert_agent art ag row db) = artifact_exists i db"
  by (auto simp: artifact_exists_def update_artifact_def update_agent_def insert_agent_def)

lemma tables_ok_keys:
  assumes "tables_ok db"
  shows "agent_row art ag db = Some row \<Longrightarrow> artifact_exists art db"
    and "dict_get (artifact_versions_table db) (art, v) = Some ver \<Longrightarrow> artifact_exists art db"
    and "dict_get (pending_notices_table db) (ag, art) = Some note \<Longrightarrow> artifact_exists art db"
    and "dict_wf (agent_states_table db)" "dict_wf (artifact_versions_table db)" "dict_wf (pending_notices_table db)"
      "dict_wf (heartbeats_table db)" "dict_wf (session_pins_table db)" "dict_wf (session_meta_table db)"
      "dict_wf (conflict_counters_table db)" "dict_wf (artifacts_table db)"
  using assms unfolding tables_ok_def by blast+

lemma tables_ok_frame:
  assumes "tables_ok db" and "artifacts_table db' = artifacts_table db"
    and "dict_wf (heartbeats_table db')" "dict_wf (session_pins_table db')" "dict_wf (session_meta_table db')"
      "dict_wf (conflict_counters_table db')" "dict_wf (agent_states_table db')" "dict_wf (pending_notices_table db')"
      "dict_wf (artifact_versions_table db')"
    and "\<And>art ag row. agent_row art ag db' = Some row \<Longrightarrow> artifact_exists art db"
    and "\<And>art v row. dict_get (artifact_versions_table db') (art, v) = Some row \<Longrightarrow> artifact_exists art db"
    and "\<And>ag art row. dict_get (pending_notices_table db') (ag, art) = Some row \<Longrightarrow> artifact_exists art db"
  shows "tables_ok db'"
  using assms unfolding tables_ok_def artifact_exists_def assms(2) by blast

lemma tables_ok_update_agent: "tables_ok db \<Longrightarrow> tables_ok (update_agent art ag f db)"
  by (rule tables_ok_frame, assumption)
    (auto simp: update_agent_def agent_row_def tables_ok_keys split: if_splits intro: tables_ok_keys(1) [unfolded agent_row_def])

lemma tables_ok_insert_agent: "tables_ok db \<Longrightarrow> artifact_exists art db \<Longrightarrow> tables_ok (insert_agent art ag row db)"
  by (rule tables_ok_frame, assumption)
    (auto simp: insert_agent_def agent_row_def tables_ok_keys split: if_splits intro: tables_ok_keys(1) [unfolded agent_row_def])

lemma tables_ok_artifacts:
  assumes "tables_ok db" and "dict_wf t" and "\<And>j. artifact_exists j db \<Longrightarrow> dict_get t j \<noteq> None"
    and "\<And>j k r q. dict_get t j = Some r \<Longrightarrow> dict_get t k = Some q \<Longrightarrow> row_name r = row_name q \<Longrightarrow> j = k"
  shows "tables_ok (db\<lparr>artifacts_table := t\<rparr>)"
proof -
  have row: "agent_row art ag (db\<lparr>artifacts_table := t\<rparr>) = agent_row art ag db" for art ag by (simp add: agent_row_def)
  have ex: "artifact_exists j (db\<lparr>artifacts_table := t\<rparr>) \<longleftrightarrow> dict_get t j \<noteq> None" for j by (simp add: artifact_exists_def)
  show ?thesis
    unfolding tables_ok_def ex row
  proof (intro conjI allI impI)
    show "j = k" if "dict_get (artifacts_table (db\<lparr>artifacts_table := t\<rparr>)) j = Some r"
      "dict_get (artifacts_table (db\<lparr>artifacts_table := t\<rparr>)) k = Some q" "row_name r = row_name q" for j k r q
      using assms(4) that by simp
  qed (simp_all del: not_None_eq add: assms(2) tables_ok_keys [OF assms(1)] tables_ok_keys(1-3) [OF assms(1), THEN assms(3)])
qed

lemma tables_ok_update_artifact:
  assumes "tables_ok db"
    and "\<And>row. dict_get (artifacts_table db) art = Some row \<Longrightarrow> row_name (f row) = row_name row \<or> \<not> name_taken (row_name (f row)) art db"
  shows "tables_ok (update_artifact art f db)"
proof -
  have unique: "i = j" if "dict_get (artifacts_table db) i = Some r" "dict_get (artifacts_table db) j = Some q" "row_name r = row_name q"
    for i j r q
    using assms(1) that unfolding tables_ok_def by blast
  have other: "row_name (f row) \<noteq> row_name q"
    if "dict_get (artifacts_table db) art = Some row" "dict_get (artifacts_table db) i = Some q" "i \<noteq> art" for i row q
    using assms(2) [OF that(1)] name_not_taken [OF _ that(3,2)] unique [OF that(1,2)] that(3) by metis
  have names: "i = j" if "dict_get (update_row art f (artifacts_table db)) i = Some r"
    "dict_get (update_row art f (artifacts_table db)) j = Some q" "row_name r = row_name q" for i j r q
    using that unique other by (auto split: if_splits) metis+
  show ?thesis
    unfolding update_artifact_def
  proof (rule tables_ok_artifacts [OF assms(1)])
    show "dict_get (update_row art f (artifacts_table db)) j \<noteq> None" if "artifact_exists j db" for j
      using that by (auto simp: artifact_exists_def)
  qed (use assms(1) names in \<open>simp add: tables_ok_keys, blast\<close>)
qed

section \<open>Method bodies\<close>

definition same_meta :: "database \<Rightarrow> database \<Rightarrow> bool" where
  "same_meta db' db \<longleftrightarrow> meta_sequence_number db' = meta_sequence_number db \<and> meta_instance_id db' = meta_instance_id db \<and>
     meta_coordinator_epoch db' = meta_coordinator_epoch db"

definition identity :: "sqlite_registry \<Rightarrow> string \<times> string \<times> string \<times> string" where
  "identity s = (sq_instance_id s, sq_coordinator_epoch s, meta_instance_id (tables s), meta_coordinator_epoch (tables s))"

text \<open>
  Inside a transaction: \<open>n\<close> is the counter at its start, \<open>i\<close> the identities, and the artifacts of \<open>A\<close>
  exist.
\<close>

definition book :: "int \<Rightarrow> string \<times> string \<times> string \<times> string \<Rightarrow> uuid set \<Rightarrow> sqlite_registry \<Rightarrow> bool" where
  "book n i A s \<longleftrightarrow> sq_seq s - seq_incremented s = n \<and> identity s = i \<and> meta_sequence_number (tables s) = sq_seq s \<and>
     tables_ok (tables s) \<and> (\<forall>art\<in>A. artifact_exists art (tables s))"

lemma keeps_query: "keeps P (query f)"
  by (simp add: query_def keeps_asks)

lemma keeps_require: "keeps P (require f)"
  by (simp add: keeps_def require_def)

lemma keeps_query_bind: "(\<And>s. P s \<Longrightarrow> P (snd (g (f (tables s)) s))) \<Longrightarrow> keeps P (andthen (query f) g)"
  by (simp add: keeps_def andthen_def query_def asks_def split: prod.splits sum.splits)

lemma keeps_statement:
  assumes "\<And>db. tables_ok db \<Longrightarrow> \<forall>art\<in>A. artifact_exists art db \<Longrightarrow>
    tables_ok (f db) \<and> same_meta (f db) db \<and> (\<forall>art\<in>A. artifact_exists art (f db))"
  shows "keeps (book n i A) (statement f)"
  using assms by (auto simp: keeps_def statement_def modify_def book_def same_meta_def identity_def)

lemma keeps_emit: "keeps (book n i A) (sql_emit_state_log q)"
  by (auto simp: keeps_def sql_emit_state_log_def book_def identity_def Let_def tables_ok_def agent_row_def artifact_exists_def split: option.splits)

lemmas keeps_body = keeps_intros keeps_query keeps_require keeps_emit

lemma keeps_option_case: "keeps P m \<Longrightarrow> (\<And>x. y = Some x \<Longrightarrow> keeps P (f x)) \<Longrightarrow> keeps P (case y of None \<Rightarrow> m | Some x \<Rightarrow> f x)"
  by (cases y) auto

lemma keeps_update_agent: "keeps (book n i A) (statement (update_agent art ag f))"
  by (rule keeps_statement) (simp_all add: tables_ok_update_agent, simp add: update_agent_def same_meta_def)

lemma keeps_insert_agent: "art \<in> A \<Longrightarrow> keeps (book n i A) (statement (insert_agent art ag row))"
  by (rule keeps_statement) (simp_all add: tables_ok_insert_agent, simp add: insert_agent_def same_meta_def)

lemma keeps_update_artifact:
  assumes "\<And>row. row_name (f row) = row_name row"
  shows "keeps (book n i A) (statement (update_artifact art f))"
  using assms by (intro keeps_statement) (simp_all add: tables_ok_update_artifact, simp add: update_artifact_def same_meta_def)

lemma keeps_capture_version: "keeps (book n i A) (capture_version_sql art v b)"
proof (rule keepsI)
  fix s
  assume s: "book n i A s"
  show "wp (capture_version_sql art v b) (\<lambda>_. book n i A) (\<lambda>_. book n i A) s"
  proof (cases "artifact_exists art (tables s)")
    case True
    define t where "t = s\<lparr>tables := (tables s)\<lparr>artifact_versions_table :=
      dict_set (art, v) \<lparr>row_content = b, row_captured_at = sq_wall_clock s\<rparr> (artifact_versions_table (tables s))\<rparr>\<rparr>"
    have ok: "tables_ok (tables s)" using s by (simp add: book_def)
    then have "tables_ok (tables t)"
      by (rule tables_ok_frame) (use True ok in \<open>auto simp: t_def tables_ok_keys agent_row_def split: if_splits
        intro: tables_ok_keys(1) [unfolded agent_row_def] tables_ok_keys(2,3)\<close>)
    then have t: "book n i A t" using s by (simp add: book_def identity_def t_def artifact_exists_def)
    have "keeps (book n i A) (statement (\<lambda>db. db\<lparr>artifact_versions_table := delete_where P (artifact_versions_table db)\<rparr>))" for P
    proof (rule keeps_statement, intro conjI)
      fix db
      assume db: "tables_ok db"
      show "tables_ok (db\<lparr>artifact_versions_table := delete_where P (artifact_versions_table db)\<rparr>)"
        by (rule tables_ok_frame [OF db]) (use db in \<open>auto simp: tables_ok_keys agent_row_def dict_get_delete_where
          split: option.splits if_splits intro: tables_ok_keys(1) [unfolded agent_row_def] tables_ok_keys(2,3)\<close>)
    qed (auto simp: artifact_exists_def same_meta_def)
    from keepsD [OF this t] have drop: "book n i A (t\<lparr>tables := (tables t)\<lparr>artifact_versions_table :=
      delete_where P (artifact_versions_table (tables t))\<rparr>\<rparr>)" for P
      by (simp add: wp_simps)
    show ?thesis
      using True t drop by (cases "sq_retention_policy s") (simp_all add: capture_version_sql_def wp_simps t_def Let_def)
  qed (use s in \<open>simp add: capture_version_sql_def wp_simps\<close>)
qed

lemma keeps_requiring:
  assumes "\<And>db. tables_ok db \<Longrightarrow> P db \<Longrightarrow> tables_ok (f db) \<and> same_meta (f db) db \<and> (\<forall>art. artifact_exists art db \<longrightarrow> artifact_exists art (f db))"
  shows "keeps (book n i A) (andthen (require P) (\<lambda>_. statement f))"
  using assms by (intro keepsI) (auto simp: wp_simps book_def same_meta_def identity_def)

lemma keeps_requiring_then:
  assumes "\<And>db. tables_ok db \<Longrightarrow> P db \<Longrightarrow> tables_ok (f db) \<and> same_meta (f db) db \<and> (\<forall>art. artifact_exists art db \<longrightarrow> artifact_exists art (f db))"
    and "keeps (book n i A) m"
  shows "keeps (book n i A) (andthen (require P) (\<lambda>_. andthen (statement f) (\<lambda>_. m)))"
proof -
  have "andthen (require P) (\<lambda>_. andthen (statement f) (\<lambda>_. m)) = andthen (andthen (require P) (\<lambda>_. statement f)) (\<lambda>_. m)"
    by (rule ext) (simp add: andthen_def require_def split: prod.splits sum.splits)
  then show ?thesis using keeps_requiring [OF assms(1)] assms(2) by (simp add: keeps_andthen)
qed

lemma keeps_insert_artifact: "keeps (book n i A) (insert_artifact art row)"
  unfolding insert_artifact_def
proof (rule keeps_requiring, intro conjI)
  fix db
  assume db: "tables_ok db" and new: "\<not> artifact_exists art db \<and> \<not> name_taken (row_name row) art db"
  have other: "row_name q \<noteq> row_name row" if "dict_get (artifacts_table db) j = Some q" "j \<noteq> art" for j q
    using new name_not_taken that by blast
  have unique: "j = k" if "dict_get (artifacts_table db) j = Some r" "dict_get (artifacts_table db) k = Some q" "row_name r = row_name q"
    for j k r q
    using db that unfolding tables_ok_def by blast
  have names: "j = k" if "dict_get (dict_set art row (artifacts_table db)) j = Some r" "dict_get (dict_set art row (artifacts_table db)) k = Some q"
    "row_name r = row_name q" for j k r q
    using that unique other by (auto split: if_splits) metis+
  show "tables_ok (db\<lparr>artifacts_table := dict_set art row (artifacts_table db)\<rparr>)"
  proof (rule tables_ok_artifacts [OF db])
    show "dict_get (dict_set art row (artifacts_table db)) j \<noteq> None" if "artifact_exists j db" for j
      using that by (auto simp: artifact_exists_def)
  qed (use db names in \<open>simp add: tables_ok_keys, blast\<close>)
qed (auto simp: artifact_exists_def same_meta_def)

section \<open>Atomicity\<close>

definition book_closed :: "sqlite_registry \<Rightarrow> bool" where
  "book_closed s \<longleftrightarrow> meta_sequence_number (tables s) = sq_seq s \<and> tables_ok (tables s)"

definition atomic :: "'a qop \<Rightarrow> bool" where
  "atomic m \<longleftrightarrow> (\<forall>s. book_closed s \<longrightarrow>
     wp m (\<lambda>_ t. book_closed t \<and> identity t = identity s)
          (\<lambda>_ t. tables t = tables s \<and> sq_seq t = sq_seq s \<and> identity t = identity s) s)"

lemma atomic_transaction:
  assumes "\<And>n i. keeps (book n i {}) m"
  shows "atomic (transaction m)"
  unfolding atomic_def
proof (intro allI impI)
  fix s
  assume s: "book_closed s"
  then have "book (sq_seq s) (identity s) {} (s\<lparr>seq_incremented := 0\<rparr>)"
    by (simp add: book_def book_closed_def identity_def)
  from keepsD [OF assms this]
  show "wp (transaction m) (\<lambda>_ t. book_closed t \<and> identity t = identity s)
      (\<lambda>_ t. tables t = tables s \<and> sq_seq t = sq_seq s \<and> identity t = identity s) s"
    by (auto simp: wp_def transaction_def book_def book_closed_def identity_def split: prod.splits sum.splits)
qed

lemma atomic_guard: "atomic m \<Longrightarrow> atomic (andthen guard_writable (\<lambda>_. m))"
  by (auto simp: atomic_def guard_writable_def wp_def andthen_def split: prod.splits sum.splits)

lemma atomic_mutator: "(\<And>n i. keeps (book n i {}) m) \<Longrightarrow> atomic (mutator m)"
  unfolding mutator_def by (intro atomic_guard atomic_transaction)

text \<open>A handler that only reads sees the tables of before the call.\<close>

lemma atomic_except:
  assumes "atomic m" and pure: "\<And>e s. snd (h e s) = s"
  shows "atomic (except m h)"
  unfolding atomic_def
proof (intro allI impI)
  fix s
  assume s: "book_closed s"
  let ?Q = "\<lambda>t. book_closed t \<and> identity t = identity s"
  let ?E = "\<lambda>t. tables t = tables s \<and> sq_seq t = sq_seq s \<and> identity t = identity s"
  have "wp (h e) (\<lambda>_. ?Q) (\<lambda>_. ?E) t" if "?E t" for e t
    using that s pure [of e t] by (auto simp: wp_def book_closed_def split: prod.splits sum.splits)
  moreover have "wp m (\<lambda>_. ?Q) (\<lambda>_. ?E) s" using assms(1) s unfolding atomic_def by blast
  ultimately show "wp (except m h) (\<lambda>_. ?Q) (\<lambda>_. ?E) s"
    by (auto simp: wp_except elim: wp_mono)
qed

lemma atomic_replying: "atomic m \<Longrightarrow> atomic (replying m f)"
  by (simp add: atomic_def replying_def wp_andthen wp_ret [abs_def])

lemma atomic_ret: "atomic (ret a)"
  by (simp add: atomic_def wp_simps)

lemma atomic_throw: "atomic (throw e)"
  by (simp add: atomic_def wp_simps)

lemma atomic_asks: "(\<And>a. atomic (f a)) \<Longrightarrow> atomic (andthen (asks g) f)"
  by (simp add: atomic_def wp_simps)

section \<open>Every method is atomic\<close>

lemma atomic_register: "atomic (sql_register_artifact art b)"
  unfolding sql_register_artifact_def
  by (intro atomic_mutator keeps_body keeps_insert_artifact keeps_capture_version)

lemma keeps_rename:
  assumes "keeps (book n i A) m" and "\<And>row. row_name (f row) = nm"
  shows "keeps (book n i A) (andthen (require (\<lambda>db. artifact_exists art db \<longrightarrow> \<not> name_taken nm art db)) (\<lambda>_.
    andthen (statement (update_artifact art f)) (\<lambda>_. m)))"
proof (rule keeps_requiring_then [OF _ assms(1)])
  fix db
  assume "tables_ok db" and "artifact_exists art db \<longrightarrow> \<not> name_taken nm art db"
  then have "tables_ok (update_artifact art f db)"
    by (intro tables_ok_update_artifact) (auto simp: assms(2) artifact_exists_def)
  then show "tables_ok (update_artifact art f db) \<and> same_meta (update_artifact art f db) db \<and>
      (\<forall>j. artifact_exists j db \<longrightarrow> artifact_exists j (update_artifact art f db))"
    by (simp add: same_meta_def) (simp add: update_artifact_def)
qed

lemma atomic_set_artifact: "atomic (sql_set_artifact_and_content art upd b writer fence)"
  unfolding sql_set_artifact_and_content_def
  apply (rule atomic_mutator)
  apply (rule keeps_andthen)
   apply (intro keeps_option_case keeps_body)
  apply (rule keeps_andthen, rule keeps_asks)
  apply (rule keeps_rename)
   apply (intro keeps_body keeps_capture_version)
  apply simp
  done

lemma keeps_frame_statement:
  assumes "\<And>db. artifacts_table (f db) = artifacts_table db \<and> agent_states_table (f db) = agent_states_table db \<and>
      artifact_versions_table (f db) = artifact_versions_table db \<and> same_meta (f db) db"
    and "\<And>db. tables_ok db \<Longrightarrow> dict_wf (heartbeats_table (f db)) \<and> dict_wf (session_pins_table (f db)) \<and>
      dict_wf (session_meta_table (f db)) \<and> dict_wf (conflict_counters_table (f db)) \<and> dict_wf (pending_notices_table (f db))"
    and "\<And>db ag art row. tables_ok db \<Longrightarrow> dict_get (pending_notices_table (f db)) (ag, art) = Some row \<Longrightarrow> artifact_exists art db"
  shows "keeps (book n i A) (statement f)"
proof (rule keeps_statement, intro conjI)
  fix db
  assume db: "tables_ok db"
  show "tables_ok (f db)"
    by (rule tables_ok_frame [OF db])
       (use assms(1) [of db] assms(2) [OF db] assms(3) [OF db] tables_ok_keys [OF db] in \<open>simp_all add: agent_row_def\<close>)
qed (use assms(1) in \<open>auto simp: artifact_exists_def\<close>)

lemma atomic_remove: "atomic (sql_remove_artifact art)"
  unfolding sql_remove_artifact_def
proof (rule atomic_mutator, rule keeps_statement, intro conjI)
  fix db
  assume db: "tables_ok db"
  let ?db = "db\<lparr>artifacts_table := dict_pop art (artifacts_table db),
       agent_states_table := delete_where (\<lambda>(i, ag) row. i = art) (agent_states_table db),
       pending_notices_table := delete_where (\<lambda>(ag, i) row. i = art) (pending_notices_table db),
       artifact_versions_table := delete_where (\<lambda>(i, v) row. i = art) (artifact_versions_table db)\<rparr>"
  note keys = tables_ok_keys [OF db]
  have ex: "artifact_exists j ?db \<longleftrightarrow> j \<noteq> art \<and> artifact_exists j db" for j by (simp add: artifact_exists_def)
  have row: "agent_row j ag ?db = (if j = art then None else agent_row j ag db)" for j ag
    using keys by (auto simp: agent_row_def dict_get_delete_where split: option.splits)
  show "tables_ok ?db"
    unfolding tables_ok_def ex row
  proof (intro conjI allI impI)
    show "j = k" if "dict_get (artifacts_table ?db) j = Some r" "dict_get (artifacts_table ?db) k = Some q" "row_name r = row_name q"
      for j k r q
      using db that unfolding tables_ok_def by (simp split: if_splits)
  qed (use keys in \<open>auto simp: dict_get_delete_where split: option.splits if_splits\<close>)
qed (simp_all add: same_meta_def)

lemma keeps_artifact_row:
  assumes "\<And>arow. keeps (book n i (insert art A)) (f arow)" and "keeps (book n i A) m"
  shows "keeps (book n i A) (andthen (query (\<lambda>db. dict_get (artifacts_table db) art)) (\<lambda>row. case row of None \<Rightarrow> m | Some arow \<Rightarrow> f arow))"
proof (rule keeps_query_bind)
  fix s
  assume s: "book n i A s"
  show "book n i A (snd ((case dict_get (artifacts_table (tables s)) art of None \<Rightarrow> m | Some arow \<Rightarrow> f arow) s))"
  proof (cases "dict_get (artifacts_table (tables s)) art")
    case (Some arow)
    then have "book n i (insert art A) s" using s by (simp add: book_def artifact_exists_def)
    from keepsD_snd [OF assms(1) this] show ?thesis using Some by (simp add: book_def)
  qed (use s assms(2) in \<open>simp add: keepsD_snd\<close>)
qed

lemma keeps_grant_read:
  "keeps (book n i A) (statement (\<lambda>db. update_agent art ag (\<lambda>row. row\<lparr>row_read_generation := g db\<rparr>) db))"
  by (rule keeps_statement) (simp_all add: tables_ok_update_agent, simp add: update_agent_def same_meta_def)

lemma atomic_set_agent_state: "atomic (sql_set_agent_state art ag st trig tick chash)"
  unfolding sql_set_agent_state_def Let_def
  apply (rule atomic_mutator)
  apply (rule keeps_andthen, rule keeps_query)
  apply (rule keeps_artifact_row)
   apply (intro keeps_body keeps_option_case keeps_update_artifact keeps_update_agent keeps_insert_agent keeps_grant_read)
   apply (simp_all add: keeps_throw)
  done

lemma keeps_require_exists:
  assumes "keeps (book n i (insert art A)) m"
  shows "keeps (book n i A) (andthen (require (artifact_exists art)) (\<lambda>_. m))"
proof (rule keepsI)
  fix s
  assume s: "book n i A s"
  show "wp (andthen (require (artifact_exists art)) (\<lambda>_. m)) (\<lambda>_. book n i A) (\<lambda>_. book n i A) s"
  proof (cases "artifact_exists art (tables s)")
    case True
    then have "book n i (insert art A) s" using s by (simp add: book_def)
    from keepsD [OF assms this] have "wp m (\<lambda>_. book n i A) (\<lambda>_. book n i A) s"
      by (rule wp_mono) (simp_all add: book_def)
    then show ?thesis using True by (simp add: wp_simps)
  qed (use s in \<open>simp add: wp_simps\<close>)
qed

lemma atomic_set_agent_transient: "atomic (sql_set_agent_transient art ag ts entered)"
  unfolding sql_set_agent_transient_def
  by (intro atomic_mutator, rule keeps_andthen, rule keeps_query)
     (intro keeps_option_case keeps_require_exists keeps_insert_agent keeps_update_agent, simp)

lemma atomic_clear_agent_transient: "atomic (sql_clear_agent_transient art ag)"
  unfolding sql_clear_agent_transient_def by (intro atomic_mutator keeps_update_agent)

lemma atomic_record_last_reclamation: "atomic (sql_record_last_reclamation ag art trig tick)"
  unfolding sql_record_last_reclamation_def by (intro atomic_mutator keeps_update_agent)

lemma atomic_record_heartbeat: "atomic (sql_record_heartbeat ag now)"
  unfolding sql_record_heartbeat_def
  by (intro atomic_mutator keeps_frame_statement) (auto simp: same_meta_def tables_ok_keys split: option.split)

lemma atomic_release_session: "atomic (sql_release_session token)"
  unfolding sql_release_session_def
  by (intro atomic_mutator keeps_frame_statement) (auto simp: same_meta_def tables_ok_keys)

lemma keeps_count: "keeps (book n i A) (statement (count_conflict_in_txn art ag why))"
  by (rule keeps_frame_statement) (auto simp: count_conflict_in_txn_def same_meta_def tables_ok_keys split: option.split)

lemma keeps_deny: "keeps (book n i A) (deny art ag why cur)"
  unfolding deny_def by (intro keeps_body keeps_count)

lemma statement_fold: "statement (fold f (x # xs)) = andthen (statement (f x)) (\<lambda>_. statement (fold f xs))"
  by (rule ext) (simp add: statement_def modify_def andthen_def)

lemma keeps_counts: "keeps (book n i A) (statement (fold (\<lambda>(art, d). count_conflict_in_txn art ag (detail_reason d)) conflicts))"
proof (induction conflicts)
  case Nil
  show ?case by (simp add: keeps_def statement_def modify_def book_def identity_def)
next
  case (Cons x xs)
  then show ?case unfolding statement_fold by (cases x) (simp add: keeps_andthen keeps_count)
qed

lemma keeps_invalidate_peer: "keeps (book n i A) (sql_invalidate_peer art trig tick v acc peer)"
  unfolding sql_invalidate_peer_def Let_def split_def by (intro keeps_body keeps_update_agent)

lemma keeps_apply_win:
  assumes "art \<in> A"
  shows "keeps (book n i A) (sql_apply_win art ag chash toks b tick trig v)"
  unfolding sql_apply_win_def sql_share_committer_def
  by (intro keeps_body keeps_option_case keeps_update_artifact keeps_capture_version keeps_update_agent keeps_insert_agent
      keeps_invalidate_peer assms) simp

lemma atomic_commit_cas: "atomic (sql_commit_cas art ag expected chash toks b tick trig)"
  unfolding sql_commit_cas_def Let_def
  by (rule atomic_mutator, rule keeps_artifact_row [OF _ keeps_throw])
     (intro keeps_body keeps_deny keeps_apply_win, simp)

lemma atomic_capture_version_vector: "atomic (sql_capture_version_vector read_set token owner created)"
  unfolding sql_capture_version_vector_def
  apply (rule atomic_mutator)
  apply (rule keeps_andthen, rule keeps_query)
  apply (simp only: split_def)
  apply (intro keeps_body keeps_option_case keeps_frame_statement)
       apply (auto simp: same_meta_def tables_ok_keys split_def dict_wf_fold_set [unfolded split_def])
  done

lemma keeps_apply_member:
  assumes "\<And>art. artifact_exists art db \<Longrightarrow> art \<in> A"
  shows "keeps (book n i A) (sql_apply_member ag tick trig db acc member)"
  unfolding sql_apply_member_def split_def
  by (intro keeps_option_case keeps_body keeps_apply_win assms) (simp add: artifact_exists_def)

lemma keeps_winning_batch:
  "keeps (book n i {}) (andthen (asks tables) (\<lambda>db. andthen (for_loop writes (sql_apply_member ag tick trig db) acc) (\<lambda>res. ret (f res))))"
proof (rule keepsI)
  fix s
  assume s: "book n i {} s"
  define A where "A = {art. artifact_exists art (tables s)}"
  have A: "book n i A s" using s by (simp add: A_def book_def)
  have "keeps (book n i A) (andthen (for_loop writes (sql_apply_member ag tick trig (tables s)) acc) (\<lambda>res. ret (f res)))"
    by (intro keeps_body keeps_apply_member) (simp add: A_def)
  from keepsD [OF this A] have "wp (andthen (for_loop writes (sql_apply_member ag tick trig (tables s)) acc) (\<lambda>res. ret (f res)))
      (\<lambda>_. book n i {}) (\<lambda>_. book n i {}) s"
    by (rule wp_mono) (simp_all add: book_def)
  then show "wp (andthen (asks tables) (\<lambda>db. andthen (for_loop writes (sql_apply_member ag tick trig db) acc) (\<lambda>res. ret (f res))))
      (\<lambda>_. book n i {}) (\<lambda>_. book n i {}) s"
    by (simp add: wp_andthen wp_asks)
qed

lemma atomic_commit_all: "atomic (sql_commit_all ag writes tick trig)"
proof (cases "writes = []")
  case False
  have "atomic (mutator (andthen (query f) (\<lambda>checked.
        case checked of
          Inl e \<Rightarrow> throw e
        | Inr (CheckCorrupt cur) \<Rightarrow> ret (MultiCorruption cur)
        | Inr (CheckConflicts conflicts) \<Rightarrow>
            (if conflicts \<noteq> []
             then andthen (statement (fold (\<lambda>(art, d). count_conflict_in_txn art ag (detail_reason d)) conflicts)) (\<lambda>_.
                  ret (MultiCommitConflict conflicts))
             else andthen (asks tables) (\<lambda>current_by.
                  andthen (for_loop writes (sql_apply_member ag tick trig current_by)
                    \<lparr>mcr_versions = [], mcr_invalidated = []\<rparr>) (\<lambda>res. ret (MultiWin res)))))))" for f
    by (rule atomic_mutator, rule keeps_andthen, rule keeps_query)
       (auto split: sum.split check_outcome.split intro!: keeps_throw keeps_ret keeps_winning_batch keeps_andthen [OF keeps_counts])
  then show ?thesis using False by (simp add: sql_commit_all_def)
qed (simp add: sql_commit_all_def atomic_throw)

section \<open>Methods outside the protocol\<close>

lemma atomic_resolve_or_register: "atomic (resolve_or_register path chash new_id)"
  unfolding resolve_or_register_def
proof (intro atomic_guard atomic_except atomic_transaction)
  show "snd ((if e = IntegrityError
            then andthen (query (lookup_artifact_id_by_name path)) (\<lambda>found.
                 case found of None \<Rightarrow> throw RuntimeError | Some i \<Rightarrow> ret i)
            else throw e) s) = s" for e s
    by (simp add: andthen_def query_def asks_def ret_def throw_def split: option.split)
qed (intro keeps_option_case keeps_body keeps_insert_artifact)

lemma tables_ok_notices:
  assumes "tables_ok db" and "dict_wf t" and "\<And>ag art row. dict_get t (ag, art) = Some row \<Longrightarrow> artifact_exists art db"
  shows "tables_ok (db\<lparr>pending_notices_table := t\<rparr>)"
  by (rule tables_ok_frame [OF assms(1)])
     (use assms(2,3) tables_ok_keys [OF assms(1)] in \<open>simp_all add: agent_row_def\<close>)

lemma atomic_record_preemption_notice: "atomic (record_preemption_notice victim art preempter stamp)"
  unfolding record_preemption_notice_def
proof (intro atomic_mutator keeps_requiring conjI tables_ok_notices)
  fix db ag i row
  assume db: "tables_ok db" and art: "artifact_exists art db"
  let ?n = "\<lparr>row_preempter = preempter, row_preempted_at = stamp\<rparr>"
  let ?t = "case dict_get (pending_notices_table db) (victim, art) of
            None \<Rightarrow> dict_set (victim, art) ?n (pending_notices_table db)
          | Some row \<Rightarrow> (if stamp > row_preempted_at row then dict_set (victim, art) ?n (pending_notices_table db)
               else pending_notices_table db)"
  have t: "?t = pending_notices_table db \<or> ?t = dict_set (victim, art) ?n (pending_notices_table db)"
    by (simp split: option.split)
  then show "dict_wf ?t" using tables_ok_keys(6) [OF db] by (elim disjE) simp_all
  show "artifact_exists i db" if "dict_get ?t (ag, i) = Some row"
    using t that art tables_ok_keys(3) [OF db] by (elim disjE) (simp_all split: if_splits)
qed (simp_all add: same_meta_def artifact_exists_def)

lemma keeps_delete_notices:
  "keeps (book n i A) (statement (\<lambda>db. db\<lparr>pending_notices_table := delete_where P (pending_notices_table db)\<rparr>))"
  by (rule keeps_frame_statement)
     (auto simp: same_meta_def tables_ok_keys dict_get_delete_where split: option.splits if_splits dest: tables_ok_keys(3))

lemma atomic_pop_pending_notices: "atomic (pop_pending_notices agent)"
  unfolding pop_pending_notices_def by (intro atomic_mutator keeps_body keeps_delete_notices)

lemma atomic_pop_preemption_notice: "atomic (pop_preemption_notice agent art)"
  unfolding pop_preemption_notice_def
  by (intro atomic_mutator keeps_body keeps_frame_statement)
     (auto simp: same_meta_def tables_ok_keys split: if_splits dest: tables_ok_keys(3))

lemma atomic_evict_stale_notices: "atomic (evict_stale_notices max_age now_unix)"
  unfolding evict_stale_notices_def by (intro atomic_asks atomic_mutator keeps_body keeps_delete_notices)

section \<open>Every call, from a fresh file\<close>

datatype sqlite_call =
    Protocol registry_call
  | ResolveOrRegister string string uuid
  | RecordPreemptionNotice uuid uuid uuid rat
  | PopPendingNotices uuid
  | PopPreemptionNotice uuid uuid
  | EvictStaleNotices rat "rat option"

fun sqlite_step :: "sqlite_call \<Rightarrow> unit qop" where
  "sqlite_step (Protocol c) = replying (sql_call c) (\<lambda>_. ())"
| "sqlite_step (ResolveOrRegister path chash new_id) = replying (resolve_or_register path chash new_id) (\<lambda>_. ())"
| "sqlite_step (RecordPreemptionNotice victim art preempter stamp) = record_preemption_notice victim art preempter stamp"
| "sqlite_step (PopPendingNotices agent) = replying (pop_pending_notices agent) (\<lambda>_. ())"
| "sqlite_step (PopPreemptionNotice agent art) = replying (pop_preemption_notice agent art) (\<lambda>_. ())"
| "sqlite_step (EvictStaleNotices max_age now_unix) = replying (evict_stale_notices max_age now_unix) (\<lambda>_. ())"

lemmas atomic_methods = atomic_register atomic_set_artifact atomic_remove atomic_set_agent_state atomic_set_agent_transient
  atomic_clear_agent_transient atomic_record_heartbeat atomic_record_last_reclamation atomic_commit_cas atomic_commit_all
  atomic_capture_version_vector atomic_release_session atomic_resolve_or_register atomic_record_preemption_notice
  atomic_pop_pending_notices atomic_pop_preemption_notice atomic_evict_stale_notices

lemma atomic_sql_call: "atomic (sql_call c)"
  by (cases c) (auto intro!: atomic_replying atomic_methods)

lemma atomic_step: "atomic (sqlite_step c)"
  by (cases c) (auto intro!: atomic_replying atomic_methods atomic_sql_call)

lemma atomic_failed:
  "atomic m \<Longrightarrow> book_closed s \<Longrightarrow> m s = (Inl e, t) \<Longrightarrow> tables t = tables s \<and> sq_seq t = sq_seq s \<and> identity t = identity s"
  unfolding atomic_def by (auto simp: wp_def dest!: spec [of _ s])

lemma atomic_closed:
  assumes "atomic m" and "book_closed s"
  shows "book_closed (snd (m s)) \<and> identity (snd (m s)) = identity s"
proof (cases "m s")
  case (Pair r t)
  show ?thesis
  proof (cases r)
    case (Inl e)
    with Pair atomic_failed [OF assms, of e t] assms(2) show ?thesis by (simp add: book_closed_def)
  next
    case (Inr a)
    with Pair assms show ?thesis unfolding atomic_def by (auto simp: wp_def dest!: spec [of _ s])
  qed
qed

lemma run_closed:
  assumes "book_closed s"
  shows "book_closed (snd (run_calls sqlite_step calls s)) \<and> identity (snd (run_calls sqlite_step calls s)) = identity s"
  using assms
proof (induction calls arbitrary: s)
  case (Cons c cs)
  with atomic_closed [OF atomic_step, of s c] Cons.IH [of "snd (sqlite_step c s)"] show ?case by (simp add: split_def)
qed simp

lemma fresh_closed:
  "open_registry (apply_v2_schema inst minted epoch) sink names inst retain policy ro now order commits = Inr s \<Longrightarrow> book_closed s"
  by (auto simp: open_registry_def apply_v2_schema_def book_closed_def tables_ok_def agent_row_def split: if_splits)




section \<open>A failing sink\<close>

text \<open>
  The sink refuses entries that carry a hash. Agent 1's commit invalidates agent 2, whose entry is accepted, and then
  fails on its own entry.
\<close>

definition hashless_durable :: sqlite_registry where
  "hashless_durable = projr (open_registry (apply_v2_schema (Some ''c1'') ''m'' ''e1'') (Some (\<lambda>e. log_hash e = None)) None
     (Some ''c1'') True None False 0 rev (\<lambda>_. True))"

definition failing_calls :: "sqlite_call list" where
  "failing_calls =
     [Protocol (RegisterArtifact parity_art (Bytes [1])), ResolveOrRegister ''plan'' ''h'' 9,
      Protocol (SetAgentState 7 1 SHARED ''fetch'' 1 None), Protocol (SetAgentState 7 2 SHARED ''fetch'' 1 None),
      RecordPreemptionNotice 2 7 1 5, Protocol (RegisterArtifact parity_art (Bytes [1]))]"

definition failing_commit :: sqlite_call where
  "failing_commit = Protocol (RegistryCommitCas 7 1 1 ''h2'' None (Some (Bytes [2])) 3 ''commit_cas'')"

lemma hashless_open:
  "open_registry (apply_v2_schema (Some ''c1'') ''m'' ''e1'') (Some (\<lambda>e. log_hash e = None)) None (Some ''c1'') True None
     False 0 rev (\<lambda>_. True) = Inr hashless_durable"
  by (simp add: hashless_durable_def open_registry_def)

lemma failing_commit_raises:
  "fst (sqlite_step failing_commit (snd (run_calls sqlite_step failing_calls hashless_durable))) = Inl CallbackError"
  by code_simp

lemma failing_commit_emits:
  "length (sq_delivered (snd (sqlite_step failing_commit (snd (run_calls sqlite_step failing_calls hashless_durable))))) = 3"
  by code_simp




end
