(* ===== verification/Write_Retry.thy ===== *)
theory Write_Retry
  imports Runtime_Coherence
begin

text \<open>
  The retry loop of \<open>AgentRuntime.write_cas\<close> (\<^verbatim>\<open>src/src/ccs/agent/runtime.py\<close>) ends. The registry
  counts every refusal, so the rounds of one call can be read off the counters: a call that returns was
  refused fewer times than it may try, and one that gives up has used its whole budget.
\<close>

definition refused :: "uuid \<Rightarrow> uuid \<Rightarrow> (uuid \<times> uuid \<times> conflict_reason, int) dict \<Rightarrow> int" where
  "refused art ag counts =
     sum_list (map (\<lambda>why. get_default counts (art, ag, why) 0) [version_mismatch, other_holder, stale_read_generation])"

definition refusals :: "uuid \<Rightarrow> node \<Rightarrow> int" where
  "refusals art n = refused art (rt_agent_id (node_runtime n)) (conflict_outcome_totals (node_registry n))"

lemma refused_note: "refused art ag (conflict_counts (note_conflict art ag why g)) = refused art ag (conflict_counts g) + 1"
  by (cases why) (simp_all add: refused_def note_conflict_def get_default_def)

section \<open>Reads leave the counters alone\<close>

definition counts_are :: "(uuid \<times> uuid \<times> conflict_reason, int) dict \<Rightarrow> registry \<Rightarrow> bool" where
  "counts_are c g \<longleftrightarrow> conflict_counts g = c"

lemma counts_with_record: "(\<And>r. keeps (counts_are c) (f r)) \<Longrightarrow> keeps (counts_are c) (with_record art f)"
  by (rule keepsI) (auto simp: wp_simps dest: keepsD split: option.split)

lemma counts_put: "(\<And>g. conflict_counts (f g) = conflict_counts g) \<Longrightarrow> keeps (counts_are c) (modify f)"
  by (simp add: keeps_def modify_def counts_are_def)

lemma counts_emit: "keeps (counts_are c) (emit_state_log q)"
  by (auto simp: keeps_def emit_state_log_def counts_are_def Let_def split: option.splits)

lemma counts_emit_batch: "keeps (counts_are c) (emit_batch qs n)"
proof (induction qs arbitrary: n)
  case (Cons q qs)
  show ?case
    using Cons keepsD_snd [OF counts_emit, of c _ q]
    by (force simp: keeps_def counts_are_def split: prod.splits sum.splits)
qed (simp add: keeps_def)

lemma counts_lift_sum: "keeps (counts_are c) (lift_sum x)"
  by (rule keepsI) (simp add: wp_simps split: sum.split)

lemmas counts_prims = keeps_intros counts_with_record counts_put counts_emit counts_emit_batch counts_lift_sum

lemma counts_state: "keeps (counts_are c) (set_agent_state art ag st trig tick h)"
  unfolding set_agent_state_def by (intro counts_prims) simp

lemma counts_transient: "keeps (counts_are c) (set_agent_transient art ag ts t)" "keeps (counts_are c) (clear_agent_transient art ag)"
  unfolding set_agent_transient_def clear_agent_transient_def by (intro counts_prims; simp)+

lemma counts_fetch: "keeps (counts_are c) (fetch art ag tick)"
  unfolding fetch_def validate_single_writer_def downgrade_holder_def Let_def
  by (intro counts_prims counts_state counts_transient)

text \<open>One compare-and-swap: a refusal counts once, and nothing else counts.\<close>

lemma reg_commit_cas_counts:
  assumes "counts_are c g"
  shows "wp (reg_commit_cas art ag expected ch toks b tick trig)
     (\<lambda>res h. case res of CasConflict d \<Rightarrow> \<exists>why. conflict_counts h = conflict_counts (note_conflict art ag why g)
        | _ \<Rightarrow> counts_are c h) (\<lambda>_. counts_are c) g"
proof -
  have win: "wp (andthen (emit_batch qs 0) (\<lambda>_. andthen (modify (\<lambda>g. put_record art (f g) g)) (\<lambda>_. ret (CasWin upd ids))))
     (\<lambda>res h. case res of CasConflict d \<Rightarrow> \<exists>why. conflict_counts h = conflict_counts (note_conflict art ag why g)
        | _ \<Rightarrow> counts_are c h) (\<lambda>_. counts_are c) g" for qs f upd ids
    using keepsD [OF counts_emit_batch assms, of qs 0]
    by (simp add: wp_simps wp_modify [abs_def] wp_ret [abs_def] wp_andthen [abs_def] counts_are_def [abs_def])
  show ?thesis
    using assms win by (auto simp: reg_commit_cas_def wp_simps Let_def split: option.split verdict.split)
qed

lemma commit_cas_counts:
  assumes "counts_are c g"
  shows "wp (commit_cas ag art expected ch now toks b False)
     (\<lambda>res h. case res of Conflict d \<Rightarrow> \<exists>why. conflict_counts h = conflict_counts (note_conflict art ag why g)
        | Committed upd sigs \<Rightarrow> counts_are c h) (\<lambda>_. counts_are c) g"
proof -
  have step: "wp (case res of
         CasCorruption cur \<Rightarrow> throw (CommitCasCorruption ag art expected cur)
       | CasConflict d \<Rightarrow> ret (Conflict d)
       | CasWin upd invalidated_ids \<Rightarrow>
           andthen (lift_sum (check_monotonic_version (art_version a) (art_version upd))) (\<lambda>_.
           andthen (validate_single_writer art) (\<lambda>_.
           ret (Committed upd (map (\<lambda>_. signal art (art_version upd) now ag) invalidated_ids)))))
     (\<lambda>res h. case res of Conflict d \<Rightarrow> \<exists>why. conflict_counts h = conflict_counts (note_conflict art ag why g)
        | Committed upd sigs \<Rightarrow> counts_are c h) (\<lambda>_. counts_are c) h"
    if "case res of CasConflict d \<Rightarrow> \<exists>why. conflict_counts h = conflict_counts (note_conflict art ag why g) | _ \<Rightarrow> counts_are c h"
    for res h a
    using that by (cases res) (auto simp: wp_simps validate_single_writer_def split: sum.split)
  have "wp (reg_commit_cas art ag expected ch toks b now ''commit_cas'') (\<lambda>res. wp (case res of
         CasCorruption cur \<Rightarrow> throw (CommitCasCorruption ag art expected cur)
       | CasConflict d \<Rightarrow> ret (Conflict d)
       | CasWin upd invalidated_ids \<Rightarrow>
           andthen (lift_sum (check_monotonic_version (art_version a) (art_version upd))) (\<lambda>_.
           andthen (validate_single_writer art) (\<lambda>_.
           ret (Committed upd (map (\<lambda>_. signal art (art_version upd) now ag) invalidated_ids)))))
     (\<lambda>res h. case res of Conflict d \<Rightarrow> \<exists>why. conflict_counts h = conflict_counts (note_conflict art ag why g)
        | Committed upd sigs \<Rightarrow> counts_are c h) (\<lambda>_. counts_are c)) (\<lambda>_. counts_are c) g" for a
    by (rule wp_mono [OF reg_commit_cas_counts [OF assms]]) (auto intro: step)
  then show ?thesis
    using assms
    by (auto simp: commit_cas_def abort_guard_def commit_cas_impl_def wp_simps
        split: option.split MESIState.split) 
qed

section \<open>The runtime\<close>

text \<open>A node that was refused nothing since it had the counters \<open>c\<close>.\<close>

definition unrefused :: "(uuid \<times> uuid \<times> conflict_reason, int) dict \<Rightarrow> AgentRuntime \<Rightarrow> node \<Rightarrow> bool" where
  "unrefused c rt n \<longleftrightarrow> counts_are c (node_registry n) \<and>
     rt_agent_id (node_runtime n) = rt_agent_id rt \<and> rt_strategy (node_runtime n) = rt_strategy rt"

lemma unrefused_coordinator: "keeps (counts_are c) m \<Longrightarrow> keeps (unrefused c rt) (on_coordinator m)"
  by (auto simp: keeps_def on_coordinator_def on_field_def unrefused_def split: prod.splits)

lemma unrefused_emit: "keeps (unrefused c rt) (emit_audit e)"
  by (auto simp: keeps_def emit_audit_def unrefused_def set_audit_count_def Let_def split: option.splits)

lemma unrefused_prims:
  "keeps (unrefused c rt) (asks_runtime f)" "keeps (unrefused c rt) (set_cache h)" "keeps (unrefused c rt) (lift_sum x)"
  by (auto simp: keeps_def asks_runtime_def asks_def set_cache_def modify_def lift_sum_def unrefused_def split: sum.split)

lemma unrefused_view: "keeps (unrefused c rt) (record_content_view sha art v b source now)"
  unfolding record_content_view_def case_prod_unfold
  by (intro keeps_intros unrefused_prims unrefused_emit) (simp add: keeps_def modify_def unrefused_def)

lemma unrefused_fetch: "keeps (unrefused c rt) (AgentRuntime_fetch sha art now)"
  unfolding AgentRuntime_fetch_def
  by (intro keeps_intros unrefused_prims unrefused_view unrefused_coordinator counts_fetch)

lemma unrefused_entry: "keeps (unrefused c rt) (current_entry sha art now)"
  unfolding current_entry_def by (intro keeps_intros unrefused_prims unrefused_fetch)

lemma unrefused_refresh: "keeps (unrefused c rt) (refresh_if_needed sha art now)"
  unfolding refresh_if_needed_def by (intro keeps_intros unrefused_prims unrefused_fetch)

section \<open>Only the loop gives up\<close>

definition exhausted :: "py_error \<Rightarrow> bool" where
  "exhausted e = (case e of CasRetriesExhausted art budget v \<Rightarrow> True | _ \<Rightarrow> False)"

definition tame :: "('s, py_error, 'a) py \<Rightarrow> bool" where
  "tame m \<longleftrightarrow> (\<forall>s. wp m (\<lambda>_ _. True) (\<lambda>e _. \<not> exhausted e) s)"

lemma wp_tame: "wp m Q E s \<Longrightarrow> tame m \<Longrightarrow> wp m Q (\<lambda>e t. \<not> exhausted e \<and> E e t) s"
  unfolding tame_def wp_def by (auto split: prod.splits sum.splits)

lemma tame_prims:
  "tame (ret x)" "tame (asks f)" "tame (modify h)" "tame (asks_runtime f')" "tame (set_cache k)"
  "\<not> exhausted e \<Longrightarrow> tame (throw e)"
  "(case y of Inl e \<Rightarrow> \<not> exhausted e | Inr x \<Rightarrow> True) \<Longrightarrow> tame (lift_sum y)"
  by (auto simp: tame_def wp_simps split: sum.splits)

lemma tame_andthen: "tame m \<Longrightarrow> (\<And>a. tame (f a)) \<Longrightarrow> tame (andthen m f)"
  unfolding tame_def wp_andthen by (blast intro: wp_mono)

lemma tame_for_loop: "(\<And>a x. tame (f a x)) \<Longrightarrow> tame (for_loop xs f acc)"
  by (induction xs arbitrary: acc) (auto intro: tame_prims tame_andthen)

lemma tame_cases:
  "(b \<Longrightarrow> tame m) \<Longrightarrow> (\<not> b \<Longrightarrow> tame n) \<Longrightarrow> tame (if b then m else n)"
  "tame m \<Longrightarrow> (\<And>x. tame (f x)) \<Longrightarrow> tame (case y of None \<Rightarrow> m | Some x \<Rightarrow> f x)"
  by (auto split: option.split)

lemma tame_coordinator: "tame m \<Longrightarrow> tame (on_coordinator m)"
  by (simp add: tame_def wp_on_coordinator)

lemma tame_registry:
  "tame (require_artifact art)" "tame (emit_state_log q)" "tame (emit_audit e)"
  "(\<And>r. tame (f r)) \<Longrightarrow> tame (with_record art f)"
  by (auto simp: tame_def wp_def require_artifact_def emit_state_log_def emit_audit_def with_record_def Let_def exhausted_def
      split: option.split)

lemmas tame_intros = tame_prims tame_andthen tame_for_loop tame_cases tame_registry

lemma tame_validate: "tame (validate_single_writer art)"
  unfolding validate_single_writer_def by (intro tame_intros) (simp add: check_single_writer_def exhausted_def Let_def)

lemma tame_fetch: "tame (fetch art ag tick)"
  unfolding fetch_def downgrade_holder_def set_agent_state_def set_agent_transient_def clear_agent_transient_def Let_def
  by (intro tame_intros tame_validate) (simp_all add: exhausted_def)

lemma tame_emit_batch: "tame (emit_batch qs n)"
proof (induction qs arbitrary: n)
  case (Cons q qs)
  have tameD: "\<not> exhausted e" if "tame m" "m g = (Inl e, g')" for m :: "int rop" and g e g'
    using that unfolding tame_def wp_def by (auto dest!: spec [of _ g])
  show ?case
    by (auto simp: tame_def wp_def split: prod.splits sum.splits dest: tameD [OF tame_registry(2)] tameD [OF Cons])
qed (simp add: tame_def wp_def)

lemma tame_reg_commit_cas: "tame (reg_commit_cas art ag expected ch toks b tick trig)"
  unfolding reg_commit_cas_def Let_def
  by (intro tame_registry(4)) (auto split: verdict.split intro!: tame_intros tame_emit_batch)

lemma tame_commit_cas: "tame (commit_cas ag art expected ch now toks b False)"
proof -
  have res: "tame (case res of
         CasCorruption cur \<Rightarrow> throw (CommitCasCorruption ag art expected cur)
       | CasConflict d \<Rightarrow> ret (Conflict d)
       | CasWin upd invalidated_ids \<Rightarrow>
           andthen (lift_sum (check_monotonic_version (art_version a) (art_version upd))) (\<lambda>_.
           andthen (validate_single_writer art) (\<lambda>_.
           ret (Committed upd (map (\<lambda>_. signal art (art_version upd) now ag) invalidated_ids)))))" for res a
    by (cases res) (auto intro!: tame_intros tame_validate simp: check_monotonic_version_def exhausted_def)
  have state: "tame (case st of EXCLUSIVE \<Rightarrow> m1 | MODIFIED \<Rightarrow> m2 | _ \<Rightarrow> m)" if "tame m1" "tame m2" "tame m"
    for st and m1 m2 m :: "cas_outcome rop"
    using that by (cases st) simp_all
  show ?thesis
    unfolding commit_cas_def abort_guard_def commit_cas_impl_def if_False
    by (intro tame_intros state tame_reg_commit_cas res) (simp_all add: exhausted_def)
qed

lemma tame_view: "tame (record_content_view sha art v b source now)"
  unfolding record_content_view_def case_prod_unfold
  by (intro tame_intros) (simp_all add: compute_content_hash_def exhausted_def split: body.split)

lemma tame_runtime: "tame (AgentRuntime_fetch sha art now)" "tame (current_entry sha art now)" "tame (refresh_if_needed sha art now)"
  unfolding current_entry_def refresh_if_needed_def AgentRuntime_fetch_def
  by (intro tame_intros tame_coordinator tame_fetch tame_view; simp add: exhausted_def)+

section \<open>The loop\<close>

text \<open>How a call may end when \<open>bound\<close> is the count at which its budget is used up.\<close>

definition spent_less :: "uuid \<Rightarrow> uuid \<Rightarrow> int \<Rightarrow> node \<Rightarrow> bool" where
  "spent_less art ag bound n \<longleftrightarrow> rt_agent_id (node_runtime n) = ag \<and> refusals art n < bound"

definition failed_within :: "uuid \<Rightarrow> uuid \<Rightarrow> int \<Rightarrow> py_error \<Rightarrow> node \<Rightarrow> bool" where
  "failed_within art ag bound e n \<longleftrightarrow> rt_agent_id (node_runtime n) = ag \<and> refusals art n \<le> bound \<and>
     (exhausted e \<longrightarrow> refusals art n = bound)"

lemma unrefused_count: "unrefused c rt n \<Longrightarrow> rt_agent_id (node_runtime n) = rt_agent_id rt \<and> refusals art n = refused art (rt_agent_id rt) c"
  by (simp add: unrefused_def counts_are_def refusals_def conflict_outcome_totals_def)

lemma unrefused_failed:
  "unrefused c rt n \<Longrightarrow> \<not> exhausted e \<Longrightarrow> refused art (rt_agent_id rt) c \<le> bound \<Longrightarrow> failed_within art (rt_agent_id rt) bound e n"
  using unrefused_count [of c rt n art] by (simp add: failed_within_def)

lemma wp_unrefused:
  assumes "keeps (unrefused c rt) m" and "tame m" and "unrefused c rt n"
    and "\<And>a n'. unrefused c rt n' \<Longrightarrow> Q a n'" and "\<And>e n'. unrefused c rt n' \<Longrightarrow> \<not> exhausted e \<Longrightarrow> E e n'"
  shows "wp m Q E n"
proof -
  have "wp m (\<lambda>_ _. True) (\<lambda>e _. \<not> exhausted e) n" using assms(2) by (simp add: tame_def)
  from wp_keeping [OF this assms(1,3)] show ?thesis by (rule wp_mono) (auto intro: assms(4,5))
qed

lemma cas_attempts_bounded:
  assumes mk: "\<And>entry e. mk entry = Inl e \<Longrightarrow> \<not> exhausted e" and "unrefused c rt m"
  shows "wp (cas_attempts k sha art mk now budget seen) (\<lambda>_. spent_less art (rt_agent_id rt) (refused art (rt_agent_id rt) c + int k))
     (failed_within art (rt_agent_id rt) (refused art (rt_agent_id rt) c + int k)) m"
  using assms(2)
proof (induction k arbitrary: c m seen)
  case 0
  then show ?case using unrefused_count [of c rt m art] by (simp add: wp_simps failed_within_def)
next
  case (Suc k)
  let ?a = "rt_agent_id rt"
  let ?Q = "\<lambda>_. spent_less art ?a (refused art ?a c + int (Suc k))"
  let ?E = "failed_within art ?a (refused art ?a c + int (Suc k))"
  have failed: "?E e n" if "unrefused c rt n" "\<not> exhausted e" for e n
    by (rule unrefused_failed [OF that]) simp
  have spent: "?Q x n" if "unrefused c rt n" for x :: "Artifact \<times> InvalidationSignal list" and n
    using unrefused_count [OF that, of art] by (simp add: spent_less_def)
  have retry: "wp (andthen (AgentRuntime_fetch sha art now) (\<lambda>_. cas_attempts k sha art mk now budget v)) ?Q ?E (m\<lparr>node_registry := h\<rparr>)"
    if m: "unrefused c rt m" and h: "conflict_counts h = conflict_counts (note_conflict art ?a why (node_registry m))" for m h why v
  proof -
    have start: "unrefused (conflict_counts h) rt (m\<lparr>node_registry := h\<rparr>)" using m by (simp add: unrefused_def counts_are_def)
    have "refused art ?a (conflict_counts h) = refused art ?a c + 1"
      using m unfolding h refused_note by (simp add: unrefused_def counts_are_def)
    then have bound: "refused art ?a (conflict_counts h) + int k = refused art ?a c + int (Suc k)" by simp
    show ?thesis
      unfolding wp_andthen
    proof (rule wp_unrefused [OF unrefused_fetch tame_runtime(1) start])
      show "wp (cas_attempts k sha art mk now budget v) ?Q ?E n" if "unrefused (conflict_counts h) rt n" for n
        using Suc.IH [OF that, of v] unfolding bound .
      show "?E e n" if "unrefused (conflict_counts h) rt n" "\<not> exhausted e" for e n
        by (rule unrefused_failed [OF that]) (use bound in simp)
    qed
  qed
  show ?case
    unfolding cas_attempts.simps wp_andthen
  proof (rule wp_unrefused [OF unrefused_entry tame_runtime(2) Suc.prems], goal_cases)
    case (1 e m)
    show ?case
    proof (cases "mk e")
      case (Inr p)
      obtain content provided where p: "p = (content, provided)" by (cases p)
      show ?thesis
      proof (cases "resolve_content_hash sha content provided")
        case hash: (Inr ch)
        have agent: "rt_agent_id (node_runtime m) = ?a" and counts: "counts_are c (node_registry m)"
          using 1 by (simp_all add: unrefused_def)
        have cas: "wp (commit_cas ?a art (local_version e) ch now None (Some (Text content)) False)
            (\<lambda>res h. case res of Conflict d \<Rightarrow> \<exists>why. conflict_counts h = conflict_counts (note_conflict art ?a why (node_registry m))
               | Committed upd sigs \<Rightarrow> counts_are c h) (\<lambda>e h. \<not> exhausted e \<and> counts_are c h) (node_registry m)"
          by (rule wp_tame [OF commit_cas_counts [OF counts] tame_commit_cas])
        show ?thesis
          unfolding Inr p wp_lift_sum sum.case prod.case wp_andthen hash wp_asks_runtime id_apply wp_on_coordinator agent
        proof (rule wp_mono [OF cas], goal_cases)
          case (1 res h)
          show ?case
          proof (cases res)
            case (Committed upd sigs)
            then have "unrefused c rt (m\<lparr>node_registry := h\<rparr>)"
              using 1 \<open>unrefused c rt m\<close> by (simp add: unrefused_def)
            then show ?thesis
              unfolding Committed cas_outcome.case
              by (rule wp_unrefused [rotated 2])
                 (rule spent failed | assumption | intro keeps_intros unrefused_prims unrefused_view | intro tame_intros tame_view)+
          next
            case (Conflict d)
            with 1 obtain why where "conflict_counts h = conflict_counts (note_conflict art ?a why (node_registry m))" by auto
            from retry [OF \<open>unrefused c rt m\<close> this] show ?thesis unfolding Conflict cas_outcome.case .
          qed
        next
          case (2 e h)
          with \<open>unrefused c rt m\<close> show ?case by (intro failed) (simp_all add: unrefused_def)
        qed
      qed (use 1 failed in \<open>auto simp: wp_simps Inr p resolve_content_hash_def exhausted_def Let_def split: if_splits\<close>)
    qed (use 1 failed mk in \<open>simp add: wp_simps\<close>)
  qed (use failed in blast)
qed


text \<open>
  Agent 1 has cached version 1, agent 2 commits version 2 and agent 1 is not told: its write is refused once, re-reads and
  stores version 3.
\<close>

definition stale_node :: node where
  "stale_node =
     (let art = \<lparr>art_id = 7, art_name = ''plan'', art_version = 1, art_hash = Some ''h'', art_tokens = None, art_depends_on = []\<rparr>;
          g = projr (new_ArtifactRegistry None None None False None ''m'' ''e'' 0);
          n = \<lparr>node_registry = snd (reg_register_artifact art (Text ''v1'') g),
               node_runtime = new_AgentRuntime 1 LazyStrategy None True None None, audit_seq = 0, audit_taken = []\<rparr>
      in snd (andthen (on_coordinator (fetch 7 2 1)) (\<lambda>_.
              andthen (AgentRuntime_fetch id 7 2) (\<lambda>_.
              on_coordinator (commit_cas 2 7 1 ''h2'' 3 None (Some (Text ''v2'')) False))) n))"

lemma stale_node_run:
  "case AgentRuntime_write_cas id 7 (\<lambda>_. Inr (''v3'', None)) 4 stale_node of
     (Inr (upd, sigs), n') \<Rightarrow> art_version upd = 3 \<and> refusals 7 n' = 1 | _ \<Rightarrow> False"
  by code_simp


end
