(* ===== verification/Spec2Isabelle.thy ===== *)
theory Spec2Isabelle
  imports Cluster_Coherence Replay_Clean Sqlite_Safety Write_Retry
begin

text \<open>
  A verification of the coherence protocol for agents, the Python package \<^verbatim>\<open>src/ccs\<close>. Paths below are
  relative to \<^verbatim>\<open>src/src/ccs\<close>.

  \<^bold>\<open>The program.\<close> Agents share versioned artifacts. A coordinator (\<^verbatim>\<open>coordinator/service.py\<close>) keeps, in a
  registry (\<^verbatim>\<open>coordinator/registry.py\<close>), every artifact's record: its metadata and body, the state in
  which each agent holds it (MODIFIED, EXCLUSIVE, SHARED or INVALID), transients, grant ticks, an
  ownership generation with the generation each agent captured at its last claim, and retained old
  versions. Agents reach it through runtimes with caches (\<^verbatim>\<open>agent/\<close>), which follow a synchronisation
  strategy (\<^verbatim>\<open>strategies/\<close>); an adapter core (\<^verbatim>\<open>adapters/base.py\<close>) wires the runtimes, the coordinator
  and an event bus (\<^verbatim>\<open>bus/\<close>). On top of the registry the coordinator offers snapshot sessions, an effect
  gate and workspace checkpoints. A second registry (\<^verbatim>\<open>coordinator/sqlite_registry.py\<close>) keeps the same data in the
  tables of an SQLite file. A state log of every transition may be recorded and checked offline
  (\<^verbatim>\<open>replay/\<close>).

  \<^bold>\<open>Style.\<close> A Python method is a function from the state to the state with a result or an exception, the type
  \<open>py\<close> of \<open>Prelude\<close>; a raise keeps the state changed so far, as in the source, unless the source rolls
  back. \<open>Prelude\<close> has the combinators (sequencing, \<open>try\<close>/\<open>except\<close>, \<open>finally\<close>, loops) and a weakest
  precondition \<open>wp\<close> whose two postconditions speak of the normal and of the exceptional exit. Dictionaries are
  association lists, so that iteration order is the source's. Python integers are \<open>int\<close>; identifiers
  are natural numbers; the random identifiers the source mints are arguments; SHA-256 and the name-based
  identifiers are parameters. An effect, an observer or a log callback that may raise is a parameter too: a
  predicate on entries says which calls of it succeed.

  \<^bold>\<open>The model\<close>, theory by theory.
  \<^item> \<open>Core_Types\<close>: \<^verbatim>\<open>core/\<close>, the states and their checks, the carriers, the exceptions. \<open>Retention\<close>:
    \<^verbatim>\<open>coordinator/retention.py\<close>.
  \<^item> \<open>Registry\<close>, \<open>Registry_CAS\<close>: the in-memory registry. \<open>set_agent_state\<close> is the one place where grants
    change hands; \<open>commit_cas\<close> and \<open>commit_all\<close> are the optimistic commits.
  \<^item> \<open>Coordinator\<close>: \<open>register_artifact\<close>, \<open>fetch\<close>, \<open>write\<close>, \<open>upgrade\<close>, \<open>commit\<close>, \<open>invalidate\<close>,
    \<open>delete\<close> and the two crash-recovery sweeps of \<^verbatim>\<open>service.py\<close>. \<open>Sessions\<close>, \<open>Effect_Gate\<close> and
    \<open>Checkpoints\<close>: its three services over the registry's pin store and manifest store.
  \<^item> \<open>System\<close>: the coordinator as a transition system. A \<open>request\<close> is one public call, \<open>serve\<close> answers it and
    \<open>reachable\<close> closes the initial states under any sequence of requests, in any order and by any agent.
    The coordinator serialises calls on one lock, so an interleaving of threads is such a sequence; only the
    effect gate releases the lock in the middle, and there the other threads' requests are an argument.
  \<^item> \<open>Sqlite_Registry\<close>, \<open>Sqlite_CAS\<close>: the SQLite registry, method by method, as statements on tables inside a
    transaction. The engine is an argument where its behaviour is open: the order of result rows and
    whether a \<open>COMMIT\<close> succeeds. The coordinator's theories use the in-memory registry.
  \<^item> \<open>Strategies\<close>, \<open>Agent_Runtime\<close>, \<open>Event_Bus\<close>, \<open>Adapter_Core\<close>: the cluster around the coordinator.
  \<^item> \<open>Replay_Loader\<close>, \<open>Replay_Predicates\<close>: \<^verbatim>\<open>replay/loader.py\<close> and \<^verbatim>\<open>replay/predicates.py\<close>.

  \<^bold>\<open>The theorems.\<close>
  \<^item> Preservation. \<open>Registry_Inv\<close> and \<open>Coherence\<close>, \<open>Coherence_CAS\<close>, \<open>Coherence_Ops\<close> prove that every
    operation, returning or raising, keeps the coherence invariant of the registry. The locales of \<open>Frames\<close>,
    \<open>System\<close> and \<open>Persistence\<close> state what a predicate needs to survive a primitive, an operation or a run, and
    each invariant is an interpretation of one of them; \<open>System_Inv\<close> gets from that what holds in every
    reachable state.
  \<^item> \<open>Safety\<close>: single writer, freshness of valid copies, growth of versions and generations, and the fence that
    keeps an agent whose grant was taken back from committing. \<open>Recovery\<close>: the sweeps take back exactly what
    is overdue. \<open>Protocol\<close>: what the pessimistic operations return and leave. \<open>Optimistic\<close>, \<open>Commits\<close>: the
    compare-and-swap contract as a locale, interpreted on \<open>commit_cas\<close>, and the atomic batch.
  \<^item> \<open>Session_Life\<close>, \<open>Session_Safety\<close>, \<open>Gate_Safety\<close>, \<open>Checkpoint_Safety\<close>: stable cuts, caps and owner
    binding of sessions; when an effect runs; the life of manifests.
  \<^item> \<open>Sqlite_Views\<close>, \<open>Sqlite_Effects\<close>, \<open>Sqlite_Contract\<close>, \<open>Sqlite_Commits\<close>: an abstract registry, what each call
    does to it, and that both registries do so. \<open>Sqlite_Parity\<close> states this as the locale
    \<open>registry_contract\<close>, interpreted on both, and concludes that they answer every admissible sequence of calls
    alike. \<open>Sqlite_Safety\<close>: without any assumption on the sink, the engine or the caller, every method is
    atomic, keeps the constraints of the schema and survives a restart.
  \<^item> \<open>Runtime_Coherence\<close>, \<open>Deliveries\<close>, \<open>Cluster_Coherence\<close>: caches against the coordinator. Without crash
    recovery every read is current, and a write is seen by the next read; with crash recovery a
    concrete run shows a stale read. \<open>Write_Retry\<close>: the retry loop of an optimistic write stays within its budget.
  \<^item> \<open>Log_Trace\<close>, \<open>Replay_Merge\<close>, \<open>Replay_Clean\<close>: the log of any run without deletions passes the offline
    checks, and the merge of the loader loses and reorders nothing.
  \<^item> \<open>Scenarios\<close> and the ends of the other theories hold the concrete runs at which the properties are
    evaluated.

  \<^bold>\<open>Bounds.\<close> No fuel is used. Loops of the source run over finite lists and are folds or structural recursions; the
  merge of the loader is a recursion on the number of unread lines; the retry loop of an optimistic write is a recursion
  on the number of attempts that are left.

  \<^bold>\<open>Not modelled.\<close> Of the SQLite registry, the checkpoint tables, the schema migrations, the read-only open, the file
  modes and the diagnostic snapshots; several processes on one file are the transactions of one sequence. The adapters over files, object stores and SQL rows, the workspace
  substrates, the HTTP and MCP servers with their clients and command lines, the bindings to agent frameworks, the
  diagnosis heuristics, the benchmark simulation, the trace recorder and the report formatters: they are input and output against
  engines that are not part of the repository. Log output, wall-clock reads other than as
  arguments, and locks within one call are not modelled.
\<close>

end
